(* ===== verification/SE_Prelude.thy ===== *)
theory SE_Prelude
  imports Main "HOL-Library.Word" "HOL-Library.Char_ord" "HOL-Library.List_Lexorder"
    "HOL-Library.AList"
begin

section \<open>Shared vocabulary\<close>

text \<open>
  What every component uses: the machine integers of the source, the reading of a Rust
  \<open>Result\<close> as a sum (\<open>Inl\<close> the error, \<open>Inr\<close> the value), the standard library's
  \<open>Iterator::reduce\<close>, \<open>find\<close>, \<open>Vec::dedup\<close>, checked and saturating arithmetic, and the
  generic lemmas on lists and options the component proofs share.
\<close>

named_theorems guard_defs "the definitions of guards, unfolded together"
named_theorems err_simps "how a checked step splits into its error and its success"

type_synonym u8 = "8 word"
type_synonym u16 = "16 word"
type_synonym u32 = "32 word"
type_synonym u64 = "64 word"

abbreviation is_err :: "'e + 'a \<Rightarrow> bool" where
  "is_err r \<equiv> isl r"

abbreviation is_ok :: "'e + 'a \<Rightarrow> bool" where
  "is_ok r \<equiv> \<not> isl r"

text \<open>
  \<open>ensure b e k\<close> is the source's \<open>if !b { return Err(e) }\<close> followed by \<open>k\<close>; \<open>and_then\<close> is the
  \<open>?\<close> operator.
\<close>

definition ensure :: "bool \<Rightarrow> 'e \<Rightarrow> 'e + 'a \<Rightarrow> 'e + 'a" where
  "ensure b e k = (if b then k else Inl e)"

definition and_then :: "'e + 'a \<Rightarrow> ('a \<Rightarrow> 'e + 'b) \<Rightarrow> 'e + 'b" where
  "and_then r k = (case r of Inl e \<Rightarrow> Inl e | Inr a \<Rightarrow> k a)"

lemma ensure_Inr [err_simps]: "ensure b e k = Inr x \<longleftrightarrow> b \<and> k = Inr x"
  by (simp add: ensure_def)

lemma ensure_Inl [err_simps]: "ensure b e k = Inl x \<longleftrightarrow> (\<not> b \<and> x = e) \<or> (b \<and> k = Inl x)"
  by (auto simp: ensure_def)

lemma and_then_Inr [err_simps]: "and_then r k = Inr x \<longleftrightarrow> (\<exists>a. r = Inr a \<and> k a = Inr x)"
  by (auto simp: and_then_def split: sum.splits)

lemma and_then_Inl [err_simps]:
  "and_then r k = Inl x \<longleftrightarrow> r = Inl x \<or> (\<exists>a. r = Inr a \<and> k a = Inl x)"
  by (auto simp: and_then_def split: sum.splits)

lemma ensure_simps [simp]: "ensure True e k = k" "ensure False e k = Inl e"
  by (simp_all add: ensure_def)

lemma and_then_simps [simp]: "and_then (Inl e) k = Inl e" "and_then (Inr a) k = k a"
  by (simp_all add: and_then_def)

subsection \<open>Iterators\<close>

text \<open>\<open>iter.reduce(f)\<close>: none for an empty iterator, else a left fold from the first element.\<close>

fun iter_reduce :: "('a \<Rightarrow> 'a \<Rightarrow> 'a) \<Rightarrow> 'a list \<Rightarrow> 'a option" where
  "iter_reduce f [] = None"
| "iter_reduce f (x # xs) = Some (foldl f x xs)"

lemma find_SomeD: "find P xs = Some x \<Longrightarrow> x \<in> set xs \<and> P x"
  by (induction xs) (auto split: if_splits)

lemma find_exists: "x \<in> set xs \<Longrightarrow> P x \<Longrightarrow> \<exists>y. find P xs = Some y"
  by (induction xs) auto

text \<open>\<open>iter.enumerate()\<close>.\<close>

definition enumerate_idx :: "'a list \<Rightarrow> (nat \<times> 'a) list" where
  "enumerate_idx xs = zip [0..<length xs] xs"

lemma in_set_enumerate_idx:
  "(i, a) \<in> set (enumerate_idx xs) \<longleftrightarrow> i < length xs \<and> xs ! i = a"
  by (force simp: enumerate_idx_def set_zip)

text \<open>\<open>Vec::dedup\<close> drops repeats that are next to each other; after a sort, all repeats.\<close>

lemma sorted_remdups_adj_distinct:
  "sorted xs \<Longrightarrow> distinct (remdups_adj xs)"
proof (induction xs rule: remdups_adj.induct)
  case (3 x y xs)
  show ?case
  proof (cases "x = y")
    case True
    with 3 show ?thesis by simp
  next
    case False
    with 3 have "\<forall>z \<in> set (y # xs). x < z" by force
    with False 3 show ?thesis by (simp del: remdups_adj_set add: remdups_adj_set) auto
  qed
qed auto

text \<open>Collecting each value once, in the order of first appearance.\<close>

fun push_unique :: "'a list \<Rightarrow> 'a \<Rightarrow> 'a list" where
  "push_unique xs x = (if x \<in> set xs then xs else xs @ [x])"

lemma foldl_push_unique_set: "set (foldl push_unique acc xs) = set acc \<union> set xs"
  by (induction xs arbitrary: acc) auto

lemma foldl_push_unique_distinct: "distinct acc \<Longrightarrow> distinct (foldl push_unique acc xs)"
  by (induction xs arbitrary: acc) auto

lemma sum_list_update_less:
  "i < length xs \<Longrightarrow> f y < f (xs ! i) \<Longrightarrow> sum_list (map f (xs[i := y])) < sum_list (map f xs)" for f :: "'a \<Rightarrow> nat"
  by (induction xs arbitrary: i) (auto split: nat.splits simp: nth_Cons')

subsection \<open>Machine arithmetic\<close>

text \<open>\<open>saturating_add\<close> and \<open>saturating_mul\<close> on unsigned integers.\<close>

definition sat_add :: "'a::len word \<Rightarrow> 'a word \<Rightarrow> 'a word" where
  "sat_add a b = (if unat a + unat b < 2 ^ LENGTH('a) then a + b else - 1)"

definition sat_mul :: "'a::len word \<Rightarrow> 'a word \<Rightarrow> 'a word" where
  "sat_mul a b = (if unat a * unat b < 2 ^ LENGTH('a) then a * b else - 1)"

lemma unat_max_value: "unat (- 1 :: 'a::len word) = 2 ^ LENGTH('a) - 1"
  by (simp add: unsigned_minus_1_eq_mask mask_eq_exp_minus_1)

lemma unat_sat_add: "unat (sat_add a b) = min (unat a + unat b) (2 ^ LENGTH('a) - 1)"
  for a b :: "'a::len word"
  by (auto simp: sat_add_def unat_word_ariths min_def unat_max_value)

lemma unat_sat_mul: "unat (sat_mul a b) = min (unat a * unat b) (2 ^ LENGTH('a) - 1)"
  for a b :: "'a::len word"
proof (cases "unat a * unat b < 2 ^ LENGTH('a)")
  case True
  then show ?thesis by (simp add: sat_mul_def unat_word_ariths)
next
  case False
  then have "2 ^ LENGTH('a) - 1 \<le> unat a * unat b" by linarith
  with False show ?thesis by (simp add: sat_mul_def unat_max_value)
qed

text \<open>The two without a bound of \<open>2 ^ 64\<close> as a natural number, for evaluation.\<close>

lemma sat_add_code [code]: "sat_add a b = (if a \<le> a + b then a + b else - 1)"
  by (simp add: sat_add_def no_olen_add_nat)

lemma sat_mul_code [code]: "sat_mul a b = (if uint a * uint b < 2 ^ LENGTH('a) then a * b else - 1)"
  for a b :: "'a::len word"
proof -
  have "uint a * uint b = int (unat a * unat b)" by simp
  moreover have "(2::int) ^ LENGTH('a) = int (2 ^ LENGTH('a))" by simp
  ultimately have "uint a * uint b < 2 ^ LENGTH('a) \<longleftrightarrow> unat a * unat b < 2 ^ LENGTH('a)"
    by (simp only: of_nat_less_iff)
  then show ?thesis by (simp only: sat_mul_def)
qed

lemma unat_of_nat_small: "n < 2 ^ LENGTH('a) \<Longrightarrow> unat (of_nat n :: 'a::len word) = n"
  by (simp add: unat_of_nat take_bit_nat_eq_self)

end
