(* ===== verification/SE_Hashmap.thy ===== *)
theory SE_Hashmap
  imports SE_Prelude
begin

section \<open>The standard library's hash maps\<close>

text \<open>
  \<open>HashMap\<close> as the source uses it: lookup, insert, remove, length, retain and iteration. It is an
  association list whose keys are distinct (\<open>hm_ok\<close>), so every operation computes; the order of
  the list is never observed. The laws a client needs are the locale \<open>keyed_store\<close>, interpreted
  below on these operations; the session store, the connection table, the consent locks and the
  deny cache reach them through the interpretation.
\<close>

type_synonym ('k, 'v) hmap = "('k \<times> 'v) list"

definition hm_empty :: "('k, 'v) hmap" where
  "hm_empty = []"

definition hm_get :: "('k, 'v) hmap \<Rightarrow> 'k \<Rightarrow> 'v option" where
  "hm_get m k = map_of m k"

definition hm_contains :: "('k, 'v) hmap \<Rightarrow> 'k \<Rightarrow> bool" where
  "hm_contains m k = (hm_get m k \<noteq> None)"

definition hm_insert :: "'k \<Rightarrow> 'v \<Rightarrow> ('k, 'v) hmap \<Rightarrow> ('k, 'v) hmap" where
  "hm_insert k v m = AList.update k v m"

definition hm_remove :: "'k \<Rightarrow> ('k, 'v) hmap \<Rightarrow> ('k, 'v) hmap" where
  "hm_remove k m = AList.delete k m"

definition hm_len :: "('k, 'v) hmap \<Rightarrow> nat" where
  "hm_len m = length m"

definition hm_retain :: "('k \<Rightarrow> 'v \<Rightarrow> bool) \<Rightarrow> ('k, 'v) hmap \<Rightarrow> ('k, 'v) hmap" where
  "hm_retain P m = filter (\<lambda>(k, v). P k v) m"

definition hm_values :: "('k, 'v) hmap \<Rightarrow> 'v list" where
  "hm_values m = map snd m"

definition hm_ok :: "('k, 'v) hmap \<Rightarrow> bool" where
  "hm_ok m = distinct (map fst m)"

subsection \<open>The interface\<close>

locale keyed_store =
  fixes none_in :: "'m"
    and get :: "'m \<Rightarrow> 'k \<Rightarrow> 'v option"
    and ins :: "'k \<Rightarrow> 'v \<Rightarrow> 'm \<Rightarrow> 'm"
    and del :: "'k \<Rightarrow> 'm \<Rightarrow> 'm"
    and keep :: "('k \<Rightarrow> 'v \<Rightarrow> bool) \<Rightarrow> 'm \<Rightarrow> 'm"
    and size_of :: "'m \<Rightarrow> nat"
    and ok :: "'m \<Rightarrow> bool"
  assumes get_empty: "get none_in k = None"
    and ok_empty: "ok none_in"
    and size_empty: "size_of none_in = 0"
    and get_ins: "get (ins k v m) k' = (if k' = k then Some v else get m k')"
    and ok_ins: "ok m \<Longrightarrow> ok (ins k v m)"
    and size_ins: "ok m \<Longrightarrow> size_of (ins k v m) = (if get m k = None then Suc (size_of m) else size_of m)"
    and get_del: "ok m \<Longrightarrow> get (del k m) k' = (if k' = k then None else get m k')"
    and ok_del: "ok m \<Longrightarrow> ok (del k m)"
    and get_keep: "ok m \<Longrightarrow> get (keep P m) k =
      (case get m k of None \<Rightarrow> None | Some v \<Rightarrow> if P k v then Some v else None)"
    and ok_keep: "ok m \<Longrightarrow> ok (keep P m)"
    and size_keep: "size_of (keep P m) \<le> size_of m"
begin

lemma get_ins_same [simp]: "get (ins k v m) k = Some v"
  by (simp add: get_ins)

lemma get_ins_other: "k' \<noteq> k \<Longrightarrow> get (ins k v m) k' = get m k'"
  by (simp add: get_ins)

lemma get_del_same: "ok m \<Longrightarrow> get (del k m) k = None"
  by (simp add: get_del)

lemma get_del_other: "ok m \<Longrightarrow> k' \<noteq> k \<Longrightarrow> get (del k m) k' = get m k'"
  by (simp add: get_del)

lemma get_del_Some: "ok m \<Longrightarrow> get (del k m) k' = Some v \<Longrightarrow> k' \<noteq> k \<and> get m k' = Some v"
  by (simp add: get_del split: if_splits)

lemma get_keep_Some: "ok m \<Longrightarrow> get (keep P m) k = Some v \<longleftrightarrow> get m k = Some v \<and> P k v"
  by (auto simp: get_keep split: option.splits if_splits)

lemma size_ins_known: "ok m \<Longrightarrow> get m k \<noteq> None \<Longrightarrow> size_of (ins k v m) = size_of m"
  by (simp add: size_ins)

lemma size_ins_bounded: "ok m \<Longrightarrow> size_of m < cap \<Longrightarrow> size_of (ins k v m) \<le> cap"
  by (simp add: size_ins)

lemma keep_bounded: "size_of m \<le> cap \<Longrightarrow> size_of (keep P m) \<le> cap"
  using size_keep [of P m] by simp

lemmas store_laws = get_empty ok_empty size_empty get_ins ok_ins get_del ok_del ok_keep

end

subsection \<open>The hash map keeps the laws\<close>

lemma length_update: "length (AList.update k v m) = (if map_of m k = None then Suc (length m) else length m)"
  by (induction m) auto

lemma map_of_filter_distinct:
  "distinct (map fst m) \<Longrightarrow> map_of (filter (\<lambda>(k, v). P k v) m) k =
     (case map_of m k of None \<Rightarrow> None | Some v \<Rightarrow> if P k v then Some v else None)"
proof (induction m)
  case (Cons x m)
  obtain a b where x: "x = (a, b)" by (cases x)
  with Cons have "map_of m a = None" by (simp add: map_of_eq_None_iff)
  with Cons x show ?case by (auto split: option.splits)
qed simp

lemma distinct_filter_fst:
  "distinct (map fst m) \<Longrightarrow> distinct (map fst (filter P m))"
  by (induction m) auto

interpretation hm: keyed_store hm_empty hm_get hm_insert hm_remove hm_retain hm_len hm_ok
  by unfold_locales
    (auto simp: hm_empty_def hm_get_def hm_insert_def hm_remove_def hm_retain_def hm_len_def
       hm_ok_def update_conv' delete_conv' length_update map_of_filter_distinct
       distinct_filter_fst intro: distinct_update distinct_delete)

lemma hm_contains_iff: "hm_contains m k \<longleftrightarrow> (\<exists>v. hm_get m k = Some v)"
  by (auto simp: hm_contains_def)

lemma hm_get_set: "hm_get m k = Some v \<Longrightarrow> (k, v) \<in> set m"
  by (simp add: hm_get_def map_of_SomeD)

lemma hm_get_iff: "hm_ok m \<Longrightarrow> hm_get m k = Some v \<longleftrightarrow> (k, v) \<in> set m"
  by (simp add: hm_ok_def hm_get_def)

lemma hm_remove_len: "hm_len (hm_remove k m) \<le> hm_len m"
  by (simp add: hm_len_def hm_remove_def length_delete_le)

end
