(* ===== verification/SE_Files.thy ===== *)
theory SE_Files
  imports SE_Hashmap "HOL-Library.Sublist"
begin

section \<open>A file system that can fail\<close>

text \<open>
  What \<open>std::fs\<close> and \<open>tokio::fs\<close> do for the install pipeline. A file system is a map from absolute
  paths (the list of components from the root) to what is there; a directory's children are the
  paths one component longer. A link is what it resolves to when that is a file. Every call that
  changes something consumes one entry of \<open>dk_faults\<close>: \<open>Works\<close>, or \<open>Breaks n\<close>, after which the call
  reports an error and has done the part of its work that \<open>n\<close> stands for (nothing for a rename, which
  is atomic). \<open>dk_trace\<close> is every state the file system has been in, the newest first: a crash leaves
  one of them.
\<close>

type_synonym path = "string list"

datatype inode =
    IDir
  | IFile string
  | ILink "string option"

type_synonym files = "(path, inode) hmap"

datatype fault = Works | Breaks nat

datatype io_kind = IoNotFound | IoInvalidData | IoOther

record disk =
  dk_files :: files
  dk_faults :: "fault list"
  dk_trace :: "files list"

type_synonym ('s, 'e, 'a) action = "'s \<Rightarrow> 's \<times> ('e + 'a)"

subsection \<open>Sequencing\<close>

text \<open>The \<open>?\<close> operator between two calls, and \<open>map_err\<close>.\<close>

definition io_pure :: "'a \<Rightarrow> ('s, 'e, 'a) action" where
  "io_pure a d = (d, Inr a)"

definition io_fail :: "'e \<Rightarrow> ('s, 'e, 'a) action" where
  "io_fail e d = (d, Inl e)"

definition io_then :: "('s, 'e, 'a) action \<Rightarrow> ('a \<Rightarrow> ('s, 'e, 'b) action) \<Rightarrow> ('s, 'e, 'b) action" where
  "io_then m k d = (case m d of (d1, Inl e) \<Rightarrow> (d1, Inl e) | (d1, Inr a) \<Rightarrow> k a d1)"

definition io_map_err :: "('e \<Rightarrow> 'g) \<Rightarrow> ('s, 'e, 'a) action \<Rightarrow> ('s, 'g, 'a) action" where
  "io_map_err f m d = (case m d of (d1, Inl e) \<Rightarrow> (d1, Inl (f e)) | (d1, Inr a) \<Rightarrow> (d1, Inr a))"

text \<open>
  \<open>let _ = call;\<close> drops the outcome, \<open>match call\<close> hands it on as a value, \<open>io_look\<close> reads the files.
\<close>

definition io_ignore :: "('s, 'e, 'a) action \<Rightarrow> ('s, 'g, unit) action" where
  "io_ignore m d = (case m d of (d1, _) \<Rightarrow> (d1, Inr ()))"

definition io_try :: "('s, 'e, 'a) action \<Rightarrow> ('s, 'g, 'e + 'a) action" where
  "io_try m d = (case m d of (d1, r) \<Rightarrow> (d1, Inr r))"

definition io_look :: "(files \<Rightarrow> 'a) \<Rightarrow> ('z disk_scheme, 'e, 'a) action" where
  "io_look f d = (d, Inr (f (dk_files d)))"

definition io_when :: "bool \<Rightarrow> ('s, 'e, unit) action \<Rightarrow> ('s, 'e, unit) action" where
  "io_when b m = (if b then m else io_pure ())"

definition io_of :: "'e + 'a \<Rightarrow> ('s, 'e, 'a) action" where
  "io_of r d = (d, r)"

fun io_each :: "('a \<Rightarrow> ('s, 'e, unit) action) \<Rightarrow> 'a list \<Rightarrow> ('s, 'e, unit) action" where
  "io_each f [] = io_pure ()"
| "io_each f (x # xs) = io_then (f x) (\<lambda>_. io_each f xs)"

text \<open>How a computation unfolds, step by step.\<close>

lemma io_then_Inr: "m d = (d1, Inr a) \<Longrightarrow> io_then m k d = k a d1"
  by (simp add: io_then_def)

lemma io_then_Inl: "m d = (d1, Inl e) \<Longrightarrow> io_then m k d = (d1, Inl e)"
  by (simp add: io_then_def)

lemma io_look_then: "io_then (io_look f) k d = k (f (dk_files d)) d"
  by (simp add: io_then_def io_look_def)

lemma io_pure_then: "io_then (io_pure a) k d = k a d"
  by (simp add: io_then_def io_pure_def)

lemma io_fail_then: "io_then (io_fail e) k d = (d, Inl e)"
  by (simp add: io_then_def io_fail_def)

lemma io_then_cases:
  assumes "io_then m k d = (d2, r)"
  obtains (stop) e where "m d = (d2, Inl e)" "r = Inl e"
    | (more) d1 a where "m d = (d1, Inr a)" "k a d1 = (d2, r)"
  using assms that by (auto simp: io_then_def split: prod.splits sum.splits)

lemma io_try_eq: "m d = (d1, r) \<Longrightarrow> io_try m d = (d1, Inr r)"
  by (simp add: io_try_def)

lemma io_try_then: "m d = (d1, r) \<Longrightarrow> io_then (io_try m) k d = k r d1"
  by (simp add: io_then_def io_try_def)

lemma io_ignore_eq: "m d = (d1, r) \<Longrightarrow> io_ignore m d = (d1, Inr ())"
  by (simp add: io_ignore_def)

lemma io_when_simps: "io_when True m d = m d" "io_when False m d = (d, Inr ())"
  by (simp_all add: io_when_def io_pure_def)

subsection \<open>What a call does to the files\<close>

definition under :: "path \<Rightarrow> path \<Rightarrow> bool" where
  "under p q = prefix p q"

definition is_dir :: "files \<Rightarrow> path \<Rightarrow> bool" where
  "is_dir fs p = (p = [] \<or> hm_get fs p = Some IDir)"

definition path_exists :: "files \<Rightarrow> path \<Rightarrow> bool" where
  "path_exists fs p =
     (p = [] \<or> (case hm_get fs p of None \<Rightarrow> False | Some (ILink r) \<Rightarrow> r \<noteq> None | Some _ \<Rightarrow> True))"

text \<open>The text of a regular file, through a link.\<close>

definition file_text :: "files \<Rightarrow> path \<Rightarrow> string option" where
  "file_text fs p =
     (case hm_get fs p of Some (IFile s) \<Rightarrow> Some s | Some (ILink r) \<Rightarrow> r | _ \<Rightarrow> None)"

definition is_file :: "files \<Rightarrow> path \<Rightarrow> bool" where
  "is_file fs p = (file_text fs p \<noteq> None)"

definition parent_of :: "path \<Rightarrow> path" where
  "parent_of p = butlast p"

definition children :: "files \<Rightarrow> path \<Rightarrow> string list" where
  "children fs p =
     map (\<lambda>(q, _). last q) (filter (\<lambda>(q, _). q \<noteq> [] \<and> butlast q = p) fs)"

definition cut_below :: "path \<Rightarrow> files \<Rightarrow> files" where
  "cut_below p fs = filter (\<lambda>(q, _). \<not> under p q) fs"

definition moved :: "path \<Rightarrow> path \<Rightarrow> files \<Rightarrow> files" where
  "moved p q fs =
     cut_below p (cut_below q fs)
     @ map (\<lambda>(r, i). (q @ drop (length p) r, i)) (filter (\<lambda>(r, _). under p r) fs)"

fun mkdirs :: "path list \<Rightarrow> files \<Rightarrow> files option" where
  "mkdirs [] fs = Some fs"
| "mkdirs (p # ps) fs =
     (case hm_get fs p of
        None \<Rightarrow> mkdirs ps (hm_insert p IDir fs)
      | Some IDir \<Rightarrow> mkdirs ps fs
      | Some _ \<Rightarrow> None)"

definition ancestors :: "path \<Rightarrow> path list" where
  "ancestors p = map (\<lambda>k. take k p) [1..<Suc (length p)]"

subsection \<open>The calls\<close>

definition settle :: "files \<Rightarrow> 'z disk_scheme \<Rightarrow> 'z disk_scheme" where
  "settle fs d = d\<lparr>dk_files := fs, dk_faults := tl (dk_faults d), dk_trace := fs # dk_trace d\<rparr>"

text \<open>\<open>call whole part\<close>: the whole effect (or the error it is), and the part done when it breaks.\<close>

definition call :: "(files \<Rightarrow> io_kind + files) \<Rightarrow> (nat \<Rightarrow> files \<Rightarrow> files) \<Rightarrow> ('z disk_scheme, io_kind, unit) action" where
  "call whole part d =
     (case dk_faults d of
        Breaks n # _ \<Rightarrow> (settle (part n (dk_files d)) d, Inl IoOther)
      | _ \<Rightarrow>
          (case whole (dk_files d) of
             Inl e \<Rightarrow> (settle (dk_files d) d, Inl e)
           | Inr fs \<Rightarrow> (settle fs d, Inr ())))"

text \<open>
  What a broken \<open>remove_dir_all\<close> may have removed: the bits of \<open>n\<close> pick entries below the directory,
  and a picked one is gone when all that was below it is. The order a directory is read in is not
  known, so every such set is possible.
\<close>

definition gone_below :: "path \<Rightarrow> nat \<Rightarrow> files \<Rightarrow> path list" where
  "gone_below p n fs =
     (let below = filter (\<lambda>q. under p q \<and> q \<noteq> p) (map fst fs);
          picked = map snd (filter (\<lambda>(i, _). bit n i) (enumerate 0 below))
      in filter (\<lambda>q. list_all (\<lambda>r. under q r \<longrightarrow> r \<in> set picked) below) picked)"

definition remove_dir_all :: "path \<Rightarrow> ('z disk_scheme, io_kind, unit) action" where
  "remove_dir_all p =
     call (\<lambda>fs. case hm_get fs p of
              Some IDir \<Rightarrow> Inr (cut_below p fs)
            | Some (ILink _) \<Rightarrow> Inr (hm_remove p fs)
            | Some (IFile _) \<Rightarrow> Inl IoOther
            | None \<Rightarrow> Inl IoNotFound)
       (\<lambda>n fs. foldr hm_remove (gone_below p n fs) fs)"

definition remove_file :: "path \<Rightarrow> ('z disk_scheme, io_kind, unit) action" where
  "remove_file p =
     call (\<lambda>fs. case hm_get fs p of
              Some IDir \<Rightarrow> Inl IoOther
            | Some _ \<Rightarrow> Inr (hm_remove p fs)
            | None \<Rightarrow> Inl IoNotFound)
       (\<lambda>_ fs. fs)"

definition create_dir_all :: "path \<Rightarrow> ('z disk_scheme, io_kind, unit) action" where
  "create_dir_all p =
     call (\<lambda>fs. case mkdirs (ancestors p) fs of Some fs2 \<Rightarrow> Inr fs2 | None \<Rightarrow> Inl IoOther)
       (\<lambda>n fs. case mkdirs (take n (ancestors p)) fs of Some fs2 \<Rightarrow> fs2 | None \<Rightarrow> fs)"

definition rename_ok :: "path \<Rightarrow> path \<Rightarrow> files \<Rightarrow> bool" where
  "rename_ok p q fs =
     (is_dir fs (parent_of q) \<and> q \<noteq> [] \<and> \<not> under p q \<and> \<not> under q p
      \<and> (case hm_get fs q of
           None \<Rightarrow> True
         | Some IDir \<Rightarrow> hm_get fs p = Some IDir \<and> children fs q = []
         | Some _ \<Rightarrow> hm_get fs p \<noteq> Some IDir))"

definition rename_path :: "path \<Rightarrow> path \<Rightarrow> ('z disk_scheme, io_kind, unit) action" where
  "rename_path p q =
     call (\<lambda>fs. if hm_get fs p = None then Inl IoNotFound
              else if rename_ok p q fs then Inr (moved p q fs) else Inl IoOther)
       (\<lambda>_ fs. fs)"

text \<open>Writing through a link is not modelled: it is an error here.\<close>

definition write_ok :: "path \<Rightarrow> files \<Rightarrow> bool" where
  "write_ok p fs =
     (p \<noteq> [] \<and> is_dir fs (parent_of p)
      \<and> (case hm_get fs p of None \<Rightarrow> True | Some (IFile _) \<Rightarrow> True | Some _ \<Rightarrow> False))"

definition write_file :: "path \<Rightarrow> string \<Rightarrow> ('z disk_scheme, io_kind, unit) action" where
  "write_file p text =
     call (\<lambda>fs. if write_ok p fs then Inr (hm_insert p (IFile text) fs) else Inl IoOther)
       (\<lambda>n fs. if write_ok p fs then hm_insert p (IFile (take n text)) fs else fs)"

text \<open>A write through an open handle: the bytes are added to the file's end.\<close>

definition append_file :: "path \<Rightarrow> string \<Rightarrow> ('z disk_scheme, io_kind, unit) action" where
  "append_file p chunk =
     call (\<lambda>fs. case hm_get fs p of
              Some (IFile t) \<Rightarrow> Inr (hm_insert p (IFile (t @ chunk)) fs)
            | _ \<Rightarrow> Inl IoOther)
       (\<lambda>n fs. case hm_get fs p of
              Some (IFile t) \<Rightarrow> hm_insert p (IFile (t @ take n chunk)) fs
            | _ \<Rightarrow> fs)"

definition copy_file :: "path \<Rightarrow> path \<Rightarrow> ('z disk_scheme, io_kind, unit) action" where
  "copy_file p q d =
     (case file_text (dk_files d) p of
        Some text \<Rightarrow> write_file q text d
      | None \<Rightarrow> call (\<lambda>_. Inl IoNotFound) (\<lambda>_ fs. fs) d)"

subsection \<open>What is found after a call\<close>

lemma hm_get_filter_key:
  "hm_get (filter (\<lambda>(q, _). P q) fs) r = (if P r then hm_get fs r else None)"
  unfolding hm_get_def by (induction fs) auto

lemma get_cut_below: "hm_get (cut_below p fs) r = (if under p r then None else hm_get fs r)"
  unfolding cut_below_def by (simp add: hm_get_filter_key)

lemma get_insert [simp]: "hm_get (hm_insert k v m) r = (if r = k then Some v else hm_get m r)"
  by (rule hm.get_ins)

lemma get_remove [simp]: "hm_get (hm_remove k m) r = (if r = k then None else hm_get m r)"
  by (simp add: hm_get_def hm_remove_def delete_conv')

lemma get_foldr_remove: "hm_get (foldr hm_remove ks m) r = (if r \<in> set ks then None else hm_get m r)"
  by (induction ks) auto

lemma under_iff: "under p q \<longleftrightarrow> (\<exists>r. q = p @ r)"
  by (auto simp: under_def prefix_def)

lemma under_refl [simp]: "under p p" "under p (p @ r)"
  by (auto simp: under_iff)

lemma hm_get_relocated:
  "hm_get (map (\<lambda>(r, i). (q @ drop (length p) r, i)) (filter (\<lambda>(r, _). under p r) fs)) s
     = (if under q s then hm_get fs (p @ drop (length q) s) else None)"
proof (induction fs)
  case (Cons x fs)
  obtain r i where x: "x = (r, i)" by (cases x)
  show ?case
  proof (cases "under p r")
    case True
    then have "q @ drop (length p) r = s \<longleftrightarrow> under q s \<and> r = p @ drop (length q) s"
      by (auto simp: under_iff)
    with Cons True show ?thesis by (auto simp: x hm_get_def)
  next
    case False
    then have "r \<noteq> p @ drop (length q) s" by (auto simp: under_iff)
    with Cons False show ?thesis by (simp add: x hm_get_def)
  qed
qed (simp add: hm_get_def)

lemma get_moved:
  assumes "\<not> under p q" "\<not> under q p"
  shows "hm_get (moved p q fs) s =
     (if under q s then hm_get fs (p @ drop (length q) s)
      else if under p s then None else hm_get fs s)"
proof -
  have "hm_get (moved p q fs) s = (case hm_get (cut_below p (cut_below q fs)) s of
      Some v \<Rightarrow> Some v
    | None \<Rightarrow> if under q s then hm_get fs (p @ drop (length q) s) else None)"
    unfolding moved_def hm_get_def map_of_append
    using hm_get_relocated [of q p fs s]
    by (auto simp: map_add_def hm_get_def split: option.splits)
  then show ?thesis by (auto simp: get_cut_below split: option.splits)
qed

lemma gone_below_under: "q \<in> set (gone_below p n fs) \<Longrightarrow> under p q \<and> q \<noteq> p"
proof -
  let ?below = "filter (\<lambda>q. under p q \<and> q \<noteq> p) (map fst fs)"
  assume "q \<in> set (gone_below p n fs)"
  then have "q \<in> snd ` set (enumerate 0 ?below)"
    unfolding gone_below_def Let_def set_filter set_map by blast
  then have "q \<in> set (map snd (enumerate 0 ?below))" by (simp only: set_map)
  then have "q \<in> set ?below" by (simp only: map_snd_enumerate)
  then show ?thesis by simp
qed

subsection \<open>What a computation leaves alone\<close>

text \<open>
  \<open>keeps R m\<close>: whatever fails on the way, \<open>m\<close> leaves every path outside \<open>R\<close> as it found it, in
  the state it ends in and in every state it passes through.
\<close>

named_theorems keeps_rules "which paths a step of a computation may change"

definition agree_off :: "(path \<Rightarrow> bool) \<Rightarrow> files \<Rightarrow> files \<Rightarrow> bool" where
  "agree_off R a b = (\<forall>q. \<not> R q \<longrightarrow> hm_get b q = hm_get a q)"

definition reached :: "(path \<Rightarrow> bool) \<Rightarrow> 'z disk_scheme \<Rightarrow> 'z disk_scheme \<Rightarrow> bool" where
  "reached R d d2 =
     ((\<exists>new. dk_trace d2 = new @ dk_trace d \<and> list_all (agree_off R (dk_files d)) new)
      \<and> agree_off R (dk_files d) (dk_files d2))"

definition keeps :: "(path \<Rightarrow> bool) \<Rightarrow> ('z disk_scheme, 'e, 'a) action \<Rightarrow> bool" where
  "keeps R m = (\<forall>d. reached R d (fst (m d)))"

lemma agree_off_refl [simp]: "agree_off R a a"
  by (simp add: agree_off_def)

lemma agree_off_trans: "agree_off R a b \<Longrightarrow> agree_off R b c \<Longrightarrow> agree_off R a c"
  by (simp add: agree_off_def)

lemma reached_same:
  "dk_files d2 = dk_files d \<Longrightarrow> dk_trace d2 = dk_trace d \<Longrightarrow> reached R d d2"
  by (simp add: reached_def)

lemma reached_refl [simp]: "reached R d d"
  by (rule reached_same) simp_all

lemma reached_trans: "reached R a b \<Longrightarrow> reached R b c \<Longrightarrow> reached R a c"
  unfolding reached_def list_all_iff
  by (elim conjE exE, intro conjI) (auto intro: agree_off_trans)

lemma reached_mono: "reached R a b \<Longrightarrow> (\<And>q. R q \<Longrightarrow> S q) \<Longrightarrow> reached S a b"
  unfolding reached_def list_all_iff agree_off_def by blast

lemma keepsD: "keeps R m \<Longrightarrow> m d = (d2, r) \<Longrightarrow> reached R d d2"
  unfolding keeps_def by (metis fst_conv)

lemma keepsI: "(\<And>d. reached R d (fst (m d))) \<Longrightarrow> keeps R m"
  by (simp add: keeps_def)

lemma keeps_mono: "keeps R m \<Longrightarrow> (\<And>q. R q \<Longrightarrow> S q) \<Longrightarrow> keeps S m"
  unfolding keeps_def by (blast intro: reached_mono)

lemma keeps_pure [keeps_rules, simp]: "keeps R (io_pure a)"
  by (simp add: keeps_def io_pure_def)

lemma keeps_fail [keeps_rules, simp]: "keeps R (io_fail e)"
  by (simp add: keeps_def io_fail_def)

lemma keeps_of [keeps_rules, simp]: "keeps R (io_of r)"
  by (simp add: keeps_def io_of_def)

lemma keeps_look [keeps_rules, simp]: "keeps R (io_look f)"
  by (simp add: keeps_def io_look_def)

lemma keeps_then [keeps_rules]:
  assumes m: "keeps R m" and k: "\<And>a. keeps R (k a)"
  shows "keeps R (io_then m k)"
proof (rule keepsI)
  fix d
  obtain d1 r where md: "m d = (d1, r)" by (cases "m d")
  from keepsD [OF m md] have 1: "reached R d d1" .
  show "reached R d (fst (io_then m k d))"
  proof (cases r)
    case (Inl e)
    with md 1 show ?thesis by (simp add: io_then_def)
  next
    case (Inr a)
    obtain d2 r2 where kd: "k a d1 = (d2, r2)" by (cases "k a d1")
    from reached_trans [OF 1 keepsD [OF k kd]] show ?thesis
      by (simp add: io_then_def md Inr kd)
  qed
qed

lemma keeps_map_err [keeps_rules]: "keeps R m \<Longrightarrow> keeps R (io_map_err f m)"
  unfolding keeps_def io_map_err_def
  by (auto split: prod.split sum.split) (metis fst_conv)+

lemma keeps_ignore [keeps_rules]: "keeps R m \<Longrightarrow> keeps R (io_ignore m)"
  unfolding keeps_def io_ignore_def by (auto split: prod.split) (metis fst_conv)

lemma keeps_try [keeps_rules]: "keeps R m \<Longrightarrow> keeps R (io_try m)"
  unfolding keeps_def io_try_def by (auto split: prod.split) (metis fst_conv)

lemma keeps_when [keeps_rules]: "(b \<Longrightarrow> keeps R m) \<Longrightarrow> keeps R (io_when b m)"
  by (simp add: io_when_def)

lemma keeps_each [keeps_rules]: "(\<And>x. keeps R (f x)) \<Longrightarrow> keeps R (io_each f xs)"
  by (induction xs) (auto intro: keeps_rules)

lemma keeps_if [keeps_rules]: "(b \<Longrightarrow> keeps R m) \<Longrightarrow> (\<not> b \<Longrightarrow> keeps R n) \<Longrightarrow> keeps R (if b then m else n)"
  by simp

lemma keeps_case_option [keeps_rules]:
  "(x = None \<Longrightarrow> keeps R m) \<Longrightarrow> (\<And>a. x = Some a \<Longrightarrow> keeps R (n a)) \<Longrightarrow>
    keeps R (case x of None \<Rightarrow> m | Some a \<Rightarrow> n a)"
  by (cases x) simp_all

lemma keeps_case_sum [keeps_rules]:
  "(\<And>e. x = Inl e \<Longrightarrow> keeps R (m e)) \<Longrightarrow> (\<And>a. x = Inr a \<Longrightarrow> keeps R (n a)) \<Longrightarrow>
    keeps R (case x of Inl e \<Rightarrow> m e | Inr a \<Rightarrow> n a)"
  by (cases x) simp_all

lemma keeps_call:
  assumes "\<And>fs fs2. whole fs = Inr fs2 \<Longrightarrow> agree_off R fs fs2"
    and "\<And>n fs. agree_off R fs (part n fs)"
  shows "keeps R (call whole part)"
proof (rule keepsI)
  fix d
  show "reached R d (fst (call whole part d))"
    by (auto simp: call_def settle_def reached_def assms split: list.split fault.split sum.split
        intro!: exI [of _ "[_]"])
qed

lemma keeps_remove_dir_all [keeps_rules]: "(\<And>q. under p q \<Longrightarrow> R q) \<Longrightarrow> keeps R (remove_dir_all p)"
  unfolding remove_dir_all_def
  by (rule keeps_call)
    (auto simp: agree_off_def get_cut_below get_foldr_remove dest!: gone_below_under
      split: option.splits inode.splits)

lemma keeps_remove_file [keeps_rules]: "R p \<Longrightarrow> keeps R (remove_file p)"
  unfolding remove_file_def
  by (rule keeps_call) (auto simp: agree_off_def split: option.splits inode.splits)

lemma mkdirs_agree: "mkdirs ps fs = Some fs2 \<Longrightarrow> (\<And>q. q \<in> set ps \<Longrightarrow> R q) \<Longrightarrow> agree_off R fs fs2"
  by (induction ps arbitrary: fs) (force simp: agree_off_def split: option.splits inode.splits)+

lemma ancestors_under: "q \<in> set (ancestors p) \<Longrightarrow> under q p"
  by (auto simp: ancestors_def under_def take_is_prefix)

lemma keeps_create_dir_all [keeps_rules]: "(\<And>q. under q p \<Longrightarrow> R q) \<Longrightarrow> keeps R (create_dir_all p)"
  unfolding create_dir_all_def
  by (rule keeps_call)
    (auto split: option.splits elim!: mkdirs_agree dest!: in_set_takeD ancestors_under)

lemma keeps_rename [keeps_rules]:
  "(\<And>s. under p s \<Longrightarrow> R s) \<Longrightarrow> (\<And>s. under q s \<Longrightarrow> R s) \<Longrightarrow> keeps R (rename_path p q)"
  unfolding rename_path_def
  by (rule keeps_call)
    (auto simp: agree_off_def get_moved rename_ok_def split: if_splits)

lemma keeps_write [keeps_rules]: "R p \<Longrightarrow> keeps R (write_file p text)"
  unfolding write_file_def
  by (rule keeps_call) (auto simp: agree_off_def split: if_splits)

lemma keeps_append [keeps_rules]: "R p \<Longrightarrow> keeps R (append_file p chunk)"
  unfolding append_file_def
  by (rule keeps_call) (auto simp: agree_off_def split: option.splits inode.splits)

lemma keeps_copy [keeps_rules]: "R q \<Longrightarrow> keeps R (copy_file p q)"
proof (rule keepsI)
  fix d :: "'z disk_scheme"
  assume R: "R q"
  have "keeps R (call (\<lambda>_. Inl IoNotFound) (\<lambda>_ fs. fs) :: ('z disk_scheme, _, _) action)"
    by (rule keeps_call) simp_all
  moreover have "keeps R (write_file q t :: ('z disk_scheme, _, _) action)" for t
    using R by (rule keeps_write)
  ultimately show "reached R d (fst (copy_file p q d))"
    unfolding copy_file_def keeps_def by (auto split: option.split)
qed

subsection \<open>How one call ends\<close>

text \<open>\<open>through I d d2\<close>: \<open>I\<close> holds of \<open>d2\<close>'s files and of every state between \<open>d\<close> and \<open>d2\<close>.\<close>

definition through :: "(files \<Rightarrow> bool) \<Rightarrow> 'z disk_scheme \<Rightarrow> 'z disk_scheme \<Rightarrow> bool" where
  "through I d d2 =
     ((\<exists>new. dk_trace d2 = new @ dk_trace d \<and> list_all I new) \<and> I (dk_files d2))"

lemma through_refl: "I (dk_files d) \<Longrightarrow> through I d d"
  by (simp add: through_def)

lemma through_trans: "through I a b \<Longrightarrow> through I b c \<Longrightarrow> through I a c"
  unfolding through_def list_all_iff by (elim conjE exE, intro conjI) auto

lemma through_end: "through I a b \<Longrightarrow> I (dk_files b)"
  by (simp add: through_def)

lemma through_mono: "through I a b \<Longrightarrow> (\<And>fs. I fs \<Longrightarrow> J fs) \<Longrightarrow> through J a b"
  unfolding through_def list_all_iff by blast

lemma through_conj: "through I a b \<Longrightarrow> through J a b \<Longrightarrow> through (\<lambda>fs. I fs \<and> J fs) a b"
  unfolding through_def list_all_iff by auto

lemma through_one:
  "dk_trace d2 = dk_files d2 # dk_trace d \<Longrightarrow> I (dk_files d2) \<Longrightarrow> through I d d2"
  by (auto simp: through_def)

lemma reached_through: "reached R d d2 \<longleftrightarrow> through (agree_off R (dk_files d)) d d2"
  by (simp add: reached_def through_def)

lemma call_cases:
  assumes "call whole part d = (d2, r)"
  obtains (broke) n where "r = Inl IoOther" "dk_files d2 = part n (dk_files d)"
      "dk_trace d2 = dk_files d2 # dk_trace d" "dk_faults d \<noteq> []"
    | (refused) e where "r = Inl e" "whole (dk_files d) = Inl e" "dk_files d2 = dk_files d"
      "dk_trace d2 = dk_files d2 # dk_trace d"
    | (worked) "r = Inr ()" "whole (dk_files d) = Inr (dk_files d2)"
      "dk_trace d2 = dk_files d2 # dk_trace d"
  using assms that
  by (auto simp: call_def settle_def split: list.splits fault.splits sum.splits)

lemma rename_cases:
  assumes "rename_path p q d = (d2, r)"
  obtains (failed) e where "r = Inl e" "dk_files d2 = dk_files d"
      "dk_trace d2 = dk_files d2 # dk_trace d"
    | (renamed) "r = Inr ()" "dk_files d2 = moved p q (dk_files d)" "rename_ok p q (dk_files d)"
      "dk_trace d2 = dk_files d2 # dk_trace d"
proof -
  from assms[unfolded rename_path_def] show thesis
    by (rule call_cases) (auto intro: that split: if_splits)
qed

lemma mkdirs_get:
  "mkdirs ps fs = Some fs2 \<Longrightarrow>
    hm_get fs2 q = (if q \<in> set ps then Some IDir else hm_get fs q)
    \<and> (q \<in> set ps \<longrightarrow> hm_get fs q \<in> {None, Some IDir})"
proof (induction ps arbitrary: fs)
  case (Cons a ps)
  from Cons.prems obtain fs1 where 1: "mkdirs ps fs1 = Some fs2"
      "fs1 = fs \<and> hm_get fs a = Some IDir \<or> fs1 = hm_insert a IDir fs \<and> hm_get fs a = None"
    by (auto split: option.splits inode.splits)
  from Cons.IH [OF 1(1)] 1(2) show ?case by (auto split: if_splits)
qed simp

lemma ancestors_iff: "q \<in> set (ancestors p) \<longleftrightarrow> q \<noteq> [] \<and> under q p"
proof
  assume "q \<noteq> [] \<and> under q p"
  then have "q = take (length q) p" "length q \<in> set [1..<Suc (length p)]"
    by (auto simp: under_iff Suc_le_eq)
  then show "q \<in> set (ancestors p)" unfolding ancestors_def set_map by (rule image_eqI)
qed (auto simp: ancestors_def under_def take_is_prefix)

lemma take_ancestors: "\<exists>m. take n (ancestors p) = ancestors (take m p) \<and> m \<le> length p"
proof (cases "n \<le> length p")
  case True
  then have "take n (ancestors p) = ancestors (take n p)"
    by (auto simp: ancestors_def take_map min_def)
  with True show ?thesis by blast
next
  case False
  then have "take n (ancestors p) = ancestors (take (length p) p)"
    by (simp add: ancestors_def take_all del: upt_Suc)
  then show ?thesis by blast
qed

text \<open>After \<open>create_dir_all p\<close>, the directories from the root down to some \<open>r\<close> above \<open>p\<close> are there.\<close>

lemma create_cases:
  assumes "create_dir_all p d = (d2, r)"
  obtains (made) a where "under a p"
      "\<And>q. hm_get (dk_files d2) q = (if q \<noteq> [] \<and> under q a then Some IDir else hm_get (dk_files d) q)"
      "\<And>q. q \<noteq> [] \<Longrightarrow> under q a \<Longrightarrow> hm_get (dk_files d) q \<in> {None, Some IDir}"
      "is_ok r \<Longrightarrow> a = p"
      "dk_trace d2 = dk_files d2 # dk_trace d"
proof -
  have made: "under a p \<and> (\<forall>q. hm_get fs2 q = (if q \<noteq> [] \<and> under q a then Some IDir else hm_get fs q)
      \<and> (q \<noteq> [] \<longrightarrow> under q a \<longrightarrow> hm_get fs q \<in> {None, Some IDir}))"
    if "mkdirs (ancestors a) fs = Some fs2" "under a p" for a fs fs2
    using mkdirs_get [OF that(1)] that(2) by (auto simp: ancestors_iff)
  from assms[unfolded create_dir_all_def] show thesis
  proof (cases rule: call_cases)
    case (broke n)
    obtain m where m: "take n (ancestors p) = ancestors (take m p)" using take_ancestors by blast
    show thesis
    proof (cases "mkdirs (ancestors (take m p)) (dk_files d)")
      case None
      with broke m show thesis by (intro that [of "[]"]) (auto simp: under_def)
    next
      case (Some fs2)
      with broke m made [OF Some] show thesis
        by (intro that [of "take m p"]) (auto simp: under_def take_is_prefix)
    qed
  next
    case (refused e)
    then show thesis by (intro that [of "[]"]) (auto simp: under_def)
  next
    case worked
    then have "mkdirs (ancestors p) (dk_files d) = Some (dk_files d2)" by (auto split: option.splits)
    with worked made [of p] show thesis by (intro that [of p]) auto
  qed
qed

subsection \<open>Calls that do not break\<close>

lemma call_quiet:
  "dk_faults d = [] \<Longrightarrow> call whole part d =
     (case whole (dk_files d) of
        Inl e \<Rightarrow> (settle (dk_files d) d, Inl e)
      | Inr fs \<Rightarrow> (settle fs d, Inr ()))"
  by (simp add: call_def split: sum.split)

lemma settle_simps [simp]:
  "dk_files (settle fs d) = fs" "dk_trace (settle fs d) = fs # dk_trace d"
  "dk_faults (settle fs d) = tl (dk_faults d)"
  by (simp_all add: settle_def)

lemma rename_quiet:
  "dk_faults d = [] \<Longrightarrow> hm_get (dk_files d) p \<noteq> None \<Longrightarrow> rename_ok p q (dk_files d) \<Longrightarrow>
    rename_path p q d = (settle (moved p q (dk_files d)) d, Inr ())"
  by (simp add: rename_path_def call_quiet)

lemma remove_dir_quiet:
  "dk_faults d = [] \<Longrightarrow> hm_get (dk_files d) p = Some IDir \<Longrightarrow>
    remove_dir_all p d = (settle (cut_below p (dk_files d)) d, Inr ())"
  by (simp add: remove_dir_all_def call_quiet)

subsection \<open>Everything sits in a directory\<close>

text \<open>
  \<open>rooted\<close>: the parent of whatever is there is a directory. Every call keeps it, however it ends:
  directories are made from the root down and removed from the leaves up.
\<close>

named_theorems roots_rules "which computations keep the tree rooted"

definition rooted :: "files \<Rightarrow> bool" where
  "rooted fs = (\<forall>p. hm_get fs p \<noteq> None \<longrightarrow> p \<noteq> [] \<and> is_dir fs (butlast p))"

definition roots :: "('z disk_scheme, 'e, 'a) action \<Rightarrow> bool" where
  "roots m = (\<forall>d. rooted (dk_files d) \<longrightarrow> rooted (dk_files (fst (m d))))"

lemma rootsD: "roots m \<Longrightarrow> m d = (d2, r) \<Longrightarrow> rooted (dk_files d) \<Longrightarrow> rooted (dk_files d2)"
  unfolding roots_def by (metis fst_conv)

lemma rootedD: "rooted fs \<Longrightarrow> hm_get fs p = Some v \<Longrightarrow> p \<noteq> [] \<and> is_dir fs (butlast p)"
  by (simp add: rooted_def)

lemma rooted_up:
  assumes "rooted fs"
  shows "hm_get fs (p @ s) \<noteq> None \<Longrightarrow> s \<noteq> [] \<Longrightarrow> p \<noteq> [] \<Longrightarrow> hm_get fs p = Some IDir"
proof (induction s rule: rev_induct)
  case (snoc x s)
  then have "is_dir fs (p @ s)" using assms by (auto simp: rooted_def butlast_append)
  with snoc show ?case by (cases "s = []") (auto simp: is_dir_def)
qed simp

lemma roots_pure [roots_rules, simp]: "roots (io_pure a)" "roots (io_fail e)" "roots (io_of r)" "roots (io_look f)"
  by (simp_all add: roots_def io_pure_def io_fail_def io_of_def io_look_def)

lemma roots_then [roots_rules]:
  assumes "roots m" "\<And>a. roots (k a)"
  shows "roots (io_then m k)"
  unfolding roots_def
proof (intro allI impI)
  fix d :: "'a disk_scheme"
  assume d: "rooted (dk_files d)"
  obtain d1 r where m: "m d = (d1, r)" by (cases "m d")
  note 1 = rootsD [OF assms(1) m d]
  show "rooted (dk_files (fst (io_then m k d)))"
  proof (cases r)
    case (Inl e)
    with m 1 show ?thesis by (simp add: io_then_def)
  next
    case (Inr a)
    obtain d2 r2 where k: "k a d1 = (d2, r2)" by (cases "k a d1")
    from rootsD [OF assms(2) k 1] show ?thesis by (simp add: io_then_def m Inr k)
  qed
qed

lemma roots_map_err [roots_rules]: "roots m \<Longrightarrow> roots (io_map_err f m)"
  unfolding roots_def io_map_err_def
  by (fastforce split: prod.split sum.split)

lemma roots_ignore [roots_rules]: "roots m \<Longrightarrow> roots (io_ignore m)"
  unfolding roots_def io_ignore_def by (fastforce split: prod.split)

lemma roots_try [roots_rules]: "roots m \<Longrightarrow> roots (io_try m)"
  unfolding roots_def io_try_def by (fastforce split: prod.split)

lemma roots_when [roots_rules]: "(b \<Longrightarrow> roots m) \<Longrightarrow> roots (io_when b m)"
  by (simp add: io_when_def)

lemma roots_each [roots_rules]: "(\<And>x. roots (f x)) \<Longrightarrow> roots (io_each f xs)"
  by (induction xs) (auto intro: roots_rules)

lemma roots_if [roots_rules]: "(b \<Longrightarrow> roots m) \<Longrightarrow> (\<not> b \<Longrightarrow> roots n) \<Longrightarrow> roots (if b then m else n)"
  by simp

lemma roots_case_option [roots_rules]:
  "(x = None \<Longrightarrow> roots m) \<Longrightarrow> (\<And>a. x = Some a \<Longrightarrow> roots (n a)) \<Longrightarrow>
    roots (case x of None \<Rightarrow> m | Some a \<Rightarrow> n a)"
  by (cases x) simp_all

lemma roots_case_sum [roots_rules]:
  "(\<And>e. x = Inl e \<Longrightarrow> roots (m e)) \<Longrightarrow> (\<And>a. x = Inr a \<Longrightarrow> roots (n a)) \<Longrightarrow>
    roots (case x of Inl e \<Rightarrow> m e | Inr a \<Rightarrow> n a)"
  by (cases x) simp_all

lemma roots_call:
  assumes "\<And>fs fs2. rooted fs \<Longrightarrow> whole fs = Inr fs2 \<Longrightarrow> rooted fs2"
    and "\<And>n fs. rooted fs \<Longrightarrow> rooted (part n fs)"
  shows "roots (call whole part)"
  unfolding roots_def call_def settle_def
  using assms by (auto split: list.split fault.split sum.split)

lemma is_dir_get: "is_dir a p \<Longrightarrow> hm_get b p = hm_get a p \<Longrightarrow> is_dir b p"
  by (simp add: is_dir_def)

lemma rooted_cut: "rooted fs \<Longrightarrow> rooted (cut_below p fs)"
  unfolding rooted_def
proof (intro allI impI)
  fix q
  assume r: "\<forall>p. hm_get fs p \<noteq> None \<longrightarrow> p \<noteq> [] \<and> is_dir fs (butlast p)"
    and q: "hm_get (cut_below p fs) q \<noteq> None"
  from q have out: "\<not> under p q" and "hm_get fs q \<noteq> None" by (auto simp: get_cut_below split: if_splits)
  with r have "q \<noteq> []" "is_dir fs (butlast q)" by auto
  moreover have "\<not> under p (butlast q)"
    using out prefix_order.trans [of p "butlast q" q] by (auto simp: under_def prefixeq_butlast)
  ultimately show "q \<noteq> [] \<and> is_dir (cut_below p fs) (butlast q)"
    by (auto simp: is_dir_def get_cut_below)
qed

lemma rooted_drop_leaf:
  assumes "rooted fs" "hm_get fs p \<noteq> Some IDir"
  shows "rooted (hm_remove p fs)"
  unfolding rooted_def
proof (intro allI impI)
  fix q
  assume "hm_get (hm_remove p fs) q \<noteq> None"
  then have "q \<noteq> [] \<and> is_dir fs (butlast q)" using assms(1) by (auto simp: rooted_def split: if_splits)
  moreover have "butlast q = [] \<or> butlast q \<noteq> p" using calculation assms(2) by (auto simp: is_dir_def)
  ultimately show "q \<noteq> [] \<and> is_dir (hm_remove p fs) (butlast q)" by (auto simp: is_dir_def)
qed

lemma rooted_put_leaf:
  assumes "rooted fs" "is_dir fs (butlast p)" "p \<noteq> []" "hm_get fs p \<noteq> Some IDir"
  shows "rooted (hm_insert p i fs)"
  unfolding rooted_def
proof (intro allI impI)
  fix q
  assume "hm_get (hm_insert p i fs) q \<noteq> None"
  then have q: "q \<noteq> []" "is_dir fs (butlast q)" using assms by (auto simp: rooted_def split: if_splits)
  moreover have "butlast q = [] \<or> butlast q \<noteq> p" using q assms(4) by (auto simp: is_dir_def)
  ultimately show "q \<noteq> [] \<and> is_dir (hm_insert p i fs) (butlast q)" by (auto simp: is_dir_def)
qed

lemma rooted_mkdirs:
  assumes "rooted fs" "mkdirs (ancestors a) fs = Some fs2"
  shows "rooted fs2"
  unfolding rooted_def
proof (intro allI impI)
  have get: "hm_get fs2 q = (if q \<noteq> [] \<and> under q a then Some IDir else hm_get fs q)" for q
    using mkdirs_get [OF assms(2), of q] by (simp add: ancestors_iff)
  fix q
  assume "hm_get fs2 q \<noteq> None"
  then consider "q \<noteq> []" "under q a" | "hm_get fs q \<noteq> None" by (auto simp: get split: if_splits)
  then show "q \<noteq> [] \<and> is_dir fs2 (butlast q)"
  proof cases
    case 1
    then have "under (butlast q) a"
      using prefix_order.trans [of "butlast q" q a] by (auto simp: under_def prefixeq_butlast)
    with 1 show ?thesis by (simp add: is_dir_def get)
  next
    case 2
    with assms(1) show ?thesis by (auto simp: rooted_def is_dir_def get)
  qed
qed

lemma rooted_moved:
  assumes "rooted fs" "rename_ok p q fs"
  shows "rooted (moved p q fs)"
  unfolding rooted_def
proof (intro allI impI)
  have ap: "\<not> under p q" "\<not> under q p" and q: "q \<noteq> []" "is_dir fs (butlast q)"
    using assms(2) by (auto simp: rename_ok_def parent_of_def)
  have p: "p \<noteq> []" using ap by (auto simp: under_def)
  note get = get_moved [OF ap, of fs]
  have up: "under x s \<Longrightarrow> under x (s @ [y])" for x s :: path and y
    by (auto simp: under_iff)
  fix s
  assume s: "hm_get (moved p q fs) s \<noteq> None"
  show "s \<noteq> [] \<and> is_dir (moved p q fs) (butlast s)"
  proof (cases "under q s")
    case False
    then have 1: "\<not> under p s" "hm_get fs s \<noteq> None" using s by (auto simp: get split: if_splits)
    with assms(1) have ne: "s \<noteq> []" "is_dir fs (butlast s)" by (auto simp: rooted_def)
    then obtain t y where t: "s = t @ [y]" by (metis append_butlast_last_id)
    with False 1 up have "\<not> under q t" "\<not> under p t" by blast+
    with ne t show ?thesis by (simp add: is_dir_def get)
  next
    case True
    then obtain r where r: "s = q @ r" by (auto simp: under_iff)
    show ?thesis
    proof (cases "r = []")
      case True
      obtain t y where t: "q = t @ [y]" using q(1) by (metis append_butlast_last_id)
      then have "\<not> under p t" "\<not> under q t" using ap(1) up by (blast, auto simp: under_iff)
      moreover have "is_dir fs t" using q(2) t by simp
      ultimately have "is_dir (moved p q fs) t" by (simp only: is_dir_def get if_False)
      moreover have "butlast s = t" "s \<noteq> []" using t r True by simp_all
      ultimately show ?thesis by simp
    next
      case False
      have "hm_get fs (p @ r) \<noteq> None" using s r by (simp add: get)
      with assms(1) have "is_dir fs (butlast (p @ r))" unfolding rooted_def by blast
      with False p have "hm_get fs (p @ butlast r) = Some IDir" by (simp add: butlast_append is_dir_def)
      with r False q show ?thesis by (simp add: is_dir_def get butlast_append)
    qed
  qed
qed

lemma gone_below_child:
  assumes "butlast q \<in> set (gone_below p n fs)" "hm_get fs q \<noteq> None" "q \<noteq> []"
  shows "q \<in> set (gone_below p n fs)"
proof -
  have up: "under (butlast q) q" by (simp add: under_def prefixeq_butlast)
  have "under p (butlast q)" "butlast q \<noteq> p" using gone_below_under [OF assms(1)] by simp_all
  then have "under p q" "q \<noteq> p"
    using assms(3) prefix_order.trans [of p "butlast q" q] prefix_length_le [of p "butlast q"]
    by (cases q rule: rev_cases; auto simp: under_def prefixeq_butlast)+
  moreover have "q \<in> set (map fst fs)"
    using assms(2) by (auto simp: hm_get_def map_of_eq_None_iff)
  ultimately have "q \<in> set (filter (\<lambda>q. under p q \<and> q \<noteq> p) (map fst fs))" by simp
  moreover have "under (butlast q) r" if "under q r" for r
    using up that by (auto simp: under_def intro: prefix_order.trans)
  ultimately show ?thesis
    using assms(1) up by (simp add: gone_below_def Let_def list_all_iff)
qed

lemma rooted_partial:
  assumes "rooted fs"
  shows "rooted (foldr hm_remove (gone_below p n fs) fs)"
  unfolding rooted_def
proof (intro allI impI)
  fix q
  assume "hm_get (foldr hm_remove (gone_below p n fs) fs) q \<noteq> None"
  then have q: "q \<notin> set (gone_below p n fs)" "hm_get fs q \<noteq> None"
    by (auto simp: get_foldr_remove split: if_splits)
  with assms(1) have ne: "q \<noteq> []" "is_dir fs (butlast q)" by (auto simp: rooted_def)
  with q gone_below_child [of q p n fs]
  show "q \<noteq> [] \<and> is_dir (foldr hm_remove (gone_below p n fs) fs) (butlast q)"
    by (auto simp: is_dir_def get_foldr_remove)
qed

lemma roots_remove_dir_all [roots_rules]: "roots (remove_dir_all p)"
  unfolding remove_dir_all_def
proof (rule roots_call)
  show "rooted (foldr hm_remove (gone_below p n fs) fs)" if "rooted fs" for n fs
    using that by (rule rooted_partial)
qed (auto intro: rooted_cut rooted_drop_leaf split: option.splits inode.splits)

lemma roots_remove_file [roots_rules]: "roots (remove_file p)"
  unfolding remove_file_def
  by (rule roots_call) (auto intro: rooted_drop_leaf split: option.splits inode.splits)

lemma roots_create [roots_rules]: "roots (create_dir_all p)"
  unfolding create_dir_all_def
proof (rule roots_call)
  show "rooted (case mkdirs (take n (ancestors p)) fs of Some fs2 \<Rightarrow> fs2 | None \<Rightarrow> fs)"
    if "rooted fs" for n fs
    using that take_ancestors [of n p] by (auto intro: rooted_mkdirs split: option.split)
qed (auto intro: rooted_mkdirs split: option.splits)

lemma roots_rename [roots_rules]: "roots (rename_path p q)"
  unfolding rename_path_def
  by (rule roots_call) (auto intro: rooted_moved split: if_splits)

lemma rooted_write: "rooted fs \<Longrightarrow> write_ok p fs \<Longrightarrow> rooted (hm_insert p (IFile t) fs)"
  by (rule rooted_put_leaf) (auto simp: write_ok_def parent_of_def split: option.splits inode.splits)

lemma rooted_append: "rooted fs \<Longrightarrow> hm_get fs p = Some (IFile u) \<Longrightarrow> rooted (hm_insert p (IFile t) fs)"
  by (rule rooted_put_leaf) (auto dest: rootedD)

lemma roots_write [roots_rules]: "roots (write_file p t)"
  unfolding write_file_def
  by (rule roots_call) (auto intro: rooted_write split: if_splits)

lemma roots_append [roots_rules]: "roots (append_file p t)"
  unfolding append_file_def
  by (rule roots_call) (auto intro: rooted_append split: option.splits inode.splits)

lemma roots_copy [roots_rules]: "roots (copy_file p q)"
  unfolding roots_def
proof (intro allI impI)
  fix d :: "'a disk_scheme"
  assume d: "rooted (dk_files d)"
  have "roots (call (\<lambda>_. Inl IoNotFound) (\<lambda>_ fs. fs) :: ('a disk_scheme, _, _) action)"
    by (rule roots_call) simp_all
  with d show "rooted (dk_files (fst (copy_file p q d)))"
    using roots_write [of q] unfolding copy_file_def roots_def by (auto split: option.split)
qed

subsection \<open>Triples\<close>

text \<open>
  \<open>hoare Pre m Err Ok\<close>: from a state in \<open>Pre\<close>, \<open>m\<close> ends in \<open>Ok\<close> when it succeeds and in \<open>Err\<close> when it
  fails.
\<close>

definition hoare ::
  "('s \<Rightarrow> bool) \<Rightarrow> ('s, 'e, 'a) action \<Rightarrow> ('e \<Rightarrow> 's \<Rightarrow> bool) \<Rightarrow> ('a \<Rightarrow> 's \<Rightarrow> bool) \<Rightarrow> bool" where
  "hoare Pre m Err Ok =
     (\<forall>d. Pre d \<longrightarrow> (case snd (m d) of Inl e \<Rightarrow> Err e (fst (m d)) | Inr a \<Rightarrow> Ok a (fst (m d))))"

lemma hoareD:
  assumes "hoare Pre m Err Ok" "m d = (d2, r)" "Pre d"
  shows "case r of Inl e \<Rightarrow> Err e d2 | Inr a \<Rightarrow> Ok a d2"
proof -
  have "case snd (m d) of Inl e \<Rightarrow> Err e (fst (m d)) | Inr a \<Rightarrow> Ok a (fst (m d))"
    using assms(1,3) unfolding hoare_def by blast
  with assms(2) show ?thesis by (simp split: sum.splits)
qed

lemma hoareI:
  "(\<And>d d2 r. Pre d \<Longrightarrow> m d = (d2, r) \<Longrightarrow> case r of Inl e \<Rightarrow> Err e d2 | Inr a \<Rightarrow> Ok a d2) \<Longrightarrow> hoare Pre m Err Ok"
  unfolding hoare_def by (metis prod.collapse)

lemma hoare_then:
  assumes "hoare Pre m Err Mid" "\<And>a. hoare (Mid a) (k a) Err Ok"
  shows "hoare Pre (io_then m k) Err Ok"
proof (rule hoareI)
  fix d d2 r
  assume "Pre d" "io_then m k d = (d2, r)"
  from this(2) show "case r of Inl e \<Rightarrow> Err e d2 | Inr a \<Rightarrow> Ok a d2"
  proof (cases rule: io_then_cases)
    case (stop e)
    with hoareD [OF assms(1) stop(1) \<open>Pre d\<close>] show ?thesis by simp
  next
    case (more d1 a)
    from hoareD [OF assms(1) more(1) \<open>Pre d\<close>] have "Mid a d1" by simp
    from hoareD [OF assms(2) more(2) this] show ?thesis .
  qed
qed

lemma hoare_weaken:
  "hoare Pre m Err Ok \<Longrightarrow> (\<And>d. Pre2 d \<Longrightarrow> Pre d) \<Longrightarrow> (\<And>e d. Err e d \<Longrightarrow> Err2 e d) \<Longrightarrow>
    (\<And>a d. Ok a d \<Longrightarrow> Ok2 a d) \<Longrightarrow> hoare Pre2 m Err2 Ok2"
  unfolding hoare_def by (auto split: sum.splits)

lemma hoare_pure: "(\<And>d. Pre d \<Longrightarrow> Ok a d) \<Longrightarrow> hoare Pre (io_pure a) Err Ok"
  by (simp add: hoare_def io_pure_def)

lemma hoare_fail: "(\<And>d. Pre d \<Longrightarrow> Err e d) \<Longrightarrow> hoare Pre (io_fail e) Err Ok"
  by (simp add: hoare_def io_fail_def)

lemma hoare_look: "(\<And>d. Pre d \<Longrightarrow> Ok (f (dk_files d)) d) \<Longrightarrow> hoare Pre (io_look f) Err Ok"
  by (simp add: hoare_def io_look_def)

lemma hoare_of: "(\<And>d e. Pre d \<Longrightarrow> x = Inl e \<Longrightarrow> Err e d) \<Longrightarrow> (\<And>d a. Pre d \<Longrightarrow> x = Inr a \<Longrightarrow> Ok a d) \<Longrightarrow>
    hoare Pre (io_of x) Err Ok"
  by (auto simp: hoare_def io_of_def split: sum.split)

lemma hoare_ignore: "hoare Pre m (\<lambda>_ d. Q d) (\<lambda>_ d. Q d) \<Longrightarrow> hoare Pre (io_ignore m) Err (\<lambda>_ d. Q d)"
  unfolding hoare_def io_ignore_def by (fastforce split: prod.split sum.splits)

lemma hoare_map_err: "hoare Pre m (\<lambda>e. Err (f e)) Ok \<Longrightarrow> hoare Pre (io_map_err f m) Err Ok"
  unfolding hoare_def io_map_err_def by (fastforce split: prod.split sum.splits)

lemma hoare_frame:
  assumes "keeps R m" "roots m"
    and "\<And>d d2. I d \<Longrightarrow> reached R d d2 \<Longrightarrow> (rooted (dk_files d) \<Longrightarrow> rooted (dk_files d2)) \<Longrightarrow> I d2"
  shows "hoare I m (\<lambda>_. I) (\<lambda>_. I)"
proof (rule hoareI)
  fix d d2 r
  assume d: "I d" "m d = (d2, r)"
  have "I d2" using assms(3) [OF d(1) keepsD [OF assms(1) d(2)]] rootsD [OF assms(2) d(2)] by blast
  then show "case r of Inl e \<Rightarrow> I d2 | Inr a \<Rightarrow> I d2" by (simp split: sum.split)
qed

end
