(* ===== verification/SE_Text.thy ===== *)
theory SE_Text
  imports SE_Prelude
begin

section \<open>Rust strings\<close>

text \<open>
  A Rust \<open>str\<close> is a sequence of UTF-8 bytes, and so is \<open>string\<close> here: one \<open>char\<close> per byte, so
  \<open>length\<close> is \<open>str::len\<close> and a character above U+007F is several \<open>char\<close>s. This theory holds the
  standard library's string operations the source uses, with the lemmas that relate them:
  splitting and joining, prefixes and substrings, trimming of Unicode white space, lines,
  character boundaries, and the parsing and printing of integers.
\<close>

abbreviation byte :: "char \<Rightarrow> nat" where
  "byte c \<equiv> of_char c"

subsection \<open>Prefixes and substrings\<close>

fun strip_prefix :: "string \<Rightarrow> string \<Rightarrow> string option" where
  "strip_prefix [] s = Some s"
| "strip_prefix (p # ps) [] = None"
| "strip_prefix (p # ps) (c # cs) = (if p = c then strip_prefix ps cs else None)"

definition starts_with :: "string \<Rightarrow> string \<Rightarrow> bool" where
  "starts_with p s = (strip_prefix p s \<noteq> None)"

fun contains_str :: "string \<Rightarrow> string \<Rightarrow> bool" where
  "contains_str pat [] = (pat = [])"
| "contains_str pat (c # cs) = (starts_with pat (c # cs) \<or> contains_str pat cs)"

definition contains_char :: "char \<Rightarrow> string \<Rightarrow> bool" where
  "contains_char c s = (c \<in> set s)"

lemma strip_prefix_iff: "strip_prefix p s = Some r \<longleftrightarrow> s = p @ r"
  by (induction p s rule: strip_prefix.induct) auto

lemma strip_prefix_append [simp]: "strip_prefix p (p @ r) = Some r"
  by (simp add: strip_prefix_iff)

lemma starts_with_iff: "starts_with p s \<longleftrightarrow> (\<exists>r. s = p @ r)"
  by (auto simp: starts_with_def strip_prefix_iff)

lemma starts_with_append [simp]: "starts_with p (p @ r)"
  by (auto simp: starts_with_iff)

lemma contains_str_iff: "contains_str pat s \<longleftrightarrow> (\<exists>a b. s = a @ pat @ b)"
proof (induction s)
  case Nil
  then show ?case by auto
next
  case (Cons c cs)
  have "(\<exists>a b. c # cs = a @ pat @ b) \<longleftrightarrow>
      (\<exists>b. c # cs = pat @ b) \<or> (\<exists>a b. cs = a @ pat @ b)"
    by (metis append_Cons append_Nil append_eq_Cons_conv list.inject)
  with Cons show ?case by (simp add: starts_with_iff)
qed

subsection \<open>Splitting and joining\<close>

text \<open>\<open>s.split(c)\<close>: at least one piece, the pieces between the separators.\<close>

fun split_on :: "char \<Rightarrow> string \<Rightarrow> string list" where
  "split_on c [] = [[]]"
| "split_on c (x # xs) =
     (if x = c then [] # split_on c xs
      else case split_on c xs of [] \<Rightarrow> [[x]] | y # ys \<Rightarrow> (x # y) # ys)"

fun split_once :: "char \<Rightarrow> string \<Rightarrow> (string \<times> string) option" where
  "split_once c [] = None"
| "split_once c (x # xs) =
     (if x = c then Some ([], xs) else map_option (\<lambda>(a, b). (x # a, b)) (split_once c xs))"

text \<open>\<open>parts.join(sep)\<close>.\<close>

fun join_str :: "string \<Rightarrow> string list \<Rightarrow> string" where
  "join_str sep [] = []"
| "join_str sep [x] = x"
| "join_str sep (x # y # ys) = x @ sep @ join_str sep (y # ys)"

lemma split_on_not_Nil [simp]: "split_on c s \<noteq> []"
  by (cases s) (auto split: list.splits)

lemma split_on_pieces: "p \<in> set (split_on c s) \<Longrightarrow> c \<notin> set p"
  by (induction s arbitrary: p) (auto split: if_splits list.splits)

lemma split_on_subset: "p \<in> set (split_on c s) \<Longrightarrow> set p \<subseteq> set s"
proof (induction s arbitrary: p)
  case Nil
  then show ?case by simp
next
  case (Cons x xs)
  obtain y ys where y: "split_on c xs = y # ys"
    by (meson neq_Nil_conv split_on_not_Nil)
  with Cons show ?case by (fastforce split: if_splits)
qed

lemma join_str_Cons: "xs \<noteq> [] \<Longrightarrow> join_str sep (x # xs) = x @ sep @ join_str sep xs"
  by (cases xs) auto

lemma join_str_Cons_char:
  "xs \<noteq> [] \<Longrightarrow> join_str sep ((c # x) # xs) = c # join_str sep (x # xs)"
  by (cases xs) auto

lemma join_split_on [simp]: "join_str [c] (split_on c s) = s"
proof (induction s)
  case Nil
  then show ?case by simp
next
  case (Cons x xs)
  obtain y ys where y: "split_on c xs = y # ys"
    by (meson neq_Nil_conv split_on_not_Nil)
  show ?case
  proof (cases "x = c")
    case True
    with Cons y show ?thesis by (simp add: join_str_Cons)
  next
    case False
    with Cons y show ?thesis by (cases ys) auto
  qed
qed

lemma split_on_no_sep: "c \<notin> set s \<Longrightarrow> split_on c s = [s]"
  by (induction s) auto

lemma split_once_iff: "split_once c s = Some (a, b) \<longleftrightarrow> s = a @ c # b \<and> c \<notin> set a"
proof (induction s arbitrary: a)
  case Nil
  then show ?case by simp
next
  case (Cons x xs)
  then show ?case by (cases a) (auto split: if_splits)
qed

subsection \<open>White space\<close>

text \<open>
  The UTF-8 encodings of the characters with the Unicode property White_Space, which is what
  \<open>str::trim\<close> and \<open>char::is_whitespace\<close> use.
\<close>

definition unicode_ws :: "string list" where
  "unicode_ws =
     [[CHR 0x09], [CHR 0x0A], [CHR 0x0B], [CHR 0x0C], [CHR 0x0D], [CHR 0x20],
      [CHR 0xC2, CHR 0x85], [CHR 0xC2, CHR 0xA0], [CHR 0xE1, CHR 0x9A, CHR 0x80],
      [CHR 0xE2, CHR 0x80, CHR 0x80], [CHR 0xE2, CHR 0x80, CHR 0x81],
      [CHR 0xE2, CHR 0x80, CHR 0x82], [CHR 0xE2, CHR 0x80, CHR 0x83],
      [CHR 0xE2, CHR 0x80, CHR 0x84], [CHR 0xE2, CHR 0x80, CHR 0x85],
      [CHR 0xE2, CHR 0x80, CHR 0x86], [CHR 0xE2, CHR 0x80, CHR 0x87],
      [CHR 0xE2, CHR 0x80, CHR 0x88], [CHR 0xE2, CHR 0x80, CHR 0x89],
      [CHR 0xE2, CHR 0x80, CHR 0x8A], [CHR 0xE2, CHR 0x80, CHR 0xA8],
      [CHR 0xE2, CHR 0x80, CHR 0xA9], [CHR 0xE2, CHR 0x80, CHR 0xAF],
      [CHR 0xE2, CHR 0x81, CHR 0x9F], [CHR 0xE3, CHR 0x80, CHR 0x80]]"

definition ws_len :: "string list \<Rightarrow> string \<Rightarrow> nat" where
  "ws_len ws s = (case find (\<lambda>w. starts_with w s) ws of None \<Rightarrow> 0 | Some w \<Rightarrow> length w)"

fun strip_ws :: "string list \<Rightarrow> string \<Rightarrow> string" where
  "strip_ws ws [] = []"
| "strip_ws ws (c # cs) =
     (if ws_len ws (c # cs) = 0 then c # cs
      else strip_ws ws (drop (ws_len ws (c # cs)) (c # cs)))"

declare strip_ws.simps(2) [simp del]

definition trim_start :: "string \<Rightarrow> string" where
  "trim_start s = strip_ws unicode_ws s"

definition trim_end :: "string \<Rightarrow> string" where
  "trim_end s = rev (strip_ws (map rev unicode_ws) (rev s))"

definition trim :: "string \<Rightarrow> string" where
  "trim s = trim_end (trim_start s)"

lemma strip_ws_set: "set (strip_ws ws s) \<subseteq> set s"
proof (induction ws s rule: strip_ws.induct)
  case (2 ws c cs)
  let ?k = "ws_len ws (c # cs)"
  show ?case
  proof (cases "?k = 0")
    case False
    then have "set (strip_ws ws (drop ?k (c # cs))) \<subseteq> set (drop ?k (c # cs))" by (rule 2)
    also have "\<dots> \<subseteq> set (c # cs)" by (rule set_drop_subset)
    finally show ?thesis using False by (simp add: strip_ws.simps(2))
  qed (simp add: strip_ws.simps(2))
qed simp

lemma trim_set: "set (trim s) \<subseteq> set s"
proof -
  have "set (trim_end t) \<subseteq> set t" for t
    using strip_ws_set [of "map rev unicode_ws" "rev t"] by (simp add: trim_end_def)
  moreover have "set (trim_start s) \<subseteq> set s"
    by (simp add: trim_start_def strip_ws_set)
  ultimately show ?thesis unfolding trim_def by blast
qed

text \<open>Text whose bytes are all printable ASCII other than the space is left as it is.\<close>

definition is_graphic :: "char \<Rightarrow> bool" where
  "is_graphic c = (33 \<le> byte c \<and> byte c \<le> 126)"

lemma ws_first_byte: "w \<in> set unicode_ws \<Longrightarrow> w \<noteq> [] \<and> \<not> is_graphic (hd w) \<and> \<not> is_graphic (last w)"
  by (simp add: unicode_ws_def is_graphic_def) (elim disjE; simp)

lemma ws_len_graphic: "is_graphic c \<Longrightarrow> ws_len unicode_ws (c # cs) = 0"
  and ws_len_graphic_rev: "is_graphic c \<Longrightarrow> ws_len (map rev unicode_ws) (c # cs) = 0"
proof -
  have nil: "find P xs = None" if "\<And>x. x \<in> set xs \<Longrightarrow> \<not> P x" for P and xs :: "string list"
    using that by (simp add: find_None_iff)
  show "ws_len unicode_ws (c # cs) = 0" if "is_graphic c"
  proof -
    have "find (\<lambda>w. starts_with w (c # cs)) unicode_ws = None"
    proof (rule nil)
      fix w assume w: "w \<in> set unicode_ws"
      show "\<not> starts_with w (c # cs)"
        using ws_first_byte [OF w] that by (cases w) (auto simp: starts_with_iff)
    qed
    then show ?thesis by (simp add: ws_len_def)
  qed
  show "ws_len (map rev unicode_ws) (c # cs) = 0" if "is_graphic c"
  proof -
    have "find (\<lambda>w. starts_with w (c # cs)) (map rev unicode_ws) = None"
    proof (rule nil)
      fix w assume "w \<in> set (map rev unicode_ws)"
      then obtain v where v: "v \<in> set unicode_ws" "w = rev v" by auto
      show "\<not> starts_with w (c # cs)"
        using ws_first_byte [OF v(1)] that v(2)
        by (cases v rule: rev_cases) (auto simp: starts_with_iff)
    qed
    then show ?thesis by (simp add: ws_len_def)
  qed
qed

lemma trim_start_graphic: "s = [] \<or> is_graphic (hd s) \<Longrightarrow> trim_start s = s"
  by (cases s) (auto simp: trim_start_def strip_ws.simps(2) ws_len_graphic)

lemma trim_end_graphic: "s = [] \<or> is_graphic (last s) \<Longrightarrow> trim_end s = s"
  by (cases s rule: rev_cases) (auto simp: trim_end_def strip_ws.simps(2) ws_len_graphic_rev)

lemma trim_graphic [simp]: "list_all is_graphic s \<Longrightarrow> trim s = s"
  unfolding trim_def
  by (metis list.set_sel(1) last_in_set list_all_iff trim_end_graphic trim_start_graphic)

end
