(* ===== verification/SE_Numbers.thy ===== *)
theory SE_Numbers
  imports SE_Text
begin

section \<open>Numbers as text, lines and characters\<close>

text \<open>
  \<open>Display\<close> and \<open>FromStr\<close> for the integers, \<open>char::to_digit\<close>, \<open>str::lines\<close>, and the operations
  that see characters rather than bytes: \<open>str::split_at\<close> (which panics between the bytes of a
  character), \<open>chars().count()\<close> and \<open>chars().take(n)\<close>.
\<close>

subsection \<open>Character classes\<close>

definition is_ascii_lower :: "char \<Rightarrow> bool" where
  "is_ascii_lower c = (97 \<le> byte c \<and> byte c \<le> 122)"

definition is_ascii_digit :: "char \<Rightarrow> bool" where
  "is_ascii_digit c = (48 \<le> byte c \<and> byte c \<le> 57)"

definition to_ascii_lower :: "char \<Rightarrow> char" where
  "to_ascii_lower c = (if 65 \<le> byte c \<and> byte c \<le> 90 then char_of (byte c + 32) else c)"

definition eq_ignore_case :: "string \<Rightarrow> string \<Rightarrow> bool" where
  "eq_ignore_case a b = (map to_ascii_lower a = map to_ascii_lower b)"

definition digit_val :: "nat \<Rightarrow> char \<Rightarrow> nat option" where
  "digit_val radix c =
     (let b = byte c;
          v = (if 48 \<le> b \<and> b \<le> 57 then Some (b - 48)
               else if 97 \<le> b \<and> b \<le> 122 then Some (b - 87)
               else if 65 \<le> b \<and> b \<le> 90 then Some (b - 55) else None)
      in case v of None \<Rightarrow> None | Some d \<Rightarrow> if d < radix then Some d else None)"

definition is_ascii_hexdigit :: "char \<Rightarrow> bool" where
  "is_ascii_hexdigit c = (digit_val 16 c \<noteq> None)"

lemma digit_val_bound: "digit_val r c = Some d \<Longrightarrow> d < r"
  by (auto simp: digit_val_def Let_def split: if_splits)

subsection \<open>Printing\<close>

definition digit_char :: "nat \<Rightarrow> char" where
  "digit_char d = (if d < 10 then char_of (48 + d) else char_of (87 + d))"

fun show_radix :: "nat \<Rightarrow> nat \<Rightarrow> string" where
  "show_radix r n =
     (if n < r \<or> r < 2 then [digit_char n] else show_radix r (n div r) @ [digit_char (n mod r)])"

declare show_radix.simps [simp del]

abbreviation show_nat :: "nat \<Rightarrow> string" where
  "show_nat n \<equiv> show_radix 10 n"

abbreviation show_hex :: "nat \<Rightarrow> string" where
  "show_hex n \<equiv> show_radix 16 n"

definition show_int :: "int \<Rightarrow> string" where
  "show_int i = (if i < 0 then ''-'' @ show_nat (nat (- i)) else show_nat (nat i))"

lemma digit_val_char: "d < r \<Longrightarrow> r \<le> 36 \<Longrightarrow> digit_val r (digit_char d) = Some d"
  by (auto simp: digit_val_def digit_char_def Let_def)

lemma show_radix_not_Nil [simp]: "show_radix r n \<noteq> []"
  by (subst show_radix.simps) auto

lemma show_radix_digits:
  "2 \<le> r \<Longrightarrow> r \<le> 36 \<Longrightarrow> c \<in> set (show_radix r n) \<Longrightarrow> \<exists>d < r. c = digit_char d"
proof (induction n rule: less_induct)
  case (less n)
  show ?case
  proof (cases "n < r")
    case True
    with less.prems show ?thesis by (auto simp: show_radix.simps [of r n])
  next
    case False
    then have "n div r < n" using less.prems by (intro div_less_dividend) auto
    moreover have "c \<in> set (show_radix r (n div r)) \<or> c = digit_char (n mod r)"
      using less.prems False by (auto simp: show_radix.simps [of r n])
    moreover have "n mod r < r" using less.prems by simp
    ultimately show ?thesis using less.IH less.prems by blast
  qed
qed

lemma digit_char_graphic: "d < 36 \<Longrightarrow> is_graphic (digit_char d)"
  by (auto simp: is_graphic_def digit_char_def)

lemma show_nat_ascii: "c \<in> set (show_nat n) \<Longrightarrow> is_ascii_digit c"
  using show_radix_digits [of 10 c n] by (auto simp: is_ascii_digit_def digit_char_def)

lemma show_nat_graphic: "list_all is_graphic (show_nat n)"
  by (auto simp: list_all_iff is_ascii_digit_def is_graphic_def dest: show_nat_ascii)

lemma show_nat_no_sign: "CHR ''+'' \<notin> set (show_nat n)" "CHR ''-'' \<notin> set (show_nat n)"
    "CHR ''.'' \<notin> set (show_nat n)"
  using show_nat_ascii [of _ n] by (force simp: is_ascii_digit_def)+

subsection \<open>Parsing\<close>

text \<open>
  \<open>from_str_radix(_, 10)\<close> on an unsigned type with greatest value \<open>mx\<close>: an optional \<open>+\<close>, then
  at least one digit, with every multiplication and addition checked.
\<close>

fun parse_digits :: "nat \<Rightarrow> nat \<Rightarrow> string \<Rightarrow> nat option" where
  "parse_digits mx acc [] = Some acc"
| "parse_digits mx acc (c # cs) =
     (case digit_val 10 c of
        None \<Rightarrow> None
      | Some d \<Rightarrow> if mx < acc * 10 + d then None else parse_digits mx (acc * 10 + d) cs)"

definition parse_unsigned :: "nat \<Rightarrow> string \<Rightarrow> nat option" where
  "parse_unsigned mx s =
     (case s of
        [] \<Rightarrow> None
      | c # cs \<Rightarrow>
          if c = CHR ''+'' then (if cs = [] then None else parse_digits mx 0 cs)
          else parse_digits mx 0 s)"

definition parse_u32 :: "string \<Rightarrow> u32 option" where
  "parse_u32 s = map_option of_nat (parse_unsigned (2 ^ 32 - 1) s)"

text \<open>The signed form, for \<open>i64\<close>: the digits of a negative number may reach \<open>2 ^ 63\<close>.\<close>

definition parse_i64 :: "string \<Rightarrow> int option" where
  "parse_i64 s =
     (case s of
        [] \<Rightarrow> None
      | c # cs \<Rightarrow>
          if c = CHR ''-'' then
            (if cs = [] then None else map_option (\<lambda>n. - int n) (parse_digits (2 ^ 63) 0 cs))
          else map_option int (parse_unsigned (2 ^ 63 - 1) s))"

lemma parse_digits_append:
  "parse_digits mx acc (xs @ ys) =
     (case parse_digits mx acc xs of None \<Rightarrow> None | Some n \<Rightarrow> parse_digits mx n ys)"
  by (induction xs arbitrary: acc) (auto split: option.splits)

lemma parse_digits_le: "acc \<le> mx \<Longrightarrow> parse_digits mx acc s = Some n \<Longrightarrow> n \<le> mx"
  by (induction s arbitrary: acc) (auto simp: not_less split: option.splits if_splits)

lemma parse_digits_show: "n \<le> mx \<Longrightarrow> parse_digits mx 0 (show_nat n) = Some n"
proof (induction n rule: less_induct)
  case (less n)
  show ?case
  proof (cases "n < 10")
    case True
    with less.prems show ?thesis
      by (subst show_radix.simps) (simp add: digit_val_char)
  next
    case False
    then have "n div 10 < n" "n div 10 \<le> mx" using less.prems by auto
    then have "parse_digits mx 0 (show_nat (n div 10)) = Some (n div 10)" by (rule less.IH)
    moreover have "n div 10 * 10 + n mod 10 = n" by simp
    ultimately show ?thesis using False less.prems
      by (subst show_radix.simps) (simp add: parse_digits_append digit_val_char)
  qed
qed

lemma parse_unsigned_le: "parse_unsigned mx s = Some n \<Longrightarrow> n \<le> mx"
  by (auto simp: parse_unsigned_def simp del: parse_digits.simps
      dest: parse_digits_le [rotated] split: list.splits if_splits)

lemma parse_unsigned_show: "n \<le> mx \<Longrightarrow> parse_unsigned mx (show_nat n) = Some n"
proof -
  assume "n \<le> mx"
  obtain c cs where "show_nat n = c # cs" by (meson neq_Nil_conv show_radix_not_Nil)
  moreover from this have "c \<noteq> CHR ''+''" using show_nat_no_sign(1) [of n] by auto
  ultimately show ?thesis
    using parse_digits_show [OF \<open>n \<le> mx\<close>] by (simp add: parse_unsigned_def)
qed

definition show_u32 :: "u32 \<Rightarrow> string" where
  "show_u32 w = show_nat (unat w)"

lemma parse_u32_show [simp]: "parse_u32 (show_u32 w) = Some w"
proof -
  have "unat w < 2 ^ 32" using unsigned_less [of w] by simp
  then have "unat w \<le> 2 ^ 32 - 1" by linarith
  then show ?thesis by (simp add: parse_u32_def show_u32_def parse_unsigned_show)
qed

subsection \<open>Lines\<close>

text \<open>\<open>str::lines\<close>: a line ends at \<open>\n\<close> or \<open>\r\n\<close>; a last line without an end counts unless empty.\<close>

definition strip_cr :: "string \<Rightarrow> string" where
  "strip_cr l = (if l \<noteq> [] \<and> last l = CHR 0x0D then butlast l else l)"

definition lines_of :: "string \<Rightarrow> string list" where
  "lines_of s =
     (let ps = split_on (CHR 0x0A) s
      in map strip_cr (butlast ps) @ (if last ps = [] then [] else [last ps]))"

subsection \<open>Characters in bytes\<close>

definition is_cont_byte :: "char \<Rightarrow> bool" where
  "is_cont_byte c = (128 \<le> byte c \<and> byte c < 192)"

definition is_char_boundary :: "string \<Rightarrow> nat \<Rightarrow> bool" where
  "is_char_boundary s i =
     (i = 0 \<or> i = length s \<or> (i < length s \<and> \<not> is_cont_byte (s ! i)))"

text \<open>\<open>s.split_at(i)\<close>; \<open>None\<close> is its panic.\<close>

definition split_at :: "nat \<Rightarrow> string \<Rightarrow> (string \<times> string) option" where
  "split_at i s = (if is_char_boundary s i then Some (take i s, drop i s) else None)"

definition char_count :: "string \<Rightarrow> nat" where
  "char_count s = length (filter (\<lambda>c. \<not> is_cont_byte c) s)"

fun take_chars :: "nat \<Rightarrow> string \<Rightarrow> string" where
  "take_chars n [] = []"
| "take_chars n (c # cs) =
     (if is_cont_byte c then c # take_chars n cs
      else case n of 0 \<Rightarrow> [] | Suc m \<Rightarrow> c # take_chars m cs)"

lemma char_count_le_length: "char_count s \<le> length s"
  by (simp add: char_count_def)

lemma char_count_take_chars: "char_count (take_chars n s) \<le> n"
  by (induction n s rule: take_chars.induct) (auto simp: char_count_def split: nat.splits)

lemma take_chars_prefix: "\<exists>t. s = take_chars n s @ t"
  by (induction n s rule: take_chars.induct) (auto split: nat.splits)

lemma take_chars_short: "char_count s \<le> n \<Longrightarrow> take_chars n s = s"
  by (induction n s rule: take_chars.induct)
    (auto simp: char_count_def split: nat.splits if_splits)

text \<open>The equations that evaluate these operations on concrete text with the simplifier.\<close>

lemmas text_eval = split_at_def is_char_boundary_def is_cont_byte_def digit_val_def
  parse_u32_def parse_unsigned_def show_u32_def show_radix.simps digit_char_def char_of_eq_iff

end
