(* ===== verification/Spec_Arch.thy ===== *)
theory Spec_Arch
  imports SE_Numbers
begin

section \<open>Architecture and API-version values\<close>

text \<open>
  \<open>super-engine-spec/src/arch.rs\<close>: the AMD target \<open>GfxSpec\<close> and the Vulkan floor \<open>VulkanApi\<close>, each
  with its derived order, its \<open>Display\<close> and its \<open>FromStr\<close>. \<open>GfxSpec::from_str\<close> splits its text at a
  byte offset, which panics when the offset falls inside a character; \<open>None\<close> is that panic, so the
  result type says for which texts the parser returns at all.
\<close>

subsection \<open>The values and their orders\<close>

datatype gfx_spec = GfxSpec (gfx_major: u32) (gfx_minor: u32) (gfx_step: u32)

datatype vulkan_api = VulkanApi (vk_major: u32) (vk_minor: u32)

text \<open>\<open>#[derive(PartialOrd, Ord)]\<close> compares the fields in declaration order.\<close>

instantiation gfx_spec :: linorder
begin

definition less_eq_gfx_spec :: "gfx_spec \<Rightarrow> gfx_spec \<Rightarrow> bool" where
  "less_eq_gfx_spec a b =
     (gfx_major a < gfx_major b
      \<or> (gfx_major a = gfx_major b
         \<and> (gfx_minor a < gfx_minor b
            \<or> (gfx_minor a = gfx_minor b \<and> gfx_step a \<le> gfx_step b))))"

definition less_gfx_spec :: "gfx_spec \<Rightarrow> gfx_spec \<Rightarrow> bool" where
  "less_gfx_spec a b = (a \<le> b \<and> \<not> b \<le> (a::gfx_spec))"

instance
  by standard (auto simp: less_eq_gfx_spec_def less_gfx_spec_def gfx_spec.expand)

end

instantiation vulkan_api :: linorder
begin

definition less_eq_vulkan_api :: "vulkan_api \<Rightarrow> vulkan_api \<Rightarrow> bool" where
  "less_eq_vulkan_api a b =
     (vk_major a < vk_major b \<or> (vk_major a = vk_major b \<and> vk_minor a \<le> vk_minor b))"

definition less_vulkan_api :: "vulkan_api \<Rightarrow> vulkan_api \<Rightarrow> bool" where
  "less_vulkan_api a b = (a \<le> b \<and> \<not> b \<le> (a::vulkan_api))"

instance
  by standard (auto simp: less_eq_vulkan_api_def less_vulkan_api_def vulkan_api.expand)

end

subsection \<open>Display and FromStr\<close>

definition show_gfx :: "gfx_spec \<Rightarrow> string" where
  "show_gfx g =
     ''gfx'' @ show_u32 (gfx_major g) @ show_hex (unat (gfx_minor g)) @ show_hex (unat (gfx_step g))"

datatype gfx_error =
    NotGfxTarget string
  | GfxTooShort string
  | BadGfxTarget string
  | BadGfxMajor string

text \<open>The closure \<open>hex\<close> applied to \<open>tail.next()\<close>: a character that is a hex digit, and the rest.\<close>

definition next_hex :: "string \<Rightarrow> (u32 \<times> string) option" where
  "next_hex tail =
     (case tail of
        [] \<Rightarrow> None
      | c # cs \<Rightarrow> map_option (\<lambda>d. (of_nat d, cs)) (digit_val 16 c))"

definition gfx_from_str :: "string \<Rightarrow> (gfx_error + gfx_spec) option" where
  "gfx_from_str s =
     (case strip_prefix ''gfx'' s of
        None \<Rightarrow> Some (Inl (NotGfxTarget s))
      | Some digits \<Rightarrow>
          if length digits < 3 then Some (Inl (GfxTooShort s))
          else case split_at (length digits - 2) digits of
            None \<Rightarrow> None
          | Some (major, tail) \<Rightarrow> Some (
              case next_hex tail of
                None \<Rightarrow> Inl (BadGfxTarget s)
              | Some (minor, tail2) \<Rightarrow>
                  (case next_hex tail2 of
                     None \<Rightarrow> Inl (BadGfxTarget s)
                   | Some (step, _) \<Rightarrow>
                       (case parse_u32 major of
                          None \<Rightarrow> Inl (BadGfxMajor s)
                        | Some m \<Rightarrow> Inr (GfxSpec m minor step)))))"

definition show_vulkan :: "vulkan_api \<Rightarrow> string" where
  "show_vulkan v = show_u32 (vk_major v) @ ''.'' @ show_u32 (vk_minor v)"

datatype vulkan_error =
    NotMajorMinor string
  | BadVulkanMajor string
  | BadVulkanMinor string

definition vulkan_from_str :: "string \<Rightarrow> vulkan_error + vulkan_api" where
  "vulkan_from_str s =
     (case split_once (CHR ''.'') s of
        None \<Rightarrow> Inl (NotMajorMinor s)
      | Some (major, minor) \<Rightarrow>
          (case parse_u32 (trim major) of
             None \<Rightarrow> Inl (BadVulkanMajor s)
           | Some a \<Rightarrow>
               (case parse_u32 (trim minor) of
                  None \<Rightarrow> Inl (BadVulkanMinor s)
                | Some b \<Rightarrow> Inr (VulkanApi a b))))"

text \<open>\<open>text.parse().ok()\<close> where the parser returns; used by the compatibility check on index text.\<close>

definition gfx_parse_ok :: "string \<Rightarrow> gfx_spec option" where
  "gfx_parse_ok s = (case gfx_from_str s of Some (Inr g) \<Rightarrow> Some g | _ \<Rightarrow> None)"

subsection \<open>Lemmas\<close>

lemma show_hex_digit: "n < 16 \<Longrightarrow> show_hex n = [digit_char n]"
  by (subst show_radix.simps) simp

lemma digit_char_not_cont: "d < 36 \<Longrightarrow> \<not> is_cont_byte (digit_char d)"
  by (auto simp: is_cont_byte_def digit_char_def)

lemma next_hex_digit_char:
  "n < 16 \<Longrightarrow> next_hex (digit_char n # cs) = Some (of_nat n, cs)"
  by (simp add: next_hex_def digit_val_char)

lemma next_hex_bound: "next_hex t = Some (d, r) \<Longrightarrow> unat d < 16"
  by (auto simp: next_hex_def unat_of_nat take_bit_nat_eq_self dest!: digit_val_bound
      split: list.splits)

lemma show_u32_graphic [simp]: "trim (show_u32 w) = show_u32 w"
  by (simp add: show_u32_def show_nat_graphic)

lemma show_u32_not_Nil [simp]: "show_u32 w \<noteq> []"
  by (simp add: show_u32_def)

lemma show_u32_no_dot: "CHR ''.'' \<notin> set (show_u32 w)"
  by (simp add: show_u32_def show_nat_no_sign(3))

text \<open>Exactly when the parser panics: the split point is inside a character.\<close>

lemma gfx_from_str_panic_iff:
  "gfx_from_str s = None \<longleftrightarrow>
     (\<exists>d. s = ''gfx'' @ d \<and> 3 \<le> length d \<and> is_cont_byte (d ! (length d - 2)))"
proof (cases "strip_prefix ''gfx'' s")
  case None
  then show ?thesis by (auto simp: gfx_from_str_def)
next
  case (Some d)
  then have s: "s = ''gfx'' @ d" by (simp only: strip_prefix_iff)
  have "gfx_from_str s = None \<longleftrightarrow> 3 \<le> length d \<and> \<not> is_char_boundary d (length d - 2)"
    unfolding gfx_from_str_def Some by (auto simp: split_at_def)
  also have "\<dots> \<longleftrightarrow> 3 \<le> length d \<and> is_cont_byte (d ! (length d - 2))"
    by (auto simp: is_char_boundary_def)
  finally show ?thesis using s by auto
qed

lemma gfx_from_str_parts:
  assumes "gfx_from_str s = Some (Inr g)"
  obtains t minor t2 step r where "next_hex t = Some (minor, t2)" "next_hex t2 = Some (step, r)"
    "gfx_minor g = minor" "gfx_step g = step"
proof -
  obtain digits where d: "strip_prefix ''gfx'' s = Some digits"
    using assms by (cases "strip_prefix ''gfx'' s") (simp_all add: gfx_from_str_def)
  then obtain major tail where m: "split_at (length digits - 2) digits = Some (major, tail)"
      "\<not> length digits < 3"
    using assms by (cases "split_at (length digits - 2) digits")
      (auto simp: gfx_from_str_def split: if_splits)
  then obtain minor t2 where n: "next_hex tail = Some (minor, t2)"
    using assms d by (cases "next_hex tail") (auto simp: gfx_from_str_def)
  then obtain step r where t: "next_hex t2 = Some (step, r)"
    using assms d m by (cases "next_hex t2") (auto simp: gfx_from_str_def)
  then have "gfx_minor g = minor \<and> gfx_step g = step"
    using assms d m n by (cases "parse_u32 major") (auto simp: gfx_from_str_def)
  with n t that show thesis by blast
qed

subsection \<open>Properties\<close>

text \<open>
  Printing an AMD target and parsing the text back gives the same target, for every target
  the parser can produce; and everything the parser produces has one-hex-digit minor and stepping,
  so the printed form is again in its domain.
\<close>

theorem gfx_roundtrip:
  "gfx_from_str s = Some (Inr g) \<Longrightarrow>
     unat (gfx_minor g) < 16 \<and> unat (gfx_step g) < 16 \<and> gfx_from_str (show_gfx g) = Some (Inr g)"
proof -
  assume p: "gfx_from_str s = Some (Inr g)"
  have b: "unat (gfx_minor g) < 16" "unat (gfx_step g) < 16"
    using p by (blast elim: gfx_from_str_parts dest: next_hex_bound)+
  obtain d where d: "show_u32 (gfx_major g) = d" "d \<noteq> []" by simp
  let ?t = "[digit_char (unat (gfx_minor g)), digit_char (unat (gfx_step g))]"
  have show_eq: "show_gfx g = ''gfx'' @ (d @ ?t)"
    using b d by (simp add: show_gfx_def show_hex_digit)
  have "is_char_boundary (d @ ?t) (length (d @ ?t) - 2)"
    using b(1) digit_char_not_cont [of "unat (gfx_minor g)"] by (simp add: is_char_boundary_def)
  then have "split_at (length (d @ ?t) - 2) (d @ ?t) = Some (d, ?t)"
    by (simp add: split_at_def)
  moreover have "\<not> length (d @ ?t) < 3" using d(2) by (cases d) auto
  moreover have "parse_u32 d = Some (gfx_major g)" using d(1) parse_u32_show by metis
  ultimately have "gfx_from_str (show_gfx g) = Some (Inr g)"
    unfolding gfx_from_str_def show_eq strip_prefix_append option.case
    by (simp add: next_hex_digit_char b)
  with b show ?thesis by simp
qed

theorem gfx_roundtrip_witness:
  "gfx_from_str ''gfx90a'' = Some (Inr (GfxSpec 9 0 10))
   \<and> show_gfx (GfxSpec 9 0 10) = ''gfx90a''
   \<and> gfx_from_str (show_gfx (GfxSpec 9 0 10)) = Some (Inr (GfxSpec 9 0 10))"
proof -
  have h: "gfx_from_str ''gfx90a'' = Some (Inr (GfxSpec 9 0 10))"
    by (simp add: gfx_from_str_def next_hex_def text_eval)
  have "show_gfx (GfxSpec 9 0 10) = ''gfx90a''"
    by (simp add: show_gfx_def text_eval)
  with h show ?thesis using gfx_roundtrip [OF h] by blast
qed

text \<open>
  The AMD target parser does not return on every text: it panics exactly when the text is
  \<open>gfx\<close> followed by at least three bytes of which the last but one is in the middle of a
  character. On ASCII text it always returns.
\<close>

theorem gfx_parse_panics_iff:
  "(gfx_from_str s = None \<longleftrightarrow>
      (\<exists>d. s = ''gfx'' @ d \<and> 3 \<le> length d \<and> is_cont_byte (d ! (length d - 2))))
   \<and> (\<exists>r. gfx_from_str (map (\<lambda>c. if byte c < 128 then c else CHR ''?'') s) = Some r)
   \<and> gfx_from_str (''gfx1'' @ [CHR 0xE2, CHR 0x82, CHR 0xAC]) = None"
proof -
  let ?a = "map (\<lambda>c. if byte c < 128 then c else CHR ''?'') s"
  have "gfx_from_str ?a \<noteq> None"
  proof
    assume "gfx_from_str ?a = None"
    then obtain d where d: "?a = ''gfx'' @ d" "3 \<le> length d" "is_cont_byte (d ! (length d - 2))"
      by (auto simp: gfx_from_str_panic_iff)
    have "d ! (length d - 2) \<in> set ?a" unfolding d(1) using d(2) by simp
    with d(3) show False by (auto simp: is_cont_byte_def)
  qed
  moreover have "gfx_from_str (''gfx1'' @ [CHR 0xE2, CHR 0x82, CHR 0xAC]) = None" by code_simp
  ultimately show ?thesis using gfx_from_str_panic_iff [of s] by auto
qed

text \<open>
  A Vulkan floor survives printing and parsing, and the printed text is the only reading:
  two floors that print alike are the same floor.
\<close>

theorem vulkan_roundtrip:
  "vulkan_from_str (show_vulkan v) = Inr v
   \<and> (show_vulkan v = show_vulkan w \<longleftrightarrow> v = w)"
proof -
  have r: "vulkan_from_str (show_vulkan u) = Inr u" for u
  proof -
    have "split_once (CHR ''.'') (show_vulkan u) = Some (show_u32 (vk_major u), show_u32 (vk_minor u))"
      by (simp add: show_vulkan_def split_once_iff show_u32_no_dot)
    then show ?thesis by (simp add: vulkan_from_str_def)
  qed
  then show ?thesis by (metis sum.inject(2))
qed

end
