(* ===== verification/Spec_Paths.thy ===== *)
theory Spec_Paths
  imports SE_Numbers
begin

section \<open>Safe paths and backend ids\<close>

text \<open>
  \<open>super-engine-spec/src/safe_path.rs\<close> and \<open>backend_id.rs\<close>: the guards a manifest's id, entry
  point and file destinations pass before they are joined onto the backends directory. The
  specification is \<open>resolve\<close>, which walks a path component by component the way the kernel does
  (\<open>..\<close> goes up, \<open>.\<close> and the empty component stay): a safe path never climbs, and lands below the
  directory it starts from.
\<close>

subsection \<open>safe\_path.rs\<close>

definition is_safe_component :: "string \<Rightarrow> bool" where
  "is_safe_component s =
     (s \<noteq> [] \<and> s \<noteq> ''.'' \<and> s \<noteq> ''..''
      \<and> \<not> contains_char (CHR ''/'') s
      \<and> \<not> contains_char (CHR 0x5C) s
      \<and> \<not> contains_char (CHR 0x00) s)"

text \<open>The loop over the components, with \<open>saw_component\<close> as its accumulator.\<close>

fun components_safe :: "bool \<Rightarrow> string list \<Rightarrow> bool" where
  "components_safe saw_component [] = saw_component"
| "components_safe saw_component (c # cs) =
     (if c = [] \<or> c = ''.'' \<or> c = ''..'' then False else components_safe True cs)"

definition is_safe_relative_path :: "string \<Rightarrow> bool" where
  "is_safe_relative_path s =
     (if s = [] \<or> starts_with ''/'' s \<or> contains_char (CHR 0x5C) s \<or> contains_char (CHR 0x00) s
      then False
      else components_safe False (split_on (CHR ''/'') s))"

lemma components_safe_iff:
  "components_safe saw cs \<longleftrightarrow> list_all (\<lambda>c. c \<noteq> [] \<and> c \<noteq> ''.'' \<and> c \<noteq> ''..'') cs \<and> (saw \<or> cs \<noteq> [])"
  by (induction cs arbitrary: saw) auto

lemma safe_relative_components:
  "is_safe_relative_path s \<longleftrightarrow> s \<noteq> [] \<and> CHR 0x5C \<notin> set s \<and> CHR 0x00 \<notin> set s
     \<and> list_all is_safe_component (split_on (CHR ''/'') s)"
proof (cases "starts_with ''/'' s")
  case True
  then obtain r where "s = CHR ''/'' # r" by (auto simp: starts_with_iff)
  then show ?thesis by (simp add: is_safe_relative_path_def is_safe_component_def starts_with_iff)
next
  case False
  have sub: "CHR 0x5C \<notin> set p" "CHR 0x00 \<notin> set p" "CHR ''/'' \<notin> set p"
    if "p \<in> set (split_on (CHR ''/'') s)" "CHR 0x5C \<notin> set s" "CHR 0x00 \<notin> set s" for p
    using that split_on_subset [OF that(1)] split_on_pieces [OF that(1)] by auto
  from False show ?thesis
    by (auto simp: is_safe_relative_path_def components_safe_iff list_all_iff
        is_safe_component_def contains_char_def dest: sub)
qed

subsection \<open>What a join of a path does\<close>

text \<open>
  \<open>resolve base cs\<close> is the directory reached from \<open>base\<close> (the names from the root down) along the
  components \<open>cs\<close>. \<open>None\<close> stands for a walk that would leave \<open>base\<close>'s root.
\<close>

fun resolve :: "string list \<Rightarrow> string list \<Rightarrow> string list option" where
  "resolve base [] = Some base"
| "resolve base (c # cs) =
     (if c = [] \<or> c = ''.'' then resolve base cs
      else if c = ''..'' then (if base = [] then None else resolve (butlast base) cs)
      else resolve (base @ [c]) cs)"

lemma resolve_safe: "list_all is_safe_component cs \<Longrightarrow> resolve base cs = Some (base @ cs)"
  by (induction cs arbitrary: base) (auto simp: is_safe_component_def)

lemma resolve_component: "is_safe_component s \<Longrightarrow> resolve base (split_on (CHR ''/'') s) = Some (base @ [s])"
  by (simp add: is_safe_component_def contains_char_def split_on_no_sep)

subsection \<open>backend\_id.rs\<close>

definition backend_id_max_len :: nat where
  "backend_id_max_len = 255"

definition id_segment_ok :: "string \<Rightarrow> bool" where
  "id_segment_ok seg =
     ((case seg of [] \<Rightarrow> False | c # _ \<Rightarrow> is_ascii_lower c)
      \<and> \<not> (seg \<noteq> [] \<and> last seg = CHR ''-'')
      \<and> list_all (\<lambda>c. is_ascii_lower c \<or> is_ascii_digit c \<or> c = CHR ''-'') seg)"

definition backend_id_is_valid :: "string \<Rightarrow> bool" where
  "backend_id_is_valid s =
     (if s = [] \<or> length s > backend_id_max_len then False
      else let segments = split_on (CHR ''.'') s
           in if length segments < 3 then False else list_all id_segment_ok segments)"

lemma id_segment_chars:
  "id_segment_ok seg \<Longrightarrow> c \<in> set seg \<Longrightarrow> is_ascii_lower c \<or> is_ascii_digit c \<or> c = CHR ''-''"
  by (auto simp: id_segment_ok_def list_all_iff)

lemma set_join_str: "set (join_str sep xs) \<subseteq> set sep \<union> (\<Union>x \<in> set xs. set x)"
  by (induction sep xs rule: join_str.induct) auto

lemma backend_id_chars:
  assumes "backend_id_is_valid s" and "c \<in> set s"
  shows "is_ascii_lower c \<or> is_ascii_digit c \<or> c = CHR ''-'' \<or> c = CHR ''.''"
proof -
  have "c \<in> set (join_str ''.'' (split_on (CHR ''.'') s))" using assms(2) by simp
  then have "c = CHR ''.'' \<or> (\<exists>p \<in> set (split_on (CHR ''.'') s). c \<in> set p)"
    using set_join_str [of "''.''" "split_on (CHR ''.'') s"] by auto
  moreover have "list_all id_segment_ok (split_on (CHR ''.'') s)"
    using assms(1) by (simp add: backend_id_is_valid_def Let_def split: if_splits)
  ultimately show ?thesis
    by (auto simp: list_all_iff dest!: id_segment_chars)
qed

lemma backend_id_three_segments:
  "backend_id_is_valid s \<Longrightarrow> 3 \<le> length (split_on (CHR ''.'') s)"
  by (simp add: backend_id_is_valid_def Let_def split: if_splits)

lemma backend_id_safe: "backend_id_is_valid s \<Longrightarrow> is_safe_component s"
proof -
  assume v: "backend_id_is_valid s"
  have first: "list_all id_segment_ok (split_on (CHR ''.'') s)" and "s \<noteq> []"
    using v by (auto simp: backend_id_is_valid_def Let_def split: if_splits)
  then have "s \<noteq> ''.''" and "s \<noteq> ''..''" by (auto simp: id_segment_ok_def)
  moreover have "CHR ''/'' \<notin> set s" "CHR 0x5C \<notin> set s" "CHR 0x00 \<notin> set s"
    using backend_id_chars [OF v] by (force simp: is_ascii_lower_def is_ascii_digit_def)+
  ultimately show ?thesis using \<open>s \<noteq> []\<close>
    by (simp add: is_safe_component_def contains_char_def)
qed

subsection \<open>Properties\<close>

text \<open>
  Path containment: a path the guard admits, joined onto any directory, is reached without
  ever going up, and lands strictly below that directory, at exactly its own components.
\<close>

theorem safe_relative_path_contained:
  assumes "is_safe_relative_path s"
  shows "resolve base (split_on (CHR ''/'') s) = Some (base @ split_on (CHR ''/'') s)
    \<and> length base < length (base @ split_on (CHR ''/'') s)
    \<and> join_str ''/'' (split_on (CHR ''/'') s) = s"
  using assms by (simp add: safe_relative_components resolve_safe)

theorem safe_relative_path_contained_witness:
  "is_safe_relative_path ''bin/sub/exec''
   \<and> resolve [''opt'', ''x''] (split_on (CHR ''/'') ''bin/sub/exec'')
       = Some [''opt'', ''x'', ''bin'', ''sub'', ''exec'']
   \<and> \<not> is_safe_relative_path ''bin/../../evil''"
proof -
  have h: "is_safe_relative_path ''bin/sub/exec''"
    by (simp add: is_safe_relative_path_def starts_with_def contains_char_def)
  show ?thesis
    using h safe_relative_path_contained [OF h, of "[''opt'', ''x'']"]
    by (simp add: is_safe_relative_path_def starts_with_def contains_char_def)
qed

text \<open>
  Every well-formed backend id is a safe path component, so joining it onto the backends
  directory names a direct child of that directory, whatever the id is; and it fits in one
  component of the file system.
\<close>

theorem backend_id_names_child:
  assumes "backend_id_is_valid s"
  shows "is_safe_component s \<and> resolve base (split_on (CHR ''/'') s) = Some (base @ [s])
    \<and> length s \<le> 255"
  using assms backend_id_safe [OF assms] resolve_component
  by (auto simp: backend_id_is_valid_def backend_id_max_len_def split: if_splits)

theorem backend_id_names_child_witness:
  "backend_id_is_valid ''org.x.qwen3-asr''
   \<and> resolve [''backends''] (split_on (CHR ''/'') ''org.x.qwen3-asr'') = Some [''backends'', ''org.x.qwen3-asr'']
   \<and> \<not> backend_id_is_valid ''app..voxtral''"
proof -
  have h: "backend_id_is_valid ''org.x.qwen3-asr''"
    by code_simp
  have n: "\<not> backend_id_is_valid ''app..voxtral''"
    by code_simp
  show ?thesis using h n backend_id_names_child [OF h, of "[''backends'']"] by simp
qed

end
