(* ===== verification/Spec_Manifest.thy ===== *)
theory Spec_Manifest
  imports Spec_Arch Spec_Paths
begin

section \<open>The backend manifest: its data\<close>

text \<open>
  The types of \<open>super-engine-spec/src/manifest.rs\<close> and \<open>product.rs\<close>, one record per struct and one
  datatype per enum, with the operations that need no parsing: the asset labels, the options' value
  checks, devices, contract generations. \<open>'c\<close> is the product's contract, \<open>'cap\<close> its capabilities,
  \<open>'m\<close> its model fields, \<open>'i\<close> its index fields, \<open>'f\<close> the type \<open>f64\<close>. Floating point is the
  standard library's, and what the code uses of it is the record \<open>float_ops\<close>.
\<close>

subsection \<open>Contract generations (product.rs)\<close>

record 'c generations =
  all_gens :: "'c list"
  latest_gen :: 'c
  show_gen :: "'c \<Rightarrow> string"
  min_client_of :: "'c \<Rightarrow> string"

text \<open>The provided method \<open>Generation::previous\<close> and \<open>generation_from_str\<close>.\<close>

definition previous_gen :: "('c::linorder) generations \<Rightarrow> 'c \<Rightarrow> 'c option" where
  "previous_gen G g = find (\<lambda>candidate. candidate < g) (rev (all_gens G))"

datatype generation_error = UnknownContract string string

definition generation_from_str :: "'c generations \<Rightarrow> string \<Rightarrow> generation_error + 'c" where
  "generation_from_str G s =
     (case find (\<lambda>g. show_gen G g = s) (all_gens G) of
        Some g \<Rightarrow> Inr g
      | None \<Rightarrow> Inl (UnknownContract s (join_str '', '' (map (show_gen G) (all_gens G)))))"

text \<open>What the documentation of \<open>trait Generation\<close> promises of an implementation.\<close>

locale generation =
  fixes G :: "('c::linorder) generations"
  assumes gens_sorted: "sorted_wrt (<) (all_gens G)"
    and gens_complete: "g \<in> set (all_gens G)"
    and gens_latest: "latest_gen G = last (all_gens G)"
    and show_gen_inj: "show_gen G g = show_gen G h \<Longrightarrow> g = h"
begin

lemma from_str_show: "generation_from_str G (show_gen G g) = Inr g"
proof -
  obtain h where h: "find (\<lambda>x. show_gen G x = show_gen G g) (all_gens G) = Some h"
    using find_exists [OF gens_complete [of g], of "\<lambda>x. show_gen G x = show_gen G g"] by blast
  then have "h = g" by (blast dest: find_SomeD show_gen_inj)
  with h show ?thesis by (simp add: generation_from_str_def)
qed

lemma from_str_ok: "generation_from_str G s = Inr g \<longleftrightarrow> s = show_gen G g"
proof
  assume "generation_from_str G s = Inr g"
  then have "find (\<lambda>x. show_gen G x = s) (all_gens G) = Some g"
    by (simp add: generation_from_str_def split: option.splits)
  then show "s = show_gen G g" by (blast dest: find_SomeD)
qed (simp add: from_str_show)

lemma latest_greatest: "g \<le> latest_gen G"
proof -
  have ne: "all_gens G \<noteq> []" using gens_complete [of g] by auto
  then obtain xs where xs: "all_gens G = xs @ [latest_gen G]"
    using gens_latest append_butlast_last_id by metis
  with gens_sorted gens_complete [of g] show ?thesis
    by (auto simp: sorted_wrt_append)
qed

lemma find_below_greatest:
  "sorted_wrt (>) xs \<Longrightarrow> find (\<lambda>c. c < g) xs = Some p \<Longrightarrow> h \<in> set xs \<Longrightarrow> h < g \<Longrightarrow> h \<le> p"
  for xs :: "'c list"
  by (induction xs) (auto split: if_splits)

lemma previous_spec:
  "previous_gen G g = Some p \<longleftrightarrow> p < g \<and> (\<forall>h. h < g \<longrightarrow> h \<le> p)"
proof -
  have desc: "sorted_wrt (>) (rev (all_gens G))"
    using gens_sorted by (simp add: sorted_wrt_rev)
  have fwd: "p < g \<and> (\<forall>h. h < g \<longrightarrow> h \<le> p)" if "previous_gen G g = Some p" for p
    using that find_below_greatest [OF desc] gens_complete
    by (auto simp: previous_gen_def dest: find_SomeD)
  show ?thesis
  proof
    assume r: "p < g \<and> (\<forall>h. h < g \<longrightarrow> h \<le> p)"
    then have "previous_gen G g \<noteq> None"
      using gens_complete [of p] by (auto simp: previous_gen_def find_None_iff)
    then obtain q where q: "previous_gen G g = Some q" by auto
    with fwd r have "q = p" by (metis order_antisym)
    with q show "previous_gen G g = Some p" by simp
  qed (rule fwd)
qed

end

subsection \<open>Enumerations\<close>

datatype kind = KWasm | KSubprocess

definition show_kind :: "kind \<Rightarrow> string" where
  "show_kind k = (case k of KWasm \<Rightarrow> ''wasm'' | KSubprocess \<Rightarrow> ''subprocess'')"

datatype field_rule = Added | RequiredFrom

datatype accel = Cpu | Cuda | Metal | Rocm | Vulkan

definition show_accel :: "accel \<Rightarrow> string" where
  "show_accel a =
     (case a of Cpu \<Rightarrow> ''cpu'' | Cuda \<Rightarrow> ''cuda'' | Metal \<Rightarrow> ''metal'' | Rocm \<Rightarrow> ''rocm''
        | Vulkan \<Rightarrow> ''vulkan'')"

datatype device = DevCpu | DevGpu | DevNone

definition show_device :: "device \<Rightarrow> string" where
  "show_device d = (case d of DevCpu \<Rightarrow> ''cpu'' | DevGpu \<Rightarrow> ''gpu'' | DevNone \<Rightarrow> ''none'')"

text \<open>\<open>cuda\<close> and \<open>metal\<close> are the deprecated input spellings.\<close>

definition device_from_str :: "string \<Rightarrow> string + device" where
  "device_from_str s =
     (if s = ''cpu'' then Inr DevCpu
      else if s = ''gpu'' \<or> s = ''cuda'' \<or> s = ''metal'' then Inr DevGpu
      else if s = ''none'' then Inr DevNone
      else Inl (''Unknown device: '' @ s))"

lemma device_roundtrip: "device_from_str (show_device d) = Inr d"
  by (cases d) (simp_all add: show_device_def device_from_str_def)

datatype option_type = OTString | OTInteger | OTFloat | OTBool

definition show_option_type :: "option_type \<Rightarrow> string" where
  "show_option_type t =
     (case t of OTString \<Rightarrow> ''string'' | OTInteger \<Rightarrow> ''integer'' | OTFloat \<Rightarrow> ''float''
        | OTBool \<Rightarrow> ''bool'')"

datatype 'f option_default =
    DefString string
  | DefInteger int
  | DefFloat 'f
  | DefBool bool

subsection \<open>Tables\<close>

record 'c backend_meta =
  bm_id :: "string option"
  bm_source :: string
  bm_name :: string
  bm_version :: string
  bm_kind :: kind
  bm_entrypoint :: string
  bm_product :: "string option"
  bm_contract :: 'c
  bm_license :: "string option"
  bm_description :: string

record 'c contract_field =
  cf_since :: 'c
  cf_rule :: field_rule
  cf_table :: string
  cf_key :: string

record network =
  allowed_hosts :: "string list"

record 'cap capabilities =
  cap_websocket :: bool
  cap_product :: 'cap

record subprocess_asset =
  sa_file :: "string option"
  sa_parts :: "string list"
  sa_target :: string
  sa_accel :: "accel list"
  sa_cuda_major :: "u32 option"
  sa_cuda_sm :: "u32 option"
  sa_cudnn :: bool
  sa_gfx :: "gfx_spec list"
  sa_vulkan_api :: "vulkan_api option"

record assets =
  as_wasm :: "string option"
  as_subprocess :: "subprocess_asset list"

record secret_decl =
  sec_name :: string
  sec_label :: "string option"
  sec_description :: string
  sec_required :: bool

record 'f opt_decl =
  opt_name :: string
  opt_label :: "string option"
  opt_description :: string
  opt_type :: "option_type option"
  opt_default :: "'f option_default option"
  opt_choices :: "'f option_default list"
  opt_min :: "'f option"
  opt_max :: "'f option"
  opt_step :: "'f option"
  opt_required :: bool

record file_spec =
  fs_url :: string
  fs_destination :: string
  fs_sha256 :: "string option"
  fs_accel :: "accel list"
  fs_cuda_major :: "u32 option"
  fs_cuda_sm :: "u32 list"
  fs_gfx :: "gfx_spec list"
  fs_vulkan_api :: "vulkan_api option"
  fs_optional :: bool

record 'm model_entry =
  me_name :: string
  me_multilingual :: bool
  me_primary_language :: string
  me_supported_languages :: "string list"
  me_supported_devices :: "device list"
  me_estimated_vram_bytes :: u64
  me_processing_interval_ms :: "u64 option"
  me_realtime :: bool
  me_files :: "file_spec list"
  me_prepare_files :: "string list"
  me_provider :: "string option"
  me_product :: 'm

record ('c, 'cap, 'm, 'f) manifest =
  mf_backend :: "'c backend_meta"
  mf_network :: network
  mf_capabilities :: "'cap capabilities"
  mf_assets :: assets
  mf_secrets :: "secret_decl list"
  mf_options :: "'f opt_decl list"
  mf_models :: "'m model_entry list"

definition base_url_option :: string where
  "base_url_option = ''base_url''"

subsection \<open>One value or many\<close>

text \<open>\<open>one_or_many\<close>: a bare value is read as a list of one.\<close>

datatype 'a one_or_many = One 'a | Many "'a list"

definition one_or_many :: "'a one_or_many \<Rightarrow> 'a list" where
  "one_or_many v = (case v of One a \<Rightarrow> [a] | Many xs \<Rightarrow> xs)"

subsection \<open>Contract fields\<close>

definition is_array_table :: "'c contract_field \<Rightarrow> bool" where
  "is_array_table f = (cf_table f = ''models'' \<or> cf_table f = ''secrets'' \<or> cf_table f = ''options'')"

definition cf_path :: "'c contract_field \<Rightarrow> string" where
  "cf_path f =
     (if is_array_table f then ''[['' @ cf_table f @ '']].'' @ cf_key f
      else ''['' @ cf_table f @ ''].'' @ cf_key f)"

definition schema_definition :: "'c contract_field \<Rightarrow> string option" where
  "schema_definition f =
     (if cf_table f = ''backend'' then Some ''BackendMeta''
      else if cf_table f = ''models'' then Some ''ModelEntry''
      else if cf_table f = ''secrets'' then Some ''Secret''
      else if cf_table f = ''options'' then Some ''Opt''
      else None)"

subsection \<open>Assets and models\<close>

definition release_files :: "subprocess_asset \<Rightarrow> string list" where
  "release_files a = (case sa_file a of Some f \<Rightarrow> [f] | None \<Rightarrow> sa_parts a)"

definition is_multipart :: "subprocess_asset \<Rightarrow> bool" where
  "is_multipart a = (sa_file a = None)"

definition asset_label :: "subprocess_asset \<Rightarrow> string" where
  "asset_label a =
     (case sa_file a of
        Some f \<Rightarrow> f
      | None \<Rightarrow> (case sa_parts a of p # _ \<Rightarrow> p | [] \<Rightarrow> ''<unnamed subprocess asset>''))"

definition is_online :: "'m model_entry \<Rightarrow> bool" where
  "is_online m = (DevNone \<in> set (me_supported_devices m))"

definition is_conditional :: "file_spec \<Rightarrow> bool" where
  "is_conditional f = (fs_accel f \<noteq> [])"

end
