(* ===== verification/Spec_Options.thy ===== *)
theory Spec_Options
  imports Spec_Manifest
begin

section \<open>Option values\<close>

text \<open>
  \<open>impl Opt\<close> and \<open>impl OptionType\<close> of \<open>manifest.rs\<close>: which text the daemon stores as an option's
  value. \<open>accepts\<close> answers yes or no, \<open>permits_value\<close> answers with the reason, and
  \<open>permits_shape\<close> asks whether the text can travel in a request header. A message is a value of
  \<open>permit_error\<close> that carries what the sentence names.
\<close>

text \<open>What the code uses of \<open>f64\<close>: parsing, the order, \<open>is_finite\<close>, and the \<open>{:?}\<close> form.\<close>

record 'f float_ops =
  f_parse :: "string \<Rightarrow> 'f option"
  f_le :: "'f \<Rightarrow> 'f \<Rightarrow> bool"
  f_finite :: "'f \<Rightarrow> bool"
  f_debug :: "'f \<Rightarrow> string"

definition max_option_chars :: nat where
  "max_option_chars = 4000"

definition type_accepts :: "'f float_ops \<Rightarrow> option_type \<Rightarrow> string \<Rightarrow> bool" where
  "type_accepts F t value =
     (let v = trim value
      in case t of
           OTString \<Rightarrow> True
         | OTInteger \<Rightarrow> parse_i64 v \<noteq> None
         | OTFloat \<Rightarrow> (case f_parse F v of Some x \<Rightarrow> f_finite F x | None \<Rightarrow> False)
         | OTBool \<Rightarrow> v = ''true'' \<or> v = ''false'')"

definition show_option_default :: "'f float_ops \<Rightarrow> 'f option_default \<Rightarrow> string" where
  "show_option_default F d =
     (case d of
        DefString s \<Rightarrow> s
      | DefInteger i \<Rightarrow> show_int i
      | DefFloat x \<Rightarrow> f_debug F x
      | DefBool b \<Rightarrow> (if b then ''true'' else ''false''))"

definition declared_type :: "'f opt_decl \<Rightarrow> option_type" where
  "declared_type opt = (case opt_type opt of Some t \<Rightarrow> t | None \<Rightarrow> OTString)"

definition accepts_the_type :: "'f float_ops \<Rightarrow> 'f opt_decl \<Rightarrow> string \<Rightarrow> bool" where
  "accepts_the_type F opt value = type_accepts F (declared_type opt) value"

definition is_in_range :: "'f float_ops \<Rightarrow> 'f opt_decl \<Rightarrow> string \<Rightarrow> bool" where
  "is_in_range F opt value =
     (if opt_min opt = None \<and> opt_max opt = None then True
      else case f_parse F (trim value) of
             None \<Rightarrow> True
           | Some x \<Rightarrow>
               (case opt_min opt of None \<Rightarrow> True | Some low \<Rightarrow> f_le F low x)
               \<and> (case opt_max opt of None \<Rightarrow> True | Some high \<Rightarrow> f_le F x high))"

definition is_a_choice :: "'f float_ops \<Rightarrow> 'f opt_decl \<Rightarrow> string \<Rightarrow> bool" where
  "is_a_choice F opt value =
     (opt_choices opt = [] \<or> list_ex (\<lambda>c. show_option_default F c = value) (opt_choices opt))"

definition opt_accepts :: "'f float_ops \<Rightarrow> 'f opt_decl \<Rightarrow> string \<Rightarrow> bool" where
  "opt_accepts F opt value =
     (accepts_the_type F opt value \<and> is_in_range F opt value \<and> is_a_choice F opt value)"

definition is_slider :: "'f opt_decl \<Rightarrow> bool" where
  "is_slider opt =
     ((declared_type opt = OTInteger \<or> declared_type opt = OTFloat)
      \<and> opt_min opt \<noteq> None \<and> opt_max opt \<noteq> None \<and> opt_step opt \<noteq> None)"

datatype 'f permit_error =
    WrongType string string string
  | OutOfRange string "'f option" "'f option" string
  | NotOffered string "string list"
  | ValueTooLong nat
  | HasControl string

definition wanted_type :: "option_type \<Rightarrow> string" where
  "wanted_type t =
     (case t of
        OTInteger \<Rightarrow> ''an integer''
      | OTFloat \<Rightarrow> ''a number''
      | OTBool \<Rightarrow> ''`true` or `false`''
      | OTString \<Rightarrow> ''text'')"

definition permits_value :: "'f float_ops \<Rightarrow> 'f opt_decl \<Rightarrow> string \<Rightarrow> 'f permit_error + unit" where
  "permits_value F opt value =
     (if \<not> accepts_the_type F opt value
      then Inl (WrongType (opt_name opt) (wanted_type (declared_type opt)) value)
      else if \<not> is_in_range F opt value
      then Inl (OutOfRange (opt_name opt) (opt_min opt) (opt_max opt) value)
      else if is_a_choice F opt value then Inr ()
      else Inl (NotOffered (opt_name opt) (map (show_option_default F) (opt_choices opt))))"

definition named_control :: "char \<Rightarrow> string" where
  "named_control c =
     (if c = CHR 0x0A then ''a line break''
      else if c = CHR 0x0D then ''a carriage return''
      else if c = CHR 0x09 then ''a tab''
      else ''a control character'')"

text \<open>
  \<open>value.chars().find(|c| c.is_control())\<close>, already named: U+0000 to U+001F, U+007F, and U+0080
  to U+009F, whose encodings are the byte \<open>C2\<close> and a byte below \<open>A0\<close>.
\<close>

fun first_control :: "string \<Rightarrow> string option" where
  "first_control [] = None"
| "first_control (c # cs) =
     (if byte c < 32 \<or> byte c = 127 then Some (named_control c)
      else if byte c = 194 then
        (case cs of
           d # _ \<Rightarrow> if 128 \<le> byte d \<and> byte d < 160 then Some ''a control character''
                    else first_control cs
         | [] \<Rightarrow> None)
      else first_control cs)"

definition permits_shape :: "string \<Rightarrow> 'f permit_error + unit" where
  "permits_shape value =
     (if char_count value > max_option_chars then Inl (ValueTooLong (char_count value))
      else case first_control value of
             Some bad \<Rightarrow> Inl (HasControl bad)
           | None \<Rightarrow> Inr ())"

subsection \<open>Lemmas\<close>

lemma permits_value_iff: "permits_value F opt value = Inr () \<longleftrightarrow> opt_accepts F opt value"
  by (auto simp: permits_value_def opt_accepts_def)

lemma first_control_None: "first_control s = None \<Longrightarrow> c \<in> set s \<Longrightarrow> 32 \<le> byte c \<and> byte c \<noteq> 127"
proof (induction s arbitrary: c)
  case Nil
  then show ?case by simp
next
  case (Cons d ds)
  have none: "\<not> (byte d < 32 \<or> byte d = 127)" "ds = [] \<or> first_control ds = None"
    using Cons.prems(1) unfolding first_control.simps(2) [of d ds]
    by (cases ds; auto split: if_splits simp del: first_control.simps(2))+
  with Cons show ?case by (cases "c = d") (auto simp del: first_control.simps(2))
qed

lemma permits_shape_iff:
  "permits_shape value = (Inr () :: 'f permit_error + unit)
     \<longleftrightarrow> char_count value \<le> max_option_chars \<and> first_control value = None"
  by (auto simp: permits_shape_def split: option.splits)

lemma show_int_parse: "- (2 ^ 63) \<le> i \<Longrightarrow> i < 2 ^ 63 \<Longrightarrow> parse_i64 (show_int i) = Some i"
proof -
  assume b: "- (2 ^ 63) \<le> i" "i < 2 ^ 63"
  show ?thesis
  proof (cases "i < 0")
    case True
    then have "nat (- i) \<le> 2 ^ 63" using b by simp
    with True show ?thesis
      by (simp add: parse_i64_def show_int_def parse_digits_show)
  next
    case False
    then have "nat i \<le> 2 ^ 63 - 1" using b by simp
    moreover obtain c cs where c: "show_nat (nat i) = c # cs"
      by (meson neq_Nil_conv show_radix_not_Nil)
    moreover from c have "c \<noteq> CHR ''-''" using show_nat_no_sign(2) [of "nat i"] by auto
    ultimately show ?thesis using False parse_unsigned_show [of "nat i" "2 ^ 63 - 1"]
      by (simp add: parse_i64_def show_int_def)
  qed
qed

lemma show_int_graphic: "list_all is_graphic (show_int i)"
  using show_nat_graphic by (simp add: show_int_def is_graphic_def)

lemma integer_type_accepts_show:
  "- (2 ^ 63) \<le> i \<Longrightarrow> i < 2 ^ 63 \<Longrightarrow> type_accepts F OTInteger (show_int i)"
  by (simp add: type_accepts_def show_int_graphic show_int_parse)

subsection \<open>Properties\<close>

text \<open>
  The two answers about an option's value agree: \<open>permits_value\<close> refuses exactly the values
  \<open>accepts\<close> refuses, and the sentence it gives names the first check the value fails, so a value
  of the wrong type is never reported as out of range or as off the list.
\<close>

theorem permits_value_reports_first_failure:
  "(permits_value F opt value = Inr () \<longleftrightarrow> opt_accepts F opt value)
   \<and> (is_err (permits_value F opt value) \<longleftrightarrow> \<not> opt_accepts F opt value)
   \<and> ((\<exists>w. permits_value F opt value = Inl (WrongType (opt_name opt) w value))
        \<longleftrightarrow> \<not> accepts_the_type F opt value)
   \<and> (permits_value F opt value = Inl (OutOfRange (opt_name opt) (opt_min opt) (opt_max opt) value)
        \<longleftrightarrow> accepts_the_type F opt value \<and> \<not> is_in_range F opt value)"
  by (auto simp: permits_value_def opt_accepts_def)

text \<open>
  A value the shape check admits is deliverable as a header: at most 4000 characters and no
  control byte anywhere in it.
\<close>

theorem permits_shape_deliverable:
  assumes "permits_shape value = (Inr () :: 'f permit_error + unit)"
  shows "char_count value \<le> 4000 \<and> list_all (\<lambda>c. 32 \<le> byte c \<and> byte c \<noteq> 127) value"
  using assms first_control_None
  by (auto simp: permits_shape_iff max_option_chars_def list_all_iff)

theorem permits_shape_deliverable_witness:
  "permits_shape ''http://127.0.0.1'' = (Inr () :: nat permit_error + unit)
   \<and> char_count ''http://127.0.0.1'' \<le> 4000
   \<and> permits_shape (''a'' @ [CHR 0xC2, CHR 0x85]) = (Inl (HasControl ''a control character'') :: nat permit_error + unit)"
proof -
  have h: "permits_shape ''http://127.0.0.1'' = (Inr () :: nat permit_error + unit)"
    by (simp add: permits_shape_iff char_count_def is_cont_byte_def max_option_chars_def)
  have "permits_shape (''a'' @ [CHR 0xC2, CHR 0x85]) = (Inl (HasControl ''a control character'') :: nat permit_error + unit)"
    by (simp add: permits_shape_def char_count_def is_cont_byte_def max_option_chars_def)
  with h show ?thesis using permits_shape_deliverable [OF h] by blast
qed

end
