(* ===== verification/Spec_Parse.thy ===== *)
theory Spec_Parse
  imports Spec_Options SE_Hashmap
begin

section \<open>Parsing a manifest\<close>

text \<open>
  The guards of \<open>manifest.rs\<close>: the contract-field table, the file and asset checks, and
  \<open>Manifest::parse_inner\<close>, which runs them in the order that decides which error an author sees.
  The TOML parser is a crate: it enters as \<open>toml_reader\<close>, one function per use the code makes of it
  (the head, the typed document, the raw table). The product's own rules enter as \<open>product\<close>.
  \<open>manifest_ok\<close> is the declarative reading of the guards, and \<open>parse_inner\<close> is proved to admit
  exactly the manifests it describes.
\<close>

subsection \<open>The raw document\<close>

text \<open>\<open>toml::Value\<close>, as far as the code looks into it: tables, arrays, and everything else.\<close>

datatype toml_value =
    TomlTable "(string \<times> toml_value) list"
  | TomlArray "toml_value list"
  | TomlScalar string

type_synonym toml_table = "(string \<times> toml_value) list"

definition table_has_key :: "string \<Rightarrow> toml_value \<Rightarrow> bool" where
  "table_has_key key v = (case v of TomlTable t \<Rightarrow> map_of t key \<noteq> None | _ \<Rightarrow> False)"

definition declares :: "toml_table \<Rightarrow> 'c contract_field \<Rightarrow> bool" where
  "declares raw field =
     (case map_of raw (cf_table field) of
        Some (TomlArray entries) \<Rightarrow>
          (if is_array_table field then list_ex (table_has_key (cf_key field)) entries else False)
      | Some (TomlTable t) \<Rightarrow>
          (if \<not> is_array_table field then map_of t (cf_key field) \<noteq> None else False)
      | _ \<Rightarrow> False)"

subsection \<open>Errors\<close>

datatype ('te, 'pe) manifest_error =
    ErrToml 'te
  | UnsafeEntrypoint string
  | InvalidId string
  | OtherProduct string string
  | FieldRequiresContract string string string
  | FieldRequiredByContract string string "string option"
  | UnsafeDestination string
  | AssetFileXorParts string
  | AccelEmpty string
  | RocmMissingGfx string
  | GfxRequiresRocm string
  | VulkanApiRequiresVulkan string
  | CudaMissingMajor string
  | CudaForbiddenFields string
  | CudnnRequiresCuda string
  | FileCudaForbiddenFields string string
  | FileGfxRequiresRocm string string
  | FileVulkanApiRequiresVulkan string string
  | FileVariantsDisagreeOnOptional string string
  | PrepareFileNotListed string string
  | ErrProduct 'pe

text \<open>The second half of the \<open>FieldRequiredByContract\<close> message.\<close>

definition or_drop_to :: "string option \<Rightarrow> string" where
  "or_drop_to previous =
     (case previous of
        None \<Rightarrow> []
      | Some p \<Rightarrow> '', or drop to `contract = '' @ [CHR 0x22] @ p @ [CHR 0x22] @ ''` where it is optional'')"

subsection \<open>The product and the parser it plugs into\<close>

record ('c, 'cap, 'm, 'i, 'f, 'pe) product =
  pr_slug :: string
  pr_gens :: "'c generations"
  pr_contract_fields :: "'c contract_field list"
  pr_validate :: "('c, 'cap, 'm, 'f) manifest \<Rightarrow> 'pe + unit"
  pr_index_model :: "'m model_entry \<Rightarrow> 'i"

record ('c, 'cap, 'm, 'f, 'te) toml_reader =
  tr_head :: "string \<Rightarrow> string option option"
  tr_typed :: "string \<Rightarrow> 'te + ('c, 'cap, 'm, 'f) manifest"
  tr_raw :: "string \<Rightarrow> 'te + toml_table"

subsection \<open>Contract fields\<close>

definition rule_applies :: "('c::linorder) \<Rightarrow> 'c contract_field \<Rightarrow> bool" where
  "rule_applies declared field =
     (case cf_rule field of
        Added \<Rightarrow> cf_since field > declared
      | RequiredFrom \<Rightarrow> declared \<ge> cf_since field)"

definition applies_to :: "('c::linorder) contract_field list \<Rightarrow> 'c \<Rightarrow> bool" where
  "applies_to rows declared = list_ex (rule_applies declared) rows"

definition field_violation ::
  "'c generations \<Rightarrow> toml_table \<Rightarrow> 'c \<Rightarrow> ('c::linorder) contract_field
     \<Rightarrow> ('te, 'pe) manifest_error option" where
  "field_violation G raw declared field =
     (case cf_rule field of
        Added \<Rightarrow>
          (if cf_since field > declared \<and> declares raw field
           then Some (FieldRequiresContract (cf_path field) (show_gen G (cf_since field))
                        (show_gen G declared))
           else None)
      | RequiredFrom \<Rightarrow>
          (if declared \<ge> cf_since field \<and> \<not> declares raw field
           then Some (FieldRequiredByContract (cf_path field) (show_gen G declared)
                        (map_option (show_gen G) (previous_gen G (cf_since field))))
           else None))"

text \<open>\<open>iter.find_map(f)\<close>.\<close>

fun find_map :: "('a \<Rightarrow> 'b option) \<Rightarrow> 'a list \<Rightarrow> 'b option" where
  "find_map f [] = None"
| "find_map f (x # xs) = (case f x of Some y \<Rightarrow> Some y | None \<Rightarrow> find_map f xs)"

definition contract_violation ::
  "'c generations \<Rightarrow> ('c::linorder) contract_field list \<Rightarrow> toml_table \<Rightarrow> 'c
     \<Rightarrow> ('te, 'pe) manifest_error option" where
  "contract_violation G rows raw declared = find_map (field_violation G raw declared) rows"

lemma find_map_None: "find_map f xs = None \<longleftrightarrow> list_all (\<lambda>x. f x = None) xs"
  by (induction xs) (auto split: option.splits)

subsection \<open>Files\<close>

text \<open>The loop of \<open>validate_files\<close>, threading the map from destination to \<open>optional\<close>.\<close>

fun validate_file_list ::
  "string \<Rightarrow> (string, bool) hmap \<Rightarrow> file_spec list
     \<Rightarrow> ('te, 'pe) manifest_error + (string, bool) hmap" where
  "validate_file_list name seen [] = Inr seen"
| "validate_file_list name seen (file # rest) =
     (let dest = fs_destination file; has = (\<lambda>k. k \<in> set (fs_accel file))
      in if \<not> is_safe_relative_path dest then Inl (UnsafeDestination dest)
         else if \<not> has Cuda \<and> (fs_cuda_major file \<noteq> None \<or> fs_cuda_sm file \<noteq> [])
         then Inl (FileCudaForbiddenFields name dest)
         else if \<not> has Rocm \<and> fs_gfx file \<noteq> [] then Inl (FileGfxRequiresRocm name dest)
         else if \<not> has Vulkan \<and> fs_vulkan_api file \<noteq> None
         then Inl (FileVulkanApiRequiresVulkan name dest)
         else case hm_get seen dest of
                Some first \<Rightarrow>
                  if first \<noteq> fs_optional file then Inl (FileVariantsDisagreeOnOptional name dest)
                  else validate_file_list name (hm_insert dest (fs_optional file) seen) rest
              | None \<Rightarrow> validate_file_list name (hm_insert dest (fs_optional file) seen) rest)"

definition validate_files :: "'m model_entry \<Rightarrow> ('te, 'pe) manifest_error + unit" where
  "validate_files model =
     and_then (validate_file_list (me_name model) hm_empty (me_files model)) (\<lambda>seen.
       case find (\<lambda>file. \<not> hm_contains seen file) (me_prepare_files model) of
         Some file \<Rightarrow> Inl (PrepareFileNotListed (me_name model) file)
       | None \<Rightarrow> Inr ())"

fun validate_models :: "'m model_entry list \<Rightarrow> ('te, 'pe) manifest_error + unit" where
  "validate_models [] = Inr ()"
| "validate_models (m # ms) = and_then (validate_files m) (\<lambda>_. validate_models ms)"

subsection \<open>Assets\<close>

definition normalize_asset :: "subprocess_asset \<Rightarrow> subprocess_asset" where
  "normalize_asset a = (if sa_file a = Some [] then a\<lparr>sa_file := None\<rparr> else a)"

definition check_asset :: "subprocess_asset \<Rightarrow> ('te, 'pe) manifest_error + subprocess_asset" where
  "check_asset a0 =
     (let a = normalize_asset a0;
          has_file = (sa_file a \<noteq> None);
          has_parts = (sa_parts a \<noteq> [] \<and> list_all (\<lambda>p. p \<noteq> []) (sa_parts a));
          has = (\<lambda>k. k \<in> set (sa_accel a))
      in ensure (has_file \<noteq> has_parts) (AssetFileXorParts (sa_target a)) (
         ensure (sa_accel a \<noteq> []) (AccelEmpty (asset_label a)) (
         ensure (has Cuda \<longrightarrow> sa_cuda_major a \<noteq> None) (CudaMissingMajor (asset_label a)) (
         ensure (\<not> has Cuda \<longrightarrow> sa_cuda_major a = None \<and> sa_cuda_sm a = None)
           (CudaForbiddenFields (asset_label a)) (
         ensure (\<not> has Cuda \<longrightarrow> \<not> sa_cudnn a) (CudnnRequiresCuda (asset_label a)) (
         ensure (has Rocm \<longrightarrow> sa_gfx a \<noteq> []) (RocmMissingGfx (asset_label a)) (
         ensure (\<not> has Rocm \<longrightarrow> sa_gfx a = []) (GfxRequiresRocm (asset_label a)) (
         ensure (\<not> has Vulkan \<longrightarrow> sa_vulkan_api a = None) (VulkanApiRequiresVulkan (asset_label a)) (
         Inr a)))))))))"

fun check_assets ::
  "subprocess_asset list \<Rightarrow> ('te, 'pe) manifest_error + subprocess_asset list" where
  "check_assets [] = Inr []"
| "check_assets (a # as) =
     and_then (check_asset a) (\<lambda>b. and_then (check_assets as) (\<lambda>bs. Inr (b # bs)))"

subsection \<open>parse\_inner\<close>

datatype contract_fields_mode = Enforced | Ignored

definition declared_product ::
  "('c, 'cap, 'm, 'f, 'te) toml_reader \<Rightarrow> string \<Rightarrow> string option" where
  "declared_product T text = (case tr_head T text of None \<Rightarrow> None | Some p \<Rightarrow> p)"

definition check_contract ::
  "('c::linorder, 'cap, 'm, 'i, 'f, 'pe) product \<Rightarrow> ('c, 'cap, 'm, 'f, 'te) toml_reader
     \<Rightarrow> string \<Rightarrow> contract_fields_mode \<Rightarrow> ('c, 'cap, 'm, 'f) manifest
     \<Rightarrow> ('te, 'pe) manifest_error + unit" where
  "check_contract P T text mode m =
     (let declared = bm_contract (mf_backend m)
      in if mode = Enforced \<and> applies_to (pr_contract_fields P) declared
         then (case tr_raw T text of
                 Inl e \<Rightarrow> Inl (ErrToml e)
               | Inr raw \<Rightarrow>
                   (case contract_violation (pr_gens P) (pr_contract_fields P) raw declared of
                      Some violation \<Rightarrow> Inl violation
                    | None \<Rightarrow> Inr ()))
         else Inr ())"

text \<open>The product check that runs before the typed parse.\<close>

definition foreign_product ::
  "('c, 'cap, 'm, 'i, 'f, 'pe) product \<Rightarrow> ('c, 'cap, 'm, 'f, 'te) toml_reader \<Rightarrow> string
     \<Rightarrow> ('te, 'pe) manifest_error option" where
  "foreign_product P T text =
     (case declared_product T text of
        Some declared \<Rightarrow>
          if declared \<noteq> pr_slug P then Some (OtherProduct declared (pr_slug P)) else None
      | None \<Rightarrow> None)"

definition check_id :: "'c backend_meta \<Rightarrow> ('te, 'pe) manifest_error + unit" where
  "check_id b =
     (case bm_id b of
        Some i \<Rightarrow> if backend_id_is_valid i then Inr () else Inl (InvalidId i)
      | None \<Rightarrow> Inr ())"

definition parse_inner ::
  "('c::linorder, 'cap, 'm, 'i, 'f, 'pe) product \<Rightarrow> ('c, 'cap, 'm, 'f, 'te) toml_reader
     \<Rightarrow> string \<Rightarrow> contract_fields_mode
     \<Rightarrow> ('te, 'pe) manifest_error + ('c, 'cap, 'm, 'f) manifest" where
  "parse_inner P T text mode =
     (case foreign_product P T text of
        Some e \<Rightarrow> Inl e
      | None \<Rightarrow>
          (case tr_typed T text of
             Inl e \<Rightarrow> Inl (ErrToml e)
           | Inr m \<Rightarrow>
               and_then (check_contract P T text mode m) (\<lambda>_.
               ensure (is_safe_relative_path (bm_entrypoint (mf_backend m)))
                 (UnsafeEntrypoint (bm_entrypoint (mf_backend m))) (
               and_then (check_id (mf_backend m)) (\<lambda>_.
               and_then (validate_models (mf_models m)) (\<lambda>_.
               and_then (check_assets (as_subprocess (mf_assets m))) (\<lambda>checked.
               let m2 = m\<lparr>mf_assets := (mf_assets m)\<lparr>as_subprocess := checked\<rparr>\<rparr>
               in case pr_validate P m2 of Inl e \<Rightarrow> Inl (ErrProduct e) | Inr _ \<Rightarrow> Inr m2)))))))"

definition parse_manifest ::
  "('c::linorder, 'cap, 'm, 'i, 'f, 'pe) product \<Rightarrow> ('c, 'cap, 'm, 'f, 'te) toml_reader \<Rightarrow> string
     \<Rightarrow> ('te, 'pe) manifest_error + ('c, 'cap, 'm, 'f) manifest" where
  "parse_manifest P T text = parse_inner P T text Enforced"

definition parse_installed ::
  "('c::linorder, 'cap, 'm, 'i, 'f, 'pe) product \<Rightarrow> ('c, 'cap, 'm, 'f, 'te) toml_reader \<Rightarrow> string
     \<Rightarrow> ('te, 'pe) manifest_error + ('c, 'cap, 'm, 'f) manifest" where
  "parse_installed P T text = parse_inner P T text Ignored"

text \<open>
  \<open>load_with\<close>: the file's text or the I/O error, then the parse, with the path on either error.
\<close>

datatype ('te, 'pe, 'io) load_error =
    LoadIo string 'io
  | LoadParse string "('te, 'pe) manifest_error"

definition load_with ::
  "(string \<Rightarrow> 'io + string) \<Rightarrow> string \<Rightarrow> (string \<Rightarrow> ('te, 'pe) manifest_error + 'x)
     \<Rightarrow> ('te, 'pe, 'io) load_error + 'x" where
  "load_with read_file dir parse =
     (let path = dir @ ''/backend.toml''
      in case read_file path of
           Inl e \<Rightarrow> Inl (LoadIo path e)
         | Inr text \<Rightarrow> (case parse text of Inl e \<Rightarrow> Inl (LoadParse path e) | Inr m \<Rightarrow> Inr m))"

subsection \<open>What the guards describe\<close>

definition file_ok :: "file_spec \<Rightarrow> bool" where
  "file_ok f =
     (is_safe_relative_path (fs_destination f)
      \<and> (Cuda \<in> set (fs_accel f) \<or> fs_cuda_major f = None \<and> fs_cuda_sm f = [])
      \<and> (Rocm \<in> set (fs_accel f) \<or> fs_gfx f = [])
      \<and> (Vulkan \<in> set (fs_accel f) \<or> fs_vulkan_api f = None))"

definition agree :: "file_spec \<Rightarrow> file_spec \<Rightarrow> bool" where
  "agree f g = (fs_destination f \<noteq> fs_destination g \<or> fs_optional f = fs_optional g)"

definition model_ok :: "'m model_entry \<Rightarrow> bool" where
  "model_ok m =
     (list_all file_ok (me_files m)
      \<and> list_all (\<lambda>f. list_all (agree f) (me_files m)) (me_files m)
      \<and> set (me_prepare_files m) \<subseteq> fs_destination ` set (me_files m))"

definition asset_ok :: "subprocess_asset \<Rightarrow> bool" where
  "asset_ok a =
     ((sa_file a \<noteq> None) \<noteq> (sa_parts a \<noteq> [] \<and> list_all (\<lambda>p. p \<noteq> []) (sa_parts a))
      \<and> sa_accel a \<noteq> []
      \<and> (if Cuda \<in> set (sa_accel a) then sa_cuda_major a \<noteq> None
         else sa_cuda_major a = None \<and> sa_cuda_sm a = None \<and> \<not> sa_cudnn a)
      \<and> (Rocm \<in> set (sa_accel a) \<longleftrightarrow> sa_gfx a \<noteq> [])
      \<and> (Vulkan \<in> set (sa_accel a) \<or> sa_vulkan_api a = None))"

definition normalize_manifest :: "('c, 'cap, 'm, 'f) manifest \<Rightarrow> ('c, 'cap, 'm, 'f) manifest" where
  "normalize_manifest m =
     m\<lparr>mf_assets := (mf_assets m)\<lparr>as_subprocess := map normalize_asset (as_subprocess (mf_assets m))\<rparr>\<rparr>"

definition manifest_ok :: "('c, 'cap, 'm, 'f) manifest \<Rightarrow> bool" where
  "manifest_ok m =
     (is_safe_relative_path (bm_entrypoint (mf_backend m))
      \<and> (bm_id (mf_backend m) = None \<or> backend_id_is_valid (the (bm_id (mf_backend m))))
      \<and> list_all model_ok (mf_models m)
      \<and> list_all asset_ok (as_subprocess (mf_assets m)))"

subsection \<open>Lemmas\<close>

lemma list_all_pairs_Cons:
  assumes "\<And>x. P x x" and "\<And>x y. P x y \<Longrightarrow> P y x"
  shows "list_all (\<lambda>g. list_all (P g) (f # fs)) (f # fs)
    \<longleftrightarrow> list_all (P f) fs \<and> list_all (\<lambda>g. list_all (P g) fs) fs"
proof -
  have "list_all (\<lambda>g. list_all (P g) (f # fs)) fs
      \<longleftrightarrow> list_all (P f) fs \<and> list_all (\<lambda>g. list_all (P g) fs) fs"
    unfolding list.pred_inject unfolding list_all_iff by (meson assms(2))
  then show ?thesis using assms(1) unfolding list.pred_inject by blast
qed

lemma agree_refl: "agree f f"
  by (simp add: agree_def)

lemma agree_sym: "agree f g \<Longrightarrow> agree g f"
  unfolding agree_def by metis

lemma validate_file_list_ok:
  "hm_ok seen \<Longrightarrow>
     (validate_file_list name seen fs :: ('te, 'pe) manifest_error + _) = Inr seen2 \<longleftrightarrow>
     list_all file_ok fs
     \<and> list_all (\<lambda>f. hm_get seen (fs_destination f) \<in> {None, Some (fs_optional f)}) fs
     \<and> list_all (\<lambda>f. list_all (agree f) fs) fs
     \<and> seen2 = foldl (\<lambda>s f. hm_insert (fs_destination f) (fs_optional f) s) seen fs"
proof (induction fs arbitrary: seen)
  case Nil
  then show ?case by auto
next
  case (Cons f fs)
  let ?s = "hm_insert (fs_destination f) (fs_optional f) seen"
  have ok: "hm_ok ?s" using Cons.prems by (rule hm.ok_ins)
  let ?rest = "validate_file_list name ?s fs :: ('te, 'pe) manifest_error + _"
  have step: "(validate_file_list name seen (f # fs) :: ('te, 'pe) manifest_error + _) = Inr seen2
      \<longleftrightarrow> file_ok f \<and> hm_get seen (fs_destination f) \<in> {None, Some (fs_optional f)}
        \<and> ?rest = Inr seen2"
  proof (cases "file_ok f")
    case True
    then show ?thesis
      by (cases "hm_get seen (fs_destination f)") (auto simp: Let_def file_ok_def)
  next
    case False
    then consider "\<not> is_safe_relative_path (fs_destination f)"
      | "Cuda \<notin> set (fs_accel f)" "fs_cuda_major f \<noteq> None \<or> fs_cuda_sm f \<noteq> []"
      | "Rocm \<notin> set (fs_accel f)" "fs_gfx f \<noteq> []"
      | "Vulkan \<notin> set (fs_accel f)" "fs_vulkan_api f \<noteq> None"
      unfolding file_ok_def by metis
    then have "is_err (validate_file_list name seen (f # fs) :: ('te, 'pe) manifest_error + _)"
      by cases (simp_all add: Let_def)
    with False show ?thesis by (metis sum.disc(2))
  qed
  have elem: "hm_get ?s (fs_destination g) \<in> {None, Some (fs_optional g)} \<longleftrightarrow>
      agree f g \<and> (fs_destination g = fs_destination f
        \<or> hm_get seen (fs_destination g) \<in> {None, Some (fs_optional g)})" for g
    by (cases "fs_destination g = fs_destination f") (simp_all add: hm.get_ins agree_def)
  have seen: "list_all (\<lambda>g. hm_get ?s (fs_destination g) \<in> {None, Some (fs_optional g)}) fs \<longleftrightarrow>
      list_all (agree f) fs
      \<and> list_all (\<lambda>g. fs_destination g = fs_destination f
            \<or> hm_get seen (fs_destination g) \<in> {None, Some (fs_optional g)}) fs"
    unfolding elem list_all_iff by blast
  have pairs: "list_all (\<lambda>g. list_all (agree g) (f # fs)) (f # fs) \<longleftrightarrow>
      list_all (agree f) fs \<and> list_all (\<lambda>g. list_all (agree g) fs) fs"
    by (rule list_all_pairs_Cons [OF agree_refl agree_sym])
  have merge: "list_all (\<lambda>g. fs_destination g = fs_destination f
            \<or> hm_get seen (fs_destination g) \<in> {None, Some (fs_optional g)}) fs
      \<longleftrightarrow> list_all (\<lambda>g. hm_get seen (fs_destination g) \<in> {None, Some (fs_optional g)}) fs"
    if "list_all (agree f) fs" "hm_get seen (fs_destination f) \<in> {None, Some (fs_optional f)}"
  proof (rule list.pred_cong [OF refl])
    fix g assume "g \<in> set fs"
    with that(1) have "agree f g" by (simp add: list_all_iff)
    with that(2) show "(fs_destination g = fs_destination f
            \<or> hm_get seen (fs_destination g) \<in> {None, Some (fs_optional g)})
        \<longleftrightarrow> hm_get seen (fs_destination g) \<in> {None, Some (fs_optional g)}"
      by (cases "fs_destination g = fs_destination f") (simp_all add: agree_def)
  qed
  have "validate_file_list name seen (f # fs) = (Inr seen2 :: ('te, 'pe) manifest_error + _)
      \<longleftrightarrow> file_ok f \<and> hm_get seen (fs_destination f) \<in> {None, Some (fs_optional f)}
        \<and> list_all file_ok fs \<and> list_all (agree f) fs
        \<and> list_all (\<lambda>g. hm_get seen (fs_destination g) \<in> {None, Some (fs_optional g)}) fs
        \<and> list_all (\<lambda>g. list_all (agree g) fs) fs
        \<and> seen2 = foldl (\<lambda>s f. hm_insert (fs_destination f) (fs_optional f) s) ?s fs"
    unfolding step Cons.IH [OF ok] seen using merge by meson
  then show ?case unfolding pairs foldl.simps unfolding list.pred_inject by meson
qed

lemma foldl_insert_contains:
  "hm_contains (foldl (\<lambda>s f. hm_insert (key f) (val f) s) seen fs) k
     \<longleftrightarrow> hm_contains seen k \<or> k \<in> key ` set fs"
  by (induction fs arbitrary: seen) (auto simp: hm_contains_def hm.get_ins)

lemma validate_files_ok:
  "(validate_files m :: ('te, 'pe) manifest_error + unit) = Inr () \<longleftrightarrow> model_ok m"
proof -
  let ?seen = "foldl (\<lambda>s f. hm_insert (fs_destination f) (fs_optional f) s) hm_empty (me_files m)"
  have none: "hm_get hm_empty k = None" "\<not> hm_contains hm_empty k" for k :: string
    by (simp_all add: hm_contains_def hm.get_empty)
  have listed: "find (\<lambda>file. \<not> hm_contains ?seen file) ps = None
      \<longleftrightarrow> set ps \<subseteq> fs_destination ` set (me_files m)" for ps
    by (auto simp: find_None_iff foldl_insert_contains none)
  have "(validate_files m :: ('te, 'pe) manifest_error + unit) = Inr () \<longleftrightarrow>
      (\<exists>s. (validate_file_list (me_name m) hm_empty (me_files m) :: ('te, 'pe) manifest_error + _)
            = Inr s
         \<and> find (\<lambda>file. \<not> hm_contains s file) (me_prepare_files m) = None)"
    by (auto simp: validate_files_def and_then_Inr split: option.splits)
  also have "\<dots> \<longleftrightarrow> model_ok m"
    unfolding validate_file_list_ok [OF hm.ok_empty] model_ok_def
    using listed by (auto simp: list_all_iff none)
  finally show ?thesis .
qed

lemma validate_models_ok: "validate_models ms = Inr () \<longleftrightarrow> list_all model_ok ms"
  by (induction ms) (auto simp: and_then_Inr validate_files_ok)

lemma asset_guards:
  "(A \<noteq> B \<and> ne \<and> (cu \<longrightarrow> m) \<and> (\<not> cu \<longrightarrow> nm \<and> ns) \<and> (\<not> cu \<longrightarrow> \<not> cd) \<and> (ro \<longrightarrow> \<not> g)
      \<and> (\<not> ro \<longrightarrow> g) \<and> (\<not> vk \<longrightarrow> nv) \<and> E) \<longleftrightarrow>
   (A \<noteq> B \<and> ne \<and> (if cu then m else nm \<and> ns \<and> \<not> cd) \<and> (ro \<longleftrightarrow> \<not> g) \<and> (vk \<or> nv)) \<and> E"
  by (cases cu; cases ro; cases vk) auto

lemma check_asset_ok: "check_asset a = Inr b \<longleftrightarrow> b = normalize_asset a \<and> asset_ok b"
proof -
  let ?a = "normalize_asset a"
  have "check_asset a = Inr b \<longleftrightarrow> asset_ok ?a \<and> ?a = b"
    unfolding check_asset_def Let_def ensure_Inr asset_ok_def sum.inject
    by (rule trans [OF asset_guards]) (simp only: eq_commute [of b])
  then show ?thesis by blast
qed

lemma check_assets_ok:
  "check_assets as = Inr bs \<longleftrightarrow> bs = map normalize_asset as \<and> list_all asset_ok bs"
proof (induction as arbitrary: bs)
  case (Cons a as)
  show ?case
    by (simp only: check_assets.simps and_then_Inr check_asset_ok Cons.IH sum.inject list.map
        list.pred_inject ex_simps simp_thms) (auto simp del: list.map)
qed auto

lemma check_id_ok: "check_id b = Inr () \<longleftrightarrow> bm_id b = None \<or> backend_id_is_valid (the (bm_id b))"
  by (auto simp: check_id_def split: option.splits)

text \<open>Skipping the raw parse is sound: where no rule applies, no document breaks one.\<close>

lemma not_applies_no_violation:
  "\<not> applies_to rows declared \<Longrightarrow> contract_violation G rows raw declared = None"
  by (auto simp: applies_to_def contract_violation_def find_map_None list_all_iff list_ex_iff
      rule_applies_def field_violation_def split: field_rule.splits)

definition contract_holds ::
  "('c::linorder, 'cap, 'm, 'i, 'f, 'pe) product \<Rightarrow> toml_table \<Rightarrow> 'c \<Rightarrow> bool" where
  "contract_holds P raw declared =
     list_all (\<lambda>field. case cf_rule field of
         Added \<Rightarrow> \<not> (declared < cf_since field \<and> declares raw field)
       | RequiredFrom \<Rightarrow> \<not> (cf_since field \<le> declared \<and> \<not> declares raw field))
       (pr_contract_fields P)"

lemma contract_violation_None:
  "contract_violation (pr_gens P) (pr_contract_fields P) raw declared = None
     \<longleftrightarrow> contract_holds P raw declared"
  unfolding contract_violation_def find_map_None contract_holds_def
  by (rule list.pred_cong) (auto simp: field_violation_def split: field_rule.splits)

lemma contract_violation_Some:
  "contract_violation (pr_gens P) (pr_contract_fields P) raw declared = Some e
     \<Longrightarrow> \<not> contract_holds P raw declared"
  using contract_violation_None by (metis option.distinct(1))

lemma check_contract_ok:
  "check_contract P T text mode m = Inr () \<longleftrightarrow>
     mode = Ignored \<or> \<not> applies_to (pr_contract_fields P) (bm_contract (mf_backend m))
     \<or> (\<exists>raw. tr_raw T text = Inr raw \<and> contract_holds P raw (bm_contract (mf_backend m)))"
  by (cases mode)
    (auto simp: check_contract_def Let_def contract_violation_None
       dest: contract_violation_Some split: sum.splits option.splits)

text \<open>No later guard answers \<open>OtherProduct\<close>.\<close>

fun is_other_product :: "('te, 'pe) manifest_error \<Rightarrow> bool" where
  "is_other_product (OtherProduct d s) = True"
| "is_other_product _ = False"

definition not_other :: "('te, 'pe) manifest_error + 'a \<Rightarrow> bool" where
  "not_other r = (case r of Inl e \<Rightarrow> \<not> is_other_product e | Inr _ \<Rightarrow> True)"

lemma not_other_simps [simp]:
  "not_other (Inr x)" "not_other (Inl e) \<longleftrightarrow> \<not> is_other_product e"
  by (simp_all add: not_other_def)

lemma not_other_and_then:
  "not_other r \<Longrightarrow> (\<And>a. not_other (k a)) \<Longrightarrow> not_other (and_then r k)"
  by (cases r) simp_all

lemma not_other_ensure:
  "\<not> is_other_product e \<Longrightarrow> not_other k \<Longrightarrow> not_other (ensure b e k)"
  by (cases b) simp_all

lemma not_other_violation:
  "contract_violation G rows raw d = Some e \<Longrightarrow> \<not> is_other_product e"
  unfolding contract_violation_def
  by (induction rows) (auto simp: field_violation_def split: option.splits field_rule.splits if_splits)

lemma not_other_contract: "not_other (check_contract P T text mode m)"
  by (auto simp: check_contract_def Let_def dest: not_other_violation split: sum.splits option.splits)

lemma not_other_file_list: "not_other (validate_file_list name seen fs)"
  by (induction fs arbitrary: seen) (simp_all add: Let_def split: option.split)

lemma not_other_models: "not_other (validate_models ms)"
  by (induction ms)
    (auto simp: validate_files_def intro!: not_other_and_then not_other_file_list split: option.splits)

lemma not_other_asset: "not_other (check_asset a)"
  unfolding check_asset_def Let_def by (intro not_other_ensure) simp_all

lemma not_other_assets: "not_other (check_assets as)"
  by (induction as) (auto intro!: not_other_and_then not_other_asset)

lemma parse_inner_not_other_product:
  assumes "foreign_product P T text = None"
  shows "parse_inner P T text mode \<noteq> Inl (OtherProduct declared expected)"
proof -
  have "not_other (parse_inner P T text mode)"
    unfolding parse_inner_def assms option.case
    by (auto simp: check_id_def Let_def
        intro!: not_other_and_then not_other_ensure not_other_contract not_other_models
          not_other_assets split: sum.split option.split)
  then show ?thesis by auto
qed

lemma parse_inner_ok:
  "parse_inner P T text mode = Inr m \<longleftrightarrow>
     foreign_product P T text = None
     \<and> (\<exists>m0. tr_typed T text = Inr m0
          \<and> check_contract P T text mode m0 = Inr ()
          \<and> m = normalize_manifest m0 \<and> manifest_ok m
          \<and> is_ok (pr_validate P m))"
proof (cases "foreign_product P T text")
  case (Some e)
  then show ?thesis by (simp add: parse_inner_def)
next
  case None
  show ?thesis
  proof (cases "tr_typed T text")
    case (Inl e)
    with None show ?thesis by (simp add: parse_inner_def)
  next
    case (Inr m0)
    show ?thesis
      unfolding parse_inner_def None Inr option.case sum.case and_then_Inr ensure_Inr
        check_assets_ok
      by (auto simp: Let_def normalize_manifest_def manifest_ok_def validate_models_ok
          check_id_ok split: sum.splits)
  qed
qed

text \<open>An asset that passed the guards names at least one file, and no empty one.\<close>

lemma asset_ok_files:
  assumes "asset_ok (normalize_asset a)"
  shows "release_files (normalize_asset a) \<noteq> []
    \<and> list_all (\<lambda>f. f \<noteq> []) (release_files (normalize_asset a))"
proof (cases "sa_file (normalize_asset a)")
  case None
  with assms show ?thesis by (simp add: asset_ok_def release_files_def)
next
  case (Some f)
  then have "f \<noteq> []" by (auto simp: normalize_asset_def split: if_splits)
  with Some show ?thesis by (simp add: release_files_def)
qed

lemma assets_ok_files:
  assumes "list_all asset_ok (map normalize_asset xs)"
  shows "list_all (\<lambda>a. release_files a \<noteq> [] \<and> list_all (\<lambda>f. f \<noteq> []) (release_files a))
    (map normalize_asset xs)"
  using assms by (induction xs) (simp_all add: asset_ok_files)

lemma normalize_manifest_simps [simp]:
  "mf_backend (normalize_manifest m) = mf_backend m"
  "mf_models (normalize_manifest m) = mf_models m"
  "as_subprocess (mf_assets (normalize_manifest m)) = map normalize_asset (as_subprocess (mf_assets m))"
  by (simp_all add: normalize_manifest_def)

lemma parse_inner_Ignored:
  "parse_inner P T text Ignored = Inr m \<longleftrightarrow>
     foreign_product P T text = None
     \<and> (\<exists>m0. tr_typed T text = Inr m0 \<and> m = normalize_manifest m0 \<and> manifest_ok m
          \<and> is_ok (pr_validate P m))"
  by (auto simp: parse_inner_ok check_contract_ok)

lemma parse_admits_exactly_core:
  "parse_manifest P T text = Inr m \<longleftrightarrow>
     declared_product T text \<in> {None, Some (pr_slug P)}
     \<and> (\<exists>m0. tr_typed T text = Inr m0
          \<and> (if applies_to (pr_contract_fields P) (bm_contract (mf_backend m0))
             then \<exists>raw. tr_raw T text = Inr raw \<and> contract_holds P raw (bm_contract (mf_backend m0))
             else True)
          \<and> m = normalize_manifest m0 \<and> manifest_ok m \<and> is_ok (pr_validate P m))"
proof -
  have "foreign_product P T text = None \<longleftrightarrow> declared_product T text \<in> {None, Some (pr_slug P)}"
    by (auto simp: foreign_product_def split: option.splits)
  then show ?thesis unfolding parse_manifest_def parse_inner_ok check_contract_ok by auto
qed

subsection \<open>Properties\<close>

text \<open>
  C2. \<open>parse\<close> admits exactly the manifests the documentation describes: naming this product or none,
  with a document that satisfies every contract field rule of the generation it declares, a safe
  entrypoint and id, models whose file variants agree and whose \<open>prepare_files\<close> are listed, assets
  whose accelerator fields match, and whatever the product adds. What it returns is the document
  as read, with an empty \<open>file\<close> of an asset read as absent.
\<close>

theorem parse_admits_exactly:
  "parse_manifest P T text = Inr m \<longleftrightarrow>
     declared_product T text \<in> {None, Some (pr_slug P)}
     \<and> (\<exists>m0. tr_typed T text = Inr m0
          \<and> (if applies_to (pr_contract_fields P) (bm_contract (mf_backend m0))
             then \<exists>raw. tr_raw T text = Inr raw \<and> contract_holds P raw (bm_contract (mf_backend m0))
             else True)
          \<and> m = normalize_manifest m0 \<and> manifest_ok m \<and> is_ok (pr_validate P m))"
  by (rule parse_admits_exactly_core)

text \<open>
  Reading an installed backend relaxes one rule and no other: \<open>parse\<close> admits a document iff
  \<open>parse_installed\<close> admits it, with the same result, and the contract field rules that apply to
  the generation it declares hold of the raw document.
\<close>

theorem parse_installed_relaxes_contract_only:
  "parse_manifest P T text = Inr m \<longleftrightarrow>
     parse_installed P T text = Inr m
     \<and> (if applies_to (pr_contract_fields P) (bm_contract (mf_backend m))
        then \<exists>raw. tr_raw T text = Inr raw \<and> contract_holds P raw (bm_contract (mf_backend m))
        else True)"
  unfolding parse_manifest_def parse_installed_def parse_inner_Ignored
  unfolding parse_inner_ok check_contract_ok by auto

text \<open>
  A manifest of another product is reported as such before anything else about it: whatever
  the typed parse, the contract and the fields are, the error is \<open>OtherProduct\<close> exactly when the
  head names a product other than this one, and it carries both names.
\<close>

theorem other_product_reported_first:
  "parse_inner P T text mode = Inl (OtherProduct declared expected) \<longleftrightarrow>
     declared_product T text = Some declared \<and> declared \<noteq> pr_slug P \<and> expected = pr_slug P"
proof (cases "foreign_product P T text")
  case (Some e)
  then show ?thesis
    by (auto simp: parse_inner_def foreign_product_def split: option.splits if_splits)
next
  case None
  have r: "parse_inner P T text mode \<noteq> Inl (OtherProduct declared expected)"
    using None parse_inner_not_other_product by blast
  from None have "declared_product T text \<noteq> Some declared \<or> declared = pr_slug P"
    by (auto simp: foreign_product_def split: option.splits if_splits)
  with r show ?thesis by blast
qed

end
