(* ===== verification/Daemon_CarryOver.thy ===== *)
theory Daemon_CarryOver
  imports SE_Files Spec_Parse
begin

section \<open>Which model files survive an update\<close>

text \<open>
  \<open>super-engine-daemon/src/registry/carry_over.rs\<close>: the destinations two manifests declare alike
  (\<open>declared\<close>, \<open>survivors\<close>), and the move of those files between two backend directories (\<open>carry\<close>).
  \<open>offers\<close> is the reading of a manifest the comparison is about; \<open>carry\<close> is proved never to lose a
  file, whatever call fails.
\<close>

subsection \<open>Joining a path\<close>

text \<open>\<open>Path::join\<close> followed by the kernel's walk: \<open>..\<close> goes up, and stays at the root.\<close>

fun walk :: "path \<Rightarrow> string list \<Rightarrow> path" where
  "walk base [] = base"
| "walk base (c # cs) =
     (if c = [] \<or> c = ''.'' then walk base cs
      else if c = ''..'' then walk (butlast base) cs
      else walk (base @ [c]) cs)"

definition join_path :: "path \<Rightarrow> string \<Rightarrow> path" where
  "join_path base s = walk (if starts_with ''/'' s then [] else base) (split_on (CHR ''/'') s)"

lemma walk_safe: "list_all is_safe_component cs \<Longrightarrow> walk base cs = base @ cs"
  by (induction cs arbitrary: base) (auto simp: is_safe_component_def)

lemma join_safe:
  assumes "is_safe_relative_path s"
  shows "join_path base s = base @ split_on (CHR ''/'') s"
proof -
  have "\<not> starts_with ''/'' s" using assms by (auto simp: is_safe_relative_path_def split: if_splits)
  with assms show ?thesis by (simp add: join_path_def safe_relative_components walk_safe)
qed

lemma join_component:
  assumes "is_safe_component s" shows "join_path base s = base @ [s]"
proof -
  have "resolve [] (split_on (CHR ''/'') s) = Some ([] @ [s])" by (rule resolve_component) (rule assms)
  moreover have "split_on (CHR ''/'') s = [s]"
    using assms by (simp add: is_safe_component_def contains_char_def split_on_no_sep)
  ultimately show ?thesis using assms
    by (auto simp: join_path_def is_safe_component_def starts_with_iff contains_char_def)
qed

subsection \<open>declared and survivors\<close>

text \<open>\<open>per_model.entry(dest).or_default().push(url)\<close>, over one model's files.\<close>

definition push_url :: "(string, string list) hmap \<Rightarrow> file_spec \<Rightarrow> (string, string list) hmap" where
  "push_url per_model f =
     hm_insert (fs_destination f)
       ((case hm_get per_model (fs_destination f) of None \<Rightarrow> [] | Some urls \<Rightarrow> urls) @ [fs_url f])
       per_model"

definition declare_dest ::
  "(string, string list option) hmap \<Rightarrow> string \<times> string list \<Rightarrow> (string, string list option) hmap" where
  "declare_dest out p =
     (case p of (dest, urls) \<Rightarrow>
       (case hm_get out dest of
          None \<Rightarrow> hm_insert dest (Some urls) out
        | Some slot \<Rightarrow> if slot \<noteq> Some urls then hm_insert dest None out else out))"

definition declare_model ::
  "(string, string list option) hmap \<Rightarrow> 'm model_entry \<Rightarrow> (string, string list option) hmap" where
  "declare_model out model = foldl declare_dest out (foldl push_url hm_empty (me_files model))"

definition declared :: "('c, 'cap, 'm, 'f) manifest \<Rightarrow> (string, string list option) hmap" where
  "declared m = foldl declare_model hm_empty (mf_models m)"

definition survivors :: "('c, 'cap, 'm, 'f) manifest \<Rightarrow> ('c, 'cap, 'm, 'f) manifest \<Rightarrow> string list" where
  "survivors old new =
     (let old_files = declared old
      in sort (List.map_filter
           (\<lambda>(dest, urls). case urls of
              None \<Rightarrow> None
            | Some u \<Rightarrow> if hm_get old_files dest = Some (Some u) then Some dest else None)
           (declared new)))"

subsection \<open>carry\<close>

definition meta_len :: "files \<Rightarrow> path \<Rightarrow> nat" where
  "meta_len fs p = (case file_text fs p of None \<Rightarrow> 0 | Some t \<Rightarrow> length t)"

definition carry_one :: "path \<Rightarrow> path \<Rightarrow> string \<Rightarrow> ('z disk_scheme, io_kind, nat) action" where
  "carry_one from_dir to_dir dest =
     (let src = join_path from_dir dest; dst = join_path to_dir dest
      in io_then (io_look (\<lambda>fs. (path_exists fs src \<and> \<not> path_exists fs dst, meta_len fs src)))
           (\<lambda>(go, len).
              if \<not> go then io_pure 0
              else io_then (create_dir_all (parent_of dst)) (\<lambda>_.
                   io_then (rename_path src dst) (\<lambda>_.
                   io_pure len))))"

fun carry_loop :: "path \<Rightarrow> path \<Rightarrow> string list \<Rightarrow> nat \<Rightarrow> ('z disk_scheme, io_kind, nat) action" where
  "carry_loop from_dir to_dir [] acc = io_pure acc"
| "carry_loop from_dir to_dir (dest # rest) acc =
     io_then (carry_one from_dir to_dir dest) (\<lambda>len. carry_loop from_dir to_dir rest (acc + len))"

definition carry :: "path \<Rightarrow> path \<Rightarrow> string list \<Rightarrow> ('z disk_scheme, io_kind, nat) action" where
  "carry from_dir to_dir destinations =
     (if \<not> list_all is_safe_relative_path destinations then io_fail IoInvalidData
      else carry_loop from_dir to_dir destinations 0)"

subsection \<open>The reading of a manifest\<close>

text \<open>A model's variants of a destination, and what a manifest offers there without ambiguity.\<close>

definition urls_at :: "'m model_entry \<Rightarrow> string \<Rightarrow> string list" where
  "urls_at md dest = map fs_url (filter (\<lambda>f. fs_destination f = dest) (me_files md))"

definition offers :: "('c, 'cap, 'm, 'f) manifest \<Rightarrow> string \<Rightarrow> string list \<Rightarrow> bool" where
  "offers m dest urls =
     (urls \<noteq> []
      \<and> list_ex (\<lambda>md. urls_at md dest = urls) (mf_models m)
      \<and> list_all (\<lambda>md. urls_at md dest \<in> {[], urls}) (mf_models m))"

lemma push_url_get:
  "hm_get (push_url pm f) dest =
     (if dest = fs_destination f
      then Some ((case hm_get pm dest of None \<Rightarrow> [] | Some u \<Rightarrow> u) @ [fs_url f])
      else hm_get pm dest)"
  by (simp add: push_url_def)

lemma push_urls_get:
  "hm_get (foldl push_url pm fs) dest =
     (let us = map fs_url (filter (\<lambda>f. fs_destination f = dest) fs)
      in if us = [] then hm_get pm dest
         else Some ((case hm_get pm dest of None \<Rightarrow> [] | Some u \<Rightarrow> u) @ us))"
proof (induction fs arbitrary: pm)
  case (Cons f fs)
  show ?case
    by (simp add: Cons Let_def push_url_get split: option.split)
qed simp

lemma push_urls_ok: "hm_ok pm \<Longrightarrow> hm_ok (foldl push_url pm fs)"
  by (induction fs arbitrary: pm) (auto simp: push_url_def intro: hm.ok_ins)

lemma declare_dest_get:
  "hm_get (declare_dest out (k, u)) dest =
     (if dest = k
      then (case hm_get out k of
              None \<Rightarrow> Some (Some u)
            | Some slot \<Rightarrow> Some (if slot = Some u then slot else None))
      else hm_get out dest)"
  by (auto simp: declare_dest_def split: option.split)

lemma declare_dests_get:
  "hm_ok ps \<Longrightarrow> hm_get (foldl declare_dest out ps) dest =
     (case hm_get ps dest of
        None \<Rightarrow> hm_get out dest
      | Some u \<Rightarrow>
          (case hm_get out dest of
             None \<Rightarrow> Some (Some u)
           | Some slot \<Rightarrow> Some (if slot = Some u then slot else None)))"
proof (induction ps arbitrary: out)
  case (Cons p ps)
  obtain k u where p: "p = (k, u)" by (cases p)
  with Cons.prems have ok: "hm_ok ps" and fresh: "hm_get ps k = None"
    by (auto simp: hm_ok_def hm_get_def map_of_eq_None_iff)
  have "hm_get ((k, u) # ps) dest = (if dest = k then Some u else hm_get ps dest)"
    by (simp add: hm_get_def)
  then show ?case
    using fresh by (simp add: p Cons.IH [OF ok] declare_dest_get split: option.split)
qed (simp add: hm_get_def)

lemma declare_model_get:
  "hm_get (declare_model out md) dest =
     (if urls_at md dest = [] then hm_get out dest
      else case hm_get out dest of
             None \<Rightarrow> Some (Some (urls_at md dest))
           | Some slot \<Rightarrow> Some (if slot = Some (urls_at md dest) then slot else None))"
  by (cases "urls_at md dest = []")
    (simp_all add: declare_model_def declare_dests_get push_urls_ok hm.ok_empty push_urls_get
      hm.get_empty urls_at_def [symmetric] Let_def)

lemma declared_get:
  "hm_get (foldl declare_model hm_empty mds) dest =
     (case filter (\<lambda>us. us \<noteq> []) (map (\<lambda>md. urls_at md dest) mds) of
        [] \<Rightarrow> None
      | us # rest \<Rightarrow> Some (if list_all (\<lambda>v. v = us) rest then Some us else None))"
proof (induction mds rule: rev_induct)
  case Nil
  show ?case by (simp add: hm.get_empty)
next
  case (snoc md mds)
  show ?case
    by (auto simp: declare_model_get snoc split: list.splits if_splits)
qed

lemma declared_offers: "hm_get (declared m) dest = Some (Some urls) \<longleftrightarrow> offers m dest urls"
proof -
  let ?L = "filter (\<lambda>us. us \<noteq> []) (map (\<lambda>md. urls_at md dest) (mf_models m))"
  have off: "offers m dest urls \<longleftrightarrow> urls \<in> set ?L \<and> (\<forall>v \<in> set ?L. v = urls)"
    by (auto simp: offers_def list_ex_iff list_all_iff)
  show ?thesis
    by (cases ?L) (auto simp: declared_def declared_get off list_all_iff simp del: filter_map)
qed

lemma declare_model_ok: "hm_ok out \<Longrightarrow> hm_ok (declare_model out md)"
proof -
  have "hm_ok out \<Longrightarrow> hm_ok (foldl declare_dest out ps)" for ps
    by (induction ps arbitrary: out)
      (auto simp: declare_dest_def intro: hm.ok_ins split: prod.splits option.splits)
  then show "hm_ok out \<Longrightarrow> ?thesis" by (simp add: declare_model_def)
qed

lemma declare_models_ok: "hm_ok out \<Longrightarrow> hm_ok (foldl declare_model out mds)"
  by (induction mds arbitrary: out) (simp_all add: declare_model_ok)

lemma declared_ok: "hm_ok (declared m)"
  by (simp add: declared_def declare_models_ok hm.ok_empty)

text \<open>
  A file survives an update exactly when both manifests offer its destination without
  ambiguity and with the same list of URLs; the list is sorted and names each destination once.
\<close>

theorem survivors_exact:
  "(dest \<in> set (survivors old new) \<longleftrightarrow> (\<exists>urls. offers old dest urls \<and> offers new dest urls))
   \<and> sorted (survivors old new) \<and> distinct (survivors old new)"
proof (intro conjI)
  let ?pick = "\<lambda>(dest, urls). case urls of
      None \<Rightarrow> None
    | Some u \<Rightarrow> if hm_get (declared old) dest = Some (Some u) then Some dest else None"
  have mem: "(dest, v) \<in> set (declared new) \<longleftrightarrow> hm_get (declared new) dest = Some v" for dest v
    by (rule hm_get_iff [symmetric]) (rule declared_ok)
  show "dest \<in> set (survivors old new) \<longleftrightarrow> (\<exists>urls. offers old dest urls \<and> offers new dest urls)"
    by (auto simp: survivors_def Let_def List.map_filter_def mem declared_offers image_iff Bex_def
        split: option.splits if_splits)
  show "sorted (survivors old new)" by (simp add: survivors_def)
  have "distinct (List.map_filter ?pick xs)" if "distinct (map fst xs)" for xs
    using that
    by (induction xs) (force simp: List.map_filter_def split: option.splits if_splits)+
  with declared_ok [of new] show "distinct (survivors old new)"
    by (simp add: survivors_def Let_def hm_ok_def)
qed

subsection \<open>A move never loses a file\<close>

text \<open>
  \<open>dirs_above D fs\<close>: what is below \<open>D\<close> sits in directories. \<open>conserved F T a b\<close>: everything that was
  below \<open>F\<close> in \<open>a\<close> is in \<open>b\<close> at the same place or at the same place below \<open>T\<close>, and what \<open>T\<close> held
  is untouched.
\<close>

definition dirs_above :: "path \<Rightarrow> files \<Rightarrow> bool" where
  "dirs_above D fs =
     (\<forall>r s. r \<noteq> [] \<longrightarrow> s \<noteq> [] \<longrightarrow> hm_get fs (D @ r @ s) \<noteq> None \<longrightarrow> hm_get fs (D @ r) = Some IDir)"

definition conserved :: "path \<Rightarrow> path \<Rightarrow> files \<Rightarrow> files \<Rightarrow> bool" where
  "conserved F T a b =
     (\<forall>r. (hm_get a (F @ r) \<noteq> None \<longrightarrow>
             hm_get b (F @ r) = hm_get a (F @ r) \<or> hm_get b (T @ r) = hm_get a (F @ r))
        \<and> (path_exists a (T @ r) \<longrightarrow> hm_get b (T @ r) = hm_get a (T @ r)))"

definition carry_inv :: "path \<Rightarrow> path \<Rightarrow> files \<Rightarrow> files \<Rightarrow> bool" where
  "carry_inv F T a b =
     (conserved F T a b \<and> dirs_above F b \<and> dirs_above T b
      \<and> (\<forall>r. hm_get b (F @ r) \<in> {None, hm_get a (F @ r)})
      \<and> (\<forall>r. path_exists a (T @ r) \<longrightarrow> hm_get b (F @ r) = hm_get a (F @ r)))"

lemma dirs_above_rooted: "rooted fs \<Longrightarrow> dirs_above D fs"
  unfolding dirs_above_def using rooted_up [of fs "D @ r" s for r s] by auto

lemma dirs_aboveD:
  "dirs_above D fs \<Longrightarrow> hm_get fs (D @ r @ s) \<noteq> None \<Longrightarrow> r \<noteq> [] \<Longrightarrow> s \<noteq> [] \<Longrightarrow>
    hm_get fs (D @ r) = Some IDir"
  unfolding dirs_above_def by blast

lemma dirs_aboveI:
  "(\<And>r s. r \<noteq> [] \<Longrightarrow> s \<noteq> [] \<Longrightarrow> hm_get fs (D @ r @ s) \<noteq> None \<Longrightarrow> hm_get fs (D @ r) = Some IDir) \<Longrightarrow>
    dirs_above D fs"
  unfolding dirs_above_def by blast

lemma carry_inv_start: "dirs_above F a \<Longrightarrow> dirs_above T a \<Longrightarrow> carry_inv F T a a"
  by (simp add: carry_inv_def conserved_def)

lemma under_append [simp]: "under (p @ r) (p @ s) \<longleftrightarrow> under r s"
  by (simp add: under_def)

lemma not_under_join:
  assumes "\<not> under a b" "\<not> under b a"
  shows "\<not> under (a @ r) (b @ s)"
proof
  assume "under (a @ r) (b @ s)"
  then have "prefix a (b @ s)" unfolding under_def by (rule append_prefixD)
  moreover have "prefix b (b @ s)" by (rule prefixI) (rule refl)
  ultimately have "prefix a b \<or> prefix b a" by (rule prefix_same_cases)
  with assms show False by (simp add: under_def)
qed

lemma carry_inv_mkdirs:
  assumes inv: "carry_inv F T a b" and apart: "\<not> under F T" "\<not> under T F"
    and up: "under up (T @ c)"
    and get: "\<And>q. hm_get b2 q = (if q \<noteq> [] \<and> under q up then Some IDir else hm_get b q)"
    and was: "\<And>q. q \<noteq> [] \<Longrightarrow> under q up \<Longrightarrow> hm_get b q \<in> {None, Some IDir}"
  shows "carry_inv F T a b2"
proof -
  have F_same: "hm_get b2 (F @ r) = hm_get b (F @ r)" for r
  proof -
    have "\<not> under (F @ r) (T @ c)" using apart by (rule not_under_join)
    with up have "\<not> under (F @ r) up" unfolding under_def by (meson prefix_order.trans)
    then show ?thesis by (simp add: get)
  qed
  have T_old: "hm_get b2 (T @ r) = hm_get b (T @ r)" if "hm_get b (T @ r) \<noteq> None" for r
    using that was [of "T @ r"] by (auto simp: get)
  have T_new: "hm_get b2 (T @ r) = Some IDir"
    if "r \<noteq> []" "s \<noteq> []" "hm_get b2 (T @ r @ s) \<noteq> None" for r s
  proof (cases "under (T @ r @ s) up")
    case True
    then have "under (T @ r) up" using append_prefixD [of "T @ r" s up] by (simp add: under_def)
    with that show ?thesis by (simp add: get)
  next
    case False
    with that have "hm_get b (T @ r @ s) \<noteq> None" by (simp add: get)
    with inv that have "hm_get b (T @ r) = Some IDir"
      unfolding carry_inv_def by (blast intro: dirs_aboveD)
    then show ?thesis by (simp add: get)
  qed
  have "conserved F T a b2"
    unfolding conserved_def
  proof (intro allI conjI impI)
    fix r
    show "hm_get b2 (F @ r) = hm_get a (F @ r) \<or> hm_get b2 (T @ r) = hm_get a (F @ r)"
      if "hm_get a (F @ r) \<noteq> None"
      using inv that F_same [of r] T_old [of r] by (auto simp: carry_inv_def conserved_def)
    show "hm_get b2 (T @ r) = hm_get a (T @ r)" if e: "path_exists a (T @ r)"
    proof -
      have "T \<noteq> []" using apart by (auto simp: under_def)
      with e have "hm_get a (T @ r) \<noteq> None" by (auto simp: path_exists_def split: option.splits)
      with inv e T_old [of r] show ?thesis by (auto simp: carry_inv_def conserved_def)
    qed
  qed
  moreover have "dirs_above F b2"
  proof (rule dirs_aboveI)
    fix r s
    assume rs: "r \<noteq> []" "s \<noteq> []" "hm_get b2 (F @ r @ s) \<noteq> None"
    have "dirs_above F b" using inv by (simp add: carry_inv_def)
    from dirs_aboveD [OF this _ rs(1,2)] rs(3) show "hm_get b2 (F @ r) = Some IDir"
      by (simp add: F_same)
  qed
  moreover have "dirs_above T b2" using T_new by (rule dirs_aboveI)
  ultimately show ?thesis using inv by (simp add: carry_inv_def F_same)
qed

lemma carry_inv_rename:
  assumes inv: "carry_inv F T a b" and apart: "\<not> under F T" "\<not> under T F" and c: "c \<noteq> []"
    and src: "path_exists b (F @ c)" and dst: "\<not> path_exists b (T @ c)"
    and up: "\<And>p s. c = p @ s \<Longrightarrow> p \<noteq> [] \<Longrightarrow> s \<noteq> [] \<Longrightarrow> hm_get b (T @ p) = Some IDir"
  shows "carry_inv F T a (moved (F @ c) (T @ c) b)"
proof -
  let ?b2 = "moved (F @ c) (T @ c) b"
  have sep: "\<not> under (F @ c) (T @ r)" "\<not> under (T @ c) (F @ r)" for r
    using apart not_under_join by blast+
  have F_get: "hm_get ?b2 (F @ r) = (if under c r then None else hm_get b (F @ r))" for r
    using sep by (simp add: get_moved)
  have T_get: "hm_get ?b2 (T @ r) = (if under c r then hm_get b (F @ r) else hm_get b (T @ r))" for r
    using sep by (auto simp: get_moved under_iff)
  have inv1: "conserved F T a b" and inv2: "dirs_above F b" and inv3: "dirs_above T b"
    and inv4: "\<And>r. hm_get b (F @ r) \<in> {None, hm_get a (F @ r)}"
    and inv5: "\<And>r. path_exists a (T @ r) \<Longrightarrow> hm_get b (F @ r) = hm_get a (F @ r)"
    using inv by (auto simp: carry_inv_def)
  have T_none: "hm_get b (T @ r) = None \<or> r = c \<and> hm_get b (T @ r) = Some (ILink None)"
    if "under c r" for r
  proof -
    from that obtain s where r: "r = c @ s" by (auto simp: under_iff)
    have "T @ c \<noteq> []" using c by simp
    then have top: "hm_get b (T @ c) \<in> {None, Some (ILink None)}"
      using dst by (auto simp: path_exists_def split: option.splits inode.splits)
    show ?thesis
    proof (cases "s = []")
      case False
      have "hm_get b (T @ c @ s) = None"
      proof (rule ccontr)
        assume "hm_get b (T @ c @ s) \<noteq> None"
        with dirs_aboveD [OF inv3 _ c False] top show False by simp
      qed
      with r show ?thesis by simp
    qed (use top r in auto)
  qed
  have "conserved F T a ?b2"
    unfolding conserved_def
  proof (intro allI conjI impI)
    fix r
    assume old: "hm_get a (F @ r) \<noteq> None"
    show "hm_get ?b2 (F @ r) = hm_get a (F @ r) \<or> hm_get ?b2 (T @ r) = hm_get a (F @ r)"
    proof (cases "under c r")
      case False
      with inv1 old show ?thesis by (auto simp: F_get T_get conserved_def)
    next
      case True
      have "hm_get b (F @ r) = hm_get a (F @ r)"
      proof (rule ccontr)
        assume ne: "hm_get b (F @ r) \<noteq> hm_get a (F @ r)"
        with inv1 old have "hm_get b (T @ r) = hm_get a (F @ r)" by (auto simp: conserved_def)
        with T_none [OF True] old have "r = c" "hm_get a (F @ c) = Some (ILink None)" by auto
        moreover have "hm_get b (F @ c) = hm_get a (F @ c)"
          using inv4 [of c] src c by (auto simp: path_exists_def)
        ultimately show False using ne by simp
      qed
      with True show ?thesis by (simp add: T_get)
    qed
  next
    fix r
    assume e: "path_exists a (T @ r)"
    with inv1 have same: "hm_get b (T @ r) = hm_get a (T @ r)" by (simp add: conserved_def)
    have "T \<noteq> []" using apart by (auto simp: under_def)
    with e same T_none [of r] have "\<not> under c r"
      by (auto simp: path_exists_def split: option.splits)
    with same show "hm_get ?b2 (T @ r) = hm_get a (T @ r)" by (simp add: T_get)
  qed
  moreover have "dirs_above F ?b2"
  proof (rule dirs_aboveI)
    fix r s
    assume rs: "r \<noteq> []" "s \<noteq> []" "hm_get ?b2 (F @ r @ s) \<noteq> None"
    then have "\<not> under c (r @ s)" "hm_get b (F @ r @ s) \<noteq> None" by (auto simp: F_get split: if_splits)
    moreover from this(1) have "\<not> under c r" by (auto simp: under_iff)
    ultimately show "hm_get ?b2 (F @ r) = Some IDir"
      using dirs_aboveD [OF inv2 _ rs(1,2)] by (simp add: F_get)
  qed
  moreover have "dirs_above T ?b2"
  proof (rule dirs_aboveI)
    fix r s
    assume rs: "r \<noteq> []" "s \<noteq> []" "hm_get ?b2 (T @ r @ s) \<noteq> None"
    show "hm_get ?b2 (T @ r) = Some IDir"
    proof (cases "under c (r @ s)")
      case False
      then have "\<not> under c r" by (auto simp: under_iff)
      with False rs dirs_aboveD [OF inv3 _ rs(1,2)] show ?thesis by (simp add: T_get)
    next
      case True
      with rs have present: "hm_get b (F @ r @ s) \<noteq> None" by (simp add: T_get)
      show ?thesis
      proof (cases "under c r")
        case True
        with dirs_aboveD [OF inv2 present rs(1,2)] show ?thesis by (simp add: T_get)
      next
        case False
        with True obtain t where "c = r @ t" "t \<noteq> []"
          by (auto simp: under_iff append_eq_append_conv2)
        with up [of r t] rs(1) have "hm_get b (T @ r) = Some IDir" by blast
        with False show ?thesis by (simp only: T_get if_False)
      qed
    qed
  qed
  moreover have "hm_get ?b2 (F @ r) \<in> {None, hm_get a (F @ r)}" for r
    using inv4 [of r] by (simp add: F_get)
  moreover have "hm_get ?b2 (F @ r) = hm_get a (F @ r)" if e: "path_exists a (T @ r)" for r
  proof -
    have "hm_get b (T @ r) = hm_get a (T @ r)" using inv1 e by (simp add: conserved_def)
    moreover have "T \<noteq> []" using apart by (auto simp: under_def)
    ultimately have "\<not> under c r"
      using e T_none [of r] by (auto simp: path_exists_def split: option.splits)
    with inv5 [OF e] show ?thesis by (simp add: F_get)
  qed
  ultimately show ?thesis by (simp add: carry_inv_def)
qed

lemma path_exists_get: "p \<noteq> [] \<Longrightarrow> path_exists fs p \<longleftrightarrow> (\<exists>v. hm_get fs p = Some v \<and> v \<noteq> ILink None)"
  by (auto simp: path_exists_def split: option.splits inode.splits)

lemma carry_one_inv:
  assumes safe: "is_safe_relative_path dest"
    and inv: "carry_inv F T a (dk_files d)" and apart: "\<not> under F T" "\<not> under T F"
    and run: "carry_one F T dest d = (d2, r)"
  shows "through (carry_inv F T a) d d2
    \<and> (is_ok r \<longrightarrow> path_exists (dk_files d) (join_path F dest) \<longrightarrow> path_exists (dk_files d2) (join_path T dest))"
proof -
  let ?c = "split_on (CHR ''/'') dest"
  let ?src = "F @ ?c" and ?dst = "T @ ?c"
  have join: "join_path F dest = ?src" "join_path T dest = ?dst"
    using safe by (simp_all add: join_safe)
  show ?thesis
  proof (cases "path_exists (dk_files d) ?src \<and> \<not> path_exists (dk_files d) ?dst")
    case False
    with run inv show ?thesis
      by (auto simp: carry_one_def join Let_def io_then_def io_look_def io_pure_def through_refl)
  next
    case True
    obtain d1 r1 where mk: "create_dir_all (parent_of ?dst) d = (d1, r1)"
      by (cases "create_dir_all (parent_of ?dst) d")
    from mk show ?thesis
    proof (cases rule: create_cases)
      case (made up)
      have up_le: "under up (T @ butlast ?c)" using made(1) by (simp add: parent_of_def butlast_append)
      have inv1: "carry_inv F T a (dk_files d1)"
        by (rule carry_inv_mkdirs [OF inv apart up_le made(2,3)])
      have 1: "through (carry_inv F T a) d d1" using made(5) inv1 by (rule through_one)
      show ?thesis
      proof (cases r1)
        case (Inl e)
        with run True mk 1 show ?thesis
          by (auto simp: carry_one_def join Let_def io_then_def io_look_def)
      next
        case (Inr u)
        with made(4) have up_eq: "up = T @ butlast ?c" by (simp add: parent_of_def butlast_append)
        have "\<not> under ?dst up"
          using up_eq prefix_length_le [of ?c "butlast ?c"]
          by (cases ?c rule: rev_cases) (auto simp: under_def)
        then have dst1: "\<not> path_exists (dk_files d1) ?dst"
          using True made(2) [of ?dst] by (simp add: path_exists_def)
        have src1: "path_exists (dk_files d1) ?src"
          using True made(2) [of ?src] made(3) [of ?src] by (auto simp: path_exists_def)
        have above: "hm_get (dk_files d1) (T @ p) = Some IDir" if "?c = p @ s" "p \<noteq> []" "s \<noteq> []" for p s
          using that made(2) [of "T @ p"] up_eq by (simp add: butlast_append)
        obtain d3 r3 where mv: "rename_path ?src ?dst d1 = (d3, r3)" by (cases "rename_path ?src ?dst d1")
        have d2: "d2 = d3 \<and> is_ok r = is_ok r3"
          using run True mk Inr mv
          by (auto simp: carry_one_def join Let_def io_then_def io_look_def io_pure_def split: sum.splits)
        from mv have "through (carry_inv F T a) d1 d3 \<and> (is_ok r3 \<longrightarrow> path_exists (dk_files d3) ?dst)"
        proof (cases rule: rename_cases)
          case (failed e)
          with inv1 show ?thesis by (auto intro: through_one)
        next
          case renamed
          have "carry_inv F T a (dk_files d3)"
            using carry_inv_rename [OF inv1 apart _ src1 dst1 above] renamed by simp
          moreover have "hm_get (dk_files d3) ?dst = hm_get (dk_files d1) ?src"
            using not_under_join [OF apart] not_under_join [OF apart(2,1)] renamed by (simp add: get_moved)
          ultimately show ?thesis using renamed src1 by (auto intro: through_one simp: path_exists_get)
        qed
        with 1 d2 show ?thesis by (auto simp: join intro: through_trans)
      qed
    qed
  qed
qed

lemma carry_loop_inv:
  "list_all is_safe_relative_path dests \<Longrightarrow> carry_inv F T a (dk_files d) \<Longrightarrow>
    \<not> under F T \<Longrightarrow> \<not> under T F \<Longrightarrow> carry_loop F T dests acc d = (d2, r) \<Longrightarrow>
    through (carry_inv F T a) d d2"
proof (induction dests arbitrary: acc d)
  case (Cons dest rest)
  obtain d1 r1 where one: "carry_one F T dest d = (d1, r1)" by (cases "carry_one F T dest d")
  have 1: "through (carry_inv F T a) d d1"
    using carry_one_inv [OF _ Cons.prems(2,3,4) one] Cons.prems(1) by simp
  show ?case
  proof (cases r1)
    case (Inl e)
    with Cons.prems(5) one 1 show ?thesis by (simp add: io_then_def)
  next
    case (Inr len)
    with Cons.prems(5) one have "carry_loop F T rest (acc + len) d1 = (d2, r)" by (simp add: io_then_def)
    with Cons.IH [OF _ through_end [OF 1] Cons.prems(3,4)] Cons.prems(1) 1
    show ?thesis by (auto intro: through_trans)
  qed
qed (simp add: io_pure_def through_refl)

text \<open>
  C4. A move of model files loses none of them, whatever call fails: in every state the move passes
  through, each file below the old directory is still there or at the same place in the new one,
  and what the new directory held is as it was.
\<close>

theorem carry_loses_nothing:
  assumes "dirs_above F (dk_files d)" "dirs_above T (dk_files d)" "\<not> under F T" "\<not> under T F"
  shows "through (conserved F T (dk_files d)) d (fst (carry F T dests d))"
proof -
  have start: "carry_inv F T (dk_files d) (dk_files d)" using assms(1,2) by (rule carry_inv_start)
  obtain d2 r where run: "carry F T dests d = (d2, r)" by (cases "carry F T dests d")
  have "through (carry_inv F T (dk_files d)) d d2"
  proof (cases "list_all is_safe_relative_path dests")
    case True
    with run carry_loop_inv [OF True start assms(3,4)] show ?thesis by (simp add: carry_def)
  next
    case False
    with run start show ?thesis by (simp add: carry_def io_fail_def through_refl)
  qed
  then show ?thesis using run by (auto simp: carry_inv_def elim: through_mono)
qed

text \<open>\<open>dirs_above\<close>, read off the entries of a concrete file system.\<close>

lemma dirs_above_check:
  assumes "list_all (\<lambda>(q, _). if under D q
      then list_all (\<lambda>k. hm_get fs (take k q) = Some IDir) [Suc (length D)..<length q] else True) fs"
  shows "dirs_above D fs"
proof (rule dirs_aboveI)
  fix r s
  assume rs: "r \<noteq> []" "s \<noteq> []" "hm_get fs (D @ r @ s) \<noteq> None"
  then obtain v where "hm_get fs (D @ r @ s) = Some v" by (cases "hm_get fs (D @ r @ s)") auto
  then have "(D @ r @ s, v) \<in> set fs" by (rule hm_get_set)
  from bspec [OF assms [unfolded list_all_iff] this]
  have all: "\<forall>k \<in> set [Suc (length D)..<length (D @ r @ s)]. hm_get fs (take k (D @ r @ s)) = Some IDir"
    by simp
  have "length D + length r \<in> set [Suc (length D)..<length (D @ r @ s)]"
    using rs(1,2) by (simp add: Suc_le_eq)
  from bspec [OF all this] show "hm_get fs (D @ r) = Some IDir" by simp
qed

definition sample_files :: files where
  "sample_files =
     [([''b''], IDir), ([''b'', ''old''], IDir), ([''b'', ''old'', ''m''], IDir),
      ([''b'', ''old'', ''m'', ''w''], IFile ''weights''),
      ([''b'', ''new''], IDir), ([''b'', ''new'', ''backend.toml''], IFile ''new'')]"

definition sample_disk :: "fault list \<Rightarrow> disk" where
  "sample_disk faults = \<lparr>dk_files = sample_files, dk_faults = faults, dk_trace = []\<rparr>"

theorem carry_loses_nothing_witness:
  "through (conserved [''b'', ''old''] [''b'', ''new''] sample_files) (sample_disk [Works, Breaks 0])
     (fst (carry [''b'', ''old''] [''b'', ''new''] [''m/w''] (sample_disk [Works, Breaks 0])))"
proof -
  have "dirs_above [''b'', ''old''] sample_files"
    by (rule dirs_above_check) code_simp
  moreover have "dirs_above [''b'', ''new''] sample_files"
    by (rule dirs_above_check) code_simp
  ultimately show ?thesis
    using carry_loses_nothing [of "[''b'', ''old'']" "sample_disk [Works, Breaks 0]" "[''b'', ''new'']" "[''m/w'']"]
    by (simp add: sample_disk_def under_def)
qed

subsection \<open>A move that returns has landed\<close>

lemma conserved_from:
  assumes "conserved F T a b" "F \<noteq> []" "T \<noteq> []" "path_exists a (F @ q)"
  shows "path_exists b (F @ q) \<or> path_exists b (T @ q)"
proof -
  have "hm_get b (F @ q) = hm_get a (F @ q) \<or> hm_get b (T @ q) = hm_get a (F @ q)"
    using assms by (auto simp: conserved_def path_exists_get)
  with assms show ?thesis by (auto simp: path_exists_get)
qed

lemma conserved_to: "conserved F T a b \<Longrightarrow> T \<noteq> [] \<Longrightarrow> path_exists a (T @ q) \<Longrightarrow> path_exists b (T @ q)"
  by (auto simp: conserved_def path_exists_get)

lemma carry_loop_lands:
  "list_all is_safe_relative_path dests \<Longrightarrow> dirs_above F (dk_files d) \<Longrightarrow> dirs_above T (dk_files d) \<Longrightarrow>
    \<not> under F T \<Longrightarrow> \<not> under T F \<Longrightarrow> carry_loop F T dests acc d = (d2, Inr n) \<Longrightarrow>
    list_all (\<lambda>dest. path_exists (dk_files d) (join_path F dest) \<longrightarrow>
      path_exists (dk_files d2) (join_path T dest)) dests"
proof (induction dests arbitrary: acc d)
  case (Cons x rest)
  have start: "carry_inv F T (dk_files d) (dk_files d)" using Cons.prems(2,3) by (rule carry_inv_start)
  have ne: "F \<noteq> []" "T \<noteq> []" using Cons.prems(4,5) by (auto simp: under_def)
  have safe: "is_safe_relative_path x" "list_all is_safe_relative_path rest" using Cons.prems(1) by auto
  from Cons.prems(6) obtain d1 len where one: "carry_one F T x d = (d1, Inr len)"
    and more: "carry_loop F T rest (acc + len) d1 = (d2, Inr n)"
    by (auto simp: io_then_def split: prod.splits sum.splits)
  from carry_one_inv [OF safe(1) start Cons.prems(4,5) one]
  have inv1: "carry_inv F T (dk_files d) (dk_files d1)"
    and landed: "path_exists (dk_files d) (join_path F x) \<Longrightarrow> path_exists (dk_files d1) (join_path T x)"
    by (auto dest: through_end)
  then have up1: "dirs_above F (dk_files d1)" "dirs_above T (dk_files d1)"
    and c1: "conserved F T (dk_files d) (dk_files d1)" by (auto simp: carry_inv_def)
  have "through (carry_inv F T (dk_files d1)) d1 d2"
    using carry_loop_inv [OF safe(2) carry_inv_start [OF up1] Cons.prems(4,5) more] .
  then have c2: "conserved F T (dk_files d1) (dk_files d2)"
    by (auto simp: carry_inv_def dest: through_end)
  have IH: "list_all (\<lambda>dest. path_exists (dk_files d1) (join_path F dest) \<longrightarrow>
      path_exists (dk_files d2) (join_path T dest)) rest"
    using Cons.IH [OF safe(2) up1 Cons.prems(4,5) more] .
  have "path_exists (dk_files d2) (join_path T dest)"
    if "dest \<in> set rest" "path_exists (dk_files d) (join_path F dest)" for dest
  proof -
    have "is_safe_relative_path dest" using that(1) safe(2) by (simp add: list_all_iff)
    then have j: "join_path D dest = D @ split_on (CHR ''/'') dest" for D by (rule join_safe)
    from conserved_from [OF c1 ne] that(2)
    have "path_exists (dk_files d1) (join_path F dest) \<or> path_exists (dk_files d1) (join_path T dest)"
      by (simp add: j)
    with IH that(1) conserved_to [OF c2 ne(2)] show ?thesis by (auto simp: j list_all_iff)
  qed
  moreover have "path_exists (dk_files d2) (join_path T x)" if "path_exists (dk_files d) (join_path F x)"
    using conserved_to [OF c2 ne(2)] landed [OF that] join_safe [OF safe(1)] by simp
  ultimately show ?case by (simp add: list_all_iff)
qed simp

end
