(* ===== verification/Daemon_Swap.thy ===== *)
theory Daemon_Swap
  imports Daemon_CarryOver
begin

section \<open>Putting an install in place\<close>

text \<open>
  The file-system half of \<open>super-engine-daemon/src/registry/install.rs\<close>: which directory serves a
  source (\<open>find_serving\<close>), the guard that keeps an install off another backend's directory
  (\<open>ensure_dir_free_for\<close>), the model files carried into the staging directory (\<open>preserve_models\<close>),
  and the swap (\<open>swap_into_place\<close>), with \<open>registry/reconcile.rs\<close>. The swap is proved crash-safe over
  every state it passes through.
\<close>

definition staging_dir_name :: string where
  "staging_dir_name = ''.staging''"

text \<open>\<open>Manifest::load(dir).ok()\<close> and \<open>Manifest::load_installed(dir).ok()\<close>.\<close>

definition load_dir ::
  "('c::linorder, 'cap, 'm, 'i, 'f, 'pe) product \<Rightarrow> ('c, 'cap, 'm, 'f, 'te) toml_reader
     \<Rightarrow> files \<Rightarrow> path \<Rightarrow> ('c, 'cap, 'm, 'f) manifest option" where
  "load_dir P T fs dir =
     (case file_text fs (dir @ [''backend.toml'']) of
        None \<Rightarrow> None
      | Some t \<Rightarrow> (case parse_manifest P T t of Inl _ \<Rightarrow> None | Inr m \<Rightarrow> Some m))"

definition serves ::
  "('c::linorder, 'cap, 'm, 'i, 'f, 'pe) product \<Rightarrow> ('c, 'cap, 'm, 'f, 'te) toml_reader
     \<Rightarrow> files \<Rightarrow> path \<Rightarrow> string option" where
  "serves P T fs dir = map_option (\<lambda>m. bm_source (mf_backend m)) (load_dir P T fs dir)"

text \<open>\<open>read_dir\<close>: the children of a directory, in the order the file system lists them.\<close>

definition read_dir :: "files \<Rightarrow> path \<Rightarrow> path list" where
  "read_dir fs dir = (if is_dir fs dir then map (\<lambda>n. dir @ [n]) (children fs dir) else [])"

definition find_serving ::
  "('c::linorder, 'cap, 'm, 'i, 'f, 'pe) product \<Rightarrow> ('c, 'cap, 'm, 'f, 'te) toml_reader
     \<Rightarrow> files \<Rightarrow> path \<Rightarrow> string \<Rightarrow> path option \<Rightarrow> path option" where
  "find_serving P T fs backends_dir source exclude =
     find (\<lambda>dir. last dir \<noteq> staging_dir_name \<and> exclude \<noteq> Some dir \<and> is_dir fs dir
              \<and> serves P T fs dir = Some source)
       (read_dir fs backends_dir)"

definition previous_dir_for ::
  "('c::linorder, 'cap, 'm, 'i, 'f, 'pe) product \<Rightarrow> ('c, 'cap, 'm, 'f, 'te) toml_reader
     \<Rightarrow> files \<Rightarrow> path \<Rightarrow> string \<Rightarrow> path option" where
  "previous_dir_for P T fs backends_dir source = find_serving P T fs backends_dir source None"

text \<open>A failed removal is logged and still reports the predecessor.\<close>

definition retire_previous_dir ::
  "('c::linorder, 'cap, 'm, 'i, 'f, 'pe) product \<Rightarrow> ('c, 'cap, 'm, 'f, 'te) toml_reader
     \<Rightarrow> path \<Rightarrow> string \<Rightarrow> path \<Rightarrow> ('z disk_scheme, 'e, path option) action" where
  "retire_previous_dir P T backends_dir source keep =
     io_then (io_look (\<lambda>fs. find_serving P T fs backends_dir source (Some keep))) (\<lambda>found.
       case found of
         None \<Rightarrow> io_pure None
       | Some dir \<Rightarrow> io_then (io_ignore (remove_dir_all dir)) (\<lambda>_. io_pure (Some dir)))"

definition preserve_models ::
  "('c::linorder, 'cap, 'm, 'i, 'f, 'pe) product \<Rightarrow> ('c, 'cap, 'm, 'f, 'te) toml_reader
     \<Rightarrow> path \<Rightarrow> path \<Rightarrow> ('z disk_scheme, io_kind, nat) action" where
  "preserve_models P T staging inherit_from =
     io_then (io_look (\<lambda>fs. (load_dir P T fs inherit_from, load_dir P T fs staging))) (\<lambda>(old, new).
       case old of
         None \<Rightarrow> io_pure 0
       | Some o1 \<Rightarrow>
           (case new of
              None \<Rightarrow> io_pure 0
            | Some n1 \<Rightarrow>
                let keep = survivors o1 n1
                in if keep = [] then io_pure 0 else carry inherit_from staging keep))"

text \<open>Refused (\<open>False\<close>) only for a directory whose manifest parses and names another source.\<close>

definition ensure_dir_free_for ::
  "('c::linorder, 'cap, 'm, 'i, 'f, 'pe) product \<Rightarrow> ('c, 'cap, 'm, 'f, 'te) toml_reader
     \<Rightarrow> files \<Rightarrow> path \<Rightarrow> string \<Rightarrow> bool" where
  "ensure_dir_free_for P T fs final source =
     (case load_dir P T fs final of
        None \<Rightarrow> True
      | Some occupant \<Rightarrow> bm_source (mf_backend occupant) = source)"

definition sidecar_of :: "path \<Rightarrow> path" where
  "sidecar_of final = butlast final @ [last final @ ''.old'']"

definition swap_into_place :: "path \<Rightarrow> path \<Rightarrow> ('z disk_scheme, io_kind, unit) action" where
  "swap_into_place staging final =
     io_then (io_look (\<lambda>fs. path_exists fs final)) (\<lambda>there.
     io_then (io_when there
         (io_then (io_ignore (remove_dir_all (sidecar_of final))) (\<lambda>_.
            rename_path final (sidecar_of final)))) (\<lambda>_.
     io_then (io_try (rename_path staging final)) (\<lambda>r.
       case r of
         Inr _ \<Rightarrow> io_when there (io_ignore (remove_dir_all (sidecar_of final)))
       | Inl e \<Rightarrow>
           io_then (io_when there (io_ignore (rename_path (sidecar_of final) final))) (\<lambda>_.
             io_fail e))))"

subsection \<open>The swap\<close>

text \<open>Everything at and below a path.\<close>

definition tree_at :: "files \<Rightarrow> path \<Rightarrow> path \<Rightarrow> inode option" where
  "tree_at fs p r = hm_get fs (p @ r)"

definition apart :: "path \<Rightarrow> path \<Rightarrow> bool" where
  "apart p q = (\<not> under p q \<and> \<not> under q p)"

lemma apart_sym: "apart p q \<Longrightarrow> apart q p"
  by (simp add: apart_def)

lemma apart_join: "apart p q \<Longrightarrow> \<not> under p (q @ r)"
  using not_under_join [of p q "[]" r] by (simp add: apart_def)

lemma apart_sidecar: "final \<noteq> [] \<Longrightarrow> apart final (sidecar_of final)"
  by (cases final rule: rev_cases) (auto simp: apart_def sidecar_of_def under_def)

lemma tree_cut: "apart p q \<Longrightarrow> agree_off (under q) a b \<Longrightarrow> tree_at b p = tree_at a p"
  by (rule ext) (simp add: tree_at_def agree_off_def apart_join [OF apart_sym])

lemma get_moved_apart:
  "apart p q \<Longrightarrow> hm_get (moved p q fs) s =
     (if under q s then hm_get fs (p @ drop (length q) s)
      else if under p s then None else hm_get fs s)"
  by (simp add: get_moved apart_def)

lemma tree_moved_to: "apart p q \<Longrightarrow> tree_at (moved p q fs) q = tree_at fs p"
  by (rule ext) (simp add: tree_at_def get_moved_apart)

lemma tree_moved_from: "apart p q \<Longrightarrow> tree_at (moved p q fs) p = (\<lambda>_. None)"
  by (rule ext) (simp add: tree_at_def get_moved_apart apart_join [OF apart_sym])

lemma tree_moved_other:
  "apart p q \<Longrightarrow> apart r p \<Longrightarrow> apart r q \<Longrightarrow> tree_at (moved p q fs) r = tree_at fs r"
  by (rule ext) (simp add: tree_at_def get_moved_apart apart_join [OF apart_sym])

lemmas tree_moved = tree_moved_to tree_moved_from tree_moved_other

lemma remove_dir_all_frame:
  assumes "remove_dir_all p d = (d2, r)"
  shows "agree_off (under p) (dk_files d) (dk_files d2)" "dk_trace d2 = dk_files d2 # dk_trace d"
proof -
  have k: "keeps (under p) (remove_dir_all p :: ('z disk_scheme, _, _) action)"
    by (rule keeps_remove_dir_all)
  from keepsD [OF k assms] show "agree_off (under p) (dk_files d) (dk_files d2)"
    by (simp add: reached_def)
  from assms show "dk_trace d2 = dk_files d2 # dk_trace d"
    unfolding remove_dir_all_def by (rule call_cases)
qed

text \<open>
  \<open>swap_safe\<close>: the live directory is the old install or the new one, whole, or there is nothing
  there and the old one is whole at the sidecar.
\<close>

definition swap_safe :: "path \<Rightarrow> (path \<Rightarrow> inode option) \<Rightarrow> (path \<Rightarrow> inode option) \<Rightarrow> files \<Rightarrow> bool" where
  "swap_safe final old new t =
     (tree_at t final = old \<or> tree_at t final = new
      \<or> tree_at t final = (\<lambda>_. None) \<and> tree_at t (sidecar_of final) = old)"

text \<open>The first half: what was at \<open>final\<close> is out of the way, or the swap has stopped.\<close>

lemma swap_aside:
  assumes ap: "apart staging final" "apart staging (sidecar_of final)" "final \<noteq> []"
    and run: "io_then (io_ignore (remove_dir_all (sidecar_of final)))
        (\<lambda>_. rename_path final (sidecar_of final)) d = (d2, r)"
  shows "through (swap_safe final (tree_at (dk_files d) final) new) d d2
    \<and> tree_at (dk_files d2) staging = tree_at (dk_files d) staging
    \<and> (case r of
        Inl _ \<Rightarrow> tree_at (dk_files d2) final = tree_at (dk_files d) final
      | Inr _ \<Rightarrow> tree_at (dk_files d2) final = (\<lambda>_. None)
               \<and> tree_at (dk_files d2) (sidecar_of final) = tree_at (dk_files d) final)"
proof -
  let ?S = "swap_safe final (tree_at (dk_files d) final) new"
  note fs = apart_sidecar [OF ap(3)]
  obtain d1 r1 where rm: "remove_dir_all (sidecar_of final) d = (d1, r1)"
    by (cases "remove_dir_all (sidecar_of final) d") 
  note fr = remove_dir_all_frame [OF rm]
  have keep: "tree_at (dk_files d1) final = tree_at (dk_files d) final"
    "tree_at (dk_files d1) staging = tree_at (dk_files d) staging"
    using tree_cut [OF fs fr(1)] tree_cut [OF ap(2) fr(1)] by auto
  have 1: "through ?S d d1" using fr(2) keep by (intro through_one) (simp_all add: swap_safe_def)
  have "rename_path final (sidecar_of final) d1 = (d2, r)"
    using run rm by (simp add: io_then_def io_ignore_def)
  then show ?thesis
  proof (cases rule: rename_cases)
    case (failed e)
    then have "through ?S d1 d2" using keep by (intro through_one) (simp_all add: swap_safe_def)
    with 1 failed keep show ?thesis by (auto intro: through_trans)
  next
    case renamed
    then have t: "tree_at (dk_files d2) final = (\<lambda>_. None)"
      "tree_at (dk_files d2) (sidecar_of final) = tree_at (dk_files d) final"
      "tree_at (dk_files d2) staging = tree_at (dk_files d) staging"
      using fs ap keep by (simp_all add: tree_moved)
    then have "through ?S d1 d2" using renamed by (intro through_one) (simp_all add: swap_safe_def)
    with 1 renamed t show ?thesis by (auto intro: through_trans)
  qed
qed

text \<open>The second half, from a state where \<open>final\<close> is out of the way.\<close>

lemma swap_in:
  assumes ap: "apart staging final" "apart staging (sidecar_of final)" "final \<noteq> []"
    and start: "if there then tree_at (dk_files d) final = (\<lambda>_. None)
          \<and> tree_at (dk_files d) (sidecar_of final) = old
        else tree_at (dk_files d) final = old"
    and new: "tree_at (dk_files d) staging = new"
    and run: "io_then (io_try (rename_path staging final)) (\<lambda>r.
       case r of
         Inr _ \<Rightarrow> io_when there (io_ignore (remove_dir_all (sidecar_of final)))
       | Inl e \<Rightarrow>
           io_then (io_when there (io_ignore (rename_path (sidecar_of final) final))) (\<lambda>_.
             io_fail e)) d = (d2, r)"
  shows "through (swap_safe final old new) d d2
    \<and> (case r of
        Inr _ \<Rightarrow> tree_at (dk_files d2) final = new
      | Inl _ \<Rightarrow> tree_at (dk_files d2) staging = new
               \<and> (tree_at (dk_files d2) final = old \<or> tree_at (dk_files d2) (sidecar_of final) = old))"
proof -
  let ?S = "swap_safe final old new"
  note fs = apart_sidecar [OF ap(3)]
  have sf: "apart (sidecar_of final) final" using fs by (rule apart_sym)
  obtain d1 r1 where mv: "rename_path staging final d = (d1, r1)" by (cases "rename_path staging final d")
  from mv show ?thesis
  proof (cases rule: rename_cases)
    case (failed e)
    have 1: "through ?S d d1" using failed start by (intro through_one) (auto simp: swap_safe_def split: if_splits)
    show ?thesis
    proof (cases there)
      case False
      with run mv failed have "d2 = d1 \<and> r = Inl e"
        by (simp add: io_then_def io_try_def io_when_def io_pure_def io_fail_def)
      with 1 failed start new False show ?thesis by simp
    next
      case True
      obtain d3 r3 where bk: "rename_path (sidecar_of final) final d1 = (d3, r3)"
        by (cases "rename_path (sidecar_of final) final d1")
      have d2: "d2 = d3 \<and> r = Inl e"
        using run mv failed True bk
        by (simp add: io_then_def io_try_def io_when_def io_ignore_def io_fail_def)
      from bk show ?thesis
      proof (cases rule: rename_cases)
        case (failed e2)
        then have "through ?S d1 d3"
          using start \<open>dk_files d1 = dk_files d\<close> True by (intro through_one) (auto simp: swap_safe_def)
        with 1 d2 failed \<open>dk_files d1 = dk_files d\<close> start new True show ?thesis
          by (auto intro: through_trans)
      next
        case renamed
        then have t: "tree_at (dk_files d3) final = old" "tree_at (dk_files d3) staging = new"
          using sf ap start new True \<open>dk_files d1 = dk_files d\<close> by (simp_all add: tree_moved)
        then have "through ?S d1 d3" using renamed by (intro through_one) (simp_all add: swap_safe_def)
        with 1 d2 t show ?thesis by (auto intro: through_trans)
      qed
    qed
  next
    case renamed
    then have t: "tree_at (dk_files d1) final = new" using ap new by (simp add: tree_moved)
    then have 1: "through ?S d d1" using renamed by (intro through_one) (simp_all add: swap_safe_def)
    show ?thesis
    proof (cases there)
      case False
      with run mv renamed have "d2 = d1 \<and> r = Inr ()"
        by (simp add: io_then_def io_try_def io_when_def io_pure_def)
      with 1 t show ?thesis by simp
    next
      case True
      obtain d3 r3 where rm: "remove_dir_all (sidecar_of final) d1 = (d3, r3)"
        by (cases "remove_dir_all (sidecar_of final) d1")
      note fr = remove_dir_all_frame [OF rm]
      have t3: "tree_at (dk_files d3) final = new" using tree_cut [OF fs fr(1)] t by simp
      have d2: "d2 = d3 \<and> r = Inr ()"
        using run mv renamed True rm
        by (simp add: io_then_def io_try_def io_when_def io_ignore_def)
      have "through ?S d1 d3" using fr(2) t3 by (intro through_one) (simp_all add: swap_safe_def)
      with 1 d2 t3 show ?thesis by (auto intro: through_trans)
    qed
  qed
qed

lemma swap_crash_safe_core:
  assumes "apart staging final" "apart staging (sidecar_of final)" "final \<noteq> []"
    and "swap_into_place staging final d = (d2, r)"
  shows "through (swap_safe final (tree_at (dk_files d) final) (tree_at (dk_files d) staging)) d d2
    \<and> (case r of
        Inr _ \<Rightarrow> tree_at (dk_files d2) final = tree_at (dk_files d) staging
      | Inl _ \<Rightarrow> tree_at (dk_files d2) staging = tree_at (dk_files d) staging
               \<and> (tree_at (dk_files d2) final = tree_at (dk_files d) final
                  \<or> tree_at (dk_files d2) (sidecar_of final) = tree_at (dk_files d) final))"
proof -
  let ?there = "path_exists (dk_files d) final"
  let ?aside = "io_then (io_ignore (remove_dir_all (sidecar_of final)))
        (\<lambda>_. rename_path final (sidecar_of final))"
  let ?rest = "io_then (io_try (rename_path staging final)) (\<lambda>r.
       case r of
         Inr _ \<Rightarrow> io_when ?there (io_ignore (remove_dir_all (sidecar_of final)))
       | Inl e \<Rightarrow>
           io_then (io_when ?there (io_ignore (rename_path (sidecar_of final) final))) (\<lambda>_.
             io_fail e))"
  have run: "io_then (io_when ?there ?aside) (\<lambda>_. ?rest) d = (d2, r)"
    using assms(4) by (simp only: swap_into_place_def io_look_then)
  show ?thesis
  proof (cases ?there)
    case False
    then have "io_when ?there ?aside d = (d, Inr ())" by (simp only: io_when_simps)
    with run have "?rest d = (d2, r)" by (simp only: io_then_Inr)
    from swap_in [OF assms(1-3) _ _ this] False show ?thesis by auto
  next
    case True
    obtain d1 r1 where a: "?aside d = (d1, r1)" by (cases "?aside d")
    note 1 = swap_aside [OF assms(1-3) a, of "tree_at (dk_files d) staging"]
    have w: "io_when ?there ?aside d = (d1, r1)" using True a by (simp only: io_when_simps)
    show ?thesis
    proof (cases r1)
      case (Inl e)
      with run w have "(d1, Inl e) = (d2, r)" by (simp only: io_then_Inl)
      with 1 Inl show ?thesis by auto
    next
      case (Inr u)
      with run w have "?rest d1 = (d2, r)" by (simp only: io_then_Inr)
      from swap_in [OF assms(1-3) _ _ this, of "tree_at (dk_files d) final"
          "tree_at (dk_files d) staging"] 1 Inr True
      show ?thesis by (simp split: sum.split) (blast intro: through_trans)
    qed
  qed
qed

text \<open>
  C3. The swap is crash-safe: in every state it passes through, whatever call fails, the install
  directory holds the old install whole, or the new one whole, or nothing while the old one is
  whole at the sidecar. When it reports success the new one is in place; when it reports an error
  the staged install is intact and so is the old one, in place or at the sidecar.
\<close>

theorem swap_crash_safe:
  assumes "apart staging final" "apart staging (sidecar_of final)" "final \<noteq> []"
    and "swap_into_place staging final d = (d2, r)"
  shows "through (swap_safe final (tree_at (dk_files d) final) (tree_at (dk_files d) staging)) d d2
    \<and> (case r of
        Inr _ \<Rightarrow> tree_at (dk_files d2) final = tree_at (dk_files d) staging
      | Inl _ \<Rightarrow> tree_at (dk_files d2) staging = tree_at (dk_files d) staging
               \<and> (tree_at (dk_files d2) final = tree_at (dk_files d) final
                  \<or> tree_at (dk_files d2) (sidecar_of final) = tree_at (dk_files d) final))"
  using assms by (rule swap_crash_safe_core)

definition swap_disk :: disk where
  "swap_disk =
     \<lparr>dk_files =
        [([''b''], IDir), ([''b'', ''.staging''], IDir), ([''b'', ''.staging'', ''com.x.y-2''], IDir),
         ([''b'', ''.staging'', ''com.x.y-2'', ''backend.toml''], IFile ''two''),
         ([''b'', ''com.x.y''], IDir), ([''b'', ''com.x.y'', ''backend.toml''], IFile ''one''),
         ([''b'', ''com.x.y.old''], IDir), ([''b'', ''com.x.y.old'', ''backend.toml''], IFile ''another'')],
      dk_faults = [], dk_trace = []\<rparr>"

definition swap_staging :: path where
  "swap_staging = [''b'', ''.staging'', ''com.x.y-2'']"

definition swap_final :: path where
  "swap_final = [''b'', ''com.x.y'']"

lemmas swap_sample_defs = swap_disk_def swap_staging_def swap_final_def apart_def sidecar_of_def
  under_def

theorem swap_crash_safe_witness:
  "through (swap_safe swap_final (tree_at (dk_files swap_disk) swap_final)
       (tree_at (dk_files swap_disk) swap_staging)) swap_disk
     (fst (swap_into_place swap_staging swap_final swap_disk))"
  using swap_crash_safe [of swap_staging swap_final swap_disk,
      OF _ _ _ prod.collapse [symmetric, of "swap_into_place swap_staging swap_final swap_disk"]]
  by (simp add: swap_sample_defs)

subsection \<open>What stands at the sidecar\<close>

lemma get_apart: "apart p q \<Longrightarrow> hm_get (cut_below q fs) p = hm_get fs p"
  by (simp add: get_cut_below apart_def)

lemma get_moved_top:
  "apart p q \<Longrightarrow> hm_get (moved p q fs) q = hm_get fs p"
  "apart p q \<Longrightarrow> hm_get (moved p q fs) p = None"
  "apart p q \<Longrightarrow> apart r p \<Longrightarrow> apart r q \<Longrightarrow> hm_get (moved p q fs) r = hm_get fs r"
  by (auto simp: get_moved_apart apart_def)

lemma is_dir_above:
  "\<not> under q p \<Longrightarrow> is_dir (cut_below q fs) p = is_dir fs p"
  "apart q s \<Longrightarrow> \<not> under q p \<Longrightarrow> \<not> under s p \<Longrightarrow> is_dir (moved q s fs) p = is_dir fs p"
  by (simp_all add: is_dir_def get_cut_below get_moved_apart)

text \<open>
  An update that nothing disturbs puts the staged install in place and removes whatever
  directory stands at the sidecar path; that path can be another backend's, because appending
  \<open>.old\<close> to a backend id can give a backend id.
\<close>

theorem swap_clears_namesake:
  assumes "dk_faults d = []" "final \<noteq> []" "is_dir (dk_files d) (butlast final)"
    and ap: "apart staging final" "apart staging (sidecar_of final)"
    and "hm_get (dk_files d) staging = Some IDir" "hm_get (dk_files d) final = Some IDir"
    and "hm_get (dk_files d) (sidecar_of final) = Some IDir"
  shows "\<exists>d2. swap_into_place staging final d = (d2, Inr ())
    \<and> tree_at (dk_files d2) final = tree_at (dk_files d) staging
    \<and> tree_at (dk_files d2) (sidecar_of final) = (\<lambda>_. None)"
proof -
  let ?side = "sidecar_of final"
  have fs: "apart final ?side" "apart ?side final" "apart ?side staging"
    using apart_sidecar [OF assms(2)] ap by (auto dest: apart_sym)
  have up: "butlast ?side = butlast final" "\<not> under final (butlast final)" "\<not> under ?side (butlast final)"
    "?side \<noteq> []"
    using assms(2) by (cases final rule: rev_cases; auto simp: sidecar_of_def under_def dest: prefix_length_le)+
  have up_st: "\<not> under staging (butlast final)"
    using ap(1) assms(2) prefix_order.trans [of staging "butlast final" final]
    by (cases final rule: rev_cases) (auto simp: apart_def under_def)
  define d1 where "d1 = settle (cut_below ?side (dk_files d)) d"
  define d2 where "d2 = settle (moved final ?side (dk_files d1)) d1"
  define d3 where "d3 = settle (moved staging final (dk_files d2)) d2"
  define d4 where "d4 = settle (cut_below ?side (dk_files d3)) d3"
  have quiet: "dk_faults d1 = []" "dk_faults d2 = []" "dk_faults d3 = []"
    by (simp_all add: d1_def d2_def d3_def assms(1))
  have 1: "remove_dir_all ?side d = (d1, Inr ())"
    using assms by (simp add: remove_dir_quiet d1_def)
  have g1: "hm_get (dk_files d1) final = Some IDir" "hm_get (dk_files d1) staging = Some IDir"
    "hm_get (dk_files d1) ?side = None" "is_dir (dk_files d1) (butlast final)"
    using assms fs up by (simp_all add: d1_def get_cut_below is_dir_above get_apart apart_def)
  have 2: "rename_path final ?side d1 = (d2, Inr ())"
    using quiet(1) g1 fs up by (simp add: rename_quiet rename_ok_def parent_of_def d2_def apart_def)
  have g2: "hm_get (dk_files d2) ?side = Some IDir" "hm_get (dk_files d2) final = None"
    "hm_get (dk_files d2) staging = Some IDir" "is_dir (dk_files d2) (butlast final)"
    using g1 fs ap up by (simp_all add: d2_def get_moved_top is_dir_above)
  have 3: "rename_path staging final d2 = (d3, Inr ())"
    using quiet(2) g2 ap assms(2) by (simp add: rename_quiet rename_ok_def parent_of_def d3_def apart_def)
  have g3: "hm_get (dk_files d3) ?side = Some IDir"
    using g2 fs ap by (simp add: d3_def get_moved_top)
  have 4: "remove_dir_all ?side d3 = (d4, Inr ())"
    using quiet(3) g3 by (simp add: remove_dir_quiet d4_def)
  have there: "path_exists (dk_files d) final" using assms by (simp add: path_exists_def)
  have "swap_into_place staging final d = (d4, Inr ())"
    unfolding swap_into_place_def
    by (simp add: io_look_def there io_when_simps io_then_def io_ignore_def io_try_def 1 2 3 4)
  moreover have "tree_at (dk_files d4) final = tree_at (dk_files d) staging"
  proof -
    have "agree_off (under ?side) (dk_files d3) (dk_files d4)" "agree_off (under ?side) (dk_files d) (dk_files d1)"
      by (simp_all add: d4_def d1_def agree_off_def get_cut_below)
    then have "tree_at (dk_files d4) final = tree_at (dk_files d3) final"
      "tree_at (dk_files d1) staging = tree_at (dk_files d) staging"
      using fs(1) ap(2) tree_cut by blast+
    then show ?thesis using ap fs by (simp add: d3_def d2_def tree_moved)
  qed
  moreover have "tree_at (dk_files d4) ?side = (\<lambda>_. None)"
    by (rule ext) (simp add: d4_def tree_at_def get_cut_below)
  ultimately show ?thesis by blast
qed

theorem swap_clears_namesake_witness:
  "backend_id_is_valid ''com.x.y'' \<and> backend_id_is_valid ''com.x.y.old''
   \<and> tree_at (dk_files swap_disk) (sidecar_of swap_final) [''backend.toml''] = Some (IFile ''another'')
   \<and> (\<exists>d2. swap_into_place swap_staging swap_final swap_disk = (d2, Inr ())
        \<and> tree_at (dk_files d2) swap_final = tree_at (dk_files swap_disk) swap_staging
        \<and> tree_at (dk_files d2) (sidecar_of swap_final) = (\<lambda>_. None))"
proof (intro conjI)
  show "backend_id_is_valid ''com.x.y''" "backend_id_is_valid ''com.x.y.old''" by code_simp+
  show "tree_at (dk_files swap_disk) (sidecar_of swap_final) [''backend.toml''] = Some (IFile ''another'')"
    by (simp add: swap_sample_defs tree_at_def hm_get_def)
  show "\<exists>d2. swap_into_place swap_staging swap_final swap_disk = (d2, Inr ())
        \<and> tree_at (dk_files d2) swap_final = tree_at (dk_files swap_disk) swap_staging
        \<and> tree_at (dk_files d2) (sidecar_of swap_final) = (\<lambda>_. None)"
    by (rule swap_clears_namesake) (simp_all add: swap_sample_defs hm_get_def is_dir_def)
qed

end
