(* ===== verification/Spec_TestProduct.thy ===== *)
theory Spec_TestProduct
  imports Spec_Parse
begin

section \<open>The product of the specification crate\<close>

text \<open>
  \<open>super-engine-spec/src/test_product.rs\<close>: the one implementation of \<open>trait Generation\<close> and
  \<open>trait Product\<close> in the repository, on which the interface \<open>generation\<close> is interpreted. The
  properties of a parsed manifest that have a hypothesis are applied to documents of this product.
\<close>

datatype contract = V1 | V2

instantiation contract :: linorder
begin

definition less_eq_contract :: "contract \<Rightarrow> contract \<Rightarrow> bool" where
  "less_eq_contract a b = (a = V1 \<or> b = V2)"

definition less_contract :: "contract \<Rightarrow> contract \<Rightarrow> bool" where
  "less_contract a b = (a = V1 \<and> b = V2)"

instance
proof
  fix x y z :: contract
  show "x < y \<longleftrightarrow> x \<le> y \<and> \<not> y \<le> x"
    by (cases x; cases y) (simp_all add: less_eq_contract_def less_contract_def)
  show "x \<le> x"
    by (cases x) (simp_all add: less_eq_contract_def)
  show "x \<le> y \<Longrightarrow> y \<le> z \<Longrightarrow> x \<le> z"
    by (cases x; cases y; cases z) (simp_all add: less_eq_contract_def)
  show "x \<le> y \<Longrightarrow> y \<le> x \<Longrightarrow> x = y"
    by (cases x; cases y) (simp_all add: less_eq_contract_def)
  show "x \<le> y \<or> y \<le> x"
    by (cases x; cases y) (simp_all add: less_eq_contract_def)
qed

end

definition show_contract :: "contract \<Rightarrow> string" where
  "show_contract c = (case c of V1 \<Rightarrow> ''v1'' | V2 \<Rightarrow> ''v2'')"

definition contract_min_client :: "contract \<Rightarrow> string" where
  "contract_min_client c = (case c of V1 \<Rightarrow> ''0.2.0'' | V2 \<Rightarrow> ''0.2.4-beta.1'')"

definition contract_gens :: "contract generations" where
  "contract_gens =
     \<lparr>all_gens = [V1, V2], latest_gen = V2, show_gen = show_contract,
      min_client_of = contract_min_client\<rparr>"

lemma contract_less [simp]: "V1 < V2" "\<not> V2 < V1" "V1 \<le> V2" "\<not> V2 \<le> V1"
  by (simp_all add: less_contract_def less_eq_contract_def)

lemma contract_gens_simps [simp]:
  "all_gens contract_gens = [V1, V2]" "latest_gen contract_gens = V2"
  "show_gen contract_gens = show_contract" "min_client_of contract_gens = contract_min_client"
  by (simp_all add: contract_gens_def)

interpretation tp: generation contract_gens
proof unfold_locales
  show "sorted_wrt (<) (all_gens contract_gens)" by simp
  show "g \<in> set (all_gens contract_gens)" for g by (cases g) simp_all
  show "latest_gen contract_gens = last (all_gens contract_gens)" by simp
  show "show_gen contract_gens g = show_gen contract_gens h \<Longrightarrow> g = h" for g h
    by (cases g; cases h) (simp_all add: show_contract_def)
qed

datatype role = Transcription | PostProcessor

definition show_role :: "role \<Rightarrow> string" where
  "show_role r = (case r of Transcription \<Rightarrow> ''transcription'' | PostProcessor \<Rightarrow> ''post_processor'')"

record test_model =
  force_preview_support :: bool
  model_role :: role

definition test_fields :: "contract contract_field list" where
  "test_fields =
     [\<lparr>cf_since = V2, cf_rule = Added, cf_table = ''models'', cf_key = ''role''\<rparr>,
      \<lparr>cf_since = V2, cf_rule = Added, cf_table = ''models'', cf_key = ''force_preview_support''\<rparr>,
      \<lparr>cf_since = V2, cf_rule = RequiredFrom, cf_table = ''backend'', cf_key = ''id''\<rparr>,
      \<lparr>cf_since = V2, cf_rule = RequiredFrom, cf_table = ''backend'', cf_key = ''product''\<rparr>]"

definition test_product :: "(contract, bool, test_model, string, nat, unit) product" where
  "test_product =
     \<lparr>pr_slug = ''super-test'', pr_gens = contract_gens, pr_contract_fields = test_fields,
      pr_validate = (\<lambda>_. Inr ()), pr_index_model = (\<lambda>m. show_role (model_role (me_product m)))\<rparr>"

subsection \<open>A document of this product\<close>

definition sample_backend :: "contract backend_meta" where
  "sample_backend =
     \<lparr>bm_id = Some ''org.x.y'', bm_source = ''github.com/x/y'', bm_name = ''y'', bm_version = ''1.0.0'',
      bm_kind = KSubprocess, bm_entrypoint = ''bin/y'', bm_product = Some ''super-test'',
      bm_contract = V2, bm_license = None, bm_description = ''d''\<rparr>"

definition sample_asset :: "accel list \<Rightarrow> subprocess_asset" where
  "sample_asset acs =
     \<lparr>sa_file = Some [], sa_parts = [''y.tar.gz.001'', ''y.tar.gz.002''], sa_target = ''x86_64'',
      sa_accel = acs, sa_cuda_major = None, sa_cuda_sm = None, sa_cudnn = False, sa_gfx = [],
      sa_vulkan_api = None\<rparr>"

definition sample_file :: "string \<Rightarrow> file_spec" where
  "sample_file dest =
     \<lparr>fs_url = ''https://h/f'', fs_destination = dest, fs_sha256 = None, fs_accel = [],
      fs_cuda_major = None, fs_cuda_sm = [], fs_gfx = [], fs_vulkan_api = None, fs_optional = False\<rparr>"

definition sample_model :: "test_model model_entry" where
  "sample_model =
     \<lparr>me_name = ''m'', me_multilingual = False, me_primary_language = ''en'',
      me_supported_languages = [], me_supported_devices = [DevCpu], me_estimated_vram_bytes = 0,
      me_processing_interval_ms = None, me_realtime = False, me_files = [sample_file ''m/w.bin''],
      me_prepare_files = [''m/w.bin''], me_provider = None,
      me_product = \<lparr>force_preview_support = False, model_role = Transcription\<rparr>\<rparr>"

definition sample_manifest :: "(contract, bool, test_model, nat) manifest" where
  "sample_manifest =
     \<lparr>mf_backend = sample_backend, mf_network = \<lparr>allowed_hosts = []\<rparr>,
      mf_capabilities = \<lparr>cap_websocket = False, cap_product = False\<rparr>,
      mf_assets = \<lparr>as_wasm = None, as_subprocess = [sample_asset [Cpu]]\<rparr>,
      mf_secrets = [], mf_options = [], mf_models = [sample_model]\<rparr>"

definition sample_raw :: toml_table where
  "sample_raw =
     [(''backend'', TomlTable [(''id'', TomlScalar ''org.x.y''), (''product'', TomlScalar ''super-test'')])]"

text \<open>A reader that knows one document, \<open>''doc''\<close>; any other text is not TOML.\<close>

definition sample_reader :: "(contract, bool, test_model, nat, unit) toml_reader" where
  "sample_reader =
     \<lparr>tr_head = (\<lambda>t. if t = ''doc'' then Some (Some ''super-test'') else None),
      tr_typed = (\<lambda>t. if t = ''doc'' then Inr sample_manifest else Inl ()),
      tr_raw = (\<lambda>t. if t = ''doc'' then Inr sample_raw else Inl ())\<rparr>"

lemmas sample_defs =
  sample_reader_def sample_manifest_def sample_backend_def sample_asset_def sample_model_def
  sample_file_def sample_raw_def test_product_def test_fields_def

lemma sample_id_valid: "backend_id_is_valid ''org.x.y''"
  by code_simp

lemma sample_parses:
  "parse_manifest test_product sample_reader ''doc'' = Inr (normalize_manifest sample_manifest)"
  by (simp add: parse_admits_exactly_core sample_defs declared_product_def contract_holds_def
      declares_def is_array_table_def table_has_key_def manifest_ok_def model_ok_def file_ok_def
      agree_def asset_ok_def normalize_asset_def is_safe_relative_path_def starts_with_def
      contains_char_def sample_id_valid)

subsection \<open>Properties\<close>

text \<open>
  The contract generations of the product are read back from the spelling they are shown in,
  and from no other text; the generation before one is the greatest below it, and none is above
  the latest, which is what makes a daemon refuse a generation it does not know.
\<close>

theorem contract_generations_closed:
  "(generation_from_str contract_gens s = Inr g \<longleftrightarrow> s = show_contract g)
   \<and> (is_err (generation_from_str contract_gens s) \<longleftrightarrow> s \<noteq> ''v1'' \<and> s \<noteq> ''v2'')
   \<and> previous_gen contract_gens V2 = Some V1 \<and> previous_gen contract_gens V1 = None
   \<and> g \<le> latest_gen contract_gens"
proof -
  have ok: "generation_from_str contract_gens s = Inr g \<longleftrightarrow> s = show_contract g" for g
    using tp.from_str_ok [of s g] by simp
  have err: "is_err (generation_from_str contract_gens s) \<longleftrightarrow> s \<noteq> ''v1'' \<and> s \<noteq> ''v2''"
    by (auto simp: generation_from_str_def show_contract_def)
  have prev: "previous_gen contract_gens V2 = Some V1" "previous_gen contract_gens V1 = None"
    by (simp_all add: previous_gen_def)
  show ?thesis using ok err prev tp.latest_greatest [of g] by blast
qed

text \<open>
  C19. What a parsed manifest guarantees its consumers, in either mode: the entrypoint and every
  model file's destination stay inside the backend's directory, the id names a child of the
  backends directory, and every asset lists at least one release file and no empty file name.
\<close>

theorem parsed_manifest_is_installable:
  assumes "parse_inner P T text mode = Inr m"
  shows "is_safe_relative_path (bm_entrypoint (mf_backend m))
    \<and> list_all (\<lambda>e. list_all (\<lambda>f. is_safe_relative_path (fs_destination f)) (me_files e)) (mf_models m)
    \<and> (case bm_id (mf_backend m) of None \<Rightarrow> True | Some i \<Rightarrow> is_safe_component i)
    \<and> list_all (\<lambda>a. release_files a \<noteq> [] \<and> list_all (\<lambda>f. f \<noteq> []) (release_files a))
        (as_subprocess (mf_assets m))"
proof -
  obtain m0 where m: "m = normalize_manifest m0" "manifest_ok m"
    using assms unfolding parse_inner_ok by blast
  have files: "list_all model_ok (mf_models m)" and ent: "is_safe_relative_path (bm_entrypoint (mf_backend m))"
    and assets: "list_all asset_ok (as_subprocess (mf_assets m))"
    and ident: "bm_id (mf_backend m) = None \<or> backend_id_is_valid (the (bm_id (mf_backend m)))"
    using m(2) unfolding manifest_ok_def by blast+
  have "list_all (\<lambda>e. list_all (\<lambda>f. is_safe_relative_path (fs_destination f)) (me_files e)) (mf_models m)"
    using files by (auto simp: list_all_iff model_ok_def file_ok_def)
  moreover have "case bm_id (mf_backend m) of None \<Rightarrow> True | Some i \<Rightarrow> is_safe_component i"
    using ident by (auto intro: backend_id_safe split: option.splits)
  moreover have "list_all (\<lambda>a. release_files a \<noteq> [] \<and> list_all (\<lambda>f. f \<noteq> []) (release_files a))
        (as_subprocess (mf_assets m))"
    using assets m(1) by (simp add: assets_ok_files)
  ultimately show ?thesis using ent by blast
qed

theorem parsed_manifest_is_installable_witness:
  "parse_inner test_product sample_reader ''doc'' Enforced = Inr (normalize_manifest sample_manifest)
   \<and> release_files (normalize_asset (sample_asset [Cpu])) = [''y.tar.gz.001'', ''y.tar.gz.002'']
   \<and> list_all (\<lambda>a. release_files a \<noteq> [] \<and> list_all (\<lambda>f. f \<noteq> []) (release_files a))
        (as_subprocess (mf_assets (normalize_manifest sample_manifest)))"
proof -
  have h: "parse_inner test_product sample_reader ''doc'' Enforced = Inr (normalize_manifest sample_manifest)"
    using sample_parses by (simp add: parse_manifest_def)
  then show ?thesis using parsed_manifest_is_installable [OF h]
    by (simp add: sample_asset_def normalize_asset_def release_files_def)
qed

end
