(* ===== verification/Daemon_Reconcile.thy ===== *)
theory Daemon_Reconcile
  imports Daemon_Swap Spec_TestProduct
begin

section \<open>Removing duplicate backend directories\<close>

text \<open>
  \<open>super-engine-daemon/src/registry/reconcile.rs\<close>: each directory that lost to another one serving
  the same source hands its still-valid model files over and is then removed. Proved: a directory
  is removed only when its manifest parsed and every surviving model file it had is in the winner.
\<close>

record reconciled =
  rc_reclaimed :: nat
  rc_removed :: "path list"

definition no_reconciled :: reconciled where
  "no_reconciled = \<lparr>rc_reclaimed = 0, rc_removed = []\<rparr>"

fun reconcile_loop ::
  "('c::linorder, 'cap, 'm, 'i, 'f, 'pe) product \<Rightarrow> ('c, 'cap, 'm, 'f, 'te) toml_reader
     \<Rightarrow> ('c, 'cap, 'm, 'f) manifest \<Rightarrow> path \<Rightarrow> path list \<Rightarrow> reconciled
     \<Rightarrow> ('z disk_scheme, 'e, reconciled) action" where
  "reconcile_loop P T new winner [] out = io_pure out"
| "reconcile_loop P T new winner (loser # rest) out =
     io_then (io_look (\<lambda>fs. load_dir P T fs loser)) (\<lambda>old.
       case old of
         None \<Rightarrow> reconcile_loop P T new winner rest out
       | Some o1 \<Rightarrow>
           io_then (io_try (carry loser winner (survivors o1 new))) (\<lambda>carried.
             case carried of
               Inl _ \<Rightarrow> reconcile_loop P T new winner rest out
             | Inr bytes \<Rightarrow>
                 io_then (io_try (remove_dir_all loser)) (\<lambda>gone.
                   let out2 = out\<lparr>rc_reclaimed := rc_reclaimed out + bytes\<rparr>
                   in reconcile_loop P T new winner rest
                        (case gone of
                           Inl _ \<Rightarrow> out2
                         | Inr _ \<Rightarrow> out2\<lparr>rc_removed := rc_removed out2 @ [loser]\<rparr>))))"

definition reconcile_dirs ::
  "('c::linorder, 'cap, 'm, 'i, 'f, 'pe) product \<Rightarrow> ('c, 'cap, 'm, 'f, 'te) toml_reader
     \<Rightarrow> path list \<Rightarrow> path \<Rightarrow> ('z disk_scheme, 'e, reconciled) action" where
  "reconcile_dirs P T losers winner =
     io_then (io_look (\<lambda>fs. load_dir P T fs winner)) (\<lambda>new.
       case new of
         None \<Rightarrow> io_pure no_reconciled
       | Some n1 \<Rightarrow> reconcile_loop P T n1 winner losers no_reconciled)"

subsection \<open>What the pieces leave alone\<close>

lemma under_join_cases: "under q (T @ r) \<Longrightarrow> under q T \<or> under T q"
  unfolding under_def by (rule prefix_same_cases) (auto intro: prefixI)

lemma under_up: "under (p @ r) q \<Longrightarrow> under p q"
  unfolding under_def by (rule append_prefixD)

lemma keeps_carry_one:
  "is_safe_relative_path dest \<Longrightarrow>
    keeps (\<lambda>q. under F q \<or> under T q \<or> under q T) (carry_one F T dest)"
  unfolding carry_one_def Let_def
  by (auto intro!: keeps_rules simp: join_safe parent_of_def butlast_append
      split: prod.split dest: under_up under_join_cases)

lemma keeps_carry_loop:
  "list_all is_safe_relative_path dests \<Longrightarrow>
    keeps (\<lambda>q. under F q \<or> under T q \<or> under q T) (carry_loop F T dests acc)"
  by (induction dests arbitrary: acc) (auto intro!: keeps_pure keeps_then keeps_carry_one)

lemma keeps_carry [keeps_rules]:
  "(\<And>q. under F q \<or> under T q \<or> under q T \<Longrightarrow> R q) \<Longrightarrow> keeps R (carry F T dests)"
  unfolding carry_def
  by (rule keeps_mono [of "\<lambda>q. under F q \<or> under T q \<or> under q T"])
    (auto intro: keeps_fail keeps_carry_loop)

lemma load_dir_tree: "tree_at a dir = tree_at b dir \<Longrightarrow> load_dir P T a dir = load_dir P T b dir"
  by (drule fun_cong [of _ _ "[''backend.toml'']"]) (simp add: load_dir_def file_text_def tree_at_def)

lemma dirs_above_tree:
  assumes "tree_at a D = tree_at b D" "dirs_above D a"
  shows "dirs_above D b"
proof (rule dirs_aboveI)
  fix r s
  have "hm_get b (D @ x) = hm_get a (D @ x)" for x
    using fun_cong [OF assms(1), of x] by (simp add: tree_at_def)
  with dirs_aboveD [OF assms(2), of r s]
  show "r \<noteq> [] \<Longrightarrow> s \<noteq> [] \<Longrightarrow> hm_get b (D @ r @ s) \<noteq> None \<Longrightarrow> hm_get b (D @ r) = Some IDir"
    by simp
qed

lemma tree_apart:
  assumes "agree_off (\<lambda>q. under F q \<or> under T q \<or> under q T) a b" "apart L F" "apart L T"
  shows "tree_at b L = tree_at a L"
proof (rule ext)
  fix r
  have "\<not> under F (L @ r)" "\<not> under T (L @ r)" "\<not> under (L @ r) T"
    using assms(2,3) apart_join apart_sym under_up by (blast, blast, auto simp: apart_def dest: under_up)
  with assms(1) show "tree_at b L r = tree_at a L r" by (simp add: agree_off_def tree_at_def)
qed

subsection \<open>What a move brings\<close>

text \<open>\<open>brought\<close>: whatever a move has added below the new directory is as the old one had it.\<close>

definition brought :: "path \<Rightarrow> path \<Rightarrow> files \<Rightarrow> files \<Rightarrow> bool" where
  "brought F T a b =
     (\<forall>r. r \<noteq> [] \<longrightarrow> path_exists b (T @ r) \<longrightarrow> path_exists a (T @ r) \<or> hm_get b (T @ r) = hm_get a (F @ r))"

lemma brought_refl: "brought F T a a"
  by (simp add: brought_def)

lemma path_exists_cong: "hm_get a p = hm_get b q \<Longrightarrow> p \<noteq> [] \<Longrightarrow> q \<noteq> [] \<Longrightarrow> path_exists a p = path_exists b q"
  by (simp add: path_exists_def)

lemma carry_one_brings:
  assumes safe: "is_safe_relative_path dest"
    and inv: "carry_inv F T a (dk_files d)" and br: "brought F T a (dk_files d)"
    and apart: "\<not> under F T" "\<not> under T F"
    and run: "carry_one F T dest d = (d2, r)"
  shows "through (brought F T a) d d2"
proof -
  let ?c = "split_on (CHR ''/'') dest"
  let ?src = "F @ ?c" and ?dst = "T @ ?c"
  have join: "join_path F dest = ?src" "join_path T dest = ?dst"
    using safe by (simp_all add: join_safe)
  have ne: "F \<noteq> []" "T \<noteq> []" using apart by (auto simp: under_def)
  have old: "hm_get (dk_files d) (F @ q) \<noteq> None \<Longrightarrow> hm_get a (F @ q) = hm_get (dk_files d) (F @ q)" for q
  proof -
    have "hm_get (dk_files d) (F @ q) \<in> {None, hm_get a (F @ q)}" using inv by (simp add: carry_inv_def)
    then show "hm_get (dk_files d) (F @ q) \<noteq> None \<Longrightarrow> ?thesis" by auto
  qed
  have dirs: "dirs_above F (dk_files d)" using inv by (simp add: carry_inv_def)
  show ?thesis
  proof (cases "path_exists (dk_files d) ?src \<and> \<not> path_exists (dk_files d) ?dst")
    case False
    with run br show ?thesis
      by (auto simp: carry_one_def join Let_def io_then_def io_look_def io_pure_def through_refl)
  next
    case True
    have src: "hm_get (dk_files d) ?src \<noteq> None"
      using True ne by (auto simp: path_exists_def split: option.splits)
    obtain d1 r1 where mk: "create_dir_all (parent_of ?dst) d = (d1, r1)"
      by (cases "create_dir_all (parent_of ?dst) d")
    from mk show ?thesis
    proof (cases rule: create_cases)
      case (made up)
      have up_le: "under up (T @ butlast ?c)" using made(1) by (simp add: parent_of_def butlast_append)
      have F_same: "hm_get (dk_files d1) (F @ q) = hm_get (dk_files d) (F @ q)" for q
      proof -
        have "\<not> under (F @ q) (T @ butlast ?c)" using apart by (rule not_under_join)
        with up_le have "\<not> under (F @ q) up" unfolding under_def by (meson prefix_order.trans)
        then show ?thesis by (simp add: made(2))
      qed
      have br1: "brought F T a (dk_files d1)"
        unfolding brought_def
      proof (intro allI impI)
        fix q
        assume q: "q \<noteq> []" "path_exists (dk_files d1) (T @ q)"
        show "path_exists a (T @ q) \<or> hm_get (dk_files d1) (T @ q) = hm_get a (F @ q)"
        proof (cases "under (T @ q) up")
          case False
          then have "hm_get (dk_files d1) (T @ q) = hm_get (dk_files d) (T @ q)" by (simp add: made(2))
          with br q ne show ?thesis by (simp add: brought_def path_exists_def)
        next
          case True
          then have dir: "hm_get (dk_files d1) (T @ q) = Some IDir" using q by (simp add: made(2))
          have "under (T @ q) (T @ butlast ?c)" using True up_le unfolding under_def by (meson prefix_order.trans)
          then obtain s where s: "butlast ?c = q @ s" by (auto simp: under_iff)
          obtain x where "?c = q @ s @ [x]"
          proof (cases ?c rule: rev_cases)
            case Nil
            with s q show thesis by simp
          qed (use s that in simp)
          with src have "hm_get (dk_files d) (F @ q @ (s @ [x])) \<noteq> None" by simp
          from dirs_aboveD [OF dirs this q(1)] have "hm_get (dk_files d) (F @ q) = Some IDir" by simp
          with old [of q] dir show ?thesis by simp
        qed
      qed
      have 1: "through (brought F T a) d d1" using made(5) br1 by (rule through_one)
      show ?thesis
      proof (cases r1)
        case (Inl e)
        with run True mk 1 show ?thesis
          by (auto simp: carry_one_def join Let_def io_then_def io_look_def)
      next
        case (Inr u)
        obtain d3 r3 where mv: "rename_path ?src ?dst d1 = (d3, r3)" by (cases "rename_path ?src ?dst d1")
        have d2: "d2 = d3"
          using run True mk Inr mv
          by (auto simp: carry_one_def join Let_def io_then_def io_look_def io_pure_def split: sum.splits)
        from mv have "through (brought F T a) d1 d3"
        proof (cases rule: rename_cases)
          case (failed e)
          with br1 show ?thesis by (auto intro: through_one)
        next
          case renamed
          have "brought F T a (dk_files d3)"
            unfolding brought_def
          proof (intro allI impI)
            fix q
            assume q: "q \<noteq> []" "path_exists (dk_files d3) (T @ q)"
            have sep: "\<not> under ?src (T @ q)" "\<not> under ?src ?dst" "\<not> under ?dst ?src"
              using apart not_under_join by blast+
            show "path_exists a (T @ q) \<or> hm_get (dk_files d3) (T @ q) = hm_get a (F @ q)"
            proof (cases "under ?dst (T @ q)")
              case False
              then have "hm_get (dk_files d3) (T @ q) = hm_get (dk_files d1) (T @ q)"
                using renamed sep by (simp add: get_moved)
              with br1 q ne show ?thesis by (simp add: brought_def path_exists_def)
            next
              case True
              then obtain s where s: "q = ?c @ s" by (auto simp: under_iff)
              have "hm_get (dk_files d3) (T @ q) = hm_get (dk_files d) (F @ q)"
                using True renamed sep F_same [of q] by (simp add: get_moved s)
              moreover from this have "hm_get (dk_files d) (F @ q) \<noteq> None"
                using q ne by (auto simp: path_exists_def split: option.splits)
              ultimately show ?thesis using old [of q] by simp
            qed
          qed
          with renamed show ?thesis by (auto intro: through_one)
        qed
        with 1 d2 show ?thesis by (auto intro: through_trans)
      qed
    qed
  qed
qed

lemma carry_loop_brings:
  "list_all is_safe_relative_path dests \<Longrightarrow> carry_inv F T a (dk_files d) \<Longrightarrow> brought F T a (dk_files d) \<Longrightarrow>
    \<not> under F T \<Longrightarrow> \<not> under T F \<Longrightarrow> carry_loop F T dests acc d = (d2, r) \<Longrightarrow>
    through (brought F T a) d d2"
proof (induction dests arbitrary: acc d)
  case (Cons dest rest)
  obtain d1 r1 where one: "carry_one F T dest d = (d1, r1)" by (cases "carry_one F T dest d")
  have 1: "through (carry_inv F T a) d d1" "through (brought F T a) d d1"
    using carry_one_inv [OF _ Cons.prems(2,4,5) one] carry_one_brings [OF _ Cons.prems(2-5) one] Cons.prems(1)
    by simp_all
  show ?case
  proof (cases r1)
    case (Inl e)
    with Cons.prems(6) one 1 show ?thesis by (simp add: io_then_def)
  next
    case (Inr len)
    with Cons.prems(6) one have "carry_loop F T rest (acc + len) d1 = (d2, r)" by (simp add: io_then_def)
    with Cons.IH [OF _ through_end [OF 1(1)] through_end [OF 1(2)] Cons.prems(4,5)] Cons.prems(1) 1
    show ?thesis by (auto intro: through_trans)
  qed
qed (simp add: io_pure_def through_refl)

subsection \<open>What holds in every state of a pass\<close>

text \<open>
  Against the file system \<open>a\<close> the pass starts from: what the winner held is as it was; what it holds
  now, it or one of the losers held; each entry of a loser is there or in the winner.
\<close>

definition winner_keeps :: "path \<Rightarrow> files \<Rightarrow> files \<Rightarrow> bool" where
  "winner_keeps W a fs = (\<forall>q. path_exists a (W @ q) \<longrightarrow> hm_get fs (W @ q) = hm_get a (W @ q))"

definition from_dirs :: "path \<Rightarrow> path list \<Rightarrow> files \<Rightarrow> files \<Rightarrow> bool" where
  "from_dirs W losers a fs =
     (\<forall>q. q \<noteq> [] \<longrightarrow> path_exists fs (W @ q) \<longrightarrow>
        (\<exists>M \<in> set (W # losers). path_exists a (M @ q) \<and> hm_get fs (W @ q) = hm_get a (M @ q)))"

definition entries_kept :: "path \<Rightarrow> files \<Rightarrow> files \<Rightarrow> path \<Rightarrow> bool" where
  "entries_kept W a fs L =
     (\<forall>q. path_exists a (L @ q) \<longrightarrow> hm_get fs (L @ q) = hm_get a (L @ q) \<or> hm_get fs (W @ q) = hm_get a (L @ q))"

text \<open>
  \<open>handed_over\<close>: the loser's manifest parsed, and for each model file both manifests offer alike and
  the loser held, the winner has one, with the whole content it had in the winner, or else in a loser.
\<close>

definition handed_over ::
  "('c::linorder, 'cap, 'm, 'i, 'f, 'pe) product \<Rightarrow> ('c, 'cap, 'm, 'f, 'te) toml_reader
     \<Rightarrow> ('c, 'cap, 'm, 'f) manifest \<Rightarrow> path \<Rightarrow> path list \<Rightarrow> files \<Rightarrow> files \<Rightarrow> path \<Rightarrow> bool" where
  "handed_over P T new W losers a fs L =
     (case load_dir P T a L of
        None \<Rightarrow> False
      | Some old \<Rightarrow>
          list_all (\<lambda>dest. is_safe_relative_path dest
              \<and> (if path_exists a (join_path L dest)
                 then list_ex (\<lambda>M. path_exists a (join_path M dest)
                        \<and> hm_get fs (join_path W dest) = hm_get a (join_path M dest))
                      (if path_exists a (join_path W dest) then [W] else losers)
                 else True))
            (survivors old new))"

definition pass_ok ::
  "('c::linorder, 'cap, 'm, 'i, 'f, 'pe) product \<Rightarrow> ('c, 'cap, 'm, 'f, 'te) toml_reader
     \<Rightarrow> ('c, 'cap, 'm, 'f) manifest \<Rightarrow> path \<Rightarrow> path list \<Rightarrow> files \<Rightarrow> files \<Rightarrow> bool" where
  "pass_ok P T new W losers a fs =
     (winner_keeps W a fs
      \<and> list_all (\<lambda>L. entries_kept W a fs L \<or> handed_over P T new W losers a fs L) losers)"

lemma tree_get: "tree_at b L = tree_at a L \<Longrightarrow> hm_get b (L @ q) = hm_get a (L @ q)"
  by (metis tree_at_def)

lemma winner_keeps_trans:
  "W \<noteq> [] \<Longrightarrow> winner_keeps W a b \<Longrightarrow> winner_keeps W b c \<Longrightarrow> winner_keeps W a c"
  by (auto simp: winner_keeps_def path_exists_def)

lemma winner_keeps_found:
  "winner_keeps W b fs \<Longrightarrow> W \<noteq> [] \<Longrightarrow> L \<noteq> [] \<Longrightarrow> path_exists a (L @ q) \<Longrightarrow>
    hm_get b (W @ q) = hm_get a (L @ q) \<Longrightarrow> hm_get fs (W @ q) = hm_get a (L @ q)"
  by (auto simp: winner_keeps_def path_exists_def)

lemma entries_kept_moves:
  assumes "entries_kept W a b L" "tree_at fs L = tree_at b L" "winner_keeps W b fs" "W \<noteq> []" "L \<noteq> []"
  shows "entries_kept W a fs L"
  unfolding entries_kept_def
proof (intro allI impI)
  fix q
  assume e: "path_exists a (L @ q)"
  with assms(1) have "hm_get b (L @ q) = hm_get a (L @ q) \<or> hm_get b (W @ q) = hm_get a (L @ q)"
    by (simp add: entries_kept_def)
  with winner_keeps_found [OF assms(3-5) e] tree_get [OF assms(2), of q]
  show "hm_get fs (L @ q) = hm_get a (L @ q) \<or> hm_get fs (W @ q) = hm_get a (L @ q)" by auto
qed

lemma handed_over_moves:
  assumes "handed_over P T new W losers a b L" "winner_keeps W b fs" "W \<noteq> []" "[] \<notin> set losers"
  shows "handed_over P T new W losers a fs L"
proof -
  obtain old where old: "load_dir P T a L = Some old" using assms(1) by (auto simp: handed_over_def split: option.splits)
  have same: "hm_get fs (join_path W dest) = hm_get a (join_path M dest)"
    if "is_safe_relative_path dest" "M \<in> set (if path_exists a (join_path W dest) then [W] else losers)"
      "path_exists a (join_path M dest) \<and> hm_get b (join_path W dest) = hm_get a (join_path M dest)" for M dest
    using that winner_keeps_found [OF assms(2,3), of M a "split_on (CHR ''/'') dest"] assms(3,4)
    by (auto simp: join_safe split: if_splits)
  have "list_ex (\<lambda>M. path_exists a (join_path M dest) \<and> hm_get fs (join_path W dest) = hm_get a (join_path M dest))
      (if path_exists a (join_path W dest) then [W] else losers)"
    if "is_safe_relative_path dest"
      "list_ex (\<lambda>M. path_exists a (join_path M dest) \<and> hm_get b (join_path W dest) = hm_get a (join_path M dest))
        (if path_exists a (join_path W dest) then [W] else losers)" for dest
    using that(2) same [OF that(1)] unfolding list_ex_iff by blast
  then show ?thesis
    using assms(1) unfolding handed_over_def old option.case
    by (elim list.pred_mono_strong) (simp split: if_splits)
qed

lemma from_dirs_moves:
  "from_dirs W losers a b \<Longrightarrow> tree_at fs W = tree_at b W \<Longrightarrow> W \<noteq> [] \<Longrightarrow> from_dirs W losers a fs"
  using tree_get [of fs W b] by (simp add: from_dirs_def path_exists_def)

lemma winner_keeps_tree: "tree_at fs W = tree_at b W \<Longrightarrow> winner_keeps W b fs"
  using tree_get [of fs W b] by (simp add: winner_keeps_def)

lemma from_dirs_hands_over:
  assumes "from_dirs W losers a fs" "winner_keeps W a fs" "load_dir P T a L = Some old"
    and "list_all (\<lambda>dest. is_safe_relative_path dest
        \<and> (path_exists a (join_path L dest) \<longrightarrow> path_exists fs (join_path W dest))) (survivors old new)"
  shows "handed_over P T new W losers a fs L"
proof -
  have "list_ex (\<lambda>M. path_exists a (join_path M dest)
        \<and> hm_get fs (join_path W dest) = hm_get a (join_path M dest))
      (if path_exists a (join_path W dest) then [W] else losers)"
    if "is_safe_relative_path dest" "path_exists fs (join_path W dest)" for dest
  proof -
    let ?c = "split_on (CHR ''/'') dest"
    have "path_exists fs (W @ ?c)" using that by (simp add: join_safe)
    then obtain M where M: "M \<in> set (W # losers)" "path_exists a (M @ ?c)" "hm_get fs (W @ ?c) = hm_get a (M @ ?c)"
      using assms(1) split_on_not_Nil [of "CHR ''/''" dest] unfolding from_dirs_def by blast
    show ?thesis
    proof (cases "path_exists a (W @ ?c)")
      case True
      with assms(2) that(1) show ?thesis by (simp add: join_safe winner_keeps_def)
    next
      case False
      with M that(1) show ?thesis by (auto simp: join_safe list_ex_iff)
    qed
  qed
  with assms(3,4) show ?thesis by (auto simp: handed_over_def list_all_iff)
qed

subsection \<open>One loser\<close>

lemma carry_step:
  fixes d :: "'z disk_scheme"
  assumes run: "carry L W (survivors old new) d = (d1, r)"
    and dirs: "dirs_above L (dk_files d)" "dirs_above W (dk_files d)" and ap: "apart L W"
    and start: "tree_at (dk_files d) L = tree_at a L" "from_dirs W losers a (dk_files d)"
      "winner_keeps W a (dk_files d)" "L \<in> set losers" "load_dir P T a L = Some old"
  shows "through (\<lambda>fs. winner_keeps W (dk_files d) fs \<and> entries_kept W a fs L
      \<and> agree_off (\<lambda>q. under L q \<or> under W q \<or> under q W) (dk_files d) fs) d d1"
    and "from_dirs W losers a (dk_files d1)" "dirs_above W (dk_files d1)"
    and "is_ok r \<Longrightarrow> handed_over P T new W losers a (dk_files d1) L"
proof -
  let ?R = "\<lambda>q. under L q \<or> under W q \<or> under q W"
  let ?J = "\<lambda>fs. carry_inv L W (dk_files d) fs \<and> brought L W (dk_files d) fs \<and> agree_off ?R (dk_files d) fs"
  have ne: "W \<noteq> []" "L \<noteq> []" and ap2: "\<not> under L W" "\<not> under W L" using ap by (auto simp: apart_def under_def)
  have k: "keeps ?R (carry L W (survivors old new) :: ('z disk_scheme, _, _) action)"
    by (rule keeps_carry)
  have off: "through (agree_off ?R (dk_files d)) d d1"
    using keepsD [OF k run] by (simp add: reached_through)
  have J: "through ?J d d1"
  proof (cases "list_all is_safe_relative_path (survivors old new)")
    case False
    with run have "d1 = d" by (simp add: carry_def io_fail_def)
    with dirs show ?thesis by (simp add: carry_inv_start brought_refl through_refl)
  next
    case True
    with run have loop: "carry_loop L W (survivors old new) 0 d = (d1, r)" by (simp add: carry_def)
    note inv = carry_inv_start [OF dirs]
    from carry_loop_inv [OF True inv ap2 loop] carry_loop_brings [OF True inv brought_refl ap2 loop] off
    show ?thesis by (intro through_conj)
  qed
  have kept: "winner_keeps W (dk_files d) fs \<and> entries_kept W a fs L" if "carry_inv L W (dk_files d) fs" for fs
  proof -
    have c: "conserved L W (dk_files d) fs" using that by (simp add: carry_inv_def)
    then have "hm_get fs (L @ q) = hm_get a (L @ q) \<or> hm_get fs (W @ q) = hm_get a (L @ q)"
      if "path_exists a (L @ q)" for q
    proof -
      have eq: "hm_get (dk_files d) (L @ q) = hm_get a (L @ q)" using tree_get [OF start(1)] .
      with that ne have "hm_get (dk_files d) (L @ q) \<noteq> None" by (auto simp: path_exists_def split: option.splits)
      with c eq show ?thesis unfolding conserved_def by metis
    qed
    with c show ?thesis by (simp add: winner_keeps_def entries_kept_def conserved_def)
  qed
  from J show "through (\<lambda>fs. winner_keeps W (dk_files d) fs \<and> entries_kept W a fs L
      \<and> agree_off ?R (dk_files d) fs) d d1"
    by (rule through_mono) (use kept in blast)
  from through_end [OF J] have "carry_inv L W (dk_files d) (dk_files d1)" "brought L W (dk_files d) (dk_files d1)"
    by simp_all
  then show "dirs_above W (dk_files d1)" by (simp add: carry_inv_def)
  have k1: "winner_keeps W (dk_files d) (dk_files d1)" using kept \<open>carry_inv L W (dk_files d) (dk_files d1)\<close> by blast
  show from1: "from_dirs W losers a (dk_files d1)"
    unfolding from_dirs_def
  proof (intro allI impI)
    fix q
    assume q: "q \<noteq> []" "path_exists (dk_files d1) (W @ q)"
    show "\<exists>M \<in> set (W # losers). path_exists a (M @ q) \<and> hm_get (dk_files d1) (W @ q) = hm_get a (M @ q)"
    proof (cases "path_exists (dk_files d) (W @ q)")
      case True
      with k1 start(2) q(1) show ?thesis by (simp add: winner_keeps_def from_dirs_def)
    next
      case False
      with q \<open>brought L W (dk_files d) (dk_files d1)\<close>
      have "hm_get (dk_files d1) (W @ q) = hm_get a (L @ q)"
        using tree_get [OF start(1), of q] by (auto simp: brought_def)
      with q(2) ne start(4) show ?thesis by (auto simp: path_exists_def)
    qed
  qed
  show "handed_over P T new W losers a (dk_files d1) L" if ok: "is_ok r"
  proof -
    from ok run have safe: "list_all is_safe_relative_path (survivors old new)"
      by (auto simp: carry_def io_fail_def split: if_splits)
    with run have loop: "carry_loop L W (survivors old new) 0 d = (d1, r)" by (simp add: carry_def)
    from ok obtain n where "r = Inr n" by (cases r) auto
    with carry_loop_lands [OF safe dirs ap2] loop
    have lands: "list_all (\<lambda>dest. path_exists (dk_files d) (join_path L dest) \<longrightarrow>
        path_exists (dk_files d1) (join_path W dest)) (survivors old new)" by blast
    have "path_exists a (join_path L dest) \<Longrightarrow> path_exists (dk_files d) (join_path L dest)"
      if "is_safe_relative_path dest" for dest
      using that tree_get [OF start(1)] by (simp add: join_safe path_exists_def)
    with safe lands from_dirs_hands_over [OF from1 winner_keeps_trans [OF ne(1) start(3) k1] start(5)]
    show ?thesis by (simp add: list_all_iff)
  qed
qed

lemma remove_gone:
  assumes "remove_dir_all L d = (d1, Inr u)"
  shows "hm_get (dk_files d1) L = None"
  using assms unfolding remove_dir_all_def
  by (rule call_cases)
    (auto simp: get_cut_below dest!: sym [of _ "dk_files d1"] split: option.splits inode.splits)

subsection \<open>The loop\<close>

lemma reconcile_loop_spec:
  fixes d :: "'z disk_scheme"
  assumes "reconcile_loop P T new W losers out d = (d2, r)"
    and "pre @ losers = every" "sorted_wrt apart every" "list_all (\<lambda>L. apart L W) every"
    and "dirs_above W (dk_files d)" "list_all (\<lambda>L. dirs_above L a \<and> tree_at (dk_files d) L = tree_at a L) losers"
    and "from_dirs W every a (dk_files d)" "pass_ok P T new W every a (dk_files d)"
  shows "\<exists>out2. r = Inr out2 \<and> through (pass_ok P T new W every a) d d2
    \<and> winner_keeps W (dk_files d) (dk_files d2)
    \<and> list_all (\<lambda>M. tree_at (dk_files d2) M = tree_at (dk_files d) M) pre
    \<and> (\<exists>more. rc_removed out2 = rc_removed out @ more \<and> set more \<subseteq> set losers
        \<and> list_all (\<lambda>L. handed_over P T new W every a (dk_files d2) L \<and> hm_get (dk_files d2) L = None) more)"
  using assms
proof (induction losers arbitrary: pre out d)
  case Nil
  then show ?case by (auto simp: io_pure_def through_refl list_all_iff winner_keeps_def)
next
  case (Cons L rest)
  have W: "W \<noteq> []" "apart L W" and ne: "[] \<notin> set every"
    using Cons.prems(2,4) by (auto simp: apart_def under_def list_all_iff)
  have others: "apart M L \<and> apart M W" if "M \<in> set pre \<union> set rest" for M
    using that Cons.prems(2,3,4) by (auto simp: sorted_wrt_append list_all_iff intro: apart_sym)
  have every: "set every = insert L (set pre \<union> set rest)" using Cons.prems(2) by auto
  have dL: "dirs_above L (dk_files d)" and tL: "tree_at (dk_files d) L = tree_at a L"
    using Cons.prems(6) dirs_above_tree [of a L "dk_files d"] by auto
  have keep: "winner_keeps W a (dk_files d)" using Cons.prems(8) by (simp add: pass_ok_def)
  have others_ok: "entries_kept W a fs M \<or> handed_over P T new W every a fs M"
    if "M \<in> set pre \<union> set rest" "tree_at fs M = tree_at (dk_files d) M" "winner_keeps W (dk_files d) fs" for M fs
  proof -
    have "M \<in> set every" using that(1) every by simp
    then have m: "M \<noteq> []" and
      c: "entries_kept W a (dk_files d) M \<or> handed_over P T new W every a (dk_files d) M"
      using Cons.prems(8) ne by (auto simp: pass_ok_def list_all_iff)
    from c show ?thesis
    proof
      assume "entries_kept W a (dk_files d) M"
      from entries_kept_moves [OF this that(2,3) W(1) m] show ?thesis ..
    next
      assume "handed_over P T new W every a (dk_files d) M"
      from handed_over_moves [OF this that(3) W(1) ne] show ?thesis ..
    qed
  qed
  have ok: "pass_ok P T new W every a fs"
    if "winner_keeps W (dk_files d) fs" "entries_kept W a fs L \<or> handed_over P T new W every a fs L"
      "\<And>M. M \<in> set pre \<union> set rest \<Longrightarrow> tree_at fs M = tree_at (dk_files d) M" for fs
  proof -
    have "entries_kept W a fs M \<or> handed_over P T new W every a fs M" if "M \<in> set every" for M
      using that others_ok [OF _ _ \<open>winner_keeps W (dk_files d) fs\<close>]
        \<open>entries_kept W a fs L \<or> handed_over P T new W every a fs L\<close>
        \<open>\<And>M. M \<in> set pre \<union> set rest \<Longrightarrow> tree_at fs M = tree_at (dk_files d) M\<close>
      unfolding every by blast
    with winner_keeps_trans [OF W(1) keep that(1)] show ?thesis by (simp add: pass_ok_def list_all_iff)
  qed
  define gone where "gone fs L \<longleftrightarrow> handed_over P T new W every a fs L \<and> hm_get fs L = None" for fs L
  have go_on: "\<exists>out2. r = Inr out2 \<and> through (pass_ok P T new W every a) d d2
      \<and> winner_keeps W (dk_files d1) (dk_files d2)
      \<and> list_all (\<lambda>M. tree_at (dk_files d2) M = tree_at (dk_files d) M) pre
      \<and> (\<exists>more. rc_removed out2 = rc_removed out1 @ more \<and> set more \<subseteq> set rest
          \<and> list_all (gone (dk_files d2)) more)
      \<and> tree_at (dk_files d2) L = tree_at (dk_files d1) L"
    if step: "reconcile_loop P T new W rest out1 d1 = (d2, r)"
      and th: "through (pass_ok P T new W every a) d d1" "dirs_above W (dk_files d1)"
        "from_dirs W every a (dk_files d1)"
      and same: "\<And>M. M \<in> set pre \<union> set rest \<Longrightarrow> tree_at (dk_files d1) M = tree_at (dk_files d) M"
    for out1 d1
  proof -
    have left: "list_all (\<lambda>L. dirs_above L a \<and> tree_at (dk_files d1) L = tree_at a L) rest"
      using Cons.prems(6) same by (auto simp: list_all_iff)
    have split: "(pre @ [L]) @ rest = every" using Cons.prems(2) by simp
    from Cons.IH [OF step split Cons.prems(3,4) th(2) left th(3) through_end [OF th(1)]]
    obtain out2 more where 2: "r = Inr out2" "through (pass_ok P T new W every a) d1 d2"
      "winner_keeps W (dk_files d1) (dk_files d2)"
      "list_all (\<lambda>M. tree_at (dk_files d2) M = tree_at (dk_files d1) M) (pre @ [L])"
      "rc_removed out2 = rc_removed out1 @ more" "set more \<subseteq> set rest" "list_all (gone (dk_files d2)) more"
      unfolding gone_def by blast
    have "list_all (\<lambda>M. tree_at (dk_files d2) M = tree_at (dk_files d) M) pre"
      using 2(4) same by (simp add: list_all_iff)
    moreover have "tree_at (dk_files d2) L = tree_at (dk_files d1) L" using 2(4) by simp
    ultimately show ?thesis using 2 through_trans [OF th(1) 2(2)] by blast
  qed
  show ?case
  proof (cases "load_dir P T (dk_files d) L")
    case None
    with Cons.prems(1) have step: "reconcile_loop P T new W rest out d = (d2, r)"
      by (simp add: io_look_then)
    from go_on [OF step through_refl [where I = "pass_ok P T new W every a", OF Cons.prems(8)] Cons.prems(5,7) refl] show ?thesis
      unfolding gone_def by (auto intro: list.pred_mono_strong)
  next
    case (Some old)
    then have la: "load_dir P T a L = Some old" using load_dir_tree [OF tL] by metis
    obtain d1 r1 where c: "carry L W (survivors old new) d = (d1, r1)"
      by (cases "carry L W (survivors old new) d")
    have "L \<in> set every" using every by simp
    note st = carry_step [OF c dL Cons.prems(5) W(2) tL Cons.prems(7) keep this la]
    have apart_same: "tree_at fs M = tree_at (dk_files d) M"
      if "M \<in> set pre \<union> set rest" "agree_off (\<lambda>q. under L q \<or> under W q \<or> under q W) (dk_files d) fs" for M fs
      using tree_apart [OF that(2)] others [OF that(1)] by blast
    have th1: "through (pass_ok P T new W every a) d d1"
      by (rule through_mono [OF st(1)]) (use ok apart_same in blast)
    have same1: "tree_at (dk_files d1) M = tree_at (dk_files d) M" if "M \<in> set pre \<union> set rest" for M
      using apart_same [OF that] through_end [OF st(1)] by blast
    have k1: "winner_keeps W (dk_files d) (dk_files d1)" using through_end [OF st(1)] by blast
    show ?thesis
    proof (cases r1)
      case (Inl e)
      with Cons.prems(1) Some c have step: "reconcile_loop P T new W rest out d1 = (d2, r)"
        by (simp add: io_look_then io_then_Inr io_try_eq)
      from go_on [OF step th1 st(3,2) same1] winner_keeps_trans [OF W(1) k1] show ?thesis
        unfolding gone_def by (auto intro: list.pred_mono_strong)
    next
      case (Inr bytes)
      then have ho1: "handed_over P T new W every a (dk_files d1) L" using st(4) by simp
      obtain d3 r3 where rm: "remove_dir_all L d1 = (d3, r3)" by (cases "remove_dir_all L d1")
      define out1 where "out1 = out\<lparr>rc_reclaimed := rc_reclaimed out + bytes\<rparr>"
      define out3 where "out3 = (case r3 of Inl _ \<Rightarrow> out1
          | Inr _ \<Rightarrow> out1\<lparr>rc_removed := rc_removed out1 @ [L]\<rparr>)"
      note fr = remove_dir_all_frame [OF rm]
      have tW: "tree_at (dk_files d3) W = tree_at (dk_files d1) W"
        using tree_cut [OF apart_sym [OF W(2)] fr(1)] .
      have k3: "winner_keeps W (dk_files d1) (dk_files d3)" using winner_keeps_tree [OF tW] .
      note k13 = winner_keeps_trans [OF W(1) k1 k3]
      have ho3: "handed_over P T new W every a (dk_files d3) L" using handed_over_moves [OF ho1 k3 W(1) ne] .
      have same3: "tree_at (dk_files d3) M = tree_at (dk_files d) M" if "M \<in> set pre \<union> set rest" for M
        using tree_cut [OF conjunct1 [OF others [OF that]] fr(1)] same1 [OF that] by simp
      have "pass_ok P T new W every a (dk_files d3)" using ok [OF k13 disjI2 [OF ho3] same3] .
      with fr(2) have "through (pass_ok P T new W every a) d1 d3" by (rule through_one)
      with th1 have th3: "through (pass_ok P T new W every a) d d3" by (rule through_trans)
      have step: "reconcile_loop P T new W rest out3 d3 = (d2, r)"
        using Cons.prems(1) Some c Inr rm unfolding out3_def out1_def
        by (simp add: io_look_then io_then_Inr io_try_eq Let_def)
      from go_on [OF step th3 dirs_above_tree [OF tW [symmetric] st(3)] from_dirs_moves [OF st(2) tW W(1)] same3]
      obtain out2 more where 2: "r = Inr out2" "through (pass_ok P T new W every a) d d2"
        "winner_keeps W (dk_files d3) (dk_files d2)"
        "list_all (\<lambda>M. tree_at (dk_files d2) M = tree_at (dk_files d) M) pre"
        "rc_removed out2 = rc_removed out3 @ more" "set more \<subseteq> set rest" "list_all (gone (dk_files d2)) more"
        "tree_at (dk_files d2) L = tree_at (dk_files d3) L"
        by blast
      have gL: "gone (dk_files d2) L" if "is_ok r3"
      proof -
        from that rm obtain u where "remove_dir_all L d1 = (d3, Inr u)" by (cases r3) auto
        from remove_gone [OF this] tree_get [OF 2(8), of "[]"] have "hm_get (dk_files d2) L = None" by simp
        with handed_over_moves [OF ho3 2(3) W(1) ne] show ?thesis by (simp add: gone_def)
      qed
      let ?more = "(if is_ok r3 then [L] else []) @ more"
      have "rc_removed out2 = rc_removed out @ ?more"
        using 2(5) by (cases r3) (simp_all add: out3_def out1_def)
      moreover have "set ?more \<subseteq> set (L # rest)" using 2(6) by auto
      moreover have "list_all (gone (dk_files d2)) ?more" using 2(7) gL by simp
      ultimately show ?thesis
        using 2(1,2,4) winner_keeps_trans [OF W(1) k13 2(3)] unfolding gone_def by blast
    qed
  qed
qed

text \<open>A pass touches nothing but the losers, what is below the winner, and the directories above it.\<close>

lemma keeps_reconcile_loop:
  "list_all (\<lambda>L. \<forall>q. under L q \<longrightarrow> R q) losers \<Longrightarrow> (\<And>q. under W q \<or> under q W \<Longrightarrow> R q) \<Longrightarrow>
    keeps R (reconcile_loop P T new W losers out)"
  by (induction losers arbitrary: out) (auto intro!: keeps_rules simp: Let_def split: option.split sum.split)

lemma keeps_reconcile:
  "keeps (\<lambda>q. list_ex (\<lambda>L. under L q) losers \<or> under W q \<or> under q W) (reconcile_dirs P T losers W)"
  unfolding reconcile_dirs_def
  by (auto intro!: keeps_rules keeps_reconcile_loop simp: list_all_iff list_ex_iff split: option.split)

text \<open>
  C5. A pass over the duplicates of a backend always returns. In every state the file system is in
  meanwhile, whatever call fails or breaks in the middle: the winner holds all it held, unchanged;
  each duplicate either has lost nothing that is not at the same place in the winner, or its manifest
  parsed and each model file it held that both manifests still offer has been handed over, so that the
  winner holds it with the whole content it had in the winner or else in a duplicate; nothing outside
  these directories is touched. A directory reported removed is one of the duplicates, was handed over
  and is gone.
\<close>

theorem reconcile_keeps_models:
  assumes "load_dir P T (dk_files d) winner = Some new" "dirs_above winner (dk_files d)"
    and "list_all (\<lambda>L. dirs_above L (dk_files d) \<and> apart L winner) losers" "sorted_wrt apart losers"
  shows "\<exists>d2 out. reconcile_dirs P T losers winner d = (d2, Inr out :: 'e + reconciled)
    \<and> through (\<lambda>fs. pass_ok P T new winner losers (dk_files d) fs
        \<and> agree_off (\<lambda>q. list_ex (\<lambda>L. under L q) losers \<or> under winner q \<or> under q winner) (dk_files d) fs) d d2
    \<and> set (rc_removed out) \<subseteq> set losers
    \<and> list_all (\<lambda>L. handed_over P T new winner losers (dk_files d) (dk_files d2) L
        \<and> hm_get (dk_files d2) L = None) (rc_removed out)"
proof -
  let ?a = "dk_files d"
  obtain d2 and r :: "'e + reconciled"
    where run: "reconcile_loop P T new winner losers no_reconciled d = (d2, r)"
    by fastforce
  then have whole: "reconcile_dirs P T losers winner d = (d2, r)"
    using assms(1) by (simp add: reconcile_dirs_def io_look_then)
  have start: "pass_ok P T new winner losers ?a ?a" "from_dirs winner losers ?a ?a"
    by (auto simp: pass_ok_def winner_keeps_def entries_kept_def list_all_iff from_dirs_def)
  have each: "list_all (\<lambda>L. apart L winner) losers"
    "list_all (\<lambda>L. dirs_above L ?a \<and> tree_at ?a L = tree_at ?a L) losers"
    using assms(3) by (simp_all add: list_all_iff)
  from reconcile_loop_spec [OF run append_Nil assms(4) each(1) assms(2) each(2) start(2,1)]
  obtain out where 2: "r = Inr out" "through (pass_ok P T new winner losers ?a) d d2"
    "set (rc_removed out) \<subseteq> set losers"
    "list_all (\<lambda>L. handed_over P T new winner losers ?a (dk_files d2) L \<and> hm_get (dk_files d2) L = None)
       (rc_removed out)"
    by (auto simp: no_reconciled_def)
  have "reached (\<lambda>q. list_ex (\<lambda>L. under L q) losers \<or> under winner q \<or> under q winner) d d2"
    using keepsD [OF keeps_reconcile whole] .
  with through_conj [OF 2(2)] have "through (\<lambda>fs. pass_ok P T new winner losers ?a fs
      \<and> agree_off (\<lambda>q. list_ex (\<lambda>L. under L q) losers \<or> under winner q \<or> under q winner) ?a fs) d d2"
    by (simp add: reached_through)
  with whole 2 show ?thesis by blast
qed

definition two_dirs :: disk where
  "two_dirs =
     \<lparr>dk_files =
        [([''b''], IDir), ([''b'', ''old''], IDir), ([''b'', ''old'', ''backend.toml''], IFile ''doc''),
         ([''b'', ''old'', ''m''], IDir), ([''b'', ''old'', ''m'', ''w.bin''], IFile ''weights''),
         ([''b'', ''new''], IDir), ([''b'', ''new'', ''backend.toml''], IFile ''doc'')],
      dk_faults = [], dk_trace = []\<rparr>"

lemma two_dirs_load:
  "load_dir test_product sample_reader (dk_files two_dirs) [''b'', ''new''] =
     Some (normalize_manifest sample_manifest)"
  by (simp add: load_dir_def two_dirs_def file_text_def hm_get_def sample_parses)

theorem reconcile_keeps_models_witness:
  "\<exists>d2 out. reconcile_dirs test_product sample_reader [[''b'', ''old'']] [''b'', ''new''] two_dirs
       = (d2, Inr out :: unit + reconciled)
    \<and> through (pass_ok test_product sample_reader (normalize_manifest sample_manifest)
         [''b'', ''new''] [[''b'', ''old'']] (dk_files two_dirs)) two_dirs d2
    \<and> set (rc_removed out) \<subseteq> {[''b'', ''old'']}"
proof -
  have "dirs_above [''b'', ''old''] (dk_files two_dirs)" "dirs_above [''b'', ''new''] (dk_files two_dirs)"
    by (rule dirs_above_check, code_simp)+
  moreover have "apart [''b'', ''old''] [''b'', ''new'']" by (simp add: apart_def under_def)
  ultimately obtain d2 and out :: reconciled where
    "reconcile_dirs test_product sample_reader [[''b'', ''old'']] [''b'', ''new''] two_dirs
       = (d2, Inr out :: unit + reconciled)"
    "through (\<lambda>fs. pass_ok test_product sample_reader (normalize_manifest sample_manifest)
         [''b'', ''new''] [[''b'', ''old'']] (dk_files two_dirs) fs
        \<and> agree_off (\<lambda>q. list_ex (\<lambda>L. under L q) [[''b'', ''old'']] \<or> under [''b'', ''new''] q
            \<or> under q [''b'', ''new'']) (dk_files two_dirs) fs) two_dirs d2"
    "set (rc_removed out) \<subseteq> {[''b'', ''old'']}"
    using reconcile_keeps_models [OF two_dirs_load, where losers = "[[''b'', ''old'']]"] by auto
  then show ?thesis by (blast intro: through_mono)
qed

end
