(* ===== verification/Spec_Index.thy ===== *)
theory Spec_Index
  imports Spec_Options Spec_Parse
begin

section \<open>The registry index\<close>

text \<open>
  \<open>super-engine-spec/src/index.rs\<close>, the listing types of \<open>registry/mod.rs\<close> and \<open>registry/events.rs\<close>,
  \<open>version.rs\<close> and \<open>license.rs\<close>. The index is the document the indexer publishes and every daemon
  reads; \<open>from_manifest\<close> is the one synthesis of an entry that the indexer, the custom repository
  and the local import share. Semantic versions are the \<open>semver\<close> crate's (a parser into a linear
  order), licence flags the \<open>spdx\<close> crate's.
\<close>

subsection \<open>Entries\<close>

definition schema_version :: u32 where
  "schema_version = 1"

definition min_client_floor :: string where
  "min_client_floor = ''0.1.0''"

text \<open>\<open>serde_json::Value\<close>, for the values an option's default can take.\<close>

datatype 'f json = JNull | JBool bool | JInt int | JFloat 'f | JString string

record 'p index_model =
  im_name :: string
  im_provider :: string
  im_supported_devices :: "string list"
  im_product :: 'p

record index_secret =
  is_name :: string
  is_label :: string
  is_required :: bool

record 'f index_option =
  io_name :: string
  io_label :: string
  io_type :: string
  io_default :: "'f json option"

record index_asset =
  ia_url :: string
  ia_size :: u64
  ia_sha256 :: string

record index_subprocess_asset =
  isa_target :: string
  isa_accel :: "string list"
  isa_cuda_major :: "u32 option"
  isa_cuda_sm :: "u32 option"
  isa_cudnn :: bool
  isa_gfx :: "string list"
  isa_vulkan_api :: "string option"
  isa_url :: "string option"
  isa_size :: "u64 option"
  isa_sha256 :: "string option"
  isa_parts :: "index_asset list"

record index_assets =
  ixa_wasm :: "index_asset option"
  ixa_subprocess :: "index_subprocess_asset list"

record index_stale =
  stale_latest_attempted :: string
  stale_tag :: string
  stale_error :: string
  stale_since :: string

record ('p, 'f) index_backend =
  ib_id :: string
  ib_backend_id :: "string option"
  ib_source :: string
  ib_version :: string
  ib_tag :: string
  ib_name :: string
  ib_description :: "string option"
  ib_license :: string
  ib_kind :: string
  ib_contract :: string
  ib_min_client :: "string option"
  ib_entrypoint :: string
  ib_allowed_hosts :: "string list"
  ib_online :: bool
  ib_supports_gpu :: bool
  ib_supports_cpu :: bool
  ib_models :: "'p index_model list"
  ib_secrets :: "index_secret list"
  ib_options :: "'f index_option list"
  ib_assets :: index_assets
  ib_index_stale :: "index_stale option"
  ib_manifest :: "index_asset option"

record ('p, 'f) index =
  ix_schema_version :: u32
  ix_generated_at :: string
  ix_min_client :: string
  ix_backends :: "('p, 'f) index_backend list"

subsection \<open>One or many on the wire\<close>

definition one_or_many_string :: "string one_or_many \<Rightarrow> string list" where
  "one_or_many_string v = (case v of One s \<Rightarrow> [s] | Many xs \<Rightarrow> xs)"

definition one_or_many_string_ser :: "string list \<Rightarrow> string one_or_many" where
  "one_or_many_string_ser v = (case v of [only] \<Rightarrow> One only | _ \<Rightarrow> Many v)"

text \<open>\<open>source.rsplit('/').next()\<close>: the text after the last separator.\<close>

definition id_from_source :: "string \<Rightarrow> string" where
  "id_from_source source = last (split_on (CHR ''/'') source)"

subsection \<open>From a manifest\<close>

record model_support =
  ms_online :: bool
  ms_supports_gpu :: bool
  ms_supports_cpu :: bool

definition any_device :: "(device \<Rightarrow> bool) \<Rightarrow> 'm model_entry list \<Rightarrow> bool" where
  "any_device p models = list_ex (\<lambda>m. list_ex p (me_supported_devices m)) models"

definition model_support :: "'m model_entry list \<Rightarrow> model_support" where
  "model_support models =
     \<lparr>ms_online = list_ex is_online models,
      ms_supports_gpu = any_device (\<lambda>d. d = DevGpu) models,
      ms_supports_cpu = any_device (\<lambda>d. d = DevCpu) models\<rparr>"

text \<open>\<open>serde_json::to_value\<close>; a number that is not finite has no JSON form and becomes null.\<close>

definition json_of_default :: "'f float_ops \<Rightarrow> 'f option_default \<Rightarrow> 'f json" where
  "json_of_default F d =
     (case d of
        DefString s \<Rightarrow> JString s
      | DefInteger i \<Rightarrow> JInt i
      | DefFloat x \<Rightarrow> if f_finite F x then JFloat x else JNull
      | DefBool b \<Rightarrow> JBool b)"

definition unwrap_or :: "'a \<Rightarrow> 'a option \<Rightarrow> 'a" where
  "unwrap_or d v = (case v of Some x \<Rightarrow> x | None \<Rightarrow> d)"

definition index_secret_of :: "secret_decl \<Rightarrow> index_secret" where
  "index_secret_of s =
     \<lparr>is_name = sec_name s, is_label = unwrap_or (sec_name s) (sec_label s), is_required = sec_required s\<rparr>"

definition index_option_of :: "'f float_ops \<Rightarrow> 'f opt_decl \<Rightarrow> 'f index_option" where
  "index_option_of F opt =
     \<lparr>io_name = opt_name opt,
      io_label = unwrap_or (opt_name opt) (opt_label opt),
      io_type = (case opt_type opt of None \<Rightarrow> ''string'' | Some t \<Rightarrow> show_option_type t),
      io_default =
        (if opt_name opt \<noteq> base_url_option then map_option (json_of_default F) (opt_default opt)
         else None)\<rparr>"

definition index_model_of ::
  "('c, 'cap, 'm, 'i, 'f, 'pe) product \<Rightarrow> 'm model_entry \<Rightarrow> 'i index_model" where
  "index_model_of P md =
     \<lparr>im_name = me_name md, im_provider = [],
      im_supported_devices = map show_device (me_supported_devices md),
      im_product = pr_index_model P md\<rparr>"

definition from_manifest ::
  "('c, 'cap, 'm, 'i, 'f, 'pe) product \<Rightarrow> 'f float_ops \<Rightarrow> string \<Rightarrow> ('c, 'cap, 'm, 'f) manifest
     \<Rightarrow> string \<Rightarrow> string \<Rightarrow> index_assets \<Rightarrow> index_asset option \<Rightarrow> ('i, 'f) index_backend" where
  "from_manifest P F i m version tag assets pin =
     (let sup = model_support (mf_models m); b = mf_backend m; G = pr_gens P
      in \<lparr>ib_id = i,
          ib_backend_id = bm_id b,
          ib_source = bm_source b,
          ib_version = version,
          ib_tag = tag,
          ib_name = bm_name b,
          ib_description = Some (bm_description b),
          ib_license = unwrap_or [] (bm_license b),
          ib_kind = show_kind (bm_kind b),
          ib_contract = show_gen G (bm_contract b),
          ib_min_client = Some (min_client_of G (bm_contract b)),
          ib_entrypoint = bm_entrypoint b,
          ib_allowed_hosts = allowed_hosts (mf_network m),
          ib_online = ms_online sup,
          ib_supports_gpu = ms_supports_gpu sup,
          ib_supports_cpu = ms_supports_cpu sup,
          ib_models = map (index_model_of P) (mf_models m),
          ib_secrets = map index_secret_of (mf_secrets m),
          ib_options = map (index_option_of F) (mf_options m),
          ib_assets = assets,
          ib_index_stale = None,
          ib_manifest = pin\<rparr>)"

subsection \<open>Install events and the listing (registry/)\<close>

datatype install_phase = Resolving | Downloading | Verifying | Extracting | Installing | Rescanning

datatype install_error =
    InstIncompatible
  | DownloadFailed
  | AssetHashMismatch
  | TarballUnsafe
  | InstallIoError
  | ManifestInvalid
  | InstallDirConflict

definition show_install_error :: "install_error \<Rightarrow> string" where
  "show_install_error e =
     (case e of
        InstIncompatible \<Rightarrow> ''no compatible asset for this system''
      | DownloadFailed \<Rightarrow> ''download failed''
      | AssetHashMismatch \<Rightarrow> ''the downloaded file failed its integrity check''
      | TarballUnsafe \<Rightarrow> ''the archive contained unsafe paths''
      | InstallIoError \<Rightarrow> ''a filesystem error occurred during install''
      | ManifestInvalid \<Rightarrow> ''the backend manifest was missing or invalid''
      | InstallDirConflict \<Rightarrow> ''the install directory already holds a different backend'')"

datatype registry_event =
    InstallProgress string string install_phase "u64 option" "u64 option"
  | InstallCompleted string string string
  | InstallFailed string string install_phase install_error
  | RefreshCompleted string nat
  | RefreshFailed string

record selected_asset =
  sel_target :: string
  sel_accel :: "string list"
  sel_cuda_major :: "u32 option"
  sel_cuda_sm :: "u32 option"
  sel_cudnn :: bool

record compatibility =
  co_compatible :: bool
  co_selected_asset :: "selected_asset option"
  co_reason :: "string option"
  co_needs_client_update :: bool

subsection \<open>Versions and licences\<close>

definition parse_version :: "(string \<Rightarrow> 'v option) \<Rightarrow> string \<Rightarrow> 'v option" where
  "parse_version semver s =
     (case strip_prefix ''v'' s of Some r \<Rightarrow> semver r | None \<Rightarrow> semver s)"

definition update_available :: "(string \<Rightarrow> ('v::linorder) option) \<Rightarrow> string \<Rightarrow> string \<Rightarrow> bool" where
  "update_available semver installed candidate =
     (case (parse_version semver installed, parse_version semver candidate) of
        (Some have, Some want) \<Rightarrow> want > have
      | _ \<Rightarrow> False)"

definition license_other :: string where
  "license_other = ''other''"

record spdx_flags =
  fl_deprecated :: bool
  fl_osi_approved :: bool
  fl_fsf_libre :: bool

definition flags_are_foss :: "spdx_flags \<Rightarrow> bool" where
  "flags_are_foss f = (\<not> fl_deprecated f \<and> (fl_osi_approved f \<or> fl_fsf_libre f))"

text \<open>\<open>licenses\<close> is the crate's list, in its order; \<open>spdx::license_id\<close> looks a name up in it.\<close>

definition license_is_acceptable :: "(string \<times> spdx_flags) list \<Rightarrow> string \<Rightarrow> bool" where
  "license_is_acceptable licenses l =
     (l = license_other
      \<or> (case map_of licenses l of None \<Rightarrow> False | Some f \<Rightarrow> flags_are_foss f))"

definition accepted_schema_values :: "(string \<times> spdx_flags) list \<Rightarrow> string list" where
  "accepted_schema_values licenses =
     map fst (filter (\<lambda>l. flags_are_foss (snd l)) licenses) @ [license_other]"

subsection \<open>Lemmas\<close>

lemma one_or_many_string_roundtrip: "one_or_many_string (one_or_many_string_ser v) = v"
  by (auto simp: one_or_many_string_def one_or_many_string_ser_def split: list.splits)

lemma one_or_many_string_one: "one_or_many_string_ser [x] = One x"
  by (simp add: one_or_many_string_ser_def)

lemma any_device_iff: "any_device p ms \<longleftrightarrow> (\<exists>m \<in> set ms. \<exists>d \<in> set (me_supported_devices m). p d)"
  by (auto simp: any_device_def list_ex_iff)

lemma accepted_iff:
  assumes "distinct (map fst licenses)"
  shows "l \<in> set (accepted_schema_values licenses) \<longleftrightarrow> license_is_acceptable licenses l"
proof -
  have "(\<exists>f. (l, f) \<in> set licenses \<and> flags_are_foss f) \<longleftrightarrow>
      (case map_of licenses l of None \<Rightarrow> False | Some f \<Rightarrow> flags_are_foss f)"
  proof (cases "map_of licenses l")
    case None
    then have "l \<notin> fst ` set licenses" by (simp add: map_of_eq_None_iff)
    with None show ?thesis by force
  next
    case (Some f)
    then have "(l, g) \<in> set licenses \<longleftrightarrow> g = f" for g
      using map_of_eq_Some_iff [OF assms, of l g] by auto
    with Some show ?thesis by simp
  qed
  then show ?thesis
    unfolding accepted_schema_values_def license_is_acceptable_def by force
qed

subsection \<open>Properties\<close>

text \<open>
  What every install path publishes about a manifest: an option's default is its declared
  value, except that \<open>base_url\<close> (which authorises egress) never has one; an item without a label
  is shown by its name; and the capability flags say exactly which devices some model names. The
  list of accelerators an asset carries is read back as it was written, and one value is written
  as a bare string.
\<close>

theorem index_entry_faithful:
  "map io_default (ib_options (from_manifest P F i m v t as pin))
      = map (\<lambda>d. if opt_name d = base_url_option then None
                 else map_option (json_of_default F) (opt_default d)) (mf_options m)
   \<and> map io_label (ib_options (from_manifest P F i m v t as pin))
      = map (\<lambda>d. case opt_label d of Some l \<Rightarrow> l | None \<Rightarrow> opt_name d) (mf_options m)
   \<and> (ib_online (from_manifest P F i m v t as pin)
        \<longleftrightarrow> (\<exists>md \<in> set (mf_models m). DevNone \<in> set (me_supported_devices md)))
   \<and> (ib_supports_gpu (from_manifest P F i m v t as pin)
        \<longleftrightarrow> (\<exists>md \<in> set (mf_models m). DevGpu \<in> set (me_supported_devices md)))
   \<and> (ib_supports_cpu (from_manifest P F i m v t as pin)
        \<longleftrightarrow> (\<exists>md \<in> set (mf_models m). DevCpu \<in> set (me_supported_devices md)))
   \<and> one_or_many_string (one_or_many_string_ser accels) = accels
   \<and> one_or_many_string_ser [one] = One one"
  by (auto simp: from_manifest_def Let_def index_option_of_def unwrap_or_def model_support_def
      any_device_iff is_online_def list_ex_iff one_or_many_string_roundtrip one_or_many_string_one)

text \<open>
  An update is never a downgrade and never a loop: for any reading of version text into a
  linear order, \<open>update_available\<close> is irreflexive, asymmetric and transitive, it never offers a
  version it cannot parse, and a leading \<open>v\<close> on either side changes nothing.
\<close>

theorem update_never_downgrades:
  "\<not> update_available semver a a
   \<and> \<not> (update_available semver a b \<and> update_available semver b a)
   \<and> \<not> (update_available semver a b \<and> update_available semver b c \<and> \<not> update_available semver a c)
   \<and> (update_available semver a b \<longleftrightarrow>
        (\<exists>have want. parse_version semver a = Some have \<and> parse_version semver b = Some want \<and> have < want))
   \<and> parse_version semver (CHR ''v'' # s) = semver s"
  by (auto simp: update_available_def parse_version_def split: option.splits)

end
