(* ===== verification/Daemon_Backends.thy ===== *)
theory Daemon_Backends
  imports Daemon_Reconcile Spec_Index "HOL-Library.Option_ord" "HOL-Library.Multiset"
begin

section \<open>Discovering the installed backends\<close>

text \<open>
  \<open>super-engine-daemon/src/backends/\<close>: the runtime rules a manifest must meet (\<open>mod.rs\<close>), the model
  definitions (\<open>model.rs\<close>), and the scan of the backends directory with the election of the one
  directory that serves each source (\<open>discovery.rs\<close>). Versions are the \<open>semver\<close> crate's, a parser into
  a linear order.
\<close>

subsection \<open>mod.rs\<close>

datatype runtime_error =
    WebsocketWasmOnly
  | AllowedHostsWasmOnly
  | ReservedName string string
  | PrimaryLanguageMissing string string
  | NotMonolingual string
  | RealtimeWithoutWebsocket string

definition reserved_segments :: "string list" where
  "reserved_segments = [''list'']"

definition check_addressable_name :: "string \<Rightarrow> string \<Rightarrow> runtime_error + unit" where
  "check_addressable_name kd name =
     (if name \<in> set reserved_segments then Inl (ReservedName kd name) else Inr ())"

fun check_each :: "('a \<Rightarrow> 'e + unit) \<Rightarrow> 'a list \<Rightarrow> 'e + unit" where
  "check_each f [] = Inr ()"
| "check_each f (x # xs) = and_then (f x) (\<lambda>_. check_each f xs)"

definition check_model :: "'cap capabilities \<Rightarrow> 'm model_entry \<Rightarrow> runtime_error + unit" where
  "check_model caps model =
     (if me_primary_language model \<notin> set (me_supported_languages model)
      then Inl (PrimaryLanguageMissing (me_name model) (me_primary_language model))
      else if \<not> me_multilingual model \<and> me_supported_languages model \<noteq> [me_primary_language model]
      then Inl (NotMonolingual (me_name model))
      else if me_realtime model \<and> \<not> cap_websocket caps
      then Inl (RealtimeWithoutWebsocket (me_name model))
      else Inr ())"

definition validate_runtime :: "('c, 'cap, 'm, 'f) manifest \<Rightarrow> runtime_error + unit" where
  "validate_runtime m =
     (if bm_kind (mf_backend m) = KSubprocess \<and> cap_websocket (mf_capabilities m)
      then Inl WebsocketWasmOnly
      else if bm_kind (mf_backend m) = KSubprocess \<and> allowed_hosts (mf_network m) \<noteq> []
      then Inl AllowedHostsWasmOnly
      else and_then (check_each (\<lambda>opt. check_addressable_name ''option'' (opt_name opt)) (mf_options m))
        (\<lambda>_. and_then (check_each (\<lambda>s. check_addressable_name ''secret'' (sec_name s)) (mf_secrets m))
        (\<lambda>_. check_each (check_model (mf_capabilities m)) (mf_models m))))"

subsection \<open>model.rs\<close>

text \<open>The interval is a \<open>Duration\<close>, in milliseconds.\<close>

record 'm model_definition =
  md_name :: string
  md_source :: string
  md_is_multilingual :: bool
  md_primary_language :: string
  md_supported_languages :: "string list"
  md_estimated_vram_bytes :: u64
  md_processing_interval :: u64
  md_supported_devices :: "device list"
  md_realtime :: bool
  md_provider :: "string option"
  md_product :: 'm

definition md_is_online :: "'m model_definition \<Rightarrow> bool" where
  "md_is_online d = (DevNone \<in> set (md_supported_devices d))"

subsection \<open>discovery.rs\<close>

record ('cap, 'm, 'f) discovered =
  db_dir :: path
  db_source :: string
  db_id :: "string option"
  db_name :: string
  db_description :: string
  db_version :: string
  db_kind :: string
  db_entrypoint :: string
  db_allowed_hosts :: "string list"
  db_secrets :: "secret_decl list"
  db_options :: "'f opt_decl list"
  db_capabilities :: "'cap capabilities"
  db_models :: "'m model_definition list"

datatype device_rule_error = DevicesEmpty | NoneNotAlone

definition validate_supported_devices :: "'m model_entry \<Rightarrow> device_rule_error + device list" where
  "validate_supported_devices entry =
     (if me_supported_devices entry = [] then Inl DevicesEmpty
      else if DevNone \<in> set (me_supported_devices entry) \<and> length (me_supported_devices entry) > 1
      then Inl NoneNotAlone
      else Inr (foldl push_unique [] (me_supported_devices entry)))"

text \<open>\<open>opt.default.take()\<close> on the option that authorizes egress.\<close>

definition drop_base_url_default :: "'f opt_decl \<Rightarrow> 'f opt_decl" where
  "drop_base_url_default opt =
     (if opt_name opt = base_url_option then opt\<lparr>opt_default := None\<rparr> else opt)"

definition model_of_entry :: "string \<Rightarrow> 'm model_entry \<Rightarrow> device list \<Rightarrow> 'm model_definition" where
  "model_of_entry source entry devices =
     \<lparr>md_name = me_name entry, md_source = source, md_is_multilingual = me_multilingual entry,
      md_primary_language = me_primary_language entry,
      md_supported_languages = me_supported_languages entry,
      md_estimated_vram_bytes = me_estimated_vram_bytes entry,
      md_processing_interval =
        (case me_processing_interval_ms entry of None \<Rightarrow> 2000 | Some ms \<Rightarrow> ms),
      md_supported_devices = devices, md_realtime = me_realtime entry,
      md_provider = me_provider entry, md_product = me_product entry\<rparr>"

datatype ('te, 'pe) discovery_error =
    NoManifest
  | BadManifest "('te, 'pe) manifest_error"
  | BadRuntime runtime_error
  | BadDevices string device_rule_error

fun load_models ::
  "string \<Rightarrow> 'm model_entry list \<Rightarrow> (string \<times> device_rule_error) + 'm model_definition list" where
  "load_models source [] = Inr []"
| "load_models source (entry # rest) =
     (case validate_supported_devices entry of
        Inl e \<Rightarrow> Inl (me_name entry, e)
      | Inr devices \<Rightarrow>
          and_then (load_models source rest) (\<lambda>ms. Inr (model_of_entry source entry devices # ms)))"

definition load_installed_dir ::
  "('c::linorder, 'cap, 'm, 'i, 'f, 'pe) product \<Rightarrow> ('c, 'cap, 'm, 'f, 'te) toml_reader
     \<Rightarrow> files \<Rightarrow> path \<Rightarrow> ('te, 'pe) discovery_error + ('c, 'cap, 'm, 'f) manifest" where
  "load_installed_dir P T fs dir =
     (case file_text fs (dir @ [''backend.toml'']) of
        None \<Rightarrow> Inl NoManifest
      | Some t \<Rightarrow> (case parse_installed P T t of Inl e \<Rightarrow> Inl (BadManifest e) | Inr m \<Rightarrow> Inr m))"

definition installed_version ::
  "('c::linorder, 'cap, 'm, 'i, 'f, 'pe) product \<Rightarrow> ('c, 'cap, 'm, 'f, 'te) toml_reader
     \<Rightarrow> files \<Rightarrow> path \<Rightarrow> string option" where
  "installed_version P T fs dir =
     (case load_installed_dir P T fs dir of
        Inl _ \<Rightarrow> None
      | Inr m \<Rightarrow> Some (bm_version (mf_backend m)))"

definition backend_of_manifest ::
  "path \<Rightarrow> ('c, 'cap, 'm, 'f) manifest \<Rightarrow> 'm model_definition list \<Rightarrow> ('cap, 'm, 'f) discovered" where
  "backend_of_manifest dir m models =
     (let b = mf_backend m in
      \<lparr>db_dir = dir, db_source = bm_source b, db_id = bm_id b, db_name = bm_name b,
       db_description = bm_description b, db_version = bm_version b, db_kind = show_kind (bm_kind b),
       db_entrypoint = bm_entrypoint b, db_allowed_hosts = allowed_hosts (mf_network m),
       db_secrets = mf_secrets m, db_options = map drop_base_url_default (mf_options m),
       db_capabilities = mf_capabilities m, db_models = models\<rparr>)"

definition load_backend ::
  "('c::linorder, 'cap, 'm, 'i, 'f, 'pe) product \<Rightarrow> ('c, 'cap, 'm, 'f, 'te) toml_reader
     \<Rightarrow> files \<Rightarrow> path \<Rightarrow> ('te, 'pe) discovery_error + ('cap, 'm, 'f) discovered" where
  "load_backend P T fs dir =
     and_then (load_installed_dir P T fs dir) (\<lambda>m.
     (case validate_runtime m of
        Inl e \<Rightarrow> Inl (BadRuntime e)
      | Inr _ \<Rightarrow>
          (case load_models (bm_source (mf_backend m)) (mf_models m) of
             Inl (name, e) \<Rightarrow> Inl (BadDevices name e)
           | Inr models \<Rightarrow> Inr (backend_of_manifest dir m models))))"

definition is_id_named :: "('cap, 'm, 'f) discovered \<Rightarrow> bool" where
  "is_id_named b = (db_dir b \<noteq> [] \<and> db_id b = Some (last (db_dir b)))"

text \<open>
  The comparator of the sort: the higher version first (no version parses lowest), then the
  directory named after its id, then the first directory name. \<open>sort_by\<close> is the stable sort.
\<close>

definition outranks ::
  "(string \<Rightarrow> ('v::linorder) option) \<Rightarrow> ('cap, 'm, 'f) discovered \<Rightarrow> ('cap, 'm, 'f) discovered \<Rightarrow> bool" where
  "outranks semver a b =
     (let av = parse_version semver (db_version a); bv = parse_version semver (db_version b)
      in if av \<noteq> bv then bv < av
         else if is_id_named a \<noteq> is_id_named b then is_id_named a
         else db_dir a \<le> db_dir b)"

fun insert_by :: "('a \<Rightarrow> 'a \<Rightarrow> bool) \<Rightarrow> 'a \<Rightarrow> 'a list \<Rightarrow> 'a list" where
  "insert_by le x [] = [x]"
| "insert_by le x (y # ys) = (if le x y then x # y # ys else y # insert_by le x ys)"

definition sort_by :: "('a \<Rightarrow> 'a \<Rightarrow> bool) \<Rightarrow> 'a list \<Rightarrow> 'a list" where
  "sort_by le xs = foldr (insert_by le) xs []"

definition group_push ::
  "(string, ('cap, 'm, 'f) discovered list) hmap \<Rightarrow> ('cap, 'm, 'f) discovered
     \<Rightarrow> (string, ('cap, 'm, 'f) discovered list) hmap" where
  "group_push groups b =
     hm_insert (db_source b)
       ((case hm_get groups (db_source b) of None \<Rightarrow> [] | Some g \<Rightarrow> g) @ [b]) groups"

definition dedup_sources ::
  "(string \<Rightarrow> ('v::linorder) option) \<Rightarrow> ('cap, 'm, 'f) discovered list
     \<Rightarrow> ('cap, 'm, 'f) discovered list \<times> ('cap, 'm, 'f) discovered list" where
  "dedup_sources semver backends =
     (let groups = foldl group_push hm_empty backends;
          ranked = map (sort_by (outranks semver)) (hm_values groups)
      in (sort_by (\<lambda>a b. db_dir a \<le> db_dir b) (map hd ranked), concat (map tl ranked)))"

definition discover ::
  "('c::linorder, 'cap, 'm, 'i, 'f, 'pe) product \<Rightarrow> ('c, 'cap, 'm, 'f, 'te) toml_reader
     \<Rightarrow> (string \<Rightarrow> ('v::linorder) option) \<Rightarrow> files \<Rightarrow> path
     \<Rightarrow> ('cap, 'm, 'f) discovered list \<times> ('cap, 'm, 'f) discovered list" where
  "discover P T semver fs backends_dir =
     dedup_sources semver
       (List.map_filter (\<lambda>dir. case load_backend P T fs dir of Inl _ \<Rightarrow> None | Inr b \<Rightarrow> Some b)
          (filter (\<lambda>dir. is_dir fs dir \<and> path_exists fs (dir @ [''backend.toml'']))
            (read_dir fs backends_dir)))"

definition find_model ::
  "('cap, 'm, 'f) discovered list \<Rightarrow> string \<Rightarrow> string
     \<Rightarrow> (('cap, 'm, 'f) discovered \<times> 'm model_definition) option" where
  "find_model backends name source =
     (case find (\<lambda>b. db_source b = source) backends of
        None \<Rightarrow> None
      | Some b \<Rightarrow> map_option (Pair b) (find (\<lambda>d. md_name d = name) (db_models b)))"

definition dir_name :: "('cap, 'm, 'f) discovered \<Rightarrow> string option" where
  "dir_name b = (if db_dir b = [] then None else Some (last (db_dir b)))"

definition list_models :: "('cap, 'm, 'f) discovered list \<Rightarrow> (string \<times> string) list" where
  "list_models backends = concat (map (\<lambda>b. map (\<lambda>d. (md_name d, md_source d)) (db_models b)) backends)"

subsection \<open>The sort and the order\<close>

lemma mset_insert_by [simp]: "mset (insert_by le x ys) = add_mset x (mset ys)"
  by (induction ys) auto

lemma mset_sort_by [simp]: "mset (sort_by le xs) = mset xs"
  unfolding sort_by_def by (induction xs) simp_all

lemma set_sort_by [simp]: "set (sort_by le xs) = set xs"
  by (metis mset_sort_by set_mset_mset)

lemma sort_by_nonempty [simp]: "sort_by le xs = [] \<longleftrightarrow> xs = []"
  by (metis mset_sort_by mset_zero_iff)

lemma sorted_insert_by:
  assumes "\<And>a b. le a b \<or> le b a" "\<And>a b c. le a b \<Longrightarrow> le b c \<Longrightarrow> le a c"
  shows "sorted_wrt le ys \<Longrightarrow> sorted_wrt le (insert_by le x ys)"
proof (induction ys)
  case (Cons y ys)
  have "set (insert_by le x ys) = insert x (set ys)"
    by (metis mset_insert_by set_mset_add_mset_insert set_mset_mset)
  with Cons assms show ?case by (auto intro: assms)
qed simp

lemma sorted_sort_by:
  assumes "\<And>a b. le a b \<or> le b a" "\<And>a b c. le a b \<Longrightarrow> le b c \<Longrightarrow> le a c"
  shows "sorted_wrt le (sort_by le xs)"
  unfolding sort_by_def by (induction xs) (simp_all add: sorted_insert_by [OF assms])

lemma outranks_total: "outranks semver a b \<or> outranks semver b a"
  by (auto simp: outranks_def Let_def)

lemma outranks_trans:
  assumes "outranks semver a b" "outranks semver b c" shows "outranks semver a c"
  using assms by (auto simp: outranks_def Let_def split: if_splits)

lemma outranks_same: "outranks semver a b \<Longrightarrow> outranks semver b a \<Longrightarrow> db_dir a = db_dir b"
  by (auto simp: outranks_def Let_def split: if_splits)

lemma sorted_by_rank: "sorted_wrt (outranks semver) (sort_by (outranks semver) xs)"
  by (rule sorted_sort_by) (use outranks_total outranks_trans in blast)+

lemma hd_sort_by_rank:
  assumes "g \<noteq> []"
  shows "hd (sort_by (outranks semver) g) \<in> set g"
    "list_all (outranks semver (hd (sort_by (outranks semver) g))) g"
proof -
  let ?s = "sort_by (outranks semver) g"
  obtain w r where s: "?s = w # r" using assms by (cases ?s) auto
  then have set: "set g = insert w (set r)" by (metis list.simps(15) set_sort_by)
  with s show "hd ?s \<in> set g" by simp
  have "outranks semver w w" using outranks_total by blast
  with sorted_by_rank [of semver g] s set show "list_all (outranks semver (hd ?s)) g"
    by (simp add: list_all_iff)
qed

subsection \<open>The groups\<close>

lemma group_push_get:
  "hm_get (group_push groups b) s =
     (if s = db_source b then Some ((case hm_get groups s of None \<Rightarrow> [] | Some g \<Rightarrow> g) @ [b])
      else hm_get groups s)"
  by (simp add: group_push_def)

lemma groups_get:
  "hm_get (foldl group_push groups bs) s =
     (let g = filter (\<lambda>b. db_source b = s) bs
      in if g = [] then hm_get groups s
         else Some ((case hm_get groups s of None \<Rightarrow> [] | Some h \<Rightarrow> h) @ g))"
proof (induction bs arbitrary: groups)
  case (Cons b bs)
  show ?case by (simp add: Cons Let_def group_push_get split: option.split)
qed simp

lemma groups_ok: "hm_ok groups \<Longrightarrow> hm_ok (foldl group_push groups bs)"
  by (induction bs arbitrary: groups) (simp_all add: group_push_def hm.ok_ins)

definition groups_of :: "('cap, 'm, 'f) discovered list \<Rightarrow> (string, ('cap, 'm, 'f) discovered list) hmap" where
  "groups_of bs = foldl group_push hm_empty bs"

lemma groups_of_mem:
  "(s, g) \<in> set (groups_of bs) \<longleftrightarrow> g = filter (\<lambda>b. db_source b = s) bs \<and> g \<noteq> []"
proof -
  have "hm_ok (groups_of bs)" by (simp add: groups_of_def groups_ok hm.ok_empty)
  then have "(s, g) \<in> set (groups_of bs) \<longleftrightarrow> hm_get (groups_of bs) s = Some g"
    by (rule hm_get_iff [symmetric])
  then show ?thesis by (auto simp: groups_of_def groups_get hm.get_empty Let_def)
qed

lemma groups_of_keys: "distinct (map fst (groups_of bs))"
  using groups_ok [OF hm.ok_empty] by (simp add: groups_of_def hm_ok_def)

lemma mset_update_push:
  "mset (concat (map snd (AList.update k ((case map_of m k of None \<Rightarrow> [] | Some g \<Rightarrow> g) @ [b]) m)))
     = add_mset b (mset (concat (map snd m)))"
  by (induction m) auto

lemma mset_groups:
  "mset (concat (map snd (foldl group_push groups bs))) = mset (concat (map snd groups)) + mset bs"
proof (induction bs arbitrary: groups)
  case (Cons b bs)
  have "mset (concat (map snd (group_push groups b))) = add_mset b (mset (concat (map snd groups)))"
    unfolding group_push_def hm_insert_def hm_get_def by (rule mset_update_push)
  with Cons show ?case by simp
qed simp

definition winner_in :: "(string \<Rightarrow> ('v::linorder) option) \<Rightarrow> ('cap, 'm, 'f) discovered list
    \<Rightarrow> ('cap, 'm, 'f) discovered \<Rightarrow> bool" where
  "winner_in semver bs w =
     (w \<in> set bs
      \<and> list_all (\<lambda>b. if db_source b = db_source w then outranks semver w b else True) bs)"

lemma winner_of_group:
  assumes "(s, g) \<in> set (groups_of bs)"
  shows "winner_in semver bs (hd (sort_by (outranks semver) g))
    \<and> db_source (hd (sort_by (outranks semver) g)) = s"
proof -
  have gg: "g = filter (\<lambda>b. db_source b = s) bs \<and> g \<noteq> []" using assms unfolding groups_of_mem .
  note g = conjunct1 [OF gg] conjunct2 [OF gg]
  with hd_sort_by_rank [OF g(2), of semver] show ?thesis
    by (auto simp: winner_in_def list_all_iff)
qed

lemma dedup_winners:
  "w \<in> set (fst (dedup_sources semver bs)) \<longleftrightarrow>
     (\<exists>s g. (s, g) \<in> set (groups_of bs) \<and> w = hd (sort_by (outranks semver) g))"
  by (force simp: dedup_sources_def Let_def hm_values_def groups_of_def image_iff)

lemma dedup_winner_sound: "w \<in> set (fst (dedup_sources semver bs)) \<Longrightarrow> winner_in semver bs w"
  using winner_of_group [of _ _ bs semver] by (auto simp: dedup_winners)

lemma dedup_winner_sources: "db_source ` set (fst (dedup_sources semver bs)) = db_source ` set bs"
proof
  show "db_source ` set (fst (dedup_sources semver bs)) \<subseteq> db_source ` set bs"
    using dedup_winner_sound by (force simp: winner_in_def)
  show "db_source ` set bs \<subseteq> db_source ` set (fst (dedup_sources semver bs))"
  proof
    fix s
    assume "s \<in> db_source ` set bs"
    then have "(s, filter (\<lambda>b. db_source b = s) bs) \<in> set (groups_of bs)"
      by (auto simp: groups_of_mem filter_empty_conv)
    from winner_of_group [OF this, of semver] this
    show "s \<in> db_source ` set (fst (dedup_sources semver bs))"
      by (force simp: dedup_winners image_iff)
  qed
qed

lemma dedup_winners_mset:
  "mset (fst (dedup_sources semver bs)) =
     mset (map (\<lambda>(s, g). hd (sort_by (outranks semver) g)) (groups_of bs))"
  by (simp add: dedup_sources_def Let_def hm_values_def groups_of_def case_prod_unfold comp_def)

lemma dedup_distinct: "distinct (map db_source (fst (dedup_sources semver bs)))"
proof -
  have "map (\<lambda>(s, g). db_source (hd (sort_by (outranks semver) g))) (groups_of bs) = map fst (groups_of bs)"
    using winner_of_group [of _ _ bs semver] by (auto intro!: map_cong)
  moreover have "mset (map db_source (fst (dedup_sources semver bs))) =
      mset (map (\<lambda>(s, g). db_source (hd (sort_by (outranks semver) g))) (groups_of bs))"
    using arg_cong [OF dedup_winners_mset [of semver bs], of "image_mset db_source"]
    by (simp add: case_prod_unfold multiset.map_comp comp_def)
  ultimately show ?thesis using groups_of_keys [of bs] by (metis mset_eq_imp_distinct_iff)
qed

lemma dedup_partition:
  "mset (fst (dedup_sources semver bs)) + mset (snd (dedup_sources semver bs)) = mset bs"
proof -
  have split: "mset (map hd xs) + mset (concat (map tl xs)) = mset (concat xs)"
    if "\<forall>x \<in> set xs. x \<noteq> []" for xs :: "('a, 'b, 'c) discovered list list"
    using that by (induction xs) (auto simp: neq_Nil_conv)
  let ?ranked = "map (sort_by (outranks semver)) (hm_values (groups_of bs))"
  have "\<forall>x \<in> set ?ranked. x \<noteq> []" by (auto simp: hm_values_def groups_of_mem)
  from split [OF this]
  have "mset (map hd ?ranked) + mset (concat (map tl ?ranked)) = mset (concat ?ranked)" .
  moreover have "mset (concat ?ranked) = mset (concat (hm_values (groups_of bs)))"
    by (simp add: mset_concat comp_def)
  moreover have "mset (concat (hm_values (groups_of bs))) = mset bs"
    using mset_groups [of "[]" bs] by (simp add: groups_of_def hm_values_def hm_empty_def)
  ultimately show ?thesis by (simp add: dedup_sources_def Let_def groups_of_def)
qed

lemma dedup_sorted: "sorted (map db_dir (fst (dedup_sources semver bs)))"
proof -
  have "sorted_wrt (\<lambda>a b. db_dir a \<le> db_dir b) (fst (dedup_sources semver bs))"
    by (simp add: dedup_sources_def Let_def) (rule sorted_sort_by; auto)
  then show ?thesis by (simp add: sorted_wrt_map)
qed

text \<open>
  C7. The scan elects exactly one directory per source and drops none: winners and losers together
  are what was found, each source has one winner, no directory serving that source outranks it (a
  higher version, then the directory named after the id, then the first name), and the winners are
  listed by directory.
\<close>

theorem discovery_elects_one:
  "mset (fst (dedup_sources semver bs)) + mset (snd (dedup_sources semver bs)) = mset bs
   \<and> distinct (map db_source (fst (dedup_sources semver bs)))
   \<and> db_source ` set (fst (dedup_sources semver bs)) = db_source ` set bs
   \<and> list_all (winner_in semver bs) (fst (dedup_sources semver bs))
   \<and> sorted (map db_dir (fst (dedup_sources semver bs)))"
proof (intro conjI)
  show "list_all (winner_in semver bs) (fst (dedup_sources semver bs))"
    by (simp add: list_all_iff dedup_winner_sound)
qed (rule dedup_partition dedup_distinct dedup_winner_sources dedup_sorted)+

text \<open>
  Which directory serves a source does not depend on the order the file system lists the
  directories in: any two scans of the same directories have the same winners, in the same order,
  and the same losers.
\<close>

theorem discovery_ignores_scan_order:
  assumes "mset xs = mset ys" "distinct (map db_dir xs)"
  shows "fst (dedup_sources semver xs) = fst (dedup_sources semver ys)
    \<and> mset (snd (dedup_sources semver xs)) = mset (snd (dedup_sources semver ys))"
proof -
  have set: "set xs = set ys" using assms(1) by (metis set_mset_mset)
  have inj: "a = b" if "a \<in> set xs" "b \<in> set xs" "db_dir a = db_dir b" for a b
    using assms(2) that by (auto simp: distinct_map inj_on_def)
  have sub: "set (fst (dedup_sources semver us)) \<subseteq> set (fst (dedup_sources semver vs))"
    if "set us = set xs" "set vs = set xs" for us vs
  proof
    fix w
    assume w: "w \<in> set (fst (dedup_sources semver us))"
    then have win: "winner_in semver us w" by (rule dedup_winner_sound)
    then have "db_source w \<in> db_source ` set (fst (dedup_sources semver vs))"
      using that by (auto simp: dedup_winner_sources winner_in_def)
    then obtain v where v: "v \<in> set (fst (dedup_sources semver vs))" "db_source v = db_source w"
      by (auto simp: image_iff)
    from dedup_winner_sound [OF v(1)] win that v(2)
    have "outranks semver w v" "outranks semver v w" "v \<in> set xs" "w \<in> set xs"
      by (auto simp: winner_in_def list_all_iff)
    with outranks_same inj have "w = v" by blast
    with v(1) show "w \<in> set (fst (dedup_sources semver vs))" by simp
  qed
  have same: "set (fst (dedup_sources semver xs)) = set (fst (dedup_sources semver ys))"
    using sub [of xs ys] sub [of ys xs] set by blast
  have dist: "distinct (map db_dir (fst (dedup_sources semver us)))" if "mset us = mset xs" for us
  proof -
    have "mset (map db_dir (fst (dedup_sources semver us) @ snd (dedup_sources semver us))) = mset (map db_dir xs)"
      using arg_cong [OF dedup_partition [of semver us], of "image_mset db_dir"] that by simp
    then show ?thesis using assms(2) by (metis distinct_append map_append mset_eq_imp_distinct_iff)
  qed
  let ?X = "fst (dedup_sources semver xs)" and ?Y = "fst (dedup_sources semver ys)"
  have "map db_dir ?X = map db_dir ?Y"
    using dist [of xs] dist [of ys] assms(1) same dedup_sorted
    by (intro sorted_distinct_set_unique) auto
  moreover have "a \<in> set ?X \<Longrightarrow> b \<in> set ?X \<Longrightarrow> db_dir a = db_dir b \<Longrightarrow> a = b" for a b
    using inj [of a b] dedup_winner_sound [of a semver xs] dedup_winner_sound [of b semver xs]
    by (simp add: winner_in_def)
  ultimately have X: "?X = ?Y" using same by (intro map_inj_on [of db_dir]) (auto intro: inj_onI)
  have "mset ?X + mset (snd (dedup_sources semver xs)) = mset ?X + mset (snd (dedup_sources semver ys))"
    using dedup_partition [of semver xs] dedup_partition [of semver ys] X assms(1) by simp
  then have "mset (snd (dedup_sources semver xs)) = mset (snd (dedup_sources semver ys))"
    by (rule add_left_imp_eq)
  with X show ?thesis by blast
qed

subsection \<open>What a discovered backend is\<close>

lemma check_each_ok: "check_each f xs = Inr () \<longleftrightarrow> list_all (\<lambda>x. f x = Inr ()) xs"
  by (induction xs) (auto simp: err_simps)

lemma check_model_ok:
  "check_model caps md = Inr () \<longleftrightarrow>
     me_primary_language md \<in> set (me_supported_languages md)
     \<and> (me_multilingual md \<or> me_supported_languages md = [me_primary_language md])
     \<and> (me_realtime md \<longrightarrow> cap_websocket caps)"
  by (auto simp: check_model_def)

lemma validate_runtime_ok:
  "validate_runtime m = Inr () \<longleftrightarrow>
     (bm_kind (mf_backend m) = KSubprocess \<longrightarrow>
        \<not> cap_websocket (mf_capabilities m) \<and> allowed_hosts (mf_network m) = [])
     \<and> list_all (\<lambda>opt. opt_name opt \<noteq> ''list'') (mf_options m)
     \<and> list_all (\<lambda>s. sec_name s \<noteq> ''list'') (mf_secrets m)
     \<and> list_all (\<lambda>md. check_model (mf_capabilities m) md = Inr ()) (mf_models m)"
  by (auto simp: validate_runtime_def err_simps check_each_ok check_addressable_name_def
      reserved_segments_def list_all_iff split: if_splits)

lemma devices_ok:
  "validate_supported_devices md = Inr ds \<Longrightarrow>
    ds \<noteq> [] \<and> distinct ds \<and> set ds = set (me_supported_devices md) \<and> (DevNone \<in> set ds \<longrightarrow> ds = [DevNone])"
proof -
  assume h: "validate_supported_devices md = Inr ds"
  then have ds: "ds = foldl push_unique [] (me_supported_devices md)" and ne: "me_supported_devices md \<noteq> []"
    and none: "DevNone \<in> set (me_supported_devices md) \<Longrightarrow> length (me_supported_devices md) \<le> 1"
    by (auto simp: validate_supported_devices_def split: if_splits)
  have set: "set ds = set (me_supported_devices md)"
    using foldl_push_unique_set [of "[]" "me_supported_devices md"] by (simp add: ds)
  moreover have "distinct ds" unfolding ds by (rule foldl_push_unique_distinct) simp
  moreover have "ds = [DevNone]" if "DevNone \<in> set ds"
  proof -
    from that set have h: "DevNone \<in> set (me_supported_devices md)" by simp
    with none have "length (me_supported_devices md) \<le> 1" by blast
    with h have "me_supported_devices md = [DevNone]" by (cases "me_supported_devices md") auto
    then show ?thesis by (simp add: ds)
  qed
  ultimately show ?thesis using ne by auto
qed

lemma load_models_mem:
  "load_models source es = Inr ms \<Longrightarrow> md \<in> set ms \<Longrightarrow>
    \<exists>e ds. e \<in> set es \<and> validate_supported_devices e = Inr ds \<and> md = model_of_entry source e ds"
proof (induction es arbitrary: ms)
  case (Cons a es)
  from Cons.prems(1) obtain ds rest where a: "validate_supported_devices a = Inr ds"
    "load_models source es = Inr rest" "ms = model_of_entry source a ds # rest"
    by (auto simp: err_simps split: sum.splits)
  with Cons.IH [OF a(2)] Cons.prems(2) show ?case by (metis list.set_intros set_ConsD)
qed simp

lemma load_backend_ok:
  "load_backend P T fs dir = Inr b \<longleftrightarrow>
     (\<exists>m ms. load_installed_dir P T fs dir = Inr m \<and> validate_runtime m = Inr ()
        \<and> load_models (bm_source (mf_backend m)) (mf_models m) = Inr ms \<and> b = backend_of_manifest dir m ms)"
proof (cases "load_installed_dir P T fs dir")
  case (Inr m)
  then show ?thesis
    by (cases "validate_runtime m"; cases "load_models (bm_source (mf_backend m)) (mf_models m)")
      (auto simp: load_backend_def)
qed (simp add: load_backend_def)

definition model_formed :: "('cap, 'm, 'f) discovered \<Rightarrow> 'm model_definition \<Rightarrow> bool" where
  "model_formed b md =
     (md_source md = db_source b
      \<and> md_supported_devices md \<noteq> [] \<and> distinct (md_supported_devices md)
      \<and> (if md_is_online md then md_supported_devices md = [DevNone] else True)
      \<and> md_primary_language md \<in> set (md_supported_languages md)
      \<and> (if md_is_multilingual md then True else md_supported_languages md = [md_primary_language md])
      \<and> (if md_realtime md then cap_websocket (db_capabilities b) else True))"

definition backend_formed :: "('cap, 'm, 'f) discovered \<Rightarrow> bool" where
  "backend_formed b =
     (is_safe_relative_path (db_entrypoint b)
      \<and> (if db_kind b = ''subprocess''
         then \<not> cap_websocket (db_capabilities b) \<and> db_allowed_hosts b = [] else True)
      \<and> list_all (\<lambda>opt. opt_name opt \<noteq> ''list''
           \<and> (if opt_name opt = base_url_option then opt_default opt = None else True)) (db_options b)
      \<and> list_all (\<lambda>s. sec_name s \<noteq> ''list'') (db_secrets b)
      \<and> list_all (model_formed b) (db_models b))"

text \<open>
  C17. Every backend the scan produces is well formed, whatever its manifest said: its entrypoint
  stays inside its directory, a subprocess backend has no network rights, no option or secret is
  named like its collection, no \<open>base_url\<close> default authorizes egress, and each of its models
  carries its source, a non-empty list of distinct devices (\<open>none\<close> alone), its primary language
  among the supported ones, and realtime only with the websocket capability.
\<close>

theorem discovered_backend_formed:
  assumes "load_backend P T fs dir = Inr b"
  shows "backend_formed b \<and> db_dir b = dir"
proof -
  obtain m ms where m: "load_installed_dir P T fs dir = Inr m" "validate_runtime m = Inr ()"
    "load_models (bm_source (mf_backend m)) (mf_models m) = Inr ms" "b = backend_of_manifest dir m ms"
    using assms unfolding load_backend_ok by blast
  from m(1) obtain t where "parse_inner P T t Ignored = Inr m"
    by (auto simp: load_installed_dir_def parse_installed_def split: option.splits sum.splits)
  then have safe: "is_safe_relative_path (bm_entrypoint (mf_backend m))"
    by (auto simp: parse_inner_ok manifest_ok_def)
  note rt = m(2) [unfolded validate_runtime_ok]
  have "model_formed b md" if md: "md \<in> set ms" for md
  proof -
    obtain e ds where e: "e \<in> set (mf_models m)" "validate_supported_devices e = Inr ds"
      "md = model_of_entry (bm_source (mf_backend m)) e ds"
      using load_models_mem [OF m(3) md] by blast
    from e(1) rt have "check_model (mf_capabilities m) e = Inr ()" by (simp add: list_all_iff)
    with e(3) devices_ok [OF e(2)] m(4) show ?thesis
      by (auto simp: model_formed_def check_model_ok model_of_entry_def backend_of_manifest_def
          Let_def md_is_online_def)
  qed
  with safe rt m(4) show ?thesis
    by (auto simp: backend_formed_def backend_of_manifest_def Let_def list_all_iff show_kind_def
        drop_base_url_default_def split: kind.splits)
qed

subsection \<open>Sample directories\<close>

text \<open>
  Two documents of the test product: \<open>doc\<close>, and \<open>legacy\<close>, whose raw table lacks the keys its
  contract generation requires, so that only an installed copy of it loads.
\<close>

definition scan_manifest :: "(contract, bool, test_model, nat) manifest" where
  "scan_manifest = sample_manifest\<lparr>mf_models := [sample_model\<lparr>me_supported_languages := [''en'']\<rparr>]\<rparr>"

definition scan_reader :: "(contract, bool, test_model, nat, unit) toml_reader" where
  "scan_reader =
     \<lparr>tr_head = (\<lambda>_. Some (Some ''super-test'')),
      tr_typed = (\<lambda>_. Inr scan_manifest),
      tr_raw = (\<lambda>t. if t = ''doc'' then Inr sample_raw else Inr [])\<rparr>"

lemma scan_manifest_ok: "manifest_ok (normalize_manifest scan_manifest)"
  by (simp add: scan_manifest_def sample_defs manifest_ok_def model_ok_def file_ok_def agree_def
      asset_ok_def normalize_manifest_def normalize_asset_def is_safe_relative_path_def
      starts_with_def contains_char_def sample_id_valid)

lemma scan_installed: "parse_installed test_product scan_reader t = Inr (normalize_manifest scan_manifest)"
  unfolding parse_installed_def parse_inner_ok
  using scan_manifest_ok
  by (simp add: scan_reader_def foreign_product_def declared_product_def test_product_def check_contract_def)

lemma scan_strict: "is_ok (parse_manifest test_product scan_reader t) \<longleftrightarrow> t = ''doc''"
proof -
  have "is_ok (parse_manifest test_product scan_reader t) \<longleftrightarrow>
      (\<exists>m. parse_manifest test_product scan_reader t = Inr m)"
    by (cases "parse_manifest test_product scan_reader t") auto
  moreover have "pr_slug test_product = ''super-test''" "pr_contract_fields test_product = test_fields"
    "bm_contract (mf_backend scan_manifest) = V2" "is_ok (pr_validate test_product m)" for m
    by (simp_all add: test_product_def scan_manifest_def sample_defs)
  moreover have "applies_to test_fields V2"
    by (simp add: applies_to_def test_fields_def rule_applies_def)
  moreover have "contract_holds test_product sample_raw V2" "\<not> contract_holds test_product [] V2"
    by (simp_all add: contract_holds_def sample_defs declares_def is_array_table_def table_has_key_def)
  ultimately show ?thesis using scan_manifest_ok
    unfolding parse_admits_exactly_core
    by (auto simp: scan_reader_def declared_product_def)
qed

definition scan_disk :: "string \<Rightarrow> string \<Rightarrow> disk" where
  "scan_disk installed staged =
     \<lparr>dk_files =
        [([''b''], IDir), ([''b'', ''.staging''], IDir), ([''b'', ''.staging'', ''s''], IDir),
         ([''b'', ''.staging'', ''s'', ''backend.toml''], IFile staged),
         ([''b'', ''org.x.y''], IDir), ([''b'', ''org.x.y'', ''backend.toml''], IFile installed)],
      dk_faults = [], dk_trace = []\<rparr>"

subsection \<open>An update never leaves a source unserved\<close>

lemma load_installed_tree:
  "tree_at a p = tree_at b q \<Longrightarrow> load_installed_dir P T a p = load_installed_dir P T b q"
  by (drule fun_cong [of _ _ "[''backend.toml'']"])
    (simp add: load_installed_dir_def file_text_def tree_at_def)

lemma load_backend_tree:
  assumes "tree_at a p = tree_at b q" "load_backend P T b q = Inr x"
  shows "\<exists>y. load_backend P T a p = Inr y \<and> db_source y = db_source x"
  using assms(2) load_installed_tree [OF assms(1), of P T]
  by (auto simp: load_backend_ok backend_of_manifest_def Let_def)

lemma children_iff: "n \<in> set (children fs p) \<longleftrightarrow> hm_get fs (p @ [n]) \<noteq> None"
proof -
  have "n \<in> set (children fs p) \<longleftrightarrow> (\<exists>v. (p @ [n], v) \<in> set fs)"
    by (force simp: children_def image_iff append_butlast_last_id)
  also have "\<dots> \<longleftrightarrow> hm_get fs (p @ [n]) \<noteq> None"
    unfolding hm_get_def map_of_eq_None_iff by force
  finally show ?thesis .
qed

lemma discover_finds:
  assumes "is_dir fs base" "hm_get fs (base @ [n]) = Some IDir" "load_backend P T fs (base @ [n]) = Inr y"
  shows "db_source y \<in> db_source ` set (fst (discover P T semver fs base))"
proof -
  have "file_text fs (base @ [n] @ [''backend.toml'']) \<noteq> None"
    using assms(3) by (auto simp: load_backend_ok load_installed_dir_def split: option.splits)
  then have "path_exists fs (base @ [n] @ [''backend.toml''])"
    by (auto simp: file_text_def path_exists_def split: option.splits inode.splits)
  moreover have "base @ [n] \<in> set (read_dir fs base)"
    using assms(1,2) by (simp add: read_dir_def children_iff)
  ultimately show ?thesis
    unfolding discover_def dedup_winner_sources
    using assms(2,3) by (force simp: List.map_filter_def is_dir_def image_iff)
qed

lemma keeps_swap:
  "keeps (\<lambda>q. under final q \<or> under staging q \<or> under (sidecar_of final) q) (swap_into_place staging final)"
  unfolding swap_into_place_def by (auto intro!: keeps_rules split: sum.split)

text \<open>
  C14. While an update is put in place, and after a crash at any moment of it, the scan still finds
  a backend serving the source: the new install, the old one, or the old one at the sidecar.
\<close>

theorem update_never_unserves:
  assumes "apart staging (base @ [name])" "apart staging (sidecar_of (base @ [name]))"
    and "is_dir (dk_files d) base" "\<not> under staging base"
    and "hm_get (dk_files d) staging = Some IDir" "hm_get (dk_files d) (base @ [name]) = Some IDir"
    and "load_backend P T (dk_files d) (base @ [name]) = Inr old"
    and "load_backend P T (dk_files d) staging = Inr new" "db_source new = db_source old"
  shows "through (\<lambda>t. db_source old \<in> db_source ` set (fst (discover P T semver t base))) d
    (fst (swap_into_place staging (base @ [name]) d))"
proof -
  let ?final = "base @ [name]" and ?side = "base @ [name @ ''.old'']"
  let ?d2 = "fst (swap_into_place staging ?final d)"
  let ?R = "\<lambda>q. under ?final q \<or> under staging q \<or> under ?side q"
  have side: "sidecar_of ?final = ?side" by (simp add: sidecar_of_def)
  have safe: "through (swap_safe ?final (tree_at (dk_files d) ?final) (tree_at (dk_files d) staging)) d ?d2"
    using swap_crash_safe_core [OF assms(1,2) _ prod.collapse [symmetric]] by blast
  have "reached ?R d ?d2"
    using keepsD [OF keeps_swap prod.collapse [symmetric], of ?final staging d] by (simp add: side)
  then have both: "through (\<lambda>t. swap_safe ?final (tree_at (dk_files d) ?final) (tree_at (dk_files d) staging) t
      \<and> agree_off ?R (dk_files d) t) d ?d2"
    using safe by (simp add: reached_through through_conj)
  have low: "\<not> ?R base" using assms(4) by (auto simp: under_def dest: prefix_length_le)
  have found: "db_source old \<in> db_source ` set (fst (discover P T semver t base))"
    if at: "tree_at t (base @ [n]) = tree_at (dk_files d) p" "hm_get (dk_files d) p = Some IDir"
      "load_backend P T (dk_files d) p = Inr x" "db_source x = db_source old" "is_dir t base" for t n p x
  proof -
    have "hm_get t (base @ [n]) = Some IDir"
      using fun_cong [OF at(1), of "[]"] at(2) by (simp add: tree_at_def)
    moreover obtain y where "load_backend P T t (base @ [n]) = Inr y" "db_source y = db_source x"
      using load_backend_tree [OF at(1,3)] by blast
    ultimately show ?thesis using discover_finds [OF at(5)] at(4) by metis
  qed
  show ?thesis
  proof (rule through_mono [OF both])
    fix t
    assume t: "swap_safe ?final (tree_at (dk_files d) ?final) (tree_at (dk_files d) staging) t
      \<and> agree_off ?R (dk_files d) t"
    then have base: "is_dir t base" using low assms(3) by (auto simp: agree_off_def is_dir_def)
    from t consider "tree_at t ?final = tree_at (dk_files d) ?final"
      | "tree_at t ?final = tree_at (dk_files d) staging"
      | "tree_at t ?side = tree_at (dk_files d) ?final"
      by (auto simp: swap_safe_def side)
    then show "db_source old \<in> db_source ` set (fst (discover P T semver t base))"
      using found [OF _ assms(6,7) refl base] found [OF _ assms(5,8,9) base] by cases blast+
  qed
qed

lemma scan_runtime: "validate_runtime (normalize_manifest scan_manifest) = Inr ()"
  by (simp add: validate_runtime_ok check_model_ok normalize_manifest_def scan_manifest_def sample_defs)

lemma scan_models:
  "load_models s (mf_models (normalize_manifest scan_manifest)) =
     Inr [model_of_entry s (sample_model\<lparr>me_supported_languages := [''en'']\<rparr>) [DevCpu]]"
  by (simp add: normalize_manifest_def scan_manifest_def validate_supported_devices_def sample_model_def)

definition scan_backend :: "path \<Rightarrow> (bool, test_model, nat) discovered" where
  "scan_backend dir =
     backend_of_manifest dir (normalize_manifest scan_manifest)
       [model_of_entry ''github.com/x/y'' (sample_model\<lparr>me_supported_languages := [''en'']\<rparr>) [DevCpu]]"

lemma scan_source: "bm_source (mf_backend (normalize_manifest scan_manifest)) = ''github.com/x/y''"
  by (simp add: normalize_manifest_def scan_manifest_def sample_manifest_def sample_backend_def)

lemma scan_loads:
  "file_text fs (dir @ [''backend.toml'']) = Some t \<Longrightarrow>
    load_backend test_product scan_reader fs dir = Inr (scan_backend dir)"
  unfolding load_backend_ok scan_backend_def
  using scan_runtime scan_models [of "''github.com/x/y''"] scan_source
  by (intro exI conjI) (simp_all add: load_installed_dir_def scan_installed)

lemma scan_files:
  "file_text (dk_files (scan_disk t u)) ([''b'', ''org.x.y''] @ [''backend.toml'']) = Some t"
  "file_text (dk_files (scan_disk t u)) ([''b'', ''.staging'', ''s''] @ [''backend.toml'']) = Some u"
  by (simp_all add: file_text_def scan_disk_def hm_get_def)

theorem discovered_backend_formed_witness:
  "backend_formed (scan_backend [''b'', ''org.x.y''])
   \<and> db_dir (scan_backend [''b'', ''org.x.y'']) = [''b'', ''org.x.y'']"
  using discovered_backend_formed [OF scan_loads [OF scan_files(1) [of "''doc''" "''doc''"]]] .

theorem discovery_ignores_scan_order_witness:
  "fst (dedup_sources (\<lambda>_. None :: nat option) [scan_backend [''b''], scan_backend [''a'']])
     = fst (dedup_sources (\<lambda>_. None :: nat option) [scan_backend [''a''], scan_backend [''b'']])"
  by (rule conjunct1 [OF discovery_ignores_scan_order])
    (simp_all add: scan_backend_def backend_of_manifest_def Let_def)

theorem update_never_unserves_witness:
  "through (\<lambda>t. ''github.com/x/y'' \<in> db_source `
       set (fst (discover test_product scan_reader (\<lambda>_. None :: nat option) t [''b''])))
     (scan_disk ''legacy'' ''doc'')
     (fst (swap_into_place [''b'', ''.staging'', ''s''] [''b'', ''org.x.y''] (scan_disk ''legacy'' ''doc'')))"
proof -
  have src: "db_source (scan_backend dir) = ''github.com/x/y''" for dir
    using scan_source by (simp add: scan_backend_def backend_of_manifest_def Let_def)
  have "hm_get (dk_files (scan_disk ''legacy'' ''doc'')) [''b'', ''.staging'', ''s''] = Some IDir"
    "hm_get (dk_files (scan_disk ''legacy'' ''doc'')) [''b'', ''org.x.y''] = Some IDir"
    "is_dir (dk_files (scan_disk ''legacy'' ''doc'')) [''b'']"
    by (simp_all add: scan_disk_def hm_get_def is_dir_def)
  then show ?thesis
    using update_never_unserves [of "[''b'', ''.staging'', ''s'']" "[''b'']" "''org.x.y''"
        "scan_disk ''legacy'' ''doc''" test_product scan_reader
        "scan_backend [''b'', ''org.x.y'']" "scan_backend [''b'', ''.staging'', ''s'']"]
      scan_loads [OF scan_files(1) [of "''legacy''" "''doc''"]]
      scan_loads [OF scan_files(2) [of "''legacy''" "''doc''"]]
    by (simp add: src apart_def under_def sidecar_of_def)
qed

text \<open>
  The guard of the install reads the directory it is about to replace with the strict parser, the
  scan reads it with the lenient one: a directory the scan serves can be replaced by another source.
\<close>

lemma legacy_dir_unprotected:
  "\<exists>b. load_backend test_product scan_reader (dk_files (scan_disk ''legacy'' ''doc'')) [''b'', ''org.x.y''] = Inr b
     \<and> db_source b = ''github.com/x/y''
     \<and> ensure_dir_free_for test_product scan_reader (dk_files (scan_disk ''legacy'' ''doc''))
         [''b'', ''org.x.y''] ''github.com/a/other''"
proof -
  have "is_err (parse_manifest test_product scan_reader ''legacy'')" using scan_strict [of "''legacy''"] by simp
  then obtain e where "parse_manifest test_product scan_reader ''legacy'' = Inl e" by (auto simp: isl_def)
  then have "load_dir test_product scan_reader (dk_files (scan_disk ''legacy'' ''doc'')) [''b'', ''org.x.y''] = None"
    using scan_files(1) [of "''legacy''" "''doc''"] by (simp add: load_dir_def)
  then show ?thesis
    using scan_loads [OF scan_files(1) [of "''legacy''" "''doc''"]] scan_source
    by (auto simp: ensure_dir_free_for_def scan_backend_def backend_of_manifest_def Let_def)
qed

end
