(* ===== verification/Spec_Verify.thy ===== *)
theory Spec_Verify
  imports SE_Numbers
begin

section \<open>Download verification\<close>

text \<open>
  \<open>super-engine-spec/src/verify.rs\<close>: the budgets and predicates the daemon, the indexer and the
  installer apply to the same archives and listings, on \<open>u64\<close> sizes with the saturation the code
  writes. Hashing is the \<open>ring\<close> crate's and is a parameter where a caller needs it.
\<close>

subsection \<open>Budgets\<close>

definition max_tarball_entry_bytes :: u64 where
  "max_tarball_entry_bytes = 4 * 1024 * 1024 * 1024"

definition max_tarball_total_floor :: u64 where
  "max_tarball_total_floor = 4 * 1024 * 1024 * 1024"

definition max_decomp_ratio :: u64 where
  "max_decomp_ratio = 5"

definition max_manifest_bytes :: u64 where
  "max_manifest_bytes = 256 * 1024"

definition max_sha256sums_bytes :: u64 where
  "max_sha256sums_bytes = 64 * 1024"

definition unpack_cap :: "u64 \<Rightarrow> u64" where
  "unpack_cap archive_size = max (sat_mul archive_size max_decomp_ratio) max_tarball_total_floor"

definition tar_entry_unsafe_reason :: "string \<Rightarrow> bool \<Rightarrow> string option" where
  "tar_entry_unsafe_reason entry_path is_symlink =
     (if starts_with ''/'' entry_path \<or> contains_str ''..'' entry_path then Some entry_path
      else if is_symlink then Some (''symlink: '' @ entry_path)
      else None)"

datatype budget_error =
    EntryExceeds u64
  | OutputExceeds u64

definition tar_budget_step :: "u64 \<Rightarrow> u64 \<Rightarrow> u64 \<Rightarrow> budget_error + u64" where
  "tar_budget_step entry_size running_total total_cap =
     (if entry_size > max_tarball_entry_bytes then Inl (EntryExceeds max_tarball_entry_bytes)
      else let total = sat_add running_total entry_size
           in if total > total_cap then Inl (OutputExceeds total_cap) else Inr total)"

lemma unat_unpack_cap:
  "unat (unpack_cap n) = max (min (unat n * 5) (2 ^ 64 - 1)) (4 * 1024 * 1024 * 1024)"
proof -
  have mx: "unat (max a b) = max (unat a) (unat b)" for a b :: u64
    by (simp add: max_def word_le_nat_alt)
  have "unat (sat_mul n max_decomp_ratio) = min (unat n * 5) (2 ^ 64 - 1)"
    by (simp add: unat_sat_mul max_decomp_ratio_def)
  moreover have "unat max_tarball_total_floor = 4 * 1024 * 1024 * 1024"
    by (simp add: max_tarball_total_floor_def)
  ultimately show ?thesis unfolding unpack_cap_def mx by simp
qed

lemma tar_budget_step_ok:
  "tar_budget_step e t cap = Inr u \<longleftrightarrow>
     e \<le> max_tarball_entry_bytes \<and> u = sat_add t e \<and> u \<le> cap"
  by (auto simp: tar_budget_step_def Let_def not_less)

subsection \<open>Digests\<close>

definition sha256_matches :: "string \<Rightarrow> string \<Rightarrow> bool" where
  "sha256_matches actual expected = (expected \<noteq> [] \<and> eq_ignore_case actual expected)"

text \<open>\<open>splitn(2, char::is_whitespace)\<close>: the text before the first white space, and what follows it.\<close>

fun split_ws :: "string \<Rightarrow> string \<times> string option" where
  "split_ws [] = ([], None)"
| "split_ws (c # cs) =
     (let k = ws_len unicode_ws (c # cs)
      in if k \<noteq> 0 then ([], Some (drop k (c # cs)))
         else case split_ws cs of (a, b) \<Rightarrow> (c # a, b))"

definition strip_prefix_or :: "string \<Rightarrow> string \<Rightarrow> string" where
  "strip_prefix_or p s = (case strip_prefix p s of Some r \<Rightarrow> r | None \<Rightarrow> s)"

definition sums_line :: "string \<Rightarrow> (string \<times> string) option" where
  "sums_line raw =
     (let line = trim raw
      in if line = [] then None
         else case split_ws line of (hex, rest) \<Rightarrow>
           if length hex \<noteq> 64 \<or> \<not> list_all is_ascii_hexdigit hex then None
           else case rest of
                  None \<Rightarrow> None
                | Some r \<Rightarrow>
                    Some (hex, strip_prefix_or ''./'' (strip_prefix_or ''*'' (trim_start r))))"

definition parse_sha256sums :: "string \<Rightarrow> (string \<times> string) list" where
  "parse_sha256sums text = List.map_filter sums_line (lines_of text)"

subsection \<open>Listings read back\<close>

text \<open>A listing as \<open>sha256sum\<close> writes it, in text mode or in binary mode.\<close>

definition show_sum :: "bool \<Rightarrow> string \<times> string \<Rightarrow> string" where
  "show_sum binary e =
     (case e of (hex, name) \<Rightarrow> hex @ (if binary then '' *'' else ''  '') @ name @ [CHR 0x0A])"

definition sum_entry_ok :: "string \<times> string \<Rightarrow> bool" where
  "sum_entry_ok e =
     (case e of (hex, name) \<Rightarrow>
        length hex = 64 \<and> list_all is_ascii_hexdigit hex
        \<and> name \<noteq> [] \<and> list_all is_graphic name
        \<and> \<not> starts_with ''*'' name \<and> \<not> starts_with ''./'' name)"

lemma hexdigit_graphic: "is_ascii_hexdigit c \<Longrightarrow> is_graphic c"
  by (auto simp: is_ascii_hexdigit_def is_graphic_def digit_val_def Let_def split: if_splits)

lemma lines_of_Cons_line:
  assumes "CHR 0x0A \<notin> set l" and "l = [] \<or> last l \<noteq> CHR 0x0D"
  shows "lines_of (l @ CHR 0x0A # rest) = l # lines_of rest"
proof -
  have sp: "split_on (CHR 0x0A) (l @ CHR 0x0A # rest) = l # split_on (CHR 0x0A) rest"
    using assms(1) by (induction l) auto
  have "strip_cr l = l" using assms(2) by (auto simp: strip_cr_def)
  then show ?thesis by (simp add: lines_of_def sp Let_def)
qed

lemma split_ws_graphic:
  "list_all is_graphic a \<Longrightarrow> split_ws (a @ CHR 0x20 # b) = (a, Some b)"
proof (induction a)
  case Nil
  have "ws_len unicode_ws (CHR 0x20 # b) = 1"
    by (simp add: ws_len_def unicode_ws_def starts_with_def)
  then show ?case by (simp add: Let_def)
next
  case (Cons c a)
  then show ?case by (simp add: ws_len_graphic Let_def)
qed

lemma trim_start_space:
  "trim_start (CHR 0x20 # s) = trim_start s"
proof -
  have "ws_len unicode_ws (CHR 0x20 # s) = 1"
    by (simp add: ws_len_def unicode_ws_def starts_with_def)
  then show ?thesis by (simp add: trim_start_def strip_ws.simps(2))
qed

lemma trim_ends_graphic:
  "s \<noteq> [] \<Longrightarrow> is_graphic (hd s) \<Longrightarrow> is_graphic (last s) \<Longrightarrow> trim s = s"
  by (simp add: trim_def trim_start_graphic trim_end_graphic)

lemma strip_prefix_or_no: "\<not> starts_with p s \<Longrightarrow> strip_prefix_or p s = s"
  by (simp add: strip_prefix_or_def starts_with_def)

lemma sums_line_show:
  assumes "sum_entry_ok e"
  shows "sums_line (butlast (show_sum binary e)) = Some e"
proof -
  obtain hex name where e: "e = (hex, name)" by (cases e)
  have h: "length hex = 64" "list_all is_ascii_hexdigit hex"
    and n: "name \<noteq> []" "list_all is_graphic name" "\<not> starts_with ''*'' name" "\<not> starts_with ''./'' name"
    using assms by (auto simp: e sum_entry_ok_def)
  have hg: "list_all is_graphic hex" using h(2) by (auto simp: list_all_iff hexdigit_graphic)
  have hne: "hex \<noteq> []" using h(1) by auto
  let ?r = "(if binary then ''*'' else '' '') @ name"
  let ?l = "hex @ CHR 0x20 # ?r"
  have bl: "butlast (show_sum binary e) = ?l"
    by (simp add: show_sum_def e butlast_append)
  have "is_graphic (hd ?l)" using hne hg by (cases hex) auto
  moreover have "is_graphic (last ?l)" using n(1,2) by (simp add: list_all_iff)
  ultimately have tr: "trim ?l = ?l" by (intro trim_ends_graphic) simp_all
  have sp: "split_ws ?l = (hex, Some ?r)" by (rule split_ws_graphic [OF hg])
  have ng: "is_graphic (hd name)" using n(1,2) by (cases name) auto
  have ts: "trim_start ?r = (if binary then ''*'' else []) @ name"
    using ng by (simp add: trim_start_space trim_start_graphic is_graphic_def)
  have "strip_prefix_or ''*'' ((if binary then ''*'' else []) @ name) = name"
    using n(3) by (simp add: strip_prefix_or_no) (simp add: strip_prefix_or_def)
  with ts have nm: "strip_prefix_or ''./'' (strip_prefix_or ''*'' (trim_start ?r)) = name"
    using n(4) by (simp add: strip_prefix_or_no)
  show ?thesis unfolding bl sums_line_def Let_def tr sp prod.case using h nm by (simp add: e)
qed

lemma lines_of_show_sums:
  "list_all sum_entry_ok es \<Longrightarrow>
     lines_of (concat (map (show_sum binary) es)) = map (\<lambda>e. butlast (show_sum binary e)) es"
proof (induction es)
  case Nil
  then show ?case by (simp add: lines_of_def)
next
  case (Cons e es)
  obtain hex name where e: "e = (hex, name)" by (cases e)
  have ok: "sum_entry_ok e" using Cons.prems by simp
  have g: "list_all is_graphic hex" "list_all is_graphic name" "name \<noteq> []"
    using ok by (auto simp: e sum_entry_ok_def list_all_iff hexdigit_graphic)
  let ?l = "hex @ (if binary then '' *'' else ''  '') @ name"
  have l: "show_sum binary e = ?l @ [CHR 0x0A]" by (simp add: show_sum_def e)
  have nl: "\<not> is_graphic (CHR 0x0A)" "\<not> is_graphic (CHR 0x0D)" by (simp_all add: is_graphic_def)
  have "CHR 0x0A \<notin> set ?l" using g nl by (auto simp: list_all_iff split: if_splits)
  moreover have "last ?l \<noteq> CHR 0x0D" using g nl last_in_set [of name]
    by (auto simp: list_all_iff simp del: last_in_set)
  ultimately have "lines_of (?l @ CHR 0x0A # concat (map (show_sum binary) es))
      = ?l # lines_of (concat (map (show_sum binary) es))"
    by (intro lines_of_Cons_line) simp_all
  with Cons have "lines_of (?l @ CHR 0x0A # concat (map (show_sum binary) es))
      = ?l # map (\<lambda>e. butlast (show_sum binary e)) es" by simp
  moreover have "concat (map (show_sum binary) (e # es))
      = ?l @ CHR 0x0A # concat (map (show_sum binary) es)"
    unfolding list.map concat.simps l by simp
  moreover have "butlast (show_sum binary e) = ?l"
    unfolding l by (rule butlast_snoc)
  ultimately show ?case unfolding list.map by simp
qed

subsection \<open>Properties\<close>

text \<open>
  A checksum listing is read back exactly: for entries with a 64 digit digest and a plain file
  name, in either of the two modes \<open>sha256sum\<close> writes, the pairs come back in order, and none is
  lost to the shape guard.
\<close>

theorem sha256sums_roundtrip:
  assumes "list_all sum_entry_ok es"
  shows "parse_sha256sums (concat (map (show_sum binary) es)) = es"
proof -
  have "List.map_filter (\<lambda>e. Some e) es = es"
    by (simp add: map_filter_simps map_filter_def)
  moreover have "List.map_filter sums_line (map (\<lambda>e. butlast (show_sum binary e)) es)
      = List.map_filter (\<lambda>e. Some e) es"
    using assms by (induction es) (simp_all add: map_filter_simps sums_line_show)
  ultimately show ?thesis
    unfolding parse_sha256sums_def lines_of_show_sums [OF assms] by simp
qed

definition sample_digest :: string where
  "sample_digest = replicate 64 (CHR ''a'')"

theorem sha256sums_roundtrip_witness:
  "parse_sha256sums (concat (map (show_sum True)
      [(sample_digest, ''x.tar.gz''), (sample_digest, ''y.tar.gz'')]))
     = [(sample_digest, ''x.tar.gz''), (sample_digest, ''y.tar.gz'')]"
proof (rule sha256sums_roundtrip)
  show "list_all sum_entry_ok [(sample_digest, ''x.tar.gz''), (sample_digest, ''y.tar.gz'')]"
    by (simp add: sum_entry_ok_def sample_digest_def list_all_iff is_ascii_hexdigit_def digit_val_def
        is_graphic_def starts_with_def)
qed

end
