(* ===== verification/Daemon_Download.thy ===== *)
theory Daemon_Download
  imports SE_Files Spec_Verify Spec_Index
begin

section \<open>Downloading what an install needs\<close>

text \<open>
  \<open>super-engine-daemon/src/download_stream.rs\<close> and the download half of \<open>registry/install.rs\<close>: the
  streaming loop with its byte cap, its hash and its cancellation, the single and the multi-part
  download, the manifest download, the checks of their digests. The server's answers are a script
  in the state, consumed one per request; a body is a list of chunks, \<open>None\<close> where the transport
  fails. The SHA-256 of \<open>ring\<close> in hex is the parameter \<open>sha\<close>.
\<close>

subsection \<open>The streaming loop\<close>

datatype stream_error = StreamHttp | StreamIo io_kind | StreamTooLarge u64 | StreamCancelled

definition over_cap :: "u64 option \<Rightarrow> u64 \<Rightarrow> bool" where
  "over_cap cap n = (case cap of None \<Rightarrow> False | Some limit \<Rightarrow> n > limit)"

fun stream_body_to_writer ::
  "(string \<Rightarrow> string) \<Rightarrow> (string \<Rightarrow> ('s, io_kind, unit) action) \<Rightarrow> u64 option \<Rightarrow> ('s \<Rightarrow> bool)
     \<Rightarrow> (u64 \<Rightarrow> ('s, stream_error, unit) action) \<Rightarrow> string option list \<Rightarrow> u64 \<Rightarrow> string
     \<Rightarrow> ('s, stream_error, u64 \<times> string) action" where
  "stream_body_to_writer sha writer cap should_cancel on_chunk [] bytes_done hashed =
     io_pure (bytes_done, sha hashed)"
| "stream_body_to_writer sha writer cap should_cancel on_chunk (item # stream) bytes_done hashed =
     (\<lambda>s. if should_cancel s then (s, Inl StreamCancelled)
          else case item of
                 None \<Rightarrow> (s, Inl StreamHttp)
               | Some chunk \<Rightarrow>
                   let n = bytes_done + of_nat (length chunk)
                   in if over_cap cap n then (s, Inl (StreamTooLarge (the cap)))
                      else io_then (io_map_err StreamIo (writer chunk)) (\<lambda>_.
                           io_then (on_chunk (of_nat (length chunk))) (\<lambda>_.
                           stream_body_to_writer sha writer cap should_cancel on_chunk stream n
                             (hashed @ chunk))) s)"

subsection \<open>The pipeline's state\<close>

datatype net_answer = NetFails | NetBody "u64 option" "string option list"

record pipe = disk +
  pl_net :: "net_answer list"
  pl_asked :: "string list"
  pl_bytes :: u64
  pl_progress :: "(install_phase \<times> (u64 \<times> u64 option) option) list"

datatype pipeline_error =
    PNetwork
  | PIo io_kind
  | PHashMismatch string string
  | PTarUnsafe "string + budget_error"
  | PTooLarge u64
  | PUnreachable

definition as_typed :: "install_phase \<Rightarrow> pipeline_error \<Rightarrow> install_phase \<times> install_error" where
  "as_typed phase e =
     (case e of
        PNetwork \<Rightarrow> (phase, DownloadFailed)
      | PHashMismatch _ _ \<Rightarrow> (Verifying, AssetHashMismatch)
      | PTarUnsafe _ \<Rightarrow> (Extracting, TarballUnsafe)
      | PTooLarge _ \<Rightarrow> (Downloading, DownloadFailed)
      | PIo _ \<Rightarrow> (phase, InstallIoError)
      | PUnreachable \<Rightarrow> (phase, InstallIoError))"

definition max_download_bytes :: u64 where
  "max_download_bytes = 4 * 1024 * 1024 * 1024"

definition download_size_margin :: u64 where
  "download_size_margin = 1024 * 1024"

definition download_cap :: "u64 \<Rightarrow> u64" where
  "download_cap expected_size =
     (if expected_size = 0 then max_download_bytes
      else sat_add expected_size download_size_margin)"

text \<open>\<open>on_progress\<close>, and a request that ends in an error status or a body.\<close>

definition on_progress ::
  "install_phase \<Rightarrow> (u64 \<times> u64 option) option \<Rightarrow> (pipe, 'e, unit) action" where
  "on_progress phase amount d = (d\<lparr>pl_progress := pl_progress d @ [(phase, amount)]\<rparr>, Inr ())"

definition http_get :: "string \<Rightarrow> (pipe, pipeline_error, u64 option \<times> string option list) action" where
  "http_get url d =
     (let d1 = d\<lparr>pl_net := tl (pl_net d), pl_asked := pl_asked d @ [url]\<rparr>
      in case pl_net d of
           NetBody tot items # _ \<Rightarrow> (d1, Inr (tot, items))
         | _ \<Rightarrow> (d1, Inl PNetwork))"

definition set_bytes :: "u64 \<Rightarrow> (pipe, 'e, unit) action" where
  "set_bytes n d = (d\<lparr>pl_bytes := n\<rparr>, Inr ())"

text \<open>The closure passed as \<open>on_chunk\<close>: it counts in a variable of its own.\<close>

definition count_chunk :: "u64 option \<Rightarrow> u64 \<Rightarrow> (pipe, 'e, unit) action" where
  "count_chunk tot n d =
     (let m = pl_bytes d + n in on_progress Downloading (Some (m, tot)) (d\<lparr>pl_bytes := m\<rparr>))"

subsection \<open>One asset\<close>

definition stream_to_file ::
  "(string \<Rightarrow> string) \<Rightarrow> path \<Rightarrow> u64 \<Rightarrow> u64 option \<Rightarrow> string option list
     \<Rightarrow> (pipe, stream_error, u64 \<times> string) action" where
  "stream_to_file sha dest cap tot items =
     stream_body_to_writer sha (append_file dest) (Some cap) (\<lambda>_. False) (count_chunk tot) items 0 []"

definition stream_outcome ::
  "path \<Rightarrow> stream_error + u64 \<times> string \<Rightarrow> (pipe, pipeline_error, string) action" where
  "stream_outcome dest r =
     (case r of
        Inr (_, digest) \<Rightarrow> io_pure digest
      | Inl (StreamTooLarge limit) \<Rightarrow>
          io_then (io_ignore (remove_file dest)) (\<lambda>_. io_fail (PTooLarge limit))
      | Inl StreamHttp \<Rightarrow> io_fail PNetwork
      | Inl (StreamIo e) \<Rightarrow> io_fail (PIo e)
      | Inl StreamCancelled \<Rightarrow> io_fail PUnreachable)"

definition stream_download ::
  "(string \<Rightarrow> string) \<Rightarrow> string \<Rightarrow> u64 \<Rightarrow> path \<Rightarrow> (pipe, pipeline_error, string) action" where
  "stream_download sha url expected_size dest =
     io_then (http_get url) (\<lambda>(tot, items).
     io_then (io_map_err PIo (write_file dest [])) (\<lambda>_.
     io_then (set_bytes 0) (\<lambda>_.
     io_then (io_try (stream_to_file sha dest (download_cap expected_size) tot items))
       (stream_outcome dest))))"

definition verify_asset_sha ::
  "string \<Rightarrow> string \<Rightarrow> path \<Rightarrow> (pipe, install_phase \<times> install_error, unit) action" where
  "verify_asset_sha actual expected partial =
     (if expected = [] then io_pure ()
      else if sha256_matches actual expected then io_pure ()
      else io_then (io_ignore (remove_file partial)) (\<lambda>_. io_fail (Verifying, AssetHashMismatch)))"

subsection \<open>Several parts\<close>

fun download_parts ::
  "(string \<Rightarrow> string) \<Rightarrow> u64 \<Rightarrow> path \<Rightarrow> index_asset list \<Rightarrow> (pipe, pipeline_error, unit) action" where
  "download_parts sha tot dest [] = io_pure ()"
| "download_parts sha tot dest (part # rest) =
     io_then (http_get (ia_url part)) (\<lambda>(_, items).
     io_then (io_try (stream_to_file sha dest (download_cap (ia_size part)) (Some tot) items)) (\<lambda>r.
     io_then (stream_outcome dest r) (\<lambda>actual.
       if ia_sha256 part \<noteq> [] \<and> \<not> sha256_matches actual (ia_sha256 part)
       then io_then (io_ignore (remove_file dest)) (\<lambda>_.
              io_fail (PHashMismatch (ia_sha256 part) actual))
       else download_parts sha tot dest rest)))"

definition download_verified_parts ::
  "(string \<Rightarrow> string) \<Rightarrow> index_asset list \<Rightarrow> path \<Rightarrow> (pipe, pipeline_error, unit) action" where
  "download_verified_parts sha parts dest =
     io_then (io_map_err PIo (write_file dest [])) (\<lambda>_.
     io_then (set_bytes 0) (\<lambda>_.
     download_parts sha (sum_list (map ia_size parts)) dest parts))"

subsection \<open>The manifest\<close>

text \<open>The loop that fills \<open>buf\<close>. Lengths are compared as \<open>u64\<close>.\<close>

fun collect_manifest :: "string option list \<Rightarrow> string \<Rightarrow> pipeline_error + string" where
  "collect_manifest [] buf = Inr buf"
| "collect_manifest (None # stream) buf = Inl PNetwork"
| "collect_manifest (Some chunk # stream) buf =
     (if (of_nat (length buf) + of_nat (length chunk) :: u64) > max_manifest_bytes
      then Inl (PTooLarge max_manifest_bytes)
      else collect_manifest stream (buf @ chunk))"

definition download_manifest_bytes :: "string \<Rightarrow> (pipe, pipeline_error, string) action" where
  "download_manifest_bytes url =
     io_then (http_get url) (\<lambda>(_, items). io_of (collect_manifest items []))"

subsection \<open>What the loop writes\<close>

text \<open>The bytes of a body, as far as its transport delivers them.\<close>

fun delivered :: "string option list \<Rightarrow> string" where
  "delivered [] = []"
| "delivered (None # _) = []"
| "delivered (Some c # rest) = c @ delivered rest"

definition whole :: "string option list \<Rightarrow> bool" where
  "whole items = list_all (\<lambda>i. i \<noteq> None) items"

lemma append_file_cases:
  assumes "append_file p chunk d = (d2, r)" "hm_get (dk_files d) p = Some (IFile t)"
  obtains (broke) n where "r = Inl IoOther" "hm_get (dk_files d2) p = Some (IFile (t @ take n chunk))"
    | (wrote) "r = Inr ()" "hm_get (dk_files d2) p = Some (IFile (t @ chunk))"
proof -
  from assms(1)[unfolded append_file_def] show thesis
  proof (cases rule: call_cases)
    case worked
    with assms(2) have "dk_files d2 = hm_insert p (IFile (t @ chunk)) (dk_files d)" by simp
    with worked show thesis by (intro wrote) simp_all
  qed (use assms(2) in \<open>auto intro: broke\<close>)
qed

text \<open>
  The loop over a file, from the bytes already counted and hashed: what is in the file afterwards,
  and what is returned.
\<close>

lemma count_chunk_files: "count_chunk tot n d = (d2, r) \<Longrightarrow> dk_files d2 = dk_files d \<and> r = Inr ()"
  by (auto simp: count_chunk_def on_progress_def Let_def)

definition small_chunks :: "string option list \<Rightarrow> bool" where
  "small_chunks items = list_all (\<lambda>i. case i of None \<Rightarrow> True | Some c \<Rightarrow> length c < 2 ^ 62) items"

lemma stream_file_spec:
  assumes "stream_body_to_writer sha (append_file dest) (Some cap) (\<lambda>_. False) (count_chunk tot) items n h d = (d2, r)"
    and "hm_get (dk_files d) dest = Some (IFile (t @ h))" "n = of_nat (length h)" "length h \<le> unat cap"
    and "small_chunks items" "unat cap < 2 ^ 63"
  shows "\<exists>w. hm_get (dk_files d2) dest = Some (IFile (t @ h @ w)) \<and> prefix w (delivered items)
    \<and> length (h @ w) \<le> unat cap
    \<and> r \<noteq> Inl StreamCancelled
    \<and> (is_ok r \<longrightarrow> whole items \<and> w = delivered items
        \<and> r = Inr (of_nat (length (h @ w)), sha (h @ w)))"
  using assms
proof (induction items arbitrary: n h d)
  case Nil
  then show ?case by (auto simp: io_pure_def whole_def)
next
  case (Cons item items)
  show ?case
  proof (cases item)
    case None
    with Cons.prems show ?thesis by (auto simp: Let_def)
  next
    case (Some chunk)
    let ?m = "n + of_nat (length chunk)"
    have len: "length chunk < 2 ^ 62" "small_chunks items"
      using Cons.prems(5) Some by (simp_all add: small_chunks_def)
    have m: "?m = of_nat (length (h @ chunk))" using Cons.prems(3) by simp
    then have um: "unat ?m = length (h @ chunk)"
      using Cons.prems(4,6) len(1) by (simp add: unat_of_nat_small del: of_nat_add)
    show ?thesis
    proof (cases "over_cap (Some cap) ?m")
      case True
      with Cons.prems Some show ?thesis by (auto simp: Let_def)
    next
      case False
      then have fits: "length (h @ chunk) \<le> unat cap"
        using um by (simp add: over_cap_def word_less_nat_alt)
      obtain d1 r1 where ap: "append_file dest chunk d = (d1, r1)" by (cases "append_file dest chunk d")
      have run: "(case r1 of
          Inl e \<Rightarrow> (d1, Inl (StreamIo e))
        | Inr _ \<Rightarrow> io_then (count_chunk tot (of_nat (length chunk))) (\<lambda>_.
            stream_body_to_writer sha (append_file dest) (Some cap) (\<lambda>_. False) (count_chunk tot)
              items ?m (h @ chunk)) d1) = (d2, r)"
        using Cons.prems(1) Some False ap
        by (cases r1) (simp_all add: Let_def io_then_def [of "io_map_err _ _"] io_map_err_def)
      from ap Cons.prems(2) show ?thesis
      proof (cases rule: append_file_cases)
        case (broke k)
        with run have "d2 = d1" "r = Inl (StreamIo IoOther)" by auto
        moreover have "length (take k chunk) \<le> length chunk" by simp
        ultimately show ?thesis using broke fits Some
          by (intro exI [of _ "take k chunk"]) (auto simp: take_is_prefix intro: prefix_order.trans)
      next
        case wrote
        obtain d3 and r3 :: "stream_error + unit"
          where ct: "count_chunk tot (of_nat (length chunk)) d1 = (d3, r3)" by fastforce
        note same = count_chunk_files [OF ct]
        have run2: "stream_body_to_writer sha (append_file dest) (Some cap) (\<lambda>_. False) (count_chunk tot)
              items ?m (h @ chunk) d3 = (d2, r)"
          using run wrote ct same by (simp add: io_then_def)
        have there: "hm_get (dk_files d3) dest = Some (IFile (t @ (h @ chunk)))"
          using wrote same by simp
        from Cons.IH [OF run2 there m fits len(2) Cons.prems(6)] obtain w where w:
          "hm_get (dk_files d2) dest = Some (IFile (t @ (h @ chunk) @ w))" "prefix w (delivered items)"
          "length ((h @ chunk) @ w) \<le> unat cap" "r \<noteq> Inl StreamCancelled"
          "is_ok r \<longrightarrow> whole items \<and> w = delivered items
             \<and> r = Inr (of_nat (length ((h @ chunk) @ w)), sha ((h @ chunk) @ w))"
          by blast
        then show ?thesis using Some
          by (intro exI [of _ "chunk @ w"]) (auto simp: whole_def)
      qed
    qed
  qed
qed

subsection \<open>What a download leaves at its destination\<close>

definition small_net :: "net_answer list \<Rightarrow> bool" where
  "small_net net = list_all (\<lambda>a. case a of NetFails \<Rightarrow> True | NetBody _ items \<Rightarrow> small_chunks items) net"

text \<open>A body within the cap for the declared sz and matching the pin, when there is one.\<close>

definition body_ok :: "(string \<Rightarrow> string) \<Rightarrow> u64 \<Rightarrow> string \<Rightarrow> string \<Rightarrow> bool" where
  "body_ok sha sz pin body =
     (length body \<le> unat (download_cap sz)
      \<and> (if pin = [] then True else sha256_matches (sha body) pin))"

lemma cap_small: "unat sz < 2 ^ 62 \<Longrightarrow> unat (download_cap sz) < 2 ^ 63"
  by (auto simp: download_cap_def max_download_bytes_def download_size_margin_def unat_sat_add)

lemma write_file_ok:
  "write_file p t d = (d2, Inr u) \<Longrightarrow> hm_get (dk_files d2) p = Some (IFile t)"
  unfolding write_file_def by (erule call_cases) (auto split: if_splits simp: eq_commute [of _ "dk_files d2"])

lemma call_net:
  "call w q d = (d2, r) \<Longrightarrow>
    pl_net d2 = pl_net d \<and> pl_asked d2 = pl_asked d \<and> pl_progress d2 = pl_progress d"
  by (auto simp: call_def settle_def split: list.splits fault.splits sum.splits)

lemma stream_net:
  "stream_body_to_writer sha (append_file dest) (Some cap) (\<lambda>_. False) (count_chunk tot) items n h d = (d2, r)
    \<Longrightarrow> pl_net d2 = pl_net d \<and> pl_asked d2 = pl_asked d"
proof (induction items arbitrary: n h d)
  case (Cons item items)
  show ?case
  proof (cases item)
    case (Some chunk)
    show ?thesis
    proof (cases "over_cap (Some cap) (n + of_nat (length chunk))")
      case False
      obtain d1 r1 where ap: "append_file dest chunk d = (d1, r1)" by (cases "append_file dest chunk d")
      have 1: "pl_net d1 = pl_net d \<and> pl_asked d1 = pl_asked d"
        using call_net [OF ap [unfolded append_file_def]] by blast
      show ?thesis
      proof (cases r1)
        case (Inr u)
        obtain d3 and r3 :: "stream_error + unit"
          where ct: "count_chunk tot (of_nat (length chunk)) d1 = (d3, r3)" by fastforce
        have 3: "r3 = Inr () \<and> pl_net d3 = pl_net d1 \<and> pl_asked d3 = pl_asked d1"
          using ct by (auto simp: count_chunk_def on_progress_def Let_def)
        have "stream_body_to_writer sha (append_file dest) (Some cap) (\<lambda>_. False) (count_chunk tot)
              items (n + of_nat (length chunk)) (h @ chunk) d3 = (d2, r)"
          using Cons.prems Some False ap Inr ct 3 by (simp add: Let_def io_then_def io_map_err_def)
        from Cons.IH [OF this] 1 3 show ?thesis by simp
      qed (use Cons.prems Some False ap 1 in \<open>simp add: Let_def io_then_def io_map_err_def\<close>)
    qed (use Cons.prems Some in \<open>auto simp: Let_def\<close>)
  qed (use Cons.prems in \<open>auto simp: Let_def\<close>)
qed (simp add: io_pure_def)

lemma stream_outcome_ok:
  "stream_outcome dest r d = (d2, Inr digest) \<Longrightarrow> d2 = d \<and> (\<exists>n. r = Inr (n, digest))"
  by (auto simp: stream_outcome_def io_pure_def io_fail_def io_then_def io_ignore_def
      split: sum.splits stream_error.splits prod.splits)

lemma stream_to_file_ok:
  assumes "stream_to_file sha dest (download_cap sz) tot items d = (d2, Inr (n, digest))"
    and "hm_get (dk_files d) dest = Some (IFile t)" "small_chunks items" "unat sz < 2 ^ 62"
  shows "whole items \<and> hm_get (dk_files d2) dest = Some (IFile (t @ delivered items))
    \<and> digest = sha (delivered items) \<and> length (delivered items) \<le> unat (download_cap sz)
    \<and> pl_net d2 = pl_net d \<and> pl_asked d2 = pl_asked d"
  using stream_file_spec [of sha dest "download_cap sz" tot items 0 "[]" d d2 "Inr (n, digest)" t]
    stream_net [of sha dest "download_cap sz" tot items 0 "[]" d d2 "Inr (n, digest)"]
    assms cap_small
  by (auto simp: stream_to_file_def)

lemma stream_download_ok:
  assumes "stream_download sha url sz dest d = (d2, Inr digest)"
    and "small_net (pl_net d)" "unat sz < 2 ^ 62"
  shows "\<exists>tot items net. pl_net d = NetBody tot items # net \<and> whole items
    \<and> hm_get (dk_files d2) dest = Some (IFile (delivered items)) \<and> digest = sha (delivered items)
    \<and> length (delivered items) \<le> unat (download_cap sz)
    \<and> pl_net d2 = net \<and> pl_asked d2 = pl_asked d @ [url]"
proof -
  from assms(1) obtain d1 tot items where g: "http_get url d = (d1, Inr (tot, items))"
    and m: "io_then (io_map_err PIo (write_file dest [])) (\<lambda>_.
     io_then (set_bytes 0) (\<lambda>_.
     io_then (io_try (stream_to_file sha dest (download_cap sz) tot items))
       (stream_outcome dest))) d1 = (d2, Inr digest)"
    unfolding stream_download_def by (elim io_then_cases) auto
  from g obtain net where net: "pl_net d = NetBody tot items # net" "pl_net d1 = net"
    "pl_asked d1 = pl_asked d @ [url]"
    by (auto simp: http_get_def Let_def split: list.splits net_answer.splits)
  from m obtain d3 where w: "write_file dest [] d1 = (d3, Inr ())"
    and m2: "io_then (io_try (stream_to_file sha dest (download_cap sz) tot items))
       (stream_outcome dest) (d3\<lparr>pl_bytes := 0\<rparr>) = (d2, Inr digest)"
    by (auto simp: io_then_def [of "io_map_err _ _"] io_map_err_def io_then_def [of "set_bytes _"]
        set_bytes_def split: prod.splits sum.splits)
  have d3: "hm_get (dk_files (d3\<lparr>pl_bytes := 0\<rparr>)) dest = Some (IFile [])"
    using write_file_ok [OF w] by simp
  have n3: "pl_net d3 = net" "pl_asked d3 = pl_asked d @ [url]"
    using call_net [OF w [unfolded write_file_def]] net by simp_all
  obtain d4 r4 where st: "stream_to_file sha dest (download_cap sz) tot items (d3\<lparr>pl_bytes := 0\<rparr>) = (d4, r4)"
    by fastforce
  from m2 st have "stream_outcome dest r4 d4 = (d2, Inr digest)"
    by (simp add: io_then_Inr [OF io_try_eq])
  from stream_outcome_ok [OF this] obtain n where "d2 = d4" "r4 = Inr (n, digest)" by blast
  moreover have "small_chunks items" using assms(2) net by (simp add: small_net_def)
  ultimately show ?thesis
    using stream_to_file_ok [OF _ d3, of sha sz tot items d2 n digest] st assms(3) net n3 by auto
qed

lemma http_get_ok:
  "http_get url d = (d1, Inr (tot, items)) \<longleftrightarrow>
     (\<exists>net. pl_net d = NetBody tot items # net
        \<and> d1 = d\<lparr>pl_net := net, pl_asked := pl_asked d @ [url]\<rparr>)"
  by (auto simp: http_get_def Let_def split: list.splits net_answer.splits)

definition parts_small :: "index_asset list \<Rightarrow> bool" where
  "parts_small parts = list_all (\<lambda>p. unat (ia_size p) < 2 ^ 62) parts"

lemma download_parts_ok:
  "download_parts sha tot dest parts d = (d2, Inr ()) \<Longrightarrow> hm_get (dk_files d) dest = Some (IFile t) \<Longrightarrow>
    small_net (pl_net d) \<Longrightarrow> parts_small parts \<Longrightarrow>
    \<exists>bodies. hm_get (dk_files d2) dest = Some (IFile (t @ concat bodies))
      \<and> list_all2 (\<lambda>p body. body_ok sha (ia_size p) (ia_sha256 p) body) parts bodies
      \<and> pl_asked d2 = pl_asked d @ map ia_url parts"
proof (induction parts arbitrary: d t)
  case Nil
  then show ?case by (auto simp: io_pure_def)
next
  case (Cons part rest)
  from Cons.prems(1) obtain d1 len items where g: "http_get (ia_url part) d = (d1, Inr (len, items))"
    and m: "io_then (io_try (stream_to_file sha dest (download_cap (ia_size part)) (Some tot) items)) (\<lambda>r.
     io_then (stream_outcome dest r) (\<lambda>actual.
       if ia_sha256 part \<noteq> [] \<and> \<not> sha256_matches actual (ia_sha256 part)
       then io_then (io_ignore (remove_file dest)) (\<lambda>_.
              io_fail (PHashMismatch (ia_sha256 part) actual))
       else download_parts sha tot dest rest)) d1 = (d2, Inr ())"
    by (auto elim: io_then_cases)
  from g obtain net where net: "pl_net d = NetBody len items # net" "pl_net d1 = net"
    "pl_asked d1 = pl_asked d @ [ia_url part]" "dk_files d1 = dk_files d"
    by (auto simp: http_get_ok)
  obtain d3 r3 where st: "stream_to_file sha dest (download_cap (ia_size part)) (Some tot) items d1 = (d3, r3)"
    by fastforce
  from m st have "io_then (stream_outcome dest r3) (\<lambda>actual.
       if ia_sha256 part \<noteq> [] \<and> \<not> sha256_matches actual (ia_sha256 part)
       then io_then (io_ignore (remove_file dest)) (\<lambda>_.
              io_fail (PHashMismatch (ia_sha256 part) actual))
       else download_parts sha tot dest rest) d3 = (d2, Inr ())"
    by (simp only: io_try_then)
  then obtain d4 actual where out: "stream_outcome dest r3 d3 = (d4, Inr actual)"
    and more: "(if ia_sha256 part \<noteq> [] \<and> \<not> sha256_matches actual (ia_sha256 part)
       then io_then (io_ignore (remove_file dest)) (\<lambda>_.
              io_fail (PHashMismatch (ia_sha256 part) actual))
       else download_parts sha tot dest rest) d4 = (d2, Inr ())"
    by (auto elim: io_then_cases)
  from stream_outcome_ok [OF out] obtain n where r3: "d4 = d3" "r3 = Inr (n, actual)" by blast
  have "small_chunks items" "small_net net" using Cons.prems(3) net by (simp_all add: small_net_def)
  with stream_to_file_ok [of sha dest "ia_size part" "Some tot" items d1 d3 n actual t]
    st r3 Cons.prems(2,4) net
  have w: "hm_get (dk_files d3) dest = Some (IFile (t @ delivered items))"
      "actual = sha (delivered items)" "length (delivered items) \<le> unat (download_cap (ia_size part))"
      "pl_net d3 = net" "pl_asked d3 = pl_asked d @ [ia_url part]"
    by (auto simp: parts_small_def)
  have pin: "ia_sha256 part = [] \<or> sha256_matches actual (ia_sha256 part)"
    using more by (auto simp: io_then_def io_ignore_def io_fail_def split: if_splits prod.splits)
  with more r3 have rest: "download_parts sha tot dest rest d3 = (d2, Inr ())" by auto
  from Cons.IH [OF rest w(1)] w \<open>small_net net\<close> Cons.prems(4)
  obtain bodies where "hm_get (dk_files d2) dest = Some (IFile (t @ delivered items @ concat bodies))"
    "list_all2 (\<lambda>p body. body_ok sha (ia_size p) (ia_sha256 p) body) rest bodies"
    "pl_asked d2 = pl_asked d3 @ map ia_url rest"
    by (auto simp: parts_small_def)
  with w pin show ?case
    by (intro exI [of _ "delivered items # bodies"]) (auto simp: body_ok_def)
qed

lemma download_verified_parts_ok:
  assumes "download_verified_parts sha parts dest d = (d2, Inr ())" "small_net (pl_net d)" "parts_small parts"
  shows "\<exists>bodies. hm_get (dk_files d2) dest = Some (IFile (concat bodies))
      \<and> list_all2 (\<lambda>p body. body_ok sha (ia_size p) (ia_sha256 p) body) parts bodies
      \<and> pl_asked d2 = pl_asked d @ map ia_url parts"
proof -
  from assms(1) obtain d1 where w: "write_file dest [] d = (d1, Inr ())"
    and m: "download_parts sha (sum_list (map ia_size parts)) dest parts (d1\<lparr>pl_bytes := 0\<rparr>) = (d2, Inr ())"
    by (auto simp: download_verified_parts_def io_then_def io_map_err_def set_bytes_def
        split: prod.splits sum.splits)
  have "hm_get (dk_files (d1\<lparr>pl_bytes := 0\<rparr>)) dest = Some (IFile [])" using write_file_ok [OF w] by simp
  moreover have "pl_net d1 = pl_net d" "pl_asked d1 = pl_asked d"
    using call_net [OF w [unfolded write_file_def]] by simp_all
  ultimately show ?thesis using download_parts_ok [OF m, of "[]"] assms(2,3) by simp
qed

subsection \<open>What a download leaves alone\<close>

lemma keeps_progress [keeps_rules, simp]: "keeps R (on_progress ph a)"
  by (auto simp: keeps_def on_progress_def intro: reached_same)

lemma keeps_http_get [keeps_rules, simp]: "keeps R (http_get url)"
  by (auto simp: keeps_def http_get_def Let_def intro!: reached_same split: list.split net_answer.split)

lemma keeps_set_bytes [keeps_rules, simp]: "keeps R (set_bytes n)"
  by (auto simp: keeps_def set_bytes_def intro: reached_same)

lemma keeps_count [keeps_rules, simp]: "keeps R (count_chunk tot n)"
  by (auto simp: keeps_def count_chunk_def on_progress_def Let_def intro: reached_same)

lemma keeps_stream:
  assumes "R dest"
  shows "keeps R (stream_body_to_writer sha (append_file dest) cap (\<lambda>_. False) (count_chunk tot) items n h)"
proof (induction items arbitrary: n h)
  case Nil
  then show ?case by simp
next
  case (Cons item items)
  show ?case
  proof (cases item)
    case None
    then show ?thesis by (simp add: keeps_def)
  next
    case (Some chunk)
    let ?k = "io_then (io_map_err StreamIo (append_file dest chunk)) (\<lambda>_.
        io_then (count_chunk tot (of_nat (length chunk))) (\<lambda>_.
        stream_body_to_writer sha (append_file dest) cap (\<lambda>_. False) (count_chunk tot) items
          (n + of_nat (length chunk)) (h @ chunk)))"
    have "keeps R ?k" using assms by (auto intro!: keeps_rules Cons.IH)
    with Some show ?thesis by (auto simp: keeps_def Let_def)
  qed
qed

lemma keeps_stream_to_file [keeps_rules]: "R dest \<Longrightarrow> keeps R (stream_to_file sha dest cap tot items)"
  unfolding stream_to_file_def by (rule keeps_stream)

lemma keeps_outcome [keeps_rules]: "R dest \<Longrightarrow> keeps R (stream_outcome dest r)"
  unfolding stream_outcome_def
  by (auto intro!: keeps_rules split: sum.split prod.split stream_error.split)

lemma keeps_stream_download [keeps_rules]: "R dest \<Longrightarrow> keeps R (stream_download sha url sz dest)"
  unfolding stream_download_def by (auto intro!: keeps_rules split: prod.split)

lemma keeps_verify_asset [keeps_rules]: "R p \<Longrightarrow> keeps R (verify_asset_sha actual pin p)"
  unfolding verify_asset_sha_def by (auto intro!: keeps_rules)

lemma keeps_parts [keeps_rules]: "R dest \<Longrightarrow> keeps R (download_parts sha tot dest parts)"
  by (induction parts) (auto intro!: keeps_rules split: prod.split)

lemma keeps_verified_parts [keeps_rules]: "R dest \<Longrightarrow> keeps R (download_verified_parts sha parts dest)"
  unfolding download_verified_parts_def by (auto intro!: keeps_rules)

lemma keeps_manifest_bytes [keeps_rules]: "keeps R (download_manifest_bytes url)"
  unfolding download_manifest_bytes_def by (auto intro!: keeps_rules split: prod.split)

end
