(* ===== verification/Proto_Product.thy ===== *)
theory Proto_Product
  imports SE_Numbers
begin

section \<open>Products, scopes and topics\<close>

text \<open>
  \<open>super-engine-protocol/src/product.rs\<close> and \<open>scopes.rs\<close>: the names a daemon and its clients
  derive from the product, the scope catalogue, and which scope each event topic needs.
\<close>

record product_spec =
  ps_display_name :: string
  ps_slug :: string
  ps_short_name :: string
  ps_env_prefix :: string
  ps_tcp_port :: u16
  ps_repo :: string
  ps_index_url :: string
  ps_scopes :: "string list"
  ps_topics :: "(string \<times> string) list"

definition ps_env :: "product_spec \<Rightarrow> string \<Rightarrow> string" where
  "ps_env p name = ps_env_prefix p @ ''_'' @ name"

definition socket_file :: "product_spec \<Rightarrow> string" where
  "socket_file p = ps_slug p @ ''-http.sock''"

definition http_host :: "product_spec \<Rightarrow> string" where
  "http_host p = ps_short_name p @ ''.local''"

definition consent_helper :: "product_spec \<Rightarrow> string" where
  "consent_helper p = ps_slug p @ ''-consent''"

definition daemon_binary :: "product_spec \<Rightarrow> string" where
  "daemon_binary p = ps_slug p @ ''-daemon''"

definition installer_binary :: "product_spec \<Rightarrow> string" where
  "installer_binary p = ps_slug p @ ''-install''"

definition shared_applet :: string where
  "shared_applet = ''super-cosmic-applet''"

subsection \<open>Scopes\<close>

definition core_scopes :: "string list" where
  "core_scopes = [''settings'', ''secrets'', ''status'', ''audio_visualization'', ''daemon_status'']"

definition core_topics :: "(string \<times> string) list" where
  "core_topics =
     [(''frequency_bands'', ''audio_visualization''),
      (''daemon_status_changed'', ''daemon_status''),
      (''download_progress'', ''daemon_status''),
      (''registry_install'', ''daemon_status'')]"

definition known_scopes :: "product_spec \<Rightarrow> string list" where
  "known_scopes p = core_scopes @ ps_scopes p"

definition is_known_scope :: "product_spec \<Rightarrow> string \<Rightarrow> bool" where
  "is_known_scope p s = list_ex (\<lambda>known. known = s) (known_scopes p)"

definition required_scope_for_topic :: "product_spec \<Rightarrow> string \<Rightarrow> string option" where
  "required_scope_for_topic p topic =
     map_option snd (find (\<lambda>(name, _). name = topic) (core_topics @ ps_topics p))"

definition uncovered_topic :: "product_spec \<Rightarrow> string list \<Rightarrow> string list \<Rightarrow> string option" where
  "uncovered_topic p scopes topics =
     find (\<lambda>t. case required_scope_for_topic p t of
                 Some required \<Rightarrow> required \<notin> set scopes
               | None \<Rightarrow> True) topics"

lemma is_known_scope_iff: "is_known_scope p s \<longleftrightarrow> s \<in> set core_scopes \<or> s \<in> set (ps_scopes p)"
  by (auto simp: is_known_scope_def known_scopes_def list_ex_iff)

lemma uncovered_topic_None:
  "uncovered_topic p scopes topics = None \<longleftrightarrow>
     (\<forall>t \<in> set topics. \<exists>r \<in> set scopes. required_scope_for_topic p t = Some r)"
  by (auto simp: uncovered_topic_def find_None_iff split: option.splits)

text \<open>More scopes never uncover a topic.\<close>

lemma uncovered_topic_mono:
  "uncovered_topic p scopes topics = None \<Longrightarrow> set scopes \<subseteq> set more_scopes
     \<Longrightarrow> uncovered_topic p more_scopes topics = None"
  unfolding uncovered_topic_None by blast

end
