(* ===== verification/Daemon_Registry.thy ===== *)
theory Daemon_Registry
  imports Spec_Index Proto_Product
begin

section \<open>The daemon's view of the index\<close>

text \<open>
  \<open>registry/mod.rs\<close> (\<open>install_dir_name\<close>), \<open>registry/index.rs\<close> (the soft version floor and the filter
  every fetched index passes through) and \<open>registry/host.rs\<close> (what this machine can run, assembled
  from the facts the \<open>gpu_probe\<close> crate reports).
\<close>

record daemon =
  dm_product :: product_spec
  dm_version :: string
  dm_user_agent :: string

definition install_dir_name :: "('p, 'f) index_backend \<Rightarrow> string" where
  "install_dir_name entry =
     (case ib_backend_id entry of
        Some i \<Rightarrow> if backend_id_is_valid i then i else ib_id entry
      | None \<Rightarrow> ib_id entry)"

datatype min_client_status =
    Compatible
  | TooOld string string

definition check_min_client :: "(string \<Rightarrow> ('v::linorder) option) \<Rightarrow> string \<Rightarrow> string \<Rightarrow> min_client_status" where
  "check_min_client semver client_version min_version =
     (case (semver client_version, semver min_version) of
        (Some client, Some floor) \<Rightarrow>
          if client < floor then TooOld client_version min_version else Compatible
      | _ \<Rightarrow> Compatible)"

definition clear_malformed_id :: "('p, 'f) index_backend \<Rightarrow> ('p, 'f) index_backend" where
  "clear_malformed_id b =
     (case ib_backend_id b of
        Some i \<Rightarrow> if \<not> backend_id_is_valid i then b\<lparr>ib_backend_id := None\<rparr> else b
      | None \<Rightarrow> b)"

definition retain_safe_backends :: "('p, 'f) index \<Rightarrow> ('p, 'f) index" where
  "retain_safe_backends ix =
     ix\<lparr>ix_backends :=
       filter (\<lambda>b. is_safe_component (ib_id b) \<and> is_safe_relative_path (ib_entrypoint b))
         (map clear_malformed_id (ix_backends ix))\<rparr>"

subsection \<open>The host\<close>

text \<open>\<open>gpu_probe\<close>'s public records, with the fields the daemon reads.\<close>

record gfx_target =
  gt_major :: u32
  gt_minor :: u32
  gt_step :: u32

record vulkan_version =
  vv_major :: u32
  vv_minor :: u32

record cuda_host =
  ch_compute_capability :: u32
  ch_runtime_major :: u32
  ch_cudnn_present :: bool

record 'rv rocm_host =
  rh_gfx_targets :: "gfx_target list"
  rh_version :: "'rv option"

record vulkan_host =
  vh_api_version :: vulkan_version

record 'rv host =
  h_target_triple :: string
  h_cuda :: "cuda_host option"
  h_rocm :: "'rv rocm_host option"
  h_vulkan :: "vulkan_host option"
  h_metal :: bool

definition rocm_capability :: "gfx_target list \<Rightarrow> 'rv option \<Rightarrow> 'rv rocm_host option" where
  "rocm_capability gfx_targets version =
     (if gfx_targets = [] then None
      else Some \<lparr>rh_gfx_targets = gfx_targets, rh_version = version\<rparr>)"

definition vulkan_capability :: "nat \<Rightarrow> vulkan_version option \<Rightarrow> vulkan_host option" where
  "vulkan_capability gpu_count api_version =
     (if gpu_count = 0 then None
      else map_option (\<lambda>v. \<lparr>vh_api_version = v\<rparr>) api_version)"

definition pack_sm :: "u32 \<Rightarrow> u32 \<Rightarrow> u32" where
  "pack_sm major minor = major * 10 + minor"

subsection \<open>Properties\<close>

text \<open>
  Every backend the daemon lists installs into a direct child of the backends directory and
  runs an entrypoint below it, whatever the fetched index contained; and the shared staging root
  \<open>.staging\<close> can be named only by a bare registry key, never by a \<open>backend_id\<close>.
\<close>

theorem listed_backends_install_inside:
  "list_all (\<lambda>b. resolve base (split_on (CHR ''/'') (install_dir_name b)) = Some (base @ [install_dir_name b])
      \<and> is_safe_relative_path (ib_entrypoint b)
      \<and> (install_dir_name b = ''.staging'' \<longleftrightarrow> ib_backend_id b = None \<and> ib_id b = ''.staging''))
     (ix_backends (retain_safe_backends ix))"
proof -
  have st: "\<not> backend_id_is_valid ''.staging''" by code_simp
  have "resolve base (split_on (CHR ''/'') (install_dir_name b)) = Some (base @ [install_dir_name b])
      \<and> is_safe_relative_path (ib_entrypoint b)
      \<and> (install_dir_name b = ''.staging'' \<longleftrightarrow> ib_backend_id b = None \<and> ib_id b = ''.staging'')"
    if b: "b \<in> set (ix_backends (retain_safe_backends ix))" for b
  proof -
    from b obtain b0 where b0: "b = clear_malformed_id b0" "is_safe_component (ib_id b)"
        "is_safe_relative_path (ib_entrypoint b)"
      by (auto simp: retain_safe_backends_def)
    have ident: "backend_id_is_valid i" if "ib_backend_id b = Some i" for i
      using that b0(1) by (auto simp: clear_malformed_id_def split: option.splits if_splits)
    have "is_safe_component (install_dir_name b)"
      using b0(2) ident by (auto simp: install_dir_name_def intro: backend_id_safe split: option.splits)
    moreover have "install_dir_name b = ''.staging'' \<longleftrightarrow> ib_backend_id b = None \<and> ib_id b = ''.staging''"
      using ident st by (auto simp: install_dir_name_def split: option.splits)
    ultimately show ?thesis using b0(3) resolve_component by blast
  qed
  then show ?thesis unfolding list_all_iff by blast
qed

end
