(* ===== verification/Daemon_Compat.thy ===== *)
theory Daemon_Compat
  imports Daemon_Registry "HOL-Library.Product_Lexorder"
begin

section \<open>Which build, and which files\<close>

text \<open>
  \<open>registry/compat.rs\<close>: \<open>select\<close> picks the subprocess build of an index entry this host should
  install, \<open>select_files\<close> the variant of each model file, both by the one ranking \<open>score\<close> over the
  one shape \<open>requires\<close>. Ranks are tuples in lexicographic order, as in the code. The crates enter as
  \<open>semver\<close> and as the \<open>Display\<close> of \<open>gpu_probe\<close>'s types (\<open>host_show\<close>).
\<close>

datatype selection =
    SelWasm
  | SelSubprocess nat
  | SelIncompatible string
  | SelNeedsClientUpdate string

definition selection_reason :: "selection \<Rightarrow> string option" where
  "selection_reason s =
     (case s of
        SelWasm \<Rightarrow> None
      | SelSubprocess _ \<Rightarrow> None
      | SelIncompatible r \<Rightarrow> Some r
      | SelNeedsClientUpdate r \<Rightarrow> Some r)"

definition needs_client_update :: "selection \<Rightarrow> bool" where
  "needs_client_update s = (case s of SelNeedsClientUpdate _ \<Rightarrow> True | _ \<Rightarrow> False)"

definition gfx_family_floor :: u32 where
  "gfx_family_floor = 10"

definition rank_any :: u8 where "rank_any = 0"

definition rank_cpu :: u8 where "rank_cpu = 1"

definition rank_vulkan :: u8 where "rank_vulkan = 2"

definition rank_native :: u8 where "rank_native = 3"

type_synonym rank = "u8 \<times> u32 \<times> u8 \<times> u8"

definition gfx_is_exact :: "gfx_spec \<Rightarrow> gfx_target \<Rightarrow> bool" where
  "gfx_is_exact asset host =
     (gfx_major asset = gt_major host \<and> gfx_minor asset = gt_minor host \<and> gfx_step asset = gt_step host)"

definition gfx_runs_on :: "gfx_spec \<Rightarrow> gfx_target \<Rightarrow> bool" where
  "gfx_runs_on asset host =
     (gfx_is_exact asset host
      \<or> (gfx_major asset \<ge> gfx_family_floor \<and> gfx_major asset = gt_major host
         \<and> gfx_minor asset = gt_minor host))"

definition max_echoed_contract :: nat where
  "max_echoed_contract = 16"

definition contract_block ::
  "(string \<Rightarrow> ('v::linorder) option) \<Rightarrow> 'c generations \<Rightarrow> daemon \<Rightarrow> ('p, 'f) index_backend
     \<Rightarrow> string option" where
  "contract_block semver G d entry =
     (if is_ok (generation_from_str G (ib_contract entry)) then None
      else
        let prod = ps_display_name (dm_product d);
            running = dm_version d;
            contract = take_chars max_echoed_contract (ib_contract entry);
            floor = (case ib_min_client entry of
                       None \<Rightarrow> None
                     | Some m \<Rightarrow>
                         (case (semver m, semver running) of
                            (Some a, Some b) \<Rightarrow> if a > b then Some m else None
                          | _ \<Rightarrow> None))
        in Some (case floor of
                   Some m \<Rightarrow> ''needs '' @ prod @ '' '' @ m @ '' or newer (backend contract '' @ contract
                     @ ''); this is '' @ running
                 | None \<Rightarrow> ''needs a newer '' @ prod @ '' (backend contract '' @ contract
                     @ ''); this is '' @ running))"

subsection \<open>Requirements and their rank\<close>

record requires =
  rq_accel :: "accel list"
  rq_cuda_major :: "u32 option"
  rq_cuda_sm :: "u32 list"
  rq_cudnn :: bool
  rq_gfx :: "gfx_spec list"
  rq_vulkan_api :: "vulkan_api option"
  rq_vulkan_api_malformed :: bool
  rq_wildcard_when_absent :: bool

definition parse_accel :: "string \<Rightarrow> accel option" where
  "parse_accel t =
     (if t = ''cpu'' then Some Cpu
      else if t = ''cuda'' then Some Cuda
      else if t = ''metal'' then Some Metal
      else if t = ''rocm'' then Some Rocm
      else if t = ''vulkan'' then Some Vulkan
      else None)"

text \<open>
  \<open>g.parse().ok()\<close>. A text whose parse panics (\<open>split_at\<close> inside a character) has no value; \<open>select\<close>
  asks \<open>gfx_panics\<close> of every text it is about to parse.
\<close>

definition gfx_panics :: "index_subprocess_asset \<Rightarrow> bool" where
  "gfx_panics a = list_ex (\<lambda>g. gfx_from_str g = None) (isa_gfx a)"

definition parse_gfx_ok :: "string \<Rightarrow> gfx_spec option" where
  "parse_gfx_ok g = (case gfx_from_str g of Some (Inr s) \<Rightarrow> Some s | _ \<Rightarrow> None)"

definition requires_of_asset :: "index_subprocess_asset \<Rightarrow> requires" where
  "requires_of_asset a =
     (let v = (case isa_vulkan_api a of
                 None \<Rightarrow> (None, False)
               | Some floor \<Rightarrow>
                   (case vulkan_from_str floor of Inr v \<Rightarrow> (Some v, False) | Inl _ \<Rightarrow> (None, True)))
      in \<lparr>rq_accel = List.map_filter parse_accel (isa_accel a),
          rq_cuda_major = isa_cuda_major a,
          rq_cuda_sm = (case isa_cuda_sm a of None \<Rightarrow> [] | Some s \<Rightarrow> [s]),
          rq_cudnn = isa_cudnn a,
          rq_gfx = List.map_filter parse_gfx_ok (isa_gfx a),
          rq_vulkan_api = fst v,
          rq_vulkan_api_malformed = snd v,
          rq_wildcard_when_absent = False\<rparr>)"

definition requires_of_file :: "file_spec \<Rightarrow> requires" where
  "requires_of_file f =
     \<lparr>rq_accel = fs_accel f,
      rq_cuda_major = fs_cuda_major f,
      rq_cuda_sm = fs_cuda_sm f,
      rq_cudnn = False,
      rq_gfx = fs_gfx f,
      rq_vulkan_api = fs_vulkan_api f,
      rq_vulkan_api_malformed = False,
      rq_wildcard_when_absent = True\<rparr>"

definition flag :: "bool \<Rightarrow> u8" where
  "flag b = (if b then 1 else 0)"

definition cuda_match :: "cuda_host \<Rightarrow> requires \<Rightarrow> bool" where
  "cuda_match cuda r =
     ((rq_cuda_sm r = [] \<or> ch_compute_capability cuda \<in> set (rq_cuda_sm r))
      \<and> ((case rq_cuda_major r of Some m \<Rightarrow> m \<le> ch_runtime_major cuda | None \<Rightarrow> False)
         \<or> (rq_wildcard_when_absent r \<and> rq_cuda_major r = None)))"

text \<open>The nested loops over the host's targets and the candidate's.\<close>

definition gfx_step_best :: "gfx_target \<Rightarrow> u8 option \<Rightarrow> gfx_spec \<Rightarrow> u8 option" where
  "gfx_step_best host_target best want =
     (if gfx_runs_on want host_target
      then let exact = flag (gfx_is_exact want host_target)
           in Some (case best of None \<Rightarrow> exact | Some b \<Rightarrow> max b exact)
      else best)"

definition gfx_best :: "gfx_target list \<Rightarrow> gfx_spec list \<Rightarrow> u8 option" where
  "gfx_best targets wants = foldl (\<lambda>best t. foldl (gfx_step_best t) best wants) None targets"

definition vulkan_match :: "vulkan_host \<Rightarrow> requires \<Rightarrow> bool" where
  "vulkan_match v r =
     (\<not> rq_vulkan_api_malformed r
      \<and> (case rq_vulkan_api r of
           None \<Rightarrow> True
         | Some f \<Rightarrow> (vk_major f, vk_minor f)
              \<le> (vv_major (vh_api_version v), vv_minor (vh_api_version v))))"

definition score :: "'rv host \<Rightarrow> requires \<Rightarrow> rank option" where
  "score host r =
     (let declares = (\<lambda>k. k \<in> set (rq_accel r));
          cuda = (case h_cuda host of
                    None \<Rightarrow> None
                  | Some c \<Rightarrow>
                      if declares Cuda \<and> cuda_match c r
                      then Some (rank_native, unwrap_or 0 (rq_cuda_major r), flag (rq_cuda_sm r \<noteq> []),
                                 flag (rq_cudnn r \<and> ch_cudnn_present c))
                      else None);
          rocm = (case h_rocm host of
                    None \<Rightarrow> None
                  | Some m \<Rightarrow>
                      if \<not> declares Rocm then None
                      else if rq_gfx r = []
                      then (if rq_wildcard_when_absent r then Some (rank_native, 0, 0, 0) else None)
                      else map_option (\<lambda>exact. (rank_native, 0, exact, 0))
                             (gfx_best (rh_gfx_targets m) (rq_gfx r)));
          vulkan = (case h_vulkan host of
                      None \<Rightarrow> None
                    | Some v \<Rightarrow>
                        if declares Vulkan \<and> vulkan_match v r then Some (rank_vulkan, 0, 0, 0) else None)
      in case cuda of Some s \<Rightarrow> Some s | None \<Rightarrow>
         case rocm of Some s \<Rightarrow> Some s | None \<Rightarrow>
         case vulkan of Some s \<Rightarrow> Some s | None \<Rightarrow>
         if declares Metal \<and> h_metal host then Some (rank_native, 0, 0, 0)
         else if declares Cpu then Some (rank_cpu, 0, 0, 0)
         else None)"

text \<open>\<open>.reduce(|best, next| if next.0 > best.0 { next } else { best })\<close>.\<close>

definition best_by_rank :: "(('s::linorder) \<times> 'a) list \<Rightarrow> ('s \<times> 'a) option" where
  "best_by_rank xs = iter_reduce (\<lambda>best nxt. if fst nxt > fst best then nxt else best) xs"

subsection \<open>Reasons\<close>

record 'rv host_show =
  show_target :: "gfx_target \<Rightarrow> string"
  show_vulkan_version :: "vulkan_version \<Rightarrow> string"
  show_rocm_version :: "'rv \<Rightarrow> string"

definition host_capabilities :: "'rv host_show \<Rightarrow> 'rv host \<Rightarrow> string" where
  "host_capabilities S host =
     (let c = (case h_cuda host of
                 None \<Rightarrow> []
               | Some c \<Rightarrow> [''sm_'' @ show_u32 (ch_compute_capability c) @ '', CUDA ''
                           @ show_u32 (ch_runtime_major c)]);
          r = (case h_rocm host of
                 None \<Rightarrow> []
               | Some r \<Rightarrow>
                   [join_str '','' (map (show_target S) (rh_gfx_targets r))
                    @ (case rh_version r of
                         Some v \<Rightarrow> '' (ROCm '' @ show_rocm_version S v @ '')''
                       | None \<Rightarrow> '' (no ROCm userspace found)'')]);
          v = (case h_vulkan host of
                 None \<Rightarrow> []
               | Some v \<Rightarrow> [''vulkan '' @ show_vulkan_version S (vh_api_version v)]);
          m = (if h_metal host then [''metal''] else []);
          caps = c @ r @ v @ m
      in join_str ''; '' (if caps = [] then [''cpu only''] else caps))"

definition em_dash :: string where
  "em_dash = [CHR 0xE2, CHR 0x80, CHR 0x94]"

definition asset_requirement :: "index_subprocess_asset \<Rightarrow> string" where
  "asset_requirement a =
     (let part = (\<lambda>acc.
            if acc = ''cuda'' then
              ''cuda '' @ (case isa_cuda_major a of None \<Rightarrow> ''?'' | Some m \<Rightarrow> show_u32 m)
              @ '' sm_'' @ (case isa_cuda_sm a of None \<Rightarrow> ''*'' | Some s \<Rightarrow> show_u32 s)
            else if acc = ''rocm'' then ''rocm '' @ join_str '','' (isa_gfx a)
            else if acc = ''vulkan'' then
              (case isa_vulkan_api a of Some v \<Rightarrow> ''vulkan '' @ v @ ''+'' | None \<Rightarrow> ''vulkan'')
            else acc);
          parts = map part (isa_accel a)
      in if parts = [] then ''an unspecified accel'' else join_str ''+'' parts)"

definition incompatible_reason ::
  "'rv host_show \<Rightarrow> 'rv host \<Rightarrow> (nat \<times> index_subprocess_asset) list \<Rightarrow> string" where
  "incompatible_reason S host candidates =
     (let wants = foldl push_unique [] (map (asset_requirement \<circ> snd) candidates);
          headline = ''no compatible asset for host `'' @ h_target_triple host @ ''`: ''
                 @ host_capabilities S host
      in if wants = [] then headline
         else headline @ '' '' @ em_dash @ '' candidate builds require: '' @ join_str '', '' wants)"

definition file_requirement :: "file_spec \<Rightarrow> string" where
  "file_requirement f =
     (let part = (\<lambda>acc. case acc of
            Cuda \<Rightarrow>
              ''cuda '' @ (case fs_cuda_major f of None \<Rightarrow> ''*'' | Some m \<Rightarrow> show_u32 m)
              @ '' sm_'' @ (if fs_cuda_sm f = [] then ''*'' else join_str ''/'' (map show_u32 (fs_cuda_sm f)))
          | Rocm \<Rightarrow> if fs_gfx f = [] then ''rocm''
                    else ''rocm '' @ join_str '','' (map show_gfx (fs_gfx f))
          | Vulkan \<Rightarrow> (case fs_vulkan_api f of
                         Some v \<Rightarrow> ''vulkan '' @ show_vulkan v @ ''+'' | None \<Rightarrow> ''vulkan'')
          | other \<Rightarrow> show_accel other);
          parts = map part (fs_accel f)
      in if parts = [] then ''any host'' else join_str ''+'' parts)"

definition unusable_reason :: "'rv host_show \<Rightarrow> 'rv host \<Rightarrow> string \<Rightarrow> file_spec list \<Rightarrow> string" where
  "unusable_reason S host destination variants =
     (let wants = foldl push_unique [] (map file_requirement variants)
      in ''no variant of `'' @ destination @ ''` runs on this host: '' @ host_capabilities S host
         @ '' '' @ em_dash @ '' variants require: '' @ join_str '', '' wants)"

subsection \<open>Selecting a build\<close>

definition candidates_for :: "'rv host \<Rightarrow> ('p, 'f) index_backend \<Rightarrow> (nat \<times> index_subprocess_asset) list" where
  "candidates_for host entry =
     filter (\<lambda>(_, a). isa_target a = h_target_triple host)
       (enumerate_idx (ixa_subprocess (ib_assets entry)))"

definition scored :: "'rv host \<Rightarrow> (nat \<times> index_subprocess_asset) list \<Rightarrow> (rank \<times> nat) list" where
  "scored host candidates =
     List.map_filter (\<lambda>(idx, a). map_option (\<lambda>s. (s, idx)) (score host (requires_of_asset a))) candidates"

text \<open>\<open>None\<close> is the panic of parsing a candidate's target.\<close>

definition select ::
  "(string \<Rightarrow> ('v::linorder) option) \<Rightarrow> 'c generations \<Rightarrow> 'rv host_show \<Rightarrow> daemon \<Rightarrow> 'rv host
     \<Rightarrow> ('p, 'f) index_backend \<Rightarrow> selection option" where
  "select semver G S d host entry =
     (case contract_block semver G d entry of
        Some reason \<Rightarrow> Some (SelNeedsClientUpdate reason)
      | None \<Rightarrow>
          if ib_kind entry = ''wasm'' then
            (if ixa_wasm (ib_assets entry) \<noteq> None then Some SelWasm
             else Some (SelIncompatible ''wasm backend missing wasm asset''))
          else if ib_kind entry \<noteq> ''subprocess'' then
            Some (SelIncompatible (''unknown kind `'' @ ib_kind entry @ ''`''))
          else
            let by_target = candidates_for host entry
            in if by_target = [] then
                 Some (SelIncompatible (''no asset for target `'' @ h_target_triple host @ ''`''))
               else if list_ex (\<lambda>(_, a). gfx_panics a) by_target then None
               else case best_by_rank (scored host by_target) of
                      Some (_, idx) \<Rightarrow> Some (SelSubprocess idx)
                    | None \<Rightarrow> Some (SelIncompatible (incompatible_reason S host by_target)))"

definition to_selected_asset :: "('p, 'f) index_backend \<Rightarrow> selection \<Rightarrow> selected_asset option" where
  "to_selected_asset entry sel =
     (case sel of
        SelWasm \<Rightarrow>
          map_option (\<lambda>_. \<lparr>sel_target = [], sel_accel = [''wasm''], sel_cuda_major = None,
            sel_cuda_sm = None, sel_cudnn = False\<rparr>) (ixa_wasm (ib_assets entry))
      | SelSubprocess i \<Rightarrow>
          (let as = ixa_subprocess (ib_assets entry)
           in if i < length as
              then Some \<lparr>sel_target = isa_target (as ! i), sel_accel = isa_accel (as ! i),
                         sel_cuda_major = isa_cuda_major (as ! i), sel_cuda_sm = isa_cuda_sm (as ! i),
                         sel_cudnn = isa_cudnn (as ! i)\<rparr>
              else None)
      | SelIncompatible _ \<Rightarrow> None
      | SelNeedsClientUpdate _ \<Rightarrow> None)"

subsection \<open>Selecting the files\<close>

definition score_file :: "'rv host \<Rightarrow> file_spec \<Rightarrow> rank option" where
  "score_file host f =
     (if is_conditional f then score host (requires_of_file f) else Some (rank_any, 0, 0, 0))"

definition variants_of :: "'m model_entry \<Rightarrow> string \<Rightarrow> file_spec list" where
  "variants_of model dest = filter (\<lambda>f. fs_destination f = dest) (me_files model)"

definition best_variant :: "'rv host \<Rightarrow> file_spec list \<Rightarrow> (rank \<times> file_spec) option" where
  "best_variant host variants =
     best_by_rank (List.map_filter (\<lambda>f. map_option (\<lambda>s. (s, f)) (score_file host f)) variants)"

fun select_files_loop ::
  "'rv host_show \<Rightarrow> 'rv host \<Rightarrow> 'm model_entry \<Rightarrow> string list \<Rightarrow> file_spec list \<Rightarrow> file_spec list
     \<Rightarrow> string + file_spec list" where
  "select_files_loop S host model resolved chosen [] = Inr chosen"
| "select_files_loop S host model resolved chosen (entry # rest) =
     (let dest = fs_destination entry
      in if dest \<in> set resolved then select_files_loop S host model resolved chosen rest
         else
           let variants = variants_of model dest
           in case best_variant host variants of
                Some (_, file) \<Rightarrow>
                  select_files_loop S host model (resolved @ [dest]) (chosen @ [file]) rest
              | None \<Rightarrow>
                  if list_all fs_optional variants
                  then select_files_loop S host model (resolved @ [dest]) chosen rest
                  else Inl (unusable_reason S host dest variants))"

definition select_files ::
  "'rv host_show \<Rightarrow> 'rv host \<Rightarrow> 'm model_entry \<Rightarrow> string + file_spec list" where
  "select_files S host model = select_files_loop S host model [] [] (me_files model)"

subsection \<open>The first of the best\<close>

text \<open>
  What a ranking promises its callers: it answers unless there is nothing to rank, and its answer
  is the first of the greatest.
\<close>

locale ranking =
  fixes pick :: "(('s::linorder) \<times> 'a) list \<Rightarrow> ('s \<times> 'a) option"
  assumes pick_none: "pick xs = None \<longleftrightarrow> xs = []"
    and pick_first: "pick xs = Some b \<Longrightarrow>
      \<exists>ys zs. xs = ys @ b # zs \<and> (\<forall>y \<in> set ys. fst y < fst b) \<and> (\<forall>z \<in> set zs. fst z \<le> fst b)"
begin

lemma pick_member: "pick xs = Some b \<Longrightarrow> b \<in> set xs"
  by (auto dest: pick_first)

lemma pick_greatest: "pick xs = Some b \<Longrightarrow> x \<in> set xs \<Longrightarrow> fst x \<le> fst b"
  using pick_first [of xs b] by (auto simp: order.order_iff_strict)

lemma pick_total: "xs \<noteq> [] \<Longrightarrow> \<exists>b. pick xs = Some b"
  using pick_none [of xs] by auto

text \<open>Where the second components are the positions, in order, no earlier one ties.\<close>

lemma pick_earliest:
  fixes key :: "'a \<Rightarrow> nat"
  assumes "pick xs = Some b" and "sorted_wrt (\<lambda>x y. key (snd x) < key (snd y)) xs"
    and "x \<in> set xs" and "key (snd x) < key (snd b)"
  shows "fst x < fst b"
proof -
  obtain ys zs where xs: "xs = ys @ b # zs" "\<forall>y \<in> set ys. fst y < fst b"
    using pick_first [OF assms(1)] by blast
  have "x \<notin> set zs"
    using assms(2,4) unfolding xs(1) sorted_wrt_append by force
  moreover have "x \<noteq> b" using assms(4) by blast
  ultimately show ?thesis using assms(3) xs by auto
qed

end

lemma foldl_best:
  "foldl (\<lambda>best nxt. if fst nxt > fst best then nxt else best) a xs = b \<Longrightarrow>
     \<exists>ys zs. a # xs = ys @ b # zs \<and> (\<forall>y \<in> set ys. fst y < fst b) \<and> (\<forall>z \<in> set zs. fst z \<le> fst b)"
  for a :: "('s::linorder) \<times> 'a"
proof (induction xs arbitrary: a b)
  case Nil
  then have "a # [] = [] @ b # []" by simp
  then show ?case by fastforce
next
  case (Cons x xs)
  let ?c = "if fst x > fst a then x else a"
  from Cons.prems have "foldl (\<lambda>best nxt. if fst nxt > fst best then nxt else best) ?c xs = b" by simp
  then obtain ys zs where c: "?c # xs = ys @ b # zs" "\<forall>y \<in> set ys. fst y < fst b"
      "\<forall>z \<in> set zs. fst z \<le> fst b"
    using Cons.IH by blast
  have cb: "fst ?c \<le> fst b" using c by (cases ys) auto
  show ?case
  proof (cases "fst x > fst a")
    case True
    then have "a # x # xs = (a # ys) @ b # zs" "fst a < fst b" using c(1) cb by auto
    with c(2,3) show ?thesis by (intro exI [of _ "a # ys"] exI [of _ zs]) auto
  next
    case False
    then have ax: "fst x \<le> fst a" by simp
    show ?thesis
    proof (cases ys)
      case Nil
      with False c(1) have "b = a" "zs = xs" by auto
      with c(3) ax show ?thesis by (intro exI [of _ "[]"] exI [of _ "x # xs"]) auto
    next
      case (Cons y ys2)
      with False c(1) have y: "y = a" "xs = ys2 @ b # zs" by auto
      with c(2) Cons ax have "fst x < fst b" by auto
      with y c(2,3) Cons show ?thesis
        by (intro exI [of _ "a # x # ys2"] exI [of _ zs]) auto
    qed
  qed
qed

lemma best_by_rank_None: "best_by_rank xs = None \<longleftrightarrow> xs = []"
  by (cases xs) (simp_all add: best_by_rank_def)

lemma best_by_rank_first:
  assumes "best_by_rank xs = Some b"
  shows "\<exists>ys zs. xs = ys @ b # zs \<and> (\<forall>y \<in> set ys. fst y < fst b) \<and> (\<forall>z \<in> set zs. fst z \<le> fst b)"
proof -
  obtain a as where xs: "xs = a # as"
      and f: "foldl (\<lambda>best nxt. if fst nxt > fst best then nxt else best) a as = b"
    using assms by (cases xs) (auto simp: best_by_rank_def)
  show ?thesis unfolding xs using foldl_best [OF f] .
qed

interpretation rk: ranking best_by_rank
  by unfold_locales (rule best_by_rank_None, rule best_by_rank_first)

subsection \<open>What the rank says of the host\<close>

definition cuda_usable :: "'rv host \<Rightarrow> requires \<Rightarrow> bool" where
  "cuda_usable host r =
     (Cuda \<in> set (rq_accel r) \<and> (case h_cuda host of None \<Rightarrow> False | Some c \<Rightarrow> cuda_match c r))"

definition rocm_usable :: "'rv host \<Rightarrow> requires \<Rightarrow> bool" where
  "rocm_usable host r =
     (Rocm \<in> set (rq_accel r)
      \<and> (case h_rocm host of
           None \<Rightarrow> False
         | Some m \<Rightarrow>
             if rq_gfx r = [] then rq_wildcard_when_absent r
             else list_ex (\<lambda>t. list_ex (\<lambda>w. gfx_runs_on w t) (rq_gfx r)) (rh_gfx_targets m)))"

definition vulkan_usable :: "'rv host \<Rightarrow> requires \<Rightarrow> bool" where
  "vulkan_usable host r =
     (Vulkan \<in> set (rq_accel r) \<and> (case h_vulkan host of None \<Rightarrow> False | Some v \<Rightarrow> vulkan_match v r))"

definition metal_usable :: "'rv host \<Rightarrow> requires \<Rightarrow> bool" where
  "metal_usable host r = (Metal \<in> set (rq_accel r) \<and> h_metal host)"

lemma gfx_step_runs: "gfx_runs_on w t \<Longrightarrow> \<exists>e. gfx_step_best t b w = Some e"
  by (simp add: gfx_step_best_def Let_def)

lemma gfx_step_skips: "\<not> gfx_runs_on w t \<Longrightarrow> gfx_step_best t b w = b"
  by (simp add: gfx_step_best_def)

lemma gfx_inner_Some: "foldl (gfx_step_best t) (Some e) wants \<noteq> None"
proof (induction wants arbitrary: e)
  case (Cons w wants)
  then show ?case
    by (cases "gfx_runs_on w t") (auto dest: gfx_step_runs [where b = "Some e"] simp: gfx_step_skips)
qed simp

lemma gfx_inner_None:
  "foldl (gfx_step_best t) None wants = None \<longleftrightarrow> \<not> list_ex (\<lambda>w. gfx_runs_on w t) wants"
proof (induction wants)
  case (Cons w wants)
  show ?case
  proof (cases "gfx_runs_on w t")
    case True
    then obtain e where "gfx_step_best t None w = Some e" by (blast dest: gfx_step_runs)
    with True gfx_inner_Some show ?thesis by simp
  next
    case False
    with Cons show ?thesis by (simp add: gfx_step_skips)
  qed
qed simp

lemma gfx_outer_Some: "foldl (\<lambda>b t. foldl (gfx_step_best t) b wants) (Some e) targets \<noteq> None"
proof (induction targets arbitrary: e)
  case (Cons t targets)
  obtain x where "foldl (gfx_step_best t) (Some e) wants = Some x"
    using gfx_inner_Some [of t e wants] by auto
  with Cons show ?case by simp
qed simp

lemma gfx_best_None:
  "gfx_best targets wants = None \<longleftrightarrow> \<not> list_ex (\<lambda>t. list_ex (\<lambda>w. gfx_runs_on w t) wants) targets"
  unfolding gfx_best_def
proof (induction targets)
  case (Cons t targets)
  show ?case
  proof (cases "foldl (gfx_step_best t) None wants")
    case None
    with Cons gfx_inner_None [of t wants] show ?thesis by simp
  next
    case (Some e)
    with gfx_inner_None [of t wants] gfx_outer_Some show ?thesis by simp
  qed
qed simp

text \<open>
  The family half of the rank, exactly. Vulkan is asked before Metal, so a build that declares
  both ranks as a portable one on a host that has both.
\<close>

lemma score_family_core:
  "map_option fst (score host r) =
     (if cuda_usable host r \<or> rocm_usable host r then Some rank_native
      else if vulkan_usable host r then Some rank_vulkan
      else if metal_usable host r then Some rank_native
      else if Cpu \<in> set (rq_accel r) then Some rank_cpu
      else None)"
proof -
  let ?cuda = "case h_cuda host of None \<Rightarrow> None
      | Some c \<Rightarrow> if Cuda \<in> set (rq_accel r) \<and> cuda_match c r
          then Some (rank_native, unwrap_or 0 (rq_cuda_major r), flag (rq_cuda_sm r \<noteq> []),
                     flag (rq_cudnn r \<and> ch_cudnn_present c)) else None"
  let ?rocm = "case h_rocm host of None \<Rightarrow> None
      | Some m \<Rightarrow> if Rocm \<notin> set (rq_accel r) then None
          else if rq_gfx r = [] then (if rq_wildcard_when_absent r then Some (rank_native, 0, 0, 0) else None)
          else map_option (\<lambda>exact. (rank_native, 0::u32, exact, 0::u8)) (gfx_best (rh_gfx_targets m) (rq_gfx r))"
  let ?vulkan = "case h_vulkan host of None \<Rightarrow> None
      | Some v \<Rightarrow> if Vulkan \<in> set (rq_accel r) \<and> vulkan_match v r
          then Some (rank_vulkan, 0::u32, 0::u8, 0::u8) else None"
  have c: "map_option fst ?cuda = (if cuda_usable host r then Some rank_native else None)"
    by (auto simp: cuda_usable_def split: option.splits)
  have m: "map_option fst ?rocm = (if rocm_usable host r then Some rank_native else None)"
  proof (cases "h_rocm host")
    case (Some mh)
    then show ?thesis
      using gfx_best_None [of "rh_gfx_targets mh" "rq_gfx r"]
      by (cases "gfx_best (rh_gfx_targets mh) (rq_gfx r)") (simp_all add: rocm_usable_def)
  qed (simp add: rocm_usable_def)
  have v: "map_option fst ?vulkan = (if vulkan_usable host r then Some rank_vulkan else None)"
    by (auto simp: vulkan_usable_def split: option.splits)
  have cas: "map_option fst (case x of Some s \<Rightarrow> Some s | None \<Rightarrow> y) =
      (case map_option fst x of Some s \<Rightarrow> Some s | None \<Rightarrow> map_option fst y)"
    for x y :: "rank option"
    by (cases x) simp_all
  show ?thesis
    unfolding score_def Let_def cas c m v by (simp add: metal_usable_def)
qed

lemma score_None:
  "score host r = None \<longleftrightarrow>
     \<not> (cuda_usable host r \<or> rocm_usable host r \<or> vulkan_usable host r \<or> metal_usable host r
        \<or> Cpu \<in> set (rq_accel r))"
  using score_family_core [of host r] by (auto split: if_splits)

subsection \<open>Selecting a build, declaratively\<close>

text \<open>Index \<open>i\<close> holds the greatest rank of the list, and no earlier index reaches it.\<close>

definition first_best_at :: "(rank \<times> nat) list \<Rightarrow> nat \<Rightarrow> bool" where
  "first_best_at xs i =
     (\<exists>s. (s, i) \<in> set xs
        \<and> list_all (\<lambda>(t, j). t \<le> s) xs \<and> list_all (\<lambda>(t, j). \<not> (j < i \<and> t = s)) xs)"

lemma enumerate_sorted: "sorted_wrt (\<lambda>x y. fst x < fst y) (enumerate_idx xs)"
  by (auto simp: enumerate_idx_def sorted_wrt_iff_nth_less)

lemma candidates_sorted: "sorted_wrt (\<lambda>x y. fst x < fst y) (candidates_for host entry)"
  unfolding candidates_for_def by (rule sorted_wrt_filter [OF enumerate_sorted])

lemma scored_mem:
  "(s, i) \<in> set (scored host cs) \<longleftrightarrow> (\<exists>a. (i, a) \<in> set cs \<and> score host (requires_of_asset a) = Some s)"
  by (induction cs) (auto simp: scored_def map_filter_simps split: option.splits)

lemma scored_sorted:
  "sorted_wrt (\<lambda>x y. fst x < fst y) cs \<Longrightarrow> sorted_wrt (\<lambda>x y. snd x < snd y) (scored host cs)"
proof (induction cs)
  case Nil
  then show ?case by (simp add: scored_def map_filter_simps)
next
  case (Cons c cs)
  obtain i a where c: "c = (i, a)" by (cases c)
  have tl: "sorted_wrt (\<lambda>x y. snd x < snd y) (scored host cs)" using Cons by simp
  have "\<forall>x \<in> set (scored host cs). i < snd x"
    using Cons.prems c by (fastforce simp: scored_mem)
  with tl c show ?case
    by (cases "score host (requires_of_asset a)") (simp_all add: scored_def map_filter_simps)
qed

lemma best_first_best:
  assumes "sorted_wrt (\<lambda>x y. snd x < snd y) xs"
  shows "map_option snd (best_by_rank xs) = Some i \<longleftrightarrow> first_best_at xs i"
proof
  assume "map_option snd (best_by_rank xs) = Some i"
  then obtain s where b: "best_by_rank xs = Some (s, i)" by auto
  have "t \<le> s" "\<not> (j < i \<and> t = s)" if "(t, j) \<in> set xs" for t j
    using rk.pick_greatest [OF b that] rk.pick_earliest [where key = id, OF b _ that] assms by auto
  then show "first_best_at xs i"
    using rk.pick_member [OF b] unfolding first_best_at_def list_all_iff by blast
next
  assume "first_best_at xs i"
  then obtain s where s: "(s, i) \<in> set xs" "\<And>t j. (t, j) \<in> set xs \<Longrightarrow> t \<le> s"
      "\<And>t j. (t, j) \<in> set xs \<Longrightarrow> \<not> (j < i \<and> t = s)"
    unfolding first_best_at_def list_all_iff by blast
  then obtain u j where b: "best_by_rank xs = Some (u, j)"
    using rk.pick_total [of xs] by fastforce
  have "u = s"
    using rk.pick_greatest [OF b s(1)] s(2) [OF rk.pick_member [OF b]] by simp
  moreover have "\<not> j < i" using s(3) [OF rk.pick_member [OF b]] \<open>u = s\<close> by blast
  moreover have "\<not> i < j"
    using rk.pick_earliest [where key = id, OF b _ s(1)] assms \<open>u = s\<close> by auto
  ultimately show "map_option snd (best_by_rank xs) = Some i" using b by simp
qed

lemma select_subprocess_core:
  "select semver G S d host entry = Some (SelSubprocess i) \<longleftrightarrow>
     contract_block semver G d entry = None \<and> ib_kind entry = ''subprocess''
     \<and> list_all (\<lambda>(_, a). \<not> gfx_panics a) (candidates_for host entry)
     \<and> first_best_at (scored host (candidates_for host entry)) i"
proof -
  let ?cs = "candidates_for host entry"
  have fb: "map_option snd (best_by_rank (scored host ?cs)) = Some i
      \<longleftrightarrow> first_best_at (scored host ?cs) i"
    by (rule best_first_best [OF scored_sorted [OF candidates_sorted]])
  have nil: "\<not> first_best_at (scored host []) i"
    by (simp add: first_best_at_def scored_def map_filter_simps)
  have ex: "list_ex (\<lambda>(_, a). gfx_panics a) ?cs \<longleftrightarrow> \<not> list_all (\<lambda>(_, a). \<not> gfx_panics a) ?cs"
    by (auto simp: list_ex_iff list_all_iff)
  have best: "(case best_by_rank (scored host ?cs) of
        Some (_, idx) \<Rightarrow> Some (SelSubprocess idx)
      | None \<Rightarrow> Some (SelIncompatible r)) = Some (SelSubprocess i)
      \<longleftrightarrow> first_best_at (scored host ?cs) i" for r
    unfolding fb [symmetric] by (cases "best_by_rank (scored host ?cs)") auto
  show ?thesis
  proof (cases "contract_block semver G d entry = None \<and> ib_kind entry = ''subprocess''")
    case True
    then show ?thesis
      unfolding select_def Let_def ex using best nil by (cases "?cs = []") auto
  next
    case False
    then show ?thesis by (auto simp: select_def split: option.splits)
  qed
qed


subsection \<open>Selecting the files, declaratively\<close>

text \<open>The destinations of a model in the order the loop meets them, each once.\<close>

fun fresh_dests :: "string list \<Rightarrow> file_spec list \<Rightarrow> string list" where
  "fresh_dests seen [] = []"
| "fresh_dests seen (f # fs) =
     (if fs_destination f \<in> set seen then fresh_dests seen fs
      else fs_destination f # fresh_dests (seen @ [fs_destination f]) fs)"

definition served :: "'rv host \<Rightarrow> 'm model_entry \<Rightarrow> string \<Rightarrow> file_spec option" where
  "served host model dest = map_option snd (best_variant host (variants_of model dest))"

definition unserved :: "'rv host \<Rightarrow> 'm model_entry \<Rightarrow> string \<Rightarrow> bool" where
  "unserved host model dest =
     (served host model dest = None \<and> \<not> list_all fs_optional (variants_of model dest))"



lemma fresh_dests_all_new:
  "distinct (map fs_destination fs) \<Longrightarrow> set seen \<inter> fs_destination ` set fs = {} \<Longrightarrow>
     fresh_dests seen fs = map fs_destination fs"
  by (induction seen fs rule: fresh_dests.induct) auto

lemma select_files_loop_eq:
  "select_files_loop S host model seen chosen fs =
     (case find (unserved host model) (fresh_dests seen fs) of
        Some d \<Rightarrow> Inl (unusable_reason S host d (variants_of model d))
      | None \<Rightarrow> Inr (chosen @ List.map_filter (served host model) (fresh_dests seen fs)))"
proof (induction S host model seen chosen fs rule: select_files_loop.induct)
  case (1 S host model seen chosen)
  then show ?case by (simp add: map_filter_simps)
next
  case (2 S host model seen chosen f fs)
  let ?d = "fs_destination f"
  show ?case
  proof (cases "?d \<in> set seen")
    case True
    with 2(1) [OF refl] show ?thesis by (simp split: option.split)
  next
    case new: False
    show ?thesis
    proof (cases "best_variant host (variants_of model ?d)")
      case (Some b)
      then obtain s g where b: "best_variant host (variants_of model ?d) = Some (s, g)"
        by (cases b) auto
      then have sv: "served host model ?d = Some g" by (simp add: served_def)
      then have "\<not> unserved host model ?d" by (simp add: unserved_def)
      with new b sv 2(3) [OF refl new refl b refl] show ?thesis
        by (simp add: Let_def map_filter_simps split: option.split)
    next
      case None
      then have sv: "served host model ?d = None" by (simp add: served_def)
      show ?thesis
      proof (cases "list_all fs_optional (variants_of model ?d)")
        case True
        then have "\<not> unserved host model ?d" by (simp add: unserved_def)
        with new None sv True 2(2) [OF refl new refl None True] show ?thesis
          by (simp add: Let_def map_filter_simps split: option.split)
      next
        case False
        then have "unserved host model ?d" using sv by (simp add: unserved_def)
        with new None False show ?thesis by (simp add: Let_def)
      qed
    qed
  qed
qed




text \<open>What the loop answers, over the model's destinations.\<close>

lemma select_files_eq:
  "select_files S host model =
     (case find (unserved host model) (fresh_dests [] (me_files model)) of
        Some d \<Rightarrow> Inl (unusable_reason S host d (variants_of model d))
      | None \<Rightarrow> Inr (List.map_filter (served host model) (fresh_dests [] (me_files model))))"
  unfolding select_files_def select_files_loop_eq append_Nil ..





subsection \<open>Properties\<close>

text \<open>
  The family of a rank says exactly what the host can run: CUDA or ROCm is native, Vulkan is
  next, Metal counts as native where no usable Vulkan is declared beside it, the CPU is the last
  resort, and a candidate gets no rank iff it declares nothing this host has.
\<close>

theorem score_reflects_host:
  "map_option fst (score host r) =
     (if cuda_usable host r \<or> rocm_usable host r then Some rank_native
      else if vulkan_usable host r then Some rank_vulkan
      else if metal_usable host r then Some rank_native
      else if Cpu \<in> set (rq_accel r) then Some rank_cpu
      else None)
   \<and> rank_cpu < rank_vulkan \<and> rank_vulkan < rank_native"
  by (intro conjI score_family_core) (simp_all add: rank_cpu_def rank_vulkan_def rank_native_def)


text \<open>
  Every answer of \<open>select\<close> is one its callers can act on: an entry without a reason against it
  has an asset to show and install, one with a reason has none, and the daemon is called too old
  exactly when the entry's contract does not parse, whatever the host, the kind or the assets.
\<close>

theorem select_answers_are_usable:
  "(case select semver G S d host entry of
      None \<Rightarrow> list_ex gfx_panics (ixa_subprocess (ib_assets entry))
    | Some sel \<Rightarrow> (selection_reason sel = None \<longleftrightarrow> to_selected_asset entry sel \<noteq> None))
   \<and> ((\<exists>reason. select semver G S d host entry = Some (SelNeedsClientUpdate reason))
        \<longleftrightarrow> is_err (generation_from_str G (ib_contract entry)))"
proof -
  let ?sel = "select semver G S d host entry"
  let ?cs = "candidates_for host entry"
  have cand: "i < length (ixa_subprocess (ib_assets entry))
      \<and> ixa_subprocess (ib_assets entry) ! i = a" if "(i, a) \<in> set ?cs" for i a
    using that by (auto simp: candidates_for_def in_set_enumerate_idx)
  have "case ?sel of
      None \<Rightarrow> list_ex gfx_panics (ixa_subprocess (ib_assets entry))
    | Some sel \<Rightarrow> (selection_reason sel = None \<longleftrightarrow> to_selected_asset entry sel \<noteq> None)"
  proof (cases ?sel)
    case None
    then have "list_ex (\<lambda>(_, a). gfx_panics a) ?cs"
      by (auto simp: select_def Let_def split: option.splits if_splits)
    then obtain i a where "(i, a) \<in> set ?cs" "gfx_panics a" by (auto simp: list_ex_iff)
    then have "list_ex gfx_panics (ixa_subprocess (ib_assets entry))"
      using cand [of i a] by (auto simp: list_ex_iff)
    with None show ?thesis by simp
  next
    case (Some sel)
    have "selection_reason sel = None \<longleftrightarrow> to_selected_asset entry sel \<noteq> None"
    proof (cases sel)
      case SelWasm
      with Some have "ixa_wasm (ib_assets entry) \<noteq> None"
        by (auto simp: select_def Let_def split: option.splits if_splits)
      with SelWasm show ?thesis by (auto simp: selection_reason_def to_selected_asset_def)
    next
      case (SelSubprocess i)
      with Some have "first_best_at (scored host ?cs) i" by (simp add: select_subprocess_core)
      then obtain s a where "(i, a) \<in> set ?cs" by (auto simp: first_best_at_def scored_mem)
      with SelSubprocess cand [of i a] show ?thesis
        by (auto simp: selection_reason_def to_selected_asset_def Let_def)
    qed (simp_all add: selection_reason_def to_selected_asset_def)
    with Some show ?thesis by simp
  qed
  moreover have "(\<exists>reason. ?sel = Some (SelNeedsClientUpdate reason))
      \<longleftrightarrow> contract_block semver G d entry \<noteq> None"
    by (cases "contract_block semver G d entry")
      (auto simp: select_def Let_def split: option.splits if_splits)
  moreover have "contract_block semver G d entry \<noteq> None
      \<longleftrightarrow> is_err (generation_from_str G (ib_contract entry))"
    by (simp add: contract_block_def Let_def)
  ultimately show ?thesis by blast
qed


text \<open>
  A manifest without selectors is served unchanged on every host: where no file names an
  accelerator and no two share a destination, all of them are chosen, in the order declared.
\<close>

theorem unconditional_files_unchanged:
  assumes "list_all (\<lambda>f. \<not> is_conditional f) (me_files model)"
    and "distinct (map fs_destination (me_files model))"
  shows "select_files S host model = Inr (me_files model)"
proof -
  have ds: "fresh_dests [] (me_files model) = map fs_destination (me_files model)"
    using assms(2) by (simp add: fresh_dests_all_new)
  have one: "variants_of model (fs_destination f) = [f]" if "f \<in> set (me_files model)" for f
  proof -
    have "filter (\<lambda>g. fs_destination g = fs_destination f) fs = [f]"
      if "distinct (map fs_destination fs)" "f \<in> set fs" for fs
      using that by (induction fs) (auto simp: filter_empty_conv image_iff)
    with assms(2) that show ?thesis by (simp add: variants_of_def)
  qed
  have served: "served host model (fs_destination f) = Some f" if "f \<in> set (me_files model)" for f
    using assms(1) that one [OF that]
    by (simp add: served_def best_variant_def map_filter_simps best_by_rank_def score_file_def list_all_iff)
  then have "find (unserved host model) (map fs_destination (me_files model)) = None"
    by (auto simp: find_None_iff unserved_def)
  moreover have "List.map_filter (served host model) (map fs_destination fs) = fs"
    if "set fs \<subseteq> set (me_files model)" for fs
    using that by (induction fs) (simp_all add: map_filter_simps served)
  ultimately show ?thesis by (simp add: select_files_eq ds)
qed

theorem unconditional_files_unchanged_witness:
  "select_files
     \<lparr>show_target = (\<lambda>_. ''gfx''), show_vulkan_version = (\<lambda>_. ''1.3''), show_rocm_version = (\<lambda>_ :: unit. ''6'')\<rparr>
     \<lparr>h_target_triple = ''t'', h_cuda = None, h_rocm = None, h_vulkan = None,
       h_metal = False\<rparr>
     \<lparr>me_name = ''m'', me_multilingual = False, me_primary_language = ''en'',
      me_supported_languages = [], me_supported_devices = [DevCpu], me_estimated_vram_bytes = 0,
      me_processing_interval_ms = None, me_realtime = False,
      me_files =
        [\<lparr>fs_url = ''u'', fs_destination = ''a'', fs_sha256 = None, fs_accel = [],
          fs_cuda_major = None, fs_cuda_sm = [], fs_gfx = [], fs_vulkan_api = None, fs_optional = False\<rparr>,
         \<lparr>fs_url = ''v'', fs_destination = ''b'', fs_sha256 = None, fs_accel = [],
          fs_cuda_major = None, fs_cuda_sm = [], fs_gfx = [], fs_vulkan_api = None, fs_optional = True\<rparr>],
      me_prepare_files = [], me_provider = None, me_product = ()\<rparr>
   = Inr
        [\<lparr>fs_url = ''u'', fs_destination = ''a'', fs_sha256 = None, fs_accel = [],
          fs_cuda_major = None, fs_cuda_sm = [], fs_gfx = [], fs_vulkan_api = None, fs_optional = False\<rparr>,
         \<lparr>fs_url = ''v'', fs_destination = ''b'', fs_sha256 = None, fs_accel = [],
          fs_cuda_major = None, fs_cuda_sm = [], fs_gfx = [], fs_vulkan_api = None, fs_optional = True\<rparr>]"
  by (subst unconditional_files_unchanged) (simp_all add: is_conditional_def)

end
