(* ===== verification/Daemon_Install.thy ===== *)
theory Daemon_Install
  imports Daemon_Backends Daemon_Download Daemon_Compat
begin

section \<open>The install pipeline\<close>

text \<open>
  \<open>super-engine-daemon/src/registry/install.rs\<close>, from the request to the swap: the download and its
  checks, the extraction of the archive, the pinned manifest, the local import, and the order they
  run in. The crates enter as \<open>install_env\<close>: the digest, the gzip and tar readers (the entries of an
  archive, what unpacking one does), the JSON text of the install record, the UTF-8 check.
\<close>

record tar_entry =
  te_path :: "string option"
  te_symlink :: bool
  te_size :: u64

record install_env =
  ie_sha :: "string \<Rightarrow> string"
  ie_entries :: "string \<Rightarrow> tar_entry option list option"
  ie_unpack :: "tar_entry \<Rightarrow> path \<Rightarrow> (pipe, io_kind, unit) action"
  ie_record :: "selected_asset \<Rightarrow> string"
  ie_utf8 :: "string \<Rightarrow> bool"

record pipeline =
  pp_backends_dir :: path
  pp_cache_dir :: path

type_synonym 'a install_step = "(pipe, install_phase \<times> install_error, 'a) action"

definition record_file :: string where
  "record_file = ''installed.json''"

subsection \<open>The artifact\<close>

definition typed_io :: "install_phase \<Rightarrow> (pipe, io_kind, 'a) action \<Rightarrow> 'a install_step" where
  "typed_io phase m = io_map_err (\<lambda>e. as_typed phase (PIo e)) m"

definition download_and_verify ::
  "install_env \<Rightarrow> ('p, 'f) index_backend \<Rightarrow> selection \<Rightarrow> path \<Rightarrow> unit install_step" where
  "download_and_verify E entry sel partial =
     io_then (on_progress Downloading (Some (0, None))) (\<lambda>_.
     case sel of
       SelWasm \<Rightarrow>
         (case ixa_wasm (ib_assets entry) of
            None \<Rightarrow> io_fail (Resolving, InstIncompatible)
          | Some a \<Rightarrow>
              io_then (io_map_err (as_typed Downloading)
                  (stream_download (ie_sha E) (ia_url a) (ia_size a) partial)) (\<lambda>actual.
              io_then (on_progress Verifying None) (\<lambda>_.
              verify_asset_sha actual (ia_sha256 a) partial)))
     | SelSubprocess i \<Rightarrow>
         (if i \<ge> length (ixa_subprocess (ib_assets entry)) then io_fail (Resolving, InstIncompatible)
          else let a = ixa_subprocess (ib_assets entry) ! i in
            if isa_parts a = [] then
              (case isa_url a of
                 None \<Rightarrow> io_fail (Resolving, InstIncompatible)
               | Some url \<Rightarrow>
                   io_then (io_map_err (as_typed Downloading)
                       (stream_download (ie_sha E) url (unwrap_or 0 (isa_size a)) partial)) (\<lambda>actual.
                   io_then (on_progress Verifying None) (\<lambda>_.
                   verify_asset_sha actual (unwrap_or [] (isa_sha256 a)) partial)))
            else
              io_then (io_map_err (as_typed Downloading)
                  (download_verified_parts (ie_sha E) (isa_parts a) partial)) (\<lambda>_.
              on_progress Verifying None))
     | SelIncompatible _ \<Rightarrow> io_fail (Resolving, InstIncompatible)
     | SelNeedsClientUpdate _ \<Rightarrow> io_fail (Resolving, InstIncompatible))"

fun tar_check :: "tar_entry option list \<Rightarrow> pipeline_error + unit" where
  "tar_check [] = Inr ()"
| "tar_check (None # rest) = Inl (PIo IoOther)"
| "tar_check (Some e # rest) =
     (case te_path e of
        None \<Rightarrow> Inl (PIo IoOther)
      | Some s \<Rightarrow>
          (case tar_entry_unsafe_reason s (te_symlink e) of
             Some reason \<Rightarrow> Inl (PTarUnsafe (Inl reason))
           | None \<Rightarrow> tar_check rest))"

fun tar_unpack ::
  "install_env \<Rightarrow> path \<Rightarrow> u64 \<Rightarrow> tar_entry option list \<Rightarrow> u64 \<Rightarrow> (pipe, pipeline_error, unit) action" where
  "tar_unpack E dest cap [] tot = io_pure ()"
| "tar_unpack E dest cap (None # rest) tot = io_fail (PIo IoOther)"
| "tar_unpack E dest cap (Some e # rest) tot =
     (case tar_budget_step (te_size e) tot cap of
        Inl b \<Rightarrow> io_fail (PTarUnsafe (Inr b))
      | Inr tot2 \<Rightarrow>
          io_then (io_map_err PIo (ie_unpack E e dest)) (\<lambda>_. tar_unpack E dest cap rest tot2))"

definition extract_tarball :: "install_env \<Rightarrow> path \<Rightarrow> path \<Rightarrow> (pipe, pipeline_error, unit) action" where
  "extract_tarball E src dest =
     io_then (io_look (\<lambda>fs. file_text fs src)) (\<lambda>bytes.
       case bytes of
         None \<Rightarrow> io_fail (PIo IoNotFound)
       | Some t \<Rightarrow>
           (case ie_entries E t of
              None \<Rightarrow> io_fail (PIo IoOther)
            | Some items \<Rightarrow>
                io_then (io_of (tar_check items)) (\<lambda>_.
                  tar_unpack E dest (unpack_cap (of_nat (length t))) items 0)))"

subsection \<open>The manifest\<close>

definition verify_manifest_bytes ::
  "('c::linorder, 'cap, 'm, 'i, 'f, 'pe) product \<Rightarrow> ('c, 'cap, 'm, 'f, 'te) toml_reader
     \<Rightarrow> install_env \<Rightarrow> string \<Rightarrow> string \<Rightarrow> ('p, 'f) index_backend
     \<Rightarrow> (install_phase \<times> install_error) + string" where
  "verify_manifest_bytes P T E bytes pin entry =
     (if pin \<noteq> [] \<and> \<not> sha256_matches (ie_sha E bytes) pin then Inl (Verifying, AssetHashMismatch)
      else if \<not> ie_utf8 E bytes then Inl (Installing, ManifestInvalid)
      else case parse_manifest P T bytes of
             Inl _ \<Rightarrow> Inl (Installing, ManifestInvalid)
           | Inr m \<Rightarrow>
               if is_err (validate_runtime m) then Inl (Installing, ManifestInvalid)
               else if bm_source (mf_backend m) \<noteq> ib_source entry then Inl (Installing, ManifestInvalid)
               else if bm_entrypoint (mf_backend m) \<noteq> ib_entrypoint entry
               then Inl (Installing, ManifestInvalid)
               else Inr bytes)"

definition fetch_verified_manifest ::
  "('c::linorder, 'cap, 'm, 'i, 'f, 'pe) product \<Rightarrow> ('c, 'cap, 'm, 'f, 'te) toml_reader
     \<Rightarrow> install_env \<Rightarrow> ('p, 'f) index_backend \<Rightarrow> index_asset \<Rightarrow> string install_step" where
  "fetch_verified_manifest P T E entry pin =
     io_then (io_map_err (as_typed Downloading) (download_manifest_bytes (ia_url pin))) (\<lambda>bytes.
       io_of (verify_manifest_bytes P T E bytes (ia_sha256 pin) entry))"

subsection \<open>The last phase\<close>

text \<open>From \<open>Installing\<close> to the swap, the same in \<open>run\<close> and \<open>run_local\<close>.\<close>

definition put_in_place ::
  "('c::linorder, 'cap, 'm, 'i, 'f, 'pe) product \<Rightarrow> ('c, 'cap, 'm, 'f, 'te) toml_reader
     \<Rightarrow> pipeline \<Rightarrow> ('p, 'g) index_backend \<Rightarrow> path \<Rightarrow> unit install_step" where
  "put_in_place P T pp entry staging =
     (let final = join_path (pp_backends_dir pp) (install_dir_name entry)
      in io_then (on_progress Installing None) (\<lambda>_.
         io_then (io_look (\<lambda>fs. ensure_dir_free_for P T fs final (ib_source entry))) (\<lambda>free.
           if \<not> free then io_fail (Installing, InstallDirConflict)
           else
             io_then (io_look (\<lambda>fs. unwrap_or final
                 (previous_dir_for P T fs (pp_backends_dir pp) (ib_source entry)))) (\<lambda>inherit_from.
             io_then (typed_io Installing (preserve_models P T staging inherit_from)) (\<lambda>_.
             typed_io Installing (swap_into_place staging final))))))"

definition staging_path :: "pipeline \<Rightarrow> ('p, 'f) index_backend \<Rightarrow> path" where
  "staging_path pp entry =
     join_path (join_path (pp_backends_dir pp) staging_dir_name)
       (install_dir_name entry @ ''-'' @ ib_version entry)"

definition fresh_staging :: "install_phase \<Rightarrow> path \<Rightarrow> unit install_step" where
  "fresh_staging phase staging =
     io_then (io_look (\<lambda>fs. path_exists fs staging)) (\<lambda>there.
     io_then (io_when there (io_ignore (remove_dir_all staging))) (\<lambda>_.
     typed_io phase (create_dir_all staging)))"

subsection \<open>run\<close>

definition partial_path :: "pipeline \<Rightarrow> ('p, 'f) index_backend \<Rightarrow> bool \<Rightarrow> path" where
  "partial_path pp entry kind_subdir =
     join_path (pp_cache_dir pp)
       (ib_id entry @ ''-'' @ ib_version entry @ ''.''
        @ (if kind_subdir then ''tar.gz'' else ''wasm'') @ ''.partial'')"

definition run_selected ::
  "('c::linorder, 'cap, 'm, 'i, 'f, 'pe) product \<Rightarrow> ('c, 'cap, 'm, 'f, 'te) toml_reader
     \<Rightarrow> install_env \<Rightarrow> pipeline \<Rightarrow> ('p, 'f) index_backend \<Rightarrow> selection \<Rightarrow> bool
     \<Rightarrow> string install_step" where
  "run_selected P T E pp entry sel kind_subdir =
     (let partial = partial_path pp entry kind_subdir; staging = staging_path pp entry
      in io_then (typed_io Downloading (create_dir_all (pp_cache_dir pp))) (\<lambda>_.
         io_then (download_and_verify E entry sel partial) (\<lambda>_.
         io_then (on_progress Extracting None) (\<lambda>_.
         io_then (fresh_staging Extracting staging) (\<lambda>_.
         io_then
           (if kind_subdir then io_map_err (as_typed Extracting) (extract_tarball E partial staging)
            else typed_io Extracting (copy_file partial (join_path staging (ib_entrypoint entry)))) (\<lambda>_.
         case ib_manifest entry of
           None \<Rightarrow> io_fail (Installing, ManifestInvalid)
         | Some pin \<Rightarrow>
             io_then (fetch_verified_manifest P T E entry pin) (\<lambda>toml_text.
             io_then (typed_io Installing (write_file (staging @ [''backend.toml'']) toml_text)) (\<lambda>_.
             io_then
               (case to_selected_asset entry sel of
                  None \<Rightarrow> io_pure ()
                | Some a \<Rightarrow> typed_io Installing (write_file (staging @ [record_file]) (ie_record E a))) (\<lambda>_.
             io_then (put_in_place P T pp entry staging) (\<lambda>_.
             io_then (io_ignore (remove_file partial)) (\<lambda>_.
             io_then (on_progress Rescanning None) (\<lambda>_.
             io_pure (ib_version entry)))))))))))))"

definition run_install ::
  "('c::linorder, 'cap, 'm, 'i, 'f, 'pe) product \<Rightarrow> ('c, 'cap, 'm, 'f, 'te) toml_reader
     \<Rightarrow> install_env \<Rightarrow> pipeline \<Rightarrow> ('p, 'f) index_backend \<Rightarrow> selection \<Rightarrow> string install_step" where
  "run_install P T E pp entry sel =
     io_then (on_progress Resolving None) (\<lambda>_.
     case sel of
       SelWasm \<Rightarrow> run_selected P T E pp entry sel False
     | SelSubprocess _ \<Rightarrow> run_selected P T E pp entry sel True
     | SelIncompatible _ \<Rightarrow> io_fail (Resolving, InstIncompatible)
     | SelNeedsClientUpdate _ \<Rightarrow> io_fail (Resolving, InstIncompatible))"

subsection \<open>run\_local\<close>

definition cachedir_tag :: string where
  "cachedir_tag = ''CACHEDIR.TAG''"

definition cachedir_tag_signature :: string where
  "cachedir_tag_signature = ''Signature: 8a477f597d28d172789f06886806bc55''"

definition is_cache_dir :: "files \<Rightarrow> path \<Rightarrow> bool" where
  "is_cache_dir fs dir =
     (case file_text fs (dir @ [cachedir_tag]) of
        None \<Rightarrow> False
      | Some t \<Rightarrow> take (length cachedir_tag_signature) t = cachedir_tag_signature)"

text \<open>
  The recursion follows the tree, so the fuel bounds its depth; \<open>CopyTooDeep\<close> is out of fuel, which
  the code does not have.
\<close>

datatype copy_error = CopyIo io_kind | CopyTooDeep

definition copy_entry ::
  "(path \<Rightarrow> path \<Rightarrow> ('z disk_scheme, copy_error, unit) action) \<Rightarrow> path \<Rightarrow> path \<Rightarrow> string
     \<Rightarrow> ('z disk_scheme, copy_error, unit) action" where
  "copy_entry descend src dst name =
     (if name = ''.git'' then io_pure ()
      else io_then (io_look (\<lambda>fs. (hm_get fs (src @ [name]), is_cache_dir fs (src @ [name]))))
        (\<lambda>(kind, cache).
           case kind of
             Some (ILink _) \<Rightarrow> io_fail (CopyIo IoInvalidData)
           | Some IDir \<Rightarrow> if cache then io_pure () else descend (src @ [name]) (dst @ [name])
           | _ \<Rightarrow> io_map_err CopyIo (copy_file (src @ [name]) (dst @ [name]))))"

fun copy_dir_recursive :: "nat \<Rightarrow> path \<Rightarrow> path \<Rightarrow> ('z disk_scheme, copy_error, unit) action" where
  "copy_dir_recursive 0 src dst = io_fail CopyTooDeep"
| "copy_dir_recursive (Suc n) src dst =
     io_then (io_map_err CopyIo (create_dir_all dst)) (\<lambda>_.
     io_then (io_look (\<lambda>fs. if is_dir fs src then Some (children fs src) else None)) (\<lambda>names.
       case names of
         None \<Rightarrow> io_fail (CopyIo IoNotFound)
       | Some ns \<Rightarrow> io_each (copy_entry (copy_dir_recursive n) src dst) ns))"

definition copy_needed :: "path \<Rightarrow> path \<Rightarrow> string \<times> bool \<Rightarrow> ('z disk_scheme, copy_error, unit) action" where
  "copy_needed src dst nr =
     (case nr of (name, required) \<Rightarrow>
       let origin = join_path src name; target = join_path dst name
       in io_then (io_look (\<lambda>fs. hm_get fs origin)) (\<lambda>kind.
            case kind of
              None \<Rightarrow> if required then io_fail (CopyIo IoNotFound) else io_pure ()
            | Some (ILink _) \<Rightarrow> io_fail (CopyIo IoInvalidData)
            | Some _ \<Rightarrow>
                io_then (io_map_err CopyIo (create_dir_all (parent_of target))) (\<lambda>_.
                io_map_err CopyIo (copy_file origin target))))"

definition copy_staged_backend ::
  "nat \<Rightarrow> path \<Rightarrow> path \<Rightarrow> string \<Rightarrow> string \<Rightarrow> ('z disk_scheme, copy_error, unit) action" where
  "copy_staged_backend fuel src dst kind entrypoint =
     (if kind = ''subprocess'' then copy_dir_recursive fuel src dst
      else if \<not> is_safe_relative_path entrypoint then io_fail (CopyIo IoInvalidData)
      else io_then (io_map_err CopyIo (create_dir_all dst)) (\<lambda>_.
           io_each (copy_needed src dst)
             [(''backend.toml'', True), (entrypoint, True), (record_file, False)]))"

definition run_local ::
  "('c::linorder, 'cap, 'm, 'i, 'f, 'pe) product \<Rightarrow> ('c, 'cap, 'm, 'f, 'te) toml_reader
     \<Rightarrow> nat \<Rightarrow> pipeline \<Rightarrow> ('p, 'f) index_backend \<Rightarrow> path \<Rightarrow> string install_step" where
  "run_local P T fuel pp entry src_dir =
     (let staging = staging_path pp entry
      in io_then (on_progress Resolving None) (\<lambda>_.
         io_then (fresh_staging Installing staging) (\<lambda>_.
         io_then (io_map_err (\<lambda>_. (Installing, InstallIoError))
           (copy_staged_backend fuel src_dir staging (ib_kind entry) (ib_entrypoint entry))) (\<lambda>_.
         io_then (put_in_place P T pp entry staging) (\<lambda>_.
         io_then (on_progress Rescanning None) (\<lambda>_.
         io_pure (ib_version entry)))))))"

subsection \<open>The archive\<close>

definition entry_safe :: "tar_entry option \<Rightarrow> bool" where
  "entry_safe item =
     (case item of
        None \<Rightarrow> False
      | Some e \<Rightarrow>
          (case te_path e of
             None \<Rightarrow> False
           | Some s \<Rightarrow> \<not> starts_with ''/'' s \<and> \<not> contains_str ''..'' s) \<and> \<not> te_symlink e)"

definition item_size :: "tar_entry option \<Rightarrow> nat" where
  "item_size item = (case item of None \<Rightarrow> 0 | Some e \<Rightarrow> unat (te_size e))"

lemma tar_check_ok: "tar_check items = Inr () \<longleftrightarrow> list_all entry_safe items"
  by (induction items rule: tar_check.induct)
    (auto simp: entry_safe_def tar_entry_unsafe_reason_def split: option.splits if_splits)

lemma tar_unpack_ok:
  "tar_unpack E dest cap items tot d = (d2, Inr ()) \<Longrightarrow> tot \<le> cap \<Longrightarrow>
    list_all (\<lambda>i. item_size i \<le> unat max_tarball_entry_bytes) items
    \<and> min (unat tot + sum_list (map item_size items)) (2 ^ 64 - 1) \<le> unat cap"
proof (induction items arbitrary: tot d)
  case Nil
  then show ?case by (simp add: word_le_nat_alt)
next
  case (Cons item items)
  show ?case
  proof (cases item)
    case None
    with Cons.prems show ?thesis by (simp add: io_fail_def)
  next
    case (Some e)
    with Cons.prems(1) obtain tot2 where step: "tar_budget_step (te_size e) tot cap = Inr tot2"
      by (cases "tar_budget_step (te_size e) tot cap") (auto simp: io_fail_def)
    then have b: "te_size e \<le> max_tarball_entry_bytes" "tot2 = sat_add tot (te_size e)" "tot2 \<le> cap"
      by (auto simp: tar_budget_step_ok)
    from Cons.prems(1) Some step obtain d1 where "tar_unpack E dest cap items tot2 d1 = (d2, Inr ())"
      by (auto elim!: io_then_cases)
    from Cons.IH [OF this b(3)] b show ?thesis
      by (auto simp: Some item_size_def unat_sat_add word_le_nat_alt min_def split: if_splits)
  qed
qed

lemma tar_unpack_never:
  "tar_unpack E dest cap items tot d = (d2, Inl e) \<Longrightarrow> e \<noteq> PTarUnsafe (Inl x)"
proof (induction items arbitrary: tot d)
  case Nil
  then show ?case by (simp add: io_pure_def)
next
  case (Cons item items)
  show ?case
  proof (cases item)
    case None
    with Cons.prems show ?thesis by (auto simp: io_fail_def)
  next
    case (Some a)
    show ?thesis
    proof (cases "tar_budget_step (te_size a) tot cap")
      case (Inl b)
      with Some Cons.prems show ?thesis by (auto simp: io_fail_def)
    next
      case (Inr tot2)
      with Some Cons.prems have "io_then (io_map_err PIo (ie_unpack E a dest))
          (\<lambda>_. tar_unpack E dest cap items tot2) d = (d2, Inl e)" by simp
      then show ?thesis
        by (cases rule: io_then_cases)
          (auto simp: io_map_err_def Cons.IH split: prod.splits sum.splits)
    qed
  qed
qed

lemma extraction_core:
  assumes run: "extract_tarball E src dest d = (d2, r)"
  shows "(case r of
        Inl (PTarUnsafe (Inl _)) \<Rightarrow> d2 = d
      | Inl _ \<Rightarrow> True
      | Inr _ \<Rightarrow>
          \<exists>t items. file_text (dk_files d) src = Some t \<and> ie_entries E t = Some items
            \<and> list_all entry_safe items
            \<and> list_all (\<lambda>i. item_size i \<le> 4 * 1024 * 1024 * 1024) items
            \<and> min (sum_list (map item_size items)) (2 ^ 64 - 1) \<le> unat (unpack_cap (of_nat (length t))))"
proof -
  note never = tar_unpack_never
  show ?thesis
  proof (cases "file_text (dk_files d) src")
    case None
    with run show ?thesis by (auto simp: extract_tarball_def io_look_then io_fail_def)
  next
    case (Some t)
    show ?thesis
    proof (cases "ie_entries E t")
      case None
      with run Some show ?thesis by (auto simp: extract_tarball_def io_look_then io_fail_def)
    next
      case items: (Some items)
      from run Some items
      have go: "io_then (io_of (tar_check items)) (\<lambda>_.
          tar_unpack E dest (unpack_cap (of_nat (length t))) items 0) d = (d2, r)"
        by (simp add: extract_tarball_def io_look_then)
      show ?thesis
      proof (cases "tar_check items")
        case (Inl e)
        with go have "d2 = d" "r = Inl e" by (simp_all add: io_then_def io_of_def)
        then show ?thesis by (simp split: pipeline_error.split sum.split)
      next
        case (Inr u)
        then have safe: "list_all entry_safe items" by (simp add: tar_check_ok)
        from go Inr have un: "tar_unpack E dest (unpack_cap (of_nat (length t))) items 0 d = (d2, r)"
          by (simp add: io_then_def io_of_def)
        show ?thesis
        proof (cases r)
          case (Inl e)
          with never un show ?thesis by (auto split: pipeline_error.split sum.split)
        next
          case (Inr u)
          with tar_unpack_ok [of E dest _ items 0 d d2] un Some items safe show ?thesis
            by (auto simp: max_tarball_entry_bytes_def)
        qed
      qed
    qed
  qed
qed

text \<open>
  C13. An archive that is refused for an unsafe name or a link has left nothing behind: the refusal
  comes before the first entry is unpacked. One that is extracted names only relative paths without
  \<open>..\<close>, holds no link, and unpacks within the budget, entry by entry and in total.
\<close>

theorem extraction_validates_first:
  "case extract_tarball E src dest d of (d2, r) \<Rightarrow>
     (case r of
        Inl (PTarUnsafe (Inl _)) \<Rightarrow> d2 = d
      | Inl _ \<Rightarrow> True
      | Inr _ \<Rightarrow>
          \<exists>t items. file_text (dk_files d) src = Some t \<and> ie_entries E t = Some items
            \<and> list_all entry_safe items
            \<and> list_all (\<lambda>i. item_size i \<le> 4 * 1024 * 1024 * 1024) items
            \<and> min (sum_list (map item_size items)) (2 ^ 64 - 1) \<le> unat (unpack_cap (of_nat (length t))))"
  using extraction_core by (auto split: prod.split)

subsection \<open>The bytes that are installed\<close>

text \<open>
  What the index lets a selection install: \<open>pinned\<close> holds of the bytes of the artifact.
\<close>

definition pinned :: "(string \<Rightarrow> string) \<Rightarrow> ('p, 'f) index_backend \<Rightarrow> selection \<Rightarrow> string \<Rightarrow> bool" where
  "pinned sha entry sel bytes =
     (case sel of
        SelWasm \<Rightarrow>
          (case ixa_wasm (ib_assets entry) of
             None \<Rightarrow> False
           | Some a \<Rightarrow> body_ok sha (ia_size a) (ia_sha256 a) bytes)
      | SelSubprocess i \<Rightarrow>
          i < length (ixa_subprocess (ib_assets entry))
          \<and> (let a = ixa_subprocess (ib_assets entry) ! i
             in if isa_parts a = []
                then body_ok sha (unwrap_or 0 (isa_size a)) (unwrap_or [] (isa_sha256 a)) bytes
                else \<exists>bodies. bytes = concat bodies
                       \<and> list_all2 (\<lambda>p b. body_ok sha (ia_size p) (ia_sha256 p) b) (isa_parts a) bodies)
      | _ \<Rightarrow> False)"

definition sizes_small :: "('p, 'f) index_backend \<Rightarrow> bool" where
  "sizes_small entry =
     ((case ixa_wasm (ib_assets entry) of None \<Rightarrow> True | Some a \<Rightarrow> unat (ia_size a) < 2 ^ 62)
      \<and> list_all (\<lambda>a. unat (unwrap_or 0 (isa_size a)) < 2 ^ 62 \<and> parts_small (isa_parts a))
          (ixa_subprocess (ib_assets entry)))"

lemma io_map_err_Inr: "io_map_err f m d = (d2, Inr a) \<longleftrightarrow> m d = (d2, Inr a)"
  by (auto simp: io_map_err_def split: prod.splits sum.splits)

lemma on_progress_then:
  "io_then (on_progress ph a) k d = k () (d\<lparr>pl_progress := pl_progress d @ [(ph, a)]\<rparr>)"
  by (simp add: io_then_def on_progress_def)

lemma verify_asset_ok:
  "verify_asset_sha actual pin p d = (d2, Inr ()) \<Longrightarrow> d2 = d \<and> (if pin = [] then True else sha256_matches actual pin)"
  by (auto simp: verify_asset_sha_def io_pure_def io_then_def io_ignore_def io_fail_def
      split: if_splits prod.splits)

lemma single_asset_pinned:
  assumes "io_then (io_map_err (as_typed Downloading) (stream_download sha url sz dest)) (\<lambda>actual.
      io_then (on_progress Verifying None) (\<lambda>_. verify_asset_sha actual pin dest)) d = (d2, Inr ())"
    and "small_net (pl_net d)" "unat sz < 2 ^ 62"
  shows "\<exists>bytes. hm_get (dk_files d2) dest = Some (IFile bytes) \<and> body_ok sha sz pin bytes"
proof -
  from assms(1) obtain d1 actual where dl: "stream_download sha url sz dest d = (d1, Inr actual)"
    and v: "io_then (on_progress Verifying None) (\<lambda>_. verify_asset_sha actual pin dest) d1 = (d2, Inr ())"
    by (rule io_then_cases) (auto simp: io_map_err_Inr)
  from v have v2: "verify_asset_sha actual pin dest (d1\<lparr>pl_progress := pl_progress d1 @ [(Verifying, None)]\<rparr>)
      = (d2, Inr ())" by (simp add: on_progress_then)
  from stream_download_ok [OF dl assms(2,3)] obtain items where
    "hm_get (dk_files d1) dest = Some (IFile (delivered items))" "actual = sha (delivered items)"
    "length (delivered items) \<le> unat (download_cap sz)" by blast
  with verify_asset_ok [OF v2] show ?thesis by (auto simp: body_ok_def)
qed

text \<open>
  C8. A download that is accepted is the one the index pins: the file holds the single asset's
  bytes, or the parts' bytes joined in the listed order, each within the cap for its declared size
  and each with the digest its pin names; nothing is accepted for an entry that lists no asset.
\<close>

theorem accepted_download_is_pinned:
  assumes "download_and_verify E entry sel partial d = (d2, Inr ())"
    and "small_net (pl_net d)" "sizes_small entry"
  shows "\<exists>bytes. hm_get (dk_files d2) partial = Some (IFile bytes) \<and> pinned (ie_sha E) entry sel bytes"
proof -
  let ?d = "d\<lparr>pl_progress := pl_progress d @ [(Downloading, Some (0, None))]\<rparr>"
  have net: "small_net (pl_net ?d)" using assms(2) by simp
  show ?thesis
  proof (cases sel)
    case SelWasm
    with assms(1) obtain a where a: "ixa_wasm (ib_assets entry) = Some a"
      by (auto simp: download_and_verify_def on_progress_then io_fail_def split: option.splits)
    with assms(1) SelWasm
    have "io_then (io_map_err (as_typed Downloading) (stream_download (ie_sha E) (ia_url a) (ia_size a) partial))
      (\<lambda>actual. io_then (on_progress Verifying None) (\<lambda>_. verify_asset_sha actual (ia_sha256 a) partial)) ?d
        = (d2, Inr ())"
      by (simp add: download_and_verify_def on_progress_then)
    from single_asset_pinned [OF this net] assms(3) a SelWasm show ?thesis
      by (auto simp: pinned_def sizes_small_def)
  next
    case (SelSubprocess i)
    with assms(1) have i: "i < length (ixa_subprocess (ib_assets entry))"
      by (auto simp: download_and_verify_def on_progress_then io_fail_def split: if_splits)
    let ?a = "ixa_subprocess (ib_assets entry) ! i"
    have small: "unat (unwrap_or 0 (isa_size ?a)) < 2 ^ 62" "parts_small (isa_parts ?a)"
      using assms(3) i by (auto simp: sizes_small_def list_all_length)
    show ?thesis
    proof (cases "isa_parts ?a = []")
      case True
      with assms(1) SelSubprocess i obtain url where url: "isa_url ?a = Some url"
        by (auto simp: download_and_verify_def on_progress_then io_fail_def Let_def split: option.splits)
      with assms(1) SelSubprocess i True
      have "io_then (io_map_err (as_typed Downloading)
            (stream_download (ie_sha E) url (unwrap_or 0 (isa_size ?a)) partial))
          (\<lambda>actual. io_then (on_progress Verifying None)
             (\<lambda>_. verify_asset_sha actual (unwrap_or [] (isa_sha256 ?a)) partial)) ?d = (d2, Inr ())"
        by (simp add: download_and_verify_def on_progress_then Let_def)
      from single_asset_pinned [OF this net small(1)] SelSubprocess i True show ?thesis
        by (auto simp: pinned_def Let_def)
    next
      case False
      with assms(1) SelSubprocess i
      have "io_then (io_map_err (as_typed Downloading) (download_verified_parts (ie_sha E) (isa_parts ?a) partial))
          (\<lambda>_. on_progress Verifying None) ?d = (d2, Inr ())"
        by (simp add: download_and_verify_def on_progress_then Let_def)
      then obtain d1 where dl: "download_verified_parts (ie_sha E) (isa_parts ?a) partial ?d = (d1, Inr ())"
        and same: "dk_files d2 = dk_files d1"
        by (elim io_then_cases) (auto simp: io_map_err_Inr on_progress_def)
      from download_verified_parts_ok [OF dl net small(2)] same SelSubprocess i False show ?thesis
        by (auto simp: pinned_def Let_def)
    qed
  qed (use assms(1) in \<open>auto simp: download_and_verify_def on_progress_then io_fail_def\<close>)
qed

subsection \<open>A sample install\<close>

text \<open>
  An install of the subprocess archive of \<open>org.x.y\<close> over an older one: one server, which answers with
  the archive and then with the manifest.
\<close>

definition demo_env :: install_env where
  "demo_env =
     \<lparr>ie_sha = (\<lambda>t. t),
      ie_entries = (\<lambda>_. Some [Some \<lparr>te_path = Some ''y'', te_symlink = False, te_size = 1\<rparr>]),
      ie_unpack = (\<lambda>e dest. write_file (dest @ [unwrap_or [] (te_path e)]) ''x''),
      ie_record = (\<lambda>_. ''record''), ie_utf8 = (\<lambda>_. True)\<rparr>"

definition demo_entry :: "string \<Rightarrow> string \<Rightarrow> index_assets \<Rightarrow> (string, nat) index_backend" where
  "demo_entry version entrypoint assets =
     \<lparr>ib_id = ''x-y'', ib_backend_id = Some ''org.x.y'', ib_source = ''github.com/x/y'', ib_version = version,
      ib_tag = ''v1'', ib_name = ''y'', ib_description = None, ib_license = [], ib_kind = ''subprocess'',
      ib_contract = ''v2'', ib_min_client = None, ib_entrypoint = entrypoint, ib_allowed_hosts = [],
      ib_online = False, ib_supports_gpu = False, ib_supports_cpu = True, ib_models = [],
      ib_secrets = [], ib_options = [], ib_assets = assets, ib_index_stale = None,
      ib_manifest = Some \<lparr>ia_url = ''https://h/m'', ia_size = 3, ia_sha256 = ''doc''\<rparr>\<rparr>"

definition demo_archive :: index_assets where
  "demo_archive =
     \<lparr>ixa_wasm = None,
      ixa_subprocess =
        [\<lparr>isa_target = ''x86_64'', isa_accel = [''cpu''], isa_cuda_major = None, isa_cuda_sm = None,
          isa_cudnn = False, isa_gfx = [], isa_vulkan_api = None, isa_url = Some ''https://h/a'',
          isa_size = Some 3, isa_sha256 = Some ''tgz'', isa_parts = []\<rparr>]\<rparr>"

definition demo_pipeline :: pipeline where
  "demo_pipeline = \<lparr>pp_backends_dir = [''b''], pp_cache_dir = [''c'']\<rparr>"

definition demo_pipe :: pipe where
  "demo_pipe =
     \<lparr>dk_files = [([''b''], IDir), ([''b'', ''org.x.y''], IDir),
        ([''b'', ''org.x.y'', ''backend.toml''], IFile ''doc'')],
      dk_faults = [], dk_trace = [],
      pl_net = [NetBody (Some 3) [Some ''tgz''], NetBody None [Some ''doc'']],
      pl_asked = [], pl_bytes = 0, pl_progress = []\<rparr>"

lemma demo_download_ok:
  "snd (download_and_verify demo_env (demo_entry ''1.0.1'' ''bin/y'' demo_archive) (SelSubprocess 0) [''p''] demo_pipe)
     = Inr ()"
  by code_simp

theorem accepted_download_is_pinned_witness:
  "\<exists>bytes. hm_get (dk_files (fst (download_and_verify demo_env (demo_entry ''1.0.1'' ''bin/y'' demo_archive)
       (SelSubprocess 0) [''p''] demo_pipe))) [''p''] = Some (IFile bytes)
     \<and> pinned (\<lambda>t. t) (demo_entry ''1.0.1'' ''bin/y'' demo_archive) (SelSubprocess 0) bytes"
proof -
  have "small_net (pl_net demo_pipe)" "sizes_small (demo_entry ''1.0.1'' ''bin/y'' demo_archive)"
    by (simp_all add: demo_pipe_def small_net_def small_chunks_def sizes_small_def demo_entry_def
        demo_archive_def parts_small_def unwrap_or_def)
  then show ?thesis
    using accepted_download_is_pinned [where sel = "SelSubprocess 0" and partial = "[''p'']" and d = demo_pipe
        and E = demo_env and entry = "demo_entry ''1.0.1'' ''bin/y'' demo_archive",
        OF surjective_pairing [THEN trans]] demo_download_ok
    by (simp add: demo_env_def prod_eq_iff)
qed

end
