(* ===== verification/Daemon_InstallSafe.thy ===== *)
theory Daemon_InstallSafe
  imports Daemon_Install
begin

section \<open>What an install does to the catalog\<close>

text \<open>
  The abstract specification of an install, and the proof that \<open>run\<close> implements it. The catalog of a
  backends directory says which source each child serves; an install of \<open>source\<close> into \<open>name\<close> sets
  that one entry, or fails and leaves the catalog as it was, and every state on the way is one of
  the two or has the old entry at the sidecar.
\<close>

definition catalog ::
  "('c::linorder, 'cap, 'm, 'i, 'f, 'pe) product \<Rightarrow> ('c, 'cap, 'm, 'f, 'te) toml_reader
     \<Rightarrow> path \<Rightarrow> files \<Rightarrow> string \<Rightarrow> string option" where
  "catalog P T base fs n = serves P T fs (base @ [n])"

definition installing ::
  "('c::linorder, 'cap, 'm, 'i, 'f, 'pe) product \<Rightarrow> ('c, 'cap, 'm, 'f, 'te) toml_reader
     \<Rightarrow> path \<Rightarrow> string \<Rightarrow> string \<Rightarrow> files \<Rightarrow> files \<Rightarrow> bool" where
  "installing P T base name source a t =
     ((\<forall>n. n \<notin> {staging_dir_name, name, name @ ''.old''} \<longrightarrow> catalog P T base t n = catalog P T base a n)
      \<and> (catalog P T base t name = catalog P T base a name
         \<or> catalog P T base t name = Some source
         \<or> catalog P T base t name = None \<and> catalog P T base t (name @ ''.old'') = catalog P T base a name))"

definition settled ::
  "('c::linorder, 'cap, 'm, 'i, 'f, 'pe) product \<Rightarrow> ('c, 'cap, 'm, 'f, 'te) toml_reader
     \<Rightarrow> path \<Rightarrow> files \<Rightarrow> files \<Rightarrow> bool" where
  "settled P T base a t = (\<forall>n. n \<noteq> staging_dir_name \<longrightarrow> catalog P T base t n = catalog P T base a n)"

text \<open>The setting of an install: where it works, and what the archive reader promises.\<close>

definition install_paths :: "pipeline \<Rightarrow> ('p, 'f) index_backend \<Rightarrow> bool" where
  "install_paths pp entry =
     (apart (pp_cache_dir pp) (pp_backends_dir pp)
      \<and> is_safe_component (install_dir_name entry)
      \<and> install_dir_name entry \<noteq> staging_dir_name
      \<and> is_safe_component (install_dir_name entry @ ''-'' @ ib_version entry)
      \<and> (\<forall>b. is_safe_component (ib_id entry @ ''-'' @ ib_version entry @ ''.''
            @ (if b then ''tar.gz'' else ''wasm'') @ ''.partial''))
      \<and> is_safe_relative_path (ib_entrypoint entry))"

definition unpack_confined :: "install_env \<Rightarrow> bool" where
  "unpack_confined E =
     (\<forall>e dest. keeps (\<lambda>q. under dest q \<or> under q dest) (ie_unpack E e dest) \<and> roots (ie_unpack E e dest))"

definition work_area :: "pipeline \<Rightarrow> path \<Rightarrow> path \<Rightarrow> bool" where
  "work_area pp staging q =
     (under staging q \<or> under q staging \<or> under (pp_cache_dir pp) q \<or> under q (pp_cache_dir pp))"

lemma serves_get:
  "hm_get a (dir @ [''backend.toml'']) = hm_get b (dir @ [''backend.toml'']) \<Longrightarrow> serves P T a dir = serves P T b dir"
  by (simp add: serves_def load_dir_def file_text_def)

lemma serves_tree: "tree_at a p = tree_at b q \<Longrightarrow> serves P T a p = serves P T b q"
  by (drule fun_cong [of _ _ "[''backend.toml'']"])
    (simp add: serves_def load_dir_def file_text_def tree_at_def)

lemma serves_none: "tree_at a p = (\<lambda>_. None) \<Longrightarrow> serves P T a p = None"
  by (drule fun_cong [of _ _ "[''backend.toml'']"])
    (simp add: serves_def load_dir_def file_text_def tree_at_def)

subsection \<open>Where the paths are\<close>

lemma staging_path_eq:
  assumes "install_paths pp entry"
  shows "staging_path pp entry =
    pp_backends_dir pp @ [staging_dir_name, install_dir_name entry @ ''-'' @ ib_version entry]"
proof -
  have "is_safe_component staging_dir_name" by code_simp
  with assms show ?thesis by (simp add: staging_path_def join_component install_paths_def)
qed

lemma final_path_eq:
  "install_paths pp entry \<Longrightarrow>
    join_path (pp_backends_dir pp) (install_dir_name entry) = pp_backends_dir pp @ [install_dir_name entry]"
  by (simp add: join_component install_paths_def)

lemma partial_path_eq:
  "install_paths pp entry \<Longrightarrow> \<exists>c. partial_path pp entry b = pp_cache_dir pp @ [c]"
  by (auto simp: partial_path_def join_component install_paths_def)

lemma not_work_area:
  assumes "install_paths pp entry" "n \<noteq> staging_dir_name"
  shows "\<not> work_area pp (staging_path pp entry) (pp_backends_dir pp @ n # r)"
proof -
  have "apart (pp_cache_dir pp) (pp_backends_dir pp)" using assms(1) by (simp add: install_paths_def)
  then have "\<not> under (pp_cache_dir pp) (pp_backends_dir pp @ n # r)"
    "\<not> under (pp_backends_dir pp @ n # r) (pp_cache_dir pp)"
    using apart_join [of "pp_cache_dir pp" "pp_backends_dir pp" "n # r"] under_up
    by (auto simp: apart_def)
  with assms show ?thesis by (auto simp: work_area_def staging_path_eq under_def)
qed

lemma settled_frame:
  assumes "install_paths pp entry" "agree_off (work_area pp (staging_path pp entry)) a t"
  shows "settled P T (pp_backends_dir pp) a t"
  unfolding settled_def catalog_def
proof (intro allI impI)
  fix n
  assume "n \<noteq> staging_dir_name"
  from not_work_area [OF assms(1) this, of "[''backend.toml'']"] assms(2)
  show "serves P T t (pp_backends_dir pp @ [n]) = serves P T a (pp_backends_dir pp @ [n])"
    by (intro serves_get) (simp add: agree_off_def)
qed

lemma settled_trans: "settled P T base a b \<Longrightarrow> settled P T base b c \<Longrightarrow> settled P T base a c"
  by (simp add: settled_def)

subsection \<open>Before the last phase\<close>

lemma roots_progress [roots_rules, simp]: "roots (on_progress ph a)"
  by (simp add: roots_def on_progress_def)

lemma roots_net [roots_rules, simp]: "roots (http_get url)" "roots (set_bytes n)" "roots (count_chunk tot n)"
  by (auto simp: roots_def http_get_def set_bytes_def count_chunk_def on_progress_def Let_def
      split: list.split net_answer.split)

lemma roots_stream:
  "roots (stream_body_to_writer sha (append_file dest) cap (\<lambda>_. False) (count_chunk tot) items n h)"
proof (induction items arbitrary: n h)
  case Nil
  then show ?case by simp
next
  case (Cons item items)
  show ?case
  proof (cases item)
    case None
    then show ?thesis by (simp add: roots_def)
  next
    case (Some chunk)
    let ?k = "io_then (io_map_err StreamIo (append_file dest chunk)) (\<lambda>_.
        io_then (count_chunk tot (of_nat (length chunk))) (\<lambda>_.
        stream_body_to_writer sha (append_file dest) cap (\<lambda>_. False) (count_chunk tot) items
          (n + of_nat (length chunk)) (h @ chunk)))"
    have "roots ?k" by (auto intro!: roots_rules Cons.IH)
    with Some show ?thesis by (auto simp: roots_def Let_def)
  qed
qed

lemma roots_outcome: "roots (stream_outcome dest r)"
  unfolding stream_outcome_def
  by (auto intro!: roots_rules split: sum.split prod.split stream_error.split)

lemma roots_download [roots_rules]: "roots (stream_download sha url sz dest)"
  unfolding stream_download_def stream_to_file_def
  by (auto intro!: roots_rules roots_stream roots_outcome split: prod.split)

lemma roots_verify [roots_rules]: "roots (verify_asset_sha actual pin p)"
  unfolding verify_asset_sha_def by (auto intro!: roots_rules)

lemma roots_parts: "roots (download_parts sha tot dest parts)"
  by (induction parts) (auto intro!: roots_rules roots_stream roots_outcome simp: stream_to_file_def split: prod.split)

lemma roots_verified_parts [roots_rules]: "roots (download_verified_parts sha parts dest)"
  unfolding download_verified_parts_def by (auto intro!: roots_rules roots_parts)

lemma roots_download_and_verify [roots_rules]: "roots (download_and_verify E entry sel partial)"
  unfolding download_and_verify_def Let_def
  by (auto intro!: roots_rules split: selection.split option.split)

lemma keeps_download_and_verify [keeps_rules]: "R partial \<Longrightarrow> keeps R (download_and_verify E entry sel partial)"
  unfolding download_and_verify_def Let_def
  by (auto intro!: keeps_rules split: selection.split option.split)

lemma keeps_fresh [keeps_rules]:
  "(\<And>q. under s q \<or> under q s \<Longrightarrow> R q) \<Longrightarrow> keeps R (fresh_staging ph s)"
  unfolding fresh_staging_def typed_io_def by (auto intro!: keeps_rules)

lemma roots_fresh [roots_rules]: "roots (fresh_staging ph s)"
  unfolding fresh_staging_def typed_io_def by (auto intro!: roots_rules)

lemma tar_unpack_frame:
  assumes "unpack_confined E"
  shows "keeps (\<lambda>q. under dest q \<or> under q dest) (tar_unpack E dest cap items tot)"
    and "roots (tar_unpack E dest cap items tot)"
proof (induction items arbitrary: tot)
  case (Cons item items)
  note step = assms [unfolded unpack_confined_def, rule_format]
  {
    case 1
    show ?case
      by (cases item)
        (auto intro!: keeps_rules conjunct1 [OF step] Cons.IH(1) split: sum.split)
  next
    case 2
    show ?case
      by (cases item)
        (auto intro!: roots_rules conjunct2 [OF step] Cons.IH(2) split: sum.split)
  }
qed (auto intro: keeps_rules roots_rules)

lemma extract_frame:
  assumes "unpack_confined E"
  shows "(\<And>q. under dest q \<or> under q dest \<Longrightarrow> R q) \<Longrightarrow> keeps R (extract_tarball E src dest)"
    and "roots (extract_tarball E src dest)"
proof -
  have u: "keeps R (tar_unpack E dest cap items tot)"
    if "\<And>q. under dest q \<or> under q dest \<Longrightarrow> R q" for R cap items tot
    using tar_unpack_frame(1) [OF assms] that by (rule keeps_mono)
  show "(\<And>q. under dest q \<or> under q dest \<Longrightarrow> R q) \<Longrightarrow> keeps R (extract_tarball E src dest)"
    unfolding extract_tarball_def by (auto intro!: keeps_rules u split: option.split)
  show "roots (extract_tarball E src dest)"
    unfolding extract_tarball_def
    by (auto intro!: roots_rules tar_unpack_frame(2) [OF assms] split: option.split)
qed

lemma keeps_fetch [keeps_rules]: "keeps R (fetch_verified_manifest P T E entry pin)"
  unfolding fetch_verified_manifest_def by (auto intro!: keeps_rules)

lemma roots_fetch [roots_rules]: "roots (fetch_verified_manifest P T E entry pin)"
  unfolding fetch_verified_manifest_def download_manifest_bytes_def
  by (auto intro!: roots_rules split: prod.split)

subsection \<open>The invariant of the first phases\<close>

definition untouched ::
  "('c::linorder, 'cap, 'm, 'i, 'f, 'pe) product \<Rightarrow> ('c, 'cap, 'm, 'f, 'te) toml_reader
     \<Rightarrow> path \<Rightarrow> pipe \<Rightarrow> pipe \<Rightarrow> bool" where
  "untouched P T base d0 d =
     (through (settled P T base (dk_files d0)) d0 d \<and> rooted (dk_files d))"

lemma untouched_step:
  assumes "install_paths pp entry" "untouched P T (pp_backends_dir pp) d0 d"
    and "reached (work_area pp (staging_path pp entry)) d d2" "rooted (dk_files d) \<Longrightarrow> rooted (dk_files d2)"
  shows "untouched P T (pp_backends_dir pp) d0 d2"
proof -
  let ?S = "settled P T (pp_backends_dir pp)"
  have "through (?S (dk_files d)) d d2"
    using assms(3) unfolding reached_through by (rule through_mono) (rule settled_frame [OF assms(1)])
  then have "through (?S (dk_files d0)) d d2"
    using assms(2) by (auto simp: untouched_def dest: through_end elim!: through_mono intro: settled_trans)
  with assms(2,4) show ?thesis by (auto simp: untouched_def intro: through_trans)
qed

lemma hoare_work:
  assumes "install_paths pp entry" "keeps (work_area pp (staging_path pp entry)) m" "roots m"
  shows "hoare (untouched P T (pp_backends_dir pp) d0) m
    (\<lambda>_. untouched P T (pp_backends_dir pp) d0) (\<lambda>_. untouched P T (pp_backends_dir pp) d0)"
  using assms(2,3) untouched_step [OF assms(1)] by (rule hoare_frame)

lemma work_staging: "under (staging_path pp entry) q \<or> under q (staging_path pp entry) \<Longrightarrow>
    work_area pp (staging_path pp entry) q"
  by (auto simp: work_area_def)

lemma work_partial: "install_paths pp entry \<Longrightarrow> work_area pp s (partial_path pp entry b)"
  using partial_path_eq [of pp entry b] by (auto simp: work_area_def)

lemma work_cache: "under q (pp_cache_dir pp) \<Longrightarrow> work_area pp s q"
  by (simp add: work_area_def)

text \<open>The staged manifest is in place: it parses and names the source.\<close>

definition staged ::
  "('c::linorder, 'cap, 'm, 'i, 'f, 'pe) product \<Rightarrow> ('c, 'cap, 'm, 'f, 'te) toml_reader
     \<Rightarrow> pipeline \<Rightarrow> ('p, 'g) index_backend \<Rightarrow> pipe \<Rightarrow> pipe \<Rightarrow> bool" where
  "staged P T pp entry d0 d =
     (untouched P T (pp_backends_dir pp) d0 d
      \<and> serves P T (dk_files d) (staging_path pp entry) = Some (ib_source entry))"

lemma verified_text:
  "verify_manifest_bytes P T E bytes pin entry = Inr t \<Longrightarrow>
    \<exists>m. parse_manifest P T t = Inr m \<and> bm_source (mf_backend m) = ib_source entry"
  by (auto simp: verify_manifest_bytes_def split: if_splits sum.splits)

lemma hoare_fetch:
  assumes "install_paths pp entry"
  shows "hoare (untouched P T (pp_backends_dir pp) d0) (fetch_verified_manifest P T E entry pin)
    (\<lambda>_. untouched P T (pp_backends_dir pp) d0)
    (\<lambda>t d. untouched P T (pp_backends_dir pp) d0 d
        \<and> (\<exists>m. parse_manifest P T t = Inr m \<and> bm_source (mf_backend m) = ib_source entry))"
  unfolding fetch_verified_manifest_def
proof (rule hoare_then)
  show "hoare (untouched P T (pp_backends_dir pp) d0)
      (io_map_err (as_typed Downloading) (download_manifest_bytes (ia_url pin)))
      (\<lambda>_. untouched P T (pp_backends_dir pp) d0) (\<lambda>_. untouched P T (pp_backends_dir pp) d0)"
    unfolding download_manifest_bytes_def
    by (rule hoare_work [OF assms]; auto intro!: keeps_rules roots_rules split: prod.split)
qed (rule hoare_of, auto dest: verified_text)

lemma hoare_write_manifest:
  assumes ip: "install_paths pp entry"
  shows "hoare (\<lambda>d. untouched P T (pp_backends_dir pp) d0 d
        \<and> (\<exists>m. parse_manifest P T t = Inr m \<and> bm_source (mf_backend m) = ib_source entry))
    (typed_io Installing (write_file (staging_path pp entry @ [''backend.toml'']) t))
    (\<lambda>_. untouched P T (pp_backends_dir pp) d0) (\<lambda>_. staged P T pp entry d0)"
proof (rule hoareI)
  fix d d2 r
  let ?toml = "staging_path pp entry @ [''backend.toml'']"
  assume pre: "untouched P T (pp_backends_dir pp) d0 d
      \<and> (\<exists>m. parse_manifest P T t = Inr m \<and> bm_source (mf_backend m) = ib_source entry)"
    and run: "typed_io Installing (write_file ?toml t) d = (d2, r)"
  have "hoare (untouched P T (pp_backends_dir pp) d0) (typed_io Installing (write_file ?toml t))
      (\<lambda>_. untouched P T (pp_backends_dir pp) d0) (\<lambda>_. untouched P T (pp_backends_dir pp) d0)"
    unfolding typed_io_def
    by (rule hoare_work [OF ip]) (auto intro!: keeps_rules roots_rules work_staging)
  from hoareD [OF this run] pre have u: "untouched P T (pp_backends_dir pp) d0 d2"
    by (auto split: sum.splits)
  show "case r of Inl e \<Rightarrow> untouched P T (pp_backends_dir pp) d0 d2 | Inr a \<Rightarrow> staged P T pp entry d0 d2"
  proof (cases r)
    case (Inl e)
    with u show ?thesis by simp
  next
    case (Inr a)
    with run have "write_file ?toml t d = (d2, Inr a)" by (simp add: typed_io_def io_map_err_Inr)
    then have "hm_get (dk_files d2) ?toml = Some (IFile t)" by (rule write_file_ok)
    with pre have "serves P T (dk_files d2) (staging_path pp entry) = Some (ib_source entry)"
      by (auto simp: serves_def load_dir_def file_text_def)
    with u Inr show ?thesis by (simp add: staged_def)
  qed
qed

lemma hoare_record:
  assumes ip: "install_paths pp entry"
  shows "hoare (staged P T pp entry d0)
    (case to_selected_asset entry sel of
       None \<Rightarrow> io_pure ()
     | Some a \<Rightarrow> typed_io Installing (write_file (staging_path pp entry @ [record_file]) (ie_record E a)))
    (\<lambda>_. untouched P T (pp_backends_dir pp) d0) (\<lambda>_. staged P T pp entry d0)"
proof (cases "to_selected_asset entry sel")
  case None
  then show ?thesis by (simp add: hoare_pure)
next
  case (Some a)
  let ?w = "typed_io Installing (write_file (staging_path pp entry @ [record_file]) (ie_record E a))"
  have "hoare (staged P T pp entry d0) ?w (\<lambda>_. staged P T pp entry d0) (\<lambda>_. staged P T pp entry d0)"
  proof (rule hoare_frame)
    show "keeps (\<lambda>q. q = staging_path pp entry @ [record_file]) ?w"
      unfolding typed_io_def by (auto intro!: keeps_rules)
    show "roots ?w" unfolding typed_io_def by (auto intro!: roots_rules)
    fix d d2
    assume d: "staged P T pp entry d0 d"
      and r: "reached (\<lambda>q. q = staging_path pp entry @ [record_file]) d d2"
      and rt: "rooted (dk_files d) \<Longrightarrow> rooted (dk_files d2)"
    have "reached (work_area pp (staging_path pp entry)) d d2"
      using r by (rule reached_mono) (auto intro: work_staging)
    then have "untouched P T (pp_backends_dir pp) d0 d2"
      using d rt untouched_step [OF ip] unfolding staged_def by blast
    moreover have "serves P T (dk_files d2) (staging_path pp entry) = serves P T (dk_files d) (staging_path pp entry)"
      using r by (intro serves_get) (simp add: reached_def agree_off_def record_file_def)
    ultimately show "staged P T pp entry d0 d2" using d by (simp add: staged_def)
  qed
  with Some show ?thesis by (auto simp: staged_def elim: hoare_weaken)
qed

subsection \<open>Carrying the models over\<close>

lemma roots_carry: "roots (carry F T dests)"
proof -
  have one: "roots (carry_one F T dest)" for dest
    unfolding carry_one_def Let_def by (auto intro!: roots_rules split: prod.split)
  have "roots (carry_loop F T ds n)" for ds n
    by (induction ds arbitrary: n) (auto intro!: roots_rules one)
  then show ?thesis unfolding carry_def by (auto intro!: roots_rules)
qed

lemma roots_preserve [roots_rules]: "roots (preserve_models P T staging inherit_from)"
  unfolding preserve_models_def Let_def
  by (auto intro!: roots_rules roots_carry split: prod.split option.split)

lemma child_apart: "m \<noteq> n \<Longrightarrow> apart (base @ m # r) (base @ n # s)"
  by (simp add: apart_def under_def)

lemma serves_exists: "serves P T fs dir = Some s \<Longrightarrow> path_exists fs (dir @ [''backend.toml''])"
  by (auto simp: serves_def load_dir_def file_text_def path_exists_def split: option.splits inode.splits)

lemma carry_frame:
  "carry F T dests d = (d2, r) \<Longrightarrow> reached (\<lambda>q. under F q \<or> under T q \<or> under q T) d d2"
  by (rule keepsD [OF keeps_carry]) auto

lemma carry_settled:
  assumes paths: "install_paths pp entry" and k: "k \<noteq> staging_dir_name"
    and src: "serves P T (dk_files d) (staging_path pp entry) = Some s" and rt: "rooted (dk_files d)"
    and run: "carry (pp_backends_dir pp @ [k]) (staging_path pp entry) dests d = (d2, r)"
  shows "through (\<lambda>t. settled P T (pp_backends_dir pp) (dk_files d) t
      \<and> serves P T t (staging_path pp entry) = Some s) d d2"
proof -
  let ?base = "pp_backends_dir pp" and ?T = "staging_path pp entry"
  let ?F = "?base @ [k]"
  note T = staging_path_eq [OF paths]
  have apart: "apart ?F ?T" using k child_apart [of k staging_dir_name ?base "[]"] by (simp add: T)
  then have ap: "\<not> under ?F ?T" "\<not> under ?T ?F" by (simp_all add: apart_def)
  have toml: "path_exists (dk_files d) (?T @ [''backend.toml''])" using src by (rule serves_exists)
  let ?R = "\<lambda>q. under ?F q \<or> under ?T q \<or> under q ?T"
  from carry_frame [OF run] have frame: "through (agree_off ?R (dk_files d)) d d2"
    by (simp add: reached_through)
  have inv: "through (carry_inv ?F ?T (dk_files d)) d d2"
  proof (cases "list_all is_safe_relative_path dests")
    case True
    with run have "carry_loop ?F ?T dests 0 d = (d2, r)" by (simp add: carry_def)
    from carry_loop_inv [OF True carry_inv_start ap this] show ?thesis
      using dirs_above_rooted [OF rt] by blast
  next
    case False
    with run dirs_above_rooted [OF rt] show ?thesis
      by (simp add: carry_def io_fail_def through_refl carry_inv_start)
  qed
  show ?thesis
  proof (rule through_mono [OF through_conj [OF frame inv]])
    fix t
    assume t: "agree_off ?R (dk_files d) t \<and> carry_inv ?F ?T (dk_files d) t"
    have "serves P T t (?base @ [n]) = serves P T (dk_files d) (?base @ [n])" if n: "n \<noteq> staging_dir_name" for n
    proof (cases "n = k")
      case True
      from t toml have "hm_get t (?F @ [''backend.toml'']) = hm_get (dk_files d) (?F @ [''backend.toml''])"
        unfolding carry_inv_def by blast
      with True show ?thesis by (intro serves_get) simp
    next
      case False
      have "apart (?base @ [n]) ?F" "apart (?base @ [n]) ?T"
        using False n child_apart [of n k ?base "[]" "[]"] child_apart [of n staging_dir_name ?base "[]"]
        by (simp_all add: T)
      with t tree_apart [of ?F ?T "dk_files d" t "?base @ [n]"] show ?thesis by (intro serves_tree) simp
    qed
    moreover have "serves P T t ?T = serves P T (dk_files d) ?T"
      using t toml by (intro serves_get) (auto simp: carry_inv_def conserved_def)
    ultimately show "settled P T ?base (dk_files d) t \<and> serves P T t ?T = Some s"
      using src by (simp add: settled_def catalog_def)
  qed
qed

lemma preserve_staged:
  assumes paths: "install_paths pp entry" and k: "k \<noteq> staging_dir_name"
    and st: "staged P T pp entry d0 d"
    and run: "preserve_models P T (staging_path pp entry) (pp_backends_dir pp @ [k]) d = (d2, r)"
  shows "staged P T pp entry d0 d2"
proof -
  have rt: "rooted (dk_files d)" and u: "through (settled P T (pp_backends_dir pp) (dk_files d0)) d0 d"
    and src: "serves P T (dk_files d) (staging_path pp entry) = Some (ib_source entry)"
    using st by (auto simp: staged_def untouched_def)
  have rt2: "rooted (dk_files d2)" using rootsD [OF roots_preserve run rt] .
  have "d2 = d \<or> (\<exists>keep. carry (pp_backends_dir pp @ [k]) (staging_path pp entry) keep d = (d2, r))"
    using run by (auto simp: preserve_models_def io_look_then io_pure_def Let_def split: option.splits if_splits)
  then show ?thesis
  proof
    assume "\<exists>keep. carry (pp_backends_dir pp @ [k]) (staging_path pp entry) keep d = (d2, r)"
    then obtain keep where c: "carry (pp_backends_dir pp @ [k]) (staging_path pp entry) keep d = (d2, r)" ..
    note th = carry_settled [OF paths k src rt c]
    then have "through (settled P T (pp_backends_dir pp) (dk_files d0)) d d2"
      using through_end [OF u] by (auto elim!: through_mono intro: settled_trans)
    with u th rt2 show ?thesis
      by (auto simp: staged_def untouched_def dest: through_end intro: through_trans)
  qed (use st in simp)
qed

lemma previous_dir_child:
  "previous_dir_for P T fs base source = Some dir \<Longrightarrow> \<exists>k. dir = base @ [k] \<and> k \<noteq> staging_dir_name"
  by (auto simp: previous_dir_for_def find_serving_def read_dir_def dest!: find_SomeD split: if_splits)

subsection \<open>The last phase\<close>

lemma roots_swap [roots_rules]: "roots (swap_into_place staging final)"
  unfolding swap_into_place_def by (auto intro!: roots_rules split: sum.split)

lemma swap_frame:
  "swap_into_place staging final d = (d2, r) \<Longrightarrow>
    reached (\<lambda>q. under final q \<or> under staging q \<or> under (sidecar_of final) q) d d2"
  by (rule keepsD [OF keeps_swap])

lemma old_suffix: "x @ ''.old'' \<noteq> staging_dir_name"
proof
  assume "x @ ''.old'' = staging_dir_name"
  then have "last (x @ ''.old'') = last staging_dir_name" by simp
  then show False by (simp add: staging_dir_name_def)
qed

text \<open>How an install has ended, given the catalog it started from.\<close>

definition install_done ::
  "('c::linorder, 'cap, 'm, 'i, 'f, 'pe) product \<Rightarrow> ('c, 'cap, 'm, 'f, 'te) toml_reader
     \<Rightarrow> pipeline \<Rightarrow> ('p, 'g) index_backend \<Rightarrow> pipe \<Rightarrow> pipe \<Rightarrow> bool" where
  "install_done P T pp entry d0 d =
     (through (installing P T (pp_backends_dir pp) (install_dir_name entry) (ib_source entry) (dk_files d0)) d0 d
      \<and> catalog P T (pp_backends_dir pp) (dk_files d) (install_dir_name entry) = Some (ib_source entry)
      \<and> catalog P T (pp_backends_dir pp) (dk_files d0) (install_dir_name entry) \<in> {None, Some (ib_source entry)})"

definition install_passed ::
  "('c::linorder, 'cap, 'm, 'i, 'f, 'pe) product \<Rightarrow> ('c, 'cap, 'm, 'f, 'te) toml_reader
     \<Rightarrow> pipeline \<Rightarrow> ('p, 'g) index_backend \<Rightarrow> pipe \<Rightarrow> pipe \<Rightarrow> bool" where
  "install_passed P T pp entry d0 d =
     through (installing P T (pp_backends_dir pp) (install_dir_name entry) (ib_source entry) (dk_files d0)) d0 d"

text \<open>One that fails, and one that is refused because the child serves another source.\<close>

definition install_tried ::
  "('c::linorder, 'cap, 'm, 'i, 'f, 'pe) product \<Rightarrow> ('c, 'cap, 'm, 'f, 'te) toml_reader
     \<Rightarrow> pipeline \<Rightarrow> ('p, 'g) index_backend \<Rightarrow> pipe \<Rightarrow> pipe \<Rightarrow> bool" where
  "install_tried P T pp entry d0 d =
     (install_passed P T pp entry d0 d
      \<and> (if catalog P T (pp_backends_dir pp) (dk_files d0) (install_dir_name entry) \<in> {None, Some (ib_source entry)}
         then True else through (settled P T (pp_backends_dir pp) (dk_files d0)) d0 d))"

lemma settled_installing:
  "settled P T base a t \<Longrightarrow> n \<noteq> staging_dir_name \<Longrightarrow> installing P T base n s a t"
  by (simp add: settled_def installing_def)

lemma untouched_tried:
  "install_paths pp entry \<Longrightarrow> untouched P T (pp_backends_dir pp) d0 d \<Longrightarrow> install_tried P T pp entry d0 d"
  unfolding untouched_def install_tried_def install_passed_def
  by (auto elim!: through_mono intro: settled_installing simp: install_paths_def)

lemma swap_installs:
  assumes paths: "install_paths pp entry" and st: "staged P T pp entry d0 d"
    and run: "swap_into_place (staging_path pp entry) (pp_backends_dir pp @ [install_dir_name entry]) d = (d2, r)"
  shows "install_passed P T pp entry d0 d2
    \<and> (is_ok r \<longrightarrow> catalog P T (pp_backends_dir pp) (dk_files d2) (install_dir_name entry) = Some (ib_source entry))"
proof -
  let ?base = "pp_backends_dir pp" and ?st = "staging_path pp entry" and ?name = "install_dir_name entry"
  let ?final = "?base @ [?name]" and ?src = "ib_source entry" and ?a0 = "dk_files d0"
  have name: "?name \<noteq> staging_dir_name" using paths by (simp add: install_paths_def)
  note stp = staging_path_eq [OF paths]
  have side: "sidecar_of ?final = ?base @ [?name @ ''.old'']" by (simp add: sidecar_of_def)
  have ap: "apart ?st ?final" "apart ?st (sidecar_of ?final)"
    unfolding side stp using name old_suffix [of ?name]
      child_apart [of staging_dir_name ?name ?base] child_apart [of staging_dir_name "?name @ ''.old''" ?base]
    by auto
  have u: "through (settled P T ?base ?a0) d0 d" and src: "serves P T (dk_files d) ?st = Some ?src"
    using st by (auto simp: staged_def untouched_def)
  have ne: "?final \<noteq> []" by simp
  note safe = swap_crash_safe_core [OF ap ne run]
  let ?R = "\<lambda>q. under ?final q \<or> under ?st q \<or> under (sidecar_of ?final) q"
  have frame: "through (agree_off ?R (dk_files d)) d d2"
    using swap_frame [OF run] by (simp add: reached_through)
  have same: "catalog P T ?base (dk_files d) n = catalog P T ?base ?a0 n" if "n \<noteq> staging_dir_name" for n
    using through_end [OF u] that by (simp add: settled_def)
  have new: "catalog P T ?base t ?name = Some ?src" if "tree_at t ?final = tree_at (dk_files d) ?st" for t
    using serves_tree [OF that, where P = P and T = T] src by (simp add: catalog_def)
  have step: "through (installing P T ?base ?name ?src ?a0) d d2"
  proof (rule through_mono [OF through_conj [OF frame conjunct1 [OF safe]]])
    fix t
    assume t: "agree_off ?R (dk_files d) t \<and> swap_safe ?final (tree_at (dk_files d) ?final) (tree_at (dk_files d) ?st) t"
    have others: "catalog P T ?base t n = catalog P T ?base ?a0 n"
      if "n \<notin> {staging_dir_name, ?name, ?name @ ''.old''}" for n
    proof -
      have "\<not> ?R (?base @ [n] @ [''backend.toml''])"
        using that unfolding side stp by (auto simp: under_def)
      with t have "hm_get t ((?base @ [n]) @ [''backend.toml'']) = hm_get (dk_files d) ((?base @ [n]) @ [''backend.toml''])"
        by (simp add: agree_off_def)
      then have "serves P T t (?base @ [n]) = serves P T (dk_files d) (?base @ [n])" by (rule serves_get)
      with same [of n] that show ?thesis by (simp add: catalog_def)
    qed
    from t consider "tree_at t ?final = tree_at (dk_files d) ?final"
      | "tree_at t ?final = tree_at (dk_files d) ?st"
      | "tree_at t ?final = (\<lambda>_. None)" "tree_at t (sidecar_of ?final) = tree_at (dk_files d) ?final"
      by (auto simp: swap_safe_def)
    then have "catalog P T ?base t ?name = catalog P T ?base ?a0 ?name
        \<or> catalog P T ?base t ?name = Some ?src
        \<or> catalog P T ?base t ?name = None \<and> catalog P T ?base t (?name @ ''.old'') = catalog P T ?base ?a0 ?name"
    proof cases
      case 1
      from serves_tree [OF this, where P = P and T = T] same [OF name] show ?thesis by (simp add: catalog_def)
    next
      case 2
      with new show ?thesis by blast
    next
      case 3
      from serves_none [OF 3(1), where P = P and T = T] serves_tree [OF 3(2), where P = P and T = T] same [OF name] show ?thesis
        by (simp add: catalog_def side)
    qed
    with others show "installing P T ?base ?name ?src ?a0 t" by (simp add: installing_def)
  qed
  have "through (installing P T ?base ?name ?src ?a0) d0 d"
    using u by (rule through_mono) (rule settled_installing [OF _ name])
  with step have "install_passed P T pp entry d0 d2"
    unfolding install_passed_def by (rule through_trans [rotated])
  moreover have "catalog P T ?base (dk_files d2) ?name = Some ?src" if "is_ok r"
    using that safe new by (cases r) auto
  ultimately show ?thesis by blast
qed

lemma hoare_put_in_place:
  assumes paths: "install_paths pp entry"
  shows "hoare (staged P T pp entry d0) (put_in_place P T pp entry (staging_path pp entry))
    (\<lambda>_. install_tried P T pp entry d0) (\<lambda>_. install_done P T pp entry d0)"
proof (rule hoareI)
  fix d d2 :: pipe and r
  let ?base = "pp_backends_dir pp" and ?st = "staging_path pp entry" and ?name = "install_dir_name entry"
  let ?final = "?base @ [?name]"
  let ?d = "d\<lparr>pl_progress := pl_progress d @ [(Installing, None)]\<rparr>"
  assume st: "staged P T pp entry d0 d" and run: "put_in_place P T pp entry ?st d = (d2, r)"
  have name: "?name \<noteq> staging_dir_name" using paths by (simp add: install_paths_def)
  have st': "staged P T pp entry d0 ?d" using st by (simp add: staged_def untouched_def through_def)
  have tried: "install_tried P T pp entry d0 e" if "staged P T pp entry d0 e" for e
    using that untouched_tried [OF paths] unfolding staged_def by blast
  have init: "catalog P T ?base (dk_files d0) ?name = serves P T (dk_files d) ?final"
    using st name by (auto simp: staged_def untouched_def settled_def catalog_def dest!: through_end)
  let ?free = "ensure_dir_free_for P T (dk_files d) ?final (ib_source entry)"
  let ?inh = "unwrap_or ?final (previous_dir_for P T (dk_files d) ?base (ib_source entry))"
  have run2: "(if \<not> ?free then io_fail (Installing, InstallDirConflict)
      else io_then (typed_io Installing (preserve_models P T ?st ?inh)) (\<lambda>_.
           typed_io Installing (swap_into_place ?st ?final))) ?d = (d2, r)"
    using run by (cases ?free) (simp_all add: put_in_place_def Let_def final_path_eq [OF paths] on_progress_then io_look_then)
  show "case r of Inl e \<Rightarrow> install_tried P T pp entry d0 d2 | Inr a \<Rightarrow> install_done P T pp entry d0 d2"
  proof (cases ?free)
    case False
    with run2 tried [OF st'] show ?thesis by (auto simp: io_fail_def)
  next
    case True
    have "?inh = ?final \<or> (\<exists>k. ?inh = ?base @ [k] \<and> k \<noteq> staging_dir_name)"
      using previous_dir_child [of P T "dk_files d" ?base "ib_source entry"]
      by (cases "previous_dir_for P T (dk_files d) ?base (ib_source entry)") (auto simp: unwrap_or_def)
    then obtain k where k: "?inh = ?base @ [k]" "k \<noteq> staging_dir_name" using name by blast
    from run2 True k have chain: "io_then (typed_io Installing (preserve_models P T ?st (?base @ [k]))) (\<lambda>_.
           typed_io Installing (swap_into_place ?st ?final)) ?d = (d2, r)" by simp
    obtain d3 r3 where pm: "preserve_models P T ?st (?base @ [k]) ?d = (d3, r3)"
      by (cases "preserve_models P T ?st (?base @ [k]) ?d")
    note st3 = preserve_staged [OF paths k(2) st' pm]
    show ?thesis
    proof (cases r3)
      case (Inl e)
      with chain pm have "d2 = d3" "is_err r" by (auto simp: io_then_def typed_io_def io_map_err_def)
      with tried [OF st3] show ?thesis by (cases r) auto
    next
      case (Inr n)
      obtain d4 r4 where sw: "swap_into_place ?st ?final d3 = (d4, r4)" by (cases "swap_into_place ?st ?final d3")
      from chain pm Inr sw have d2: "d2 = d4" "is_ok r = is_ok r4"
        by (auto simp: io_then_def typed_io_def io_map_err_def split: sum.splits)
      note fin = swap_installs [OF paths st3 sw]
      have "catalog P T ?base (dk_files d0) ?name \<in> {None, Some (ib_source entry)}"
        using True unfolding init by (auto simp: ensure_dir_free_for_def serves_def split: option.splits)
      then show ?thesis
        using fin d2 by (auto simp: install_done_def install_tried_def install_passed_def split: sum.split)
    qed
  qed
qed

end
