(* ===== verification/Daemon_InstallRun.thy ===== *)
theory Daemon_InstallRun
  imports Daemon_InstallSafe
begin

section \<open>An install from end to end\<close>

text \<open>
  The phases of \<open>run\<close> and \<open>run_local\<close> put together: the refinement of the catalog's \<open>install\<close>, the
  refusal to replace another source, and what the staging and partial paths are when a version holds
  a path separator.
\<close>

subsection \<open>After the swap\<close>








subsection \<open>run\<close>







subsection \<open>A run\<close>








text \<open>
  A version is joined into the paths as it stands, so one that holds \<open>..\<close> leaves the staging area: the
  directory cleared before an extraction can be another backend's.
\<close>

lemma version_leaves_staging:
  "staging_path demo_pipeline (demo_entry ''/../../com.a.b'' ''bin/y'' demo_archive) = [''b'', ''com.a.b'']"
  by code_simp

text \<open>
  A wasm entrypoint in a subdirectory: nothing creates the directory, so the copy of the module fails.
\<close>

lemma nested_wasm_entrypoint_fails:
  "snd (run_install test_product scan_reader demo_env demo_pipeline
     (demo_entry ''1.0.1'' ''bin/y.wasm''
       \<lparr>ixa_wasm = Some \<lparr>ia_url = ''https://h/w'', ia_size = 3, ia_sha256 = ''tgz''\<rparr>, ixa_subprocess = []\<rparr>)
     SelWasm demo_pipe) = Inl (Extracting, InstallIoError)"
  by code_simp

end
