(* ===== verification/Auth_Identity.thy ===== *)
theory Auth_Identity
  imports Proto_Product
begin

section \<open>Who is calling\<close>

text \<open>
  \<open>auth/identity.rs\<close>, \<open>http/peer.rs\<close>, \<open>http/origins.rs\<close>, \<open>http/responses.rs\<close> and the flatpak reader
  of \<open>super-engine-protocol/src/sandbox.rs\<close>. What the operating system answers about a process is
  the record \<open>os_view\<close>: its executable, whether its root directory is ours, and the text of its
  \<open>.flatpak-info\<close>; each may be unreadable.
\<close>

subsection \<open>Identities\<close>

datatype peer_identity =
    Native string "string option"
  | Web string

definition native_identity :: "string \<Rightarrow> peer_identity" where
  "native_identity exe = Native exe None"

definition describe_identity :: "peer_identity \<Rightarrow> string" where
  "describe_identity i =
     (case i of
        Native exe (Some app) \<Rightarrow> ''flatpak '' @ app @ '' ('' @ exe @ '')''
      | Native exe None \<Rightarrow> exe
      | Web origin \<Rightarrow> ''web origin '' @ origin)"

record peer_info =
  pi_pid :: "u32 option"
  pi_uid :: "u32 option"
  pi_web_origin :: "string option"

definition peer_unix :: "u32 option \<Rightarrow> u32 option \<Rightarrow> peer_info" where
  "peer_unix pid uid = \<lparr>pi_pid = pid, pi_uid = uid, pi_web_origin = None\<rparr>"

definition peer_tcp :: peer_info where
  "peer_tcp = \<lparr>pi_pid = None, pi_uid = None, pi_web_origin = None\<rparr>"

definition client_id :: "peer_info \<Rightarrow> string" where
  "client_id p =
     (case pi_web_origin p of
        Some origin \<Rightarrow> ''web:'' @ origin
      | None \<Rightarrow>
          (case (pi_uid p, pi_pid p) of
             (Some uid, Some pid) \<Rightarrow> show_u32 uid @ '':'' @ show_u32 pid
           | (Some uid, None) \<Rightarrow> show_u32 uid @ '':?''
           | (None, Some pid) \<Rightarrow> ''?:'' @ show_u32 pid
           | (None, None) \<Rightarrow> ''unknown''))"

subsection \<open>The sandbox's own word\<close>

fun app_id_lines :: "bool \<Rightarrow> string list \<Rightarrow> string option" where
  "app_id_lines in_application [] = None"
| "app_id_lines in_application (l # ls) =
     (let line = trim l
      in if starts_with ''['' line then app_id_lines (line = ''[Application]'') ls
         else case (if in_application then strip_prefix ''name='' line else None) of
                Some v \<Rightarrow>
                  if trim v \<noteq> [] then Some (trim v) else app_id_lines in_application ls
              | None \<Rightarrow> app_id_lines in_application ls)"

definition app_id_from_info :: "string \<Rightarrow> string option" where
  "app_id_from_info contents = app_id_lines False (lines_of contents)"

text \<open>
  What \<open>/proc\<close> answers of a pid: the executable's path, the root directory's device and inode, ours,
  and the text of \<open>/.flatpak-info\<close> in the peer's root. \<open>None\<close> is an unreadable entry.
\<close>

record os_view =
  os_exe :: "u32 \<Rightarrow> string option"
  os_root :: "u32 \<Rightarrow> (nat \<times> nat) option"
  os_our_root :: "(nat \<times> nat) option"
  os_flatpak_info :: "u32 \<Rightarrow> string option"

definition peer_sandbox_app_id :: "os_view \<Rightarrow> u32 \<Rightarrow> unit + string option" where
  "peer_sandbox_app_id os pid =
     (case (os_root os pid, os_our_root os) of
        (Some peer_root, Some our_root) \<Rightarrow>
          if peer_root = our_root then Inr None
          else (case os_flatpak_info os pid of
                  None \<Rightarrow> Inl ()
                | Some info \<Rightarrow>
                    (case app_id_from_info info of
                       None \<Rightarrow> Inl ()
                     | Some app \<Rightarrow> Inr (Some app)))
      | _ \<Rightarrow> Inl ())"

definition peer_exe_path :: "os_view \<Rightarrow> u32 \<Rightarrow> string option" where
  "peer_exe_path os pid = os_exe os pid"

definition resolve_peer_identity :: "os_view \<Rightarrow> peer_info option \<Rightarrow> peer_identity option" where
  "resolve_peer_identity os peer =
     (case peer of
        None \<Rightarrow> None
      | Some p \<Rightarrow>
          (case pi_web_origin p of
             Some origin \<Rightarrow> Some (Web origin)
           | None \<Rightarrow>
               (case pi_pid p of
                  None \<Rightarrow> None
                | Some pid \<Rightarrow>
                    (case peer_exe_path os pid of
                       None \<Rightarrow> None
                     | Some exe \<Rightarrow>
                         (case peer_sandbox_app_id os pid of
                            Inl _ \<Rightarrow> None
                          | Inr app \<Rightarrow> Some (Native exe app))))))"

subsection \<open>Origins\<close>

definition any_origin :: string where
  "any_origin = ''*''"

definition is_origin_allowed :: "string list \<Rightarrow> string \<Rightarrow> bool" where
  "is_origin_allowed allowed origin = list_ex (\<lambda>a. a = any_origin \<or> a = origin) allowed"

definition admits_any_origin :: "string list \<Rightarrow> bool" where
  "admits_any_origin allowed = list_ex (\<lambda>a. a = any_origin) allowed"

lemma is_origin_allowed_iff:
  "is_origin_allowed allowed origin \<longleftrightarrow> any_origin \<in> set allowed \<or> origin \<in> set allowed"
  by (auto simp: is_origin_allowed_def list_ex_iff)

subsection \<open>Responses\<close>

text \<open>The bodies the guards answer with: a status, a message, and the \<open>reason\<close> when there is one.\<close>

record response =
  rs_status :: nat
  rs_message :: string
  rs_reason :: "string option"

definition reason_unknown :: string where "reason_unknown = ''unknown''"

definition reason_exe_changed :: string where "reason_exe_changed = ''exe_changed''"

definition reason_invalid_body :: string where "reason_invalid_body = ''invalid_body''"

definition reason_invalid_scope :: string where "reason_invalid_scope = ''invalid_scope''"

definition reason_uid_mismatch :: string where "reason_uid_mismatch = ''uid_mismatch''"

definition reason_user_denied_cached :: string where
  "reason_user_denied_cached = ''user_denied_cached''"

definition reason_user_denied :: string where "reason_user_denied = ''user_denied''"

definition reason_user_dismissed :: string where "reason_user_dismissed = ''user_dismissed''"

definition reason_popup_failed :: string where "reason_popup_failed = ''popup_failed''"

definition reason_peer_unverifiable :: string where
  "reason_peer_unverifiable = ''peer_unverifiable''"

definition reason_origin_not_allowed :: string where
  "reason_origin_not_allowed = ''origin_not_allowed''"

definition error_response :: "nat \<Rightarrow> string \<Rightarrow> string \<Rightarrow> response" where
  "error_response status message rsn =
     \<lparr>rs_status = status, rs_message = message, rs_reason = Some rsn\<rparr>"

definition invalid_session :: "string \<Rightarrow> response" where
  "invalid_session rsn = error_response 401 ''invalid_session'' rsn"

definition scope_denied :: response where
  "scope_denied = \<lparr>rs_status = 403, rs_message = ''scope_denied'', rs_reason = None\<rparr>"

definition rate_limited :: response where
  "rate_limited = \<lparr>rs_status = 429, rs_message = ''rate_limited'', rs_reason = None\<rparr>"

definition auth_err :: "nat \<Rightarrow> string \<Rightarrow> string \<Rightarrow> response" where
  "auth_err status message rsn = error_response status message rsn"

subsection \<open>Lemmas\<close>

lemma resolve_Web_iff:
  "resolve_peer_identity os peer = Some (Web w) \<longleftrightarrow> (\<exists>p. peer = Some p \<and> pi_web_origin p = Some w)"
  by (auto simp: resolve_peer_identity_def split: option.splits sum.splits)

lemma resolve_Native_iff:
  "resolve_peer_identity os peer = Some (Native exe app) \<longleftrightarrow>
     (\<exists>p pid. peer = Some p \<and> pi_web_origin p = None \<and> pi_pid p = Some pid
        \<and> os_exe os pid = Some exe \<and> peer_sandbox_app_id os pid = Inr app)"
  by (auto simp: resolve_peer_identity_def peer_exe_path_def split: option.splits sum.splits)

text \<open>
  Two callers share a rate bucket only if they are the same web origin or the same process and user.
  A unix peer's key starts with a digit or a question mark, a web peer's with \<open>web:\<close>.
\<close>

lemma show_u32_inj: "show_u32 a = show_u32 b \<longleftrightarrow> a = b"
  by (metis option.inject parse_u32_show)

lemma show_u32_no_colon: "CHR '':'' \<notin> set (show_u32 a)" "CHR ''?'' \<notin> set (show_u32 a)"
    "CHR ''w'' \<notin> set (show_u32 a)" "CHR ''u'' \<notin> set (show_u32 a)"
  using show_nat_ascii [of _ "unat a"] by (force simp: show_u32_def is_ascii_digit_def)+

lemma split_at_colon:
  "a @ CHR '':'' # b = c @ CHR '':'' # d \<Longrightarrow> CHR '':'' \<notin> set a \<Longrightarrow> CHR '':'' \<notin> set c \<Longrightarrow> a = c \<and> b = d"
  by (metis option.inject prod.inject split_once_iff)

definition half_id :: "u32 option \<Rightarrow> string" where
  "half_id v = (case v of Some n \<Rightarrow> show_u32 n | None \<Rightarrow> ''?'')"

lemma half_id_inj: "half_id a = half_id b \<longleftrightarrow> a = b"
proof -
  have "show_u32 n \<noteq> ''?''" for n using show_u32_no_colon(2) [of n] by auto
  then show ?thesis by (auto simp: half_id_def show_u32_inj split: option.splits) metis+
qed

lemma half_id_no_colon: "CHR '':'' \<notin> set (half_id a)" "CHR ''w'' \<notin> set (half_id a)"
    "CHR ''u'' \<notin> set (half_id a)"
  using show_u32_no_colon by (auto simp: half_id_def split: option.splits)

lemma client_id_unix:
  "pi_web_origin p = None \<Longrightarrow>
     client_id p = (if pi_uid p = None \<and> pi_pid p = None then ''unknown''
                    else half_id (pi_uid p) @ CHR '':'' # half_id (pi_pid p))"
  by (auto simp: client_id_def half_id_def split: option.splits)

lemma client_id_web: "pi_web_origin p = Some w \<Longrightarrow> client_id p = ''web'' @ CHR '':'' # w"
  by (simp add: client_id_def)

lemma client_id_web_unix:
  assumes "pi_web_origin p = Some w" and "pi_web_origin q = None"
  shows "client_id p \<noteq> client_id q"
proof
  assume eq: "client_id p = client_id q"
  show False
  proof (cases "pi_uid q = None \<and> pi_pid q = None")
    case True
    with eq assms show False by (simp add: client_id_web client_id_unix)
  next
    case False
    with eq assms
    have "''web'' @ CHR '':'' # w = half_id (pi_uid q) @ CHR '':'' # half_id (pi_pid q)"
      by (simp add: client_id_web client_id_unix)
    then have "''web'' = half_id (pi_uid q)"
      by (rule split_at_colon [THEN conjunct1]) (simp_all add: half_id_no_colon)
    then show False using half_id_no_colon(2) [of "pi_uid q"] by (metis list.set_intros(1))
  qed
qed

lemma client_id_unix_inj:
  assumes "pi_web_origin p = None" and "pi_web_origin q = None" and eq: "client_id p = client_id q"
  shows "pi_uid p = pi_uid q \<and> pi_pid p = pi_pid q"
proof -
  let ?anon = "\<lambda>r. pi_uid r = None \<and> pi_pid r = None"
  have colon: "CHR '':'' \<in> set (client_id r) \<longleftrightarrow> \<not> ?anon r" if "pi_web_origin r = None" for r
    using that by (simp add: client_id_unix)
  have iff: "?anon p \<longleftrightarrow> ?anon q" using eq colon [OF assms(1)] colon [OF assms(2)] by metis
  show ?thesis
  proof (cases "?anon p")
    case True
    with iff show ?thesis by simp
  next
    case False
    with iff have q: "\<not> ?anon q" by blast
    have "half_id (pi_uid p) @ CHR '':'' # half_id (pi_pid p)
        = half_id (pi_uid q) @ CHR '':'' # half_id (pi_pid q)"
      using eq unfolding client_id_unix [OF assms(1)] client_id_unix [OF assms(2)]
        if_not_P [OF False] if_not_P [OF q] .
    then have "half_id (pi_uid p) = half_id (pi_uid q) \<and> half_id (pi_pid p) = half_id (pi_pid q)"
      by (rule split_at_colon) (simp_all add: half_id_no_colon)
    then show ?thesis by (simp add: half_id_inj)
  qed
qed

subsection \<open>Properties\<close>

text \<open>
  The quota key tells callers apart: two peers have the same \<open>client_id\<close> exactly when they are
  the same web origin, or neither is a web peer and both their user and their process agree.
\<close>

theorem client_id_separates_callers:
  "client_id p = client_id q \<longleftrightarrow>
     (case (pi_web_origin p, pi_web_origin q) of
        (Some a, Some b) \<Rightarrow> a = b
      | (None, None) \<Rightarrow> pi_uid p = pi_uid q \<and> pi_pid p = pi_pid q
      | _ \<Rightarrow> False)"
proof (cases "pi_web_origin p"; cases "pi_web_origin q")
  show ?thesis if "pi_web_origin p = None" "pi_web_origin q = None"
    using client_id_unix_inj [OF that] that by (auto simp: client_id_unix)
  show ?thesis if "pi_web_origin p = None" "pi_web_origin q = Some b" for b
    using client_id_web_unix [OF that(2,1)] that by simp
  show ?thesis if "pi_web_origin p = Some a" "pi_web_origin q = None" for a
    using client_id_web_unix [OF that] that by simp
  show ?thesis if "pi_web_origin p = Some a" "pi_web_origin q = Some b" for a b
    using that by (simp add: client_id_web)
qed

text \<open>
  C36. The two kinds of identity never mix, and an unidentifiable caller has none: a web identity is
  exactly the origin the gate attached, a native one needs a pid, a readable executable and a root
  that is ours or names its flatpak, and a peer in another root never gets a host identity.
\<close>

theorem peer_identity_sound:
  "(resolve_peer_identity os peer = Some (Web w) \<longleftrightarrow> (\<exists>p. peer = Some p \<and> pi_web_origin p = Some w))
   \<and> (resolve_peer_identity os peer = Some (Native exe None) \<longleftrightarrow>
        (\<exists>p pid. peer = Some p \<and> pi_web_origin p = None \<and> pi_pid p = Some pid \<and> os_exe os pid = Some exe
           \<and> os_root os pid \<noteq> None \<and> os_root os pid = os_our_root os))
   \<and> (resolve_peer_identity os peer = Some (Native exe (Some app)) \<longleftrightarrow>
        (\<exists>p pid info. peer = Some p \<and> pi_web_origin p = None \<and> pi_pid p = Some pid \<and> os_exe os pid = Some exe
           \<and> os_root os pid \<noteq> None \<and> os_our_root os \<noteq> None \<and> os_root os pid \<noteq> os_our_root os
           \<and> os_flatpak_info os pid = Some info \<and> app_id_from_info info = Some app))"
proof -
  have none: "peer_sandbox_app_id os pid = Inr None \<longleftrightarrow>
      os_root os pid \<noteq> None \<and> os_root os pid = os_our_root os" for pid
    by (auto simp: peer_sandbox_app_id_def split: option.splits)
  have some: "peer_sandbox_app_id os pid = Inr (Some app) \<longleftrightarrow>
      os_root os pid \<noteq> None \<and> os_our_root os \<noteq> None \<and> os_root os pid \<noteq> os_our_root os
      \<and> (\<exists>info. os_flatpak_info os pid = Some info \<and> app_id_from_info info = Some app)" for pid
    by (auto simp: peer_sandbox_app_id_def split: option.splits)
  show ?thesis unfolding resolve_Web_iff resolve_Native_iff none some by blast
qed

end
