(* ===== verification/Auth_Tokens.thy ===== *)
theory Auth_Tokens
  imports Auth_Identity SE_Hashmap
begin

section \<open>Session tokens and the secrets file\<close>

text \<open>
  \<open>secrets.rs\<close> and \<open>auth/tokens.rs\<close>. The secrets file is the state \<open>secrets\<close>, whose every change goes
  through \<open>secrets_update\<close>. The token store is a map with a mailbox of capacity one and a channel of
  wake and flush signals; a worker drains the channel and writes the mailbox's snapshot. Operations
  on the store hold its lock, so each is one step; the worker's loop is cut at every point where
  another thread can run, and the interleavings are the relation \<open>persist_step\<close>. Times are
  nanoseconds; the clock, the random token and the outcome of a write are inputs.
  \<open>submit\<close> fills the mailbox and then sends the wake; both are one step here, although the worker may
  take the snapshot between them, which only leaves a wake for an empty mailbox.
\<close>

subsection \<open>Tokens\<close>

record token_meta =
  tm_app_name :: string
  tm_scopes :: "string list"
  tm_grantee :: peer_identity
  tm_issued_at :: int
  tm_expires_at :: int

type_synonym tokens = "(string, token_meta) hmap"

definition tm_matches :: "token_meta \<Rightarrow> peer_identity \<Rightarrow> bool" where
  "tm_matches meta i = (tm_grantee meta = i)"

definition describe_grantee :: "token_meta \<Rightarrow> string" where
  "describe_grantee meta = describe_identity (tm_grantee meta)"

subsection \<open>The secrets file\<close>

record contents =
  co_sessions :: tokens
  co_backend_secrets :: "(string, (string, string) hmap) hmap"

definition empty_contents :: contents where
  "empty_contents = \<lparr>co_sessions = hm_empty, co_backend_secrets = hm_empty\<rparr>"

text \<open>\<open>se_file\<close> is what the file holds, if there is one: a write replaces it as a whole or not at all.\<close>

record secrets =
  se_path :: "string option"
  se_contents :: contents
  se_file :: "contents option"

datatype 'io secrets_error =
    SecretsRead 'io
  | SecretsWrite 'io

text \<open>
  What opening the path finds: no file, an unreadable one, one that parses, or one that does not and
  is moved aside (which may fail).
\<close>

datatype 'io opened =
    NoFile
  | Unreadable 'io
  | Parsed contents
  | Garbled "'io option"

definition secrets_at :: "string \<Rightarrow> 'io opened \<Rightarrow> 'io secrets_error + secrets" where
  "secrets_at path found =
     (case found of
        Parsed c \<Rightarrow> Inr \<lparr>se_path = Some path, se_contents = c, se_file = Some c\<rparr>
      | Garbled (Some e) \<Rightarrow> Inl (SecretsRead e)
      | Garbled None \<Rightarrow> Inr \<lparr>se_path = Some path, se_contents = empty_contents, se_file = None\<rparr>
      | NoFile \<Rightarrow> Inr \<lparr>se_path = Some path, se_contents = empty_contents, se_file = None\<rparr>
      | Unreadable e \<Rightarrow> Inl (SecretsRead e))"

definition secrets_in_memory :: secrets where
  "secrets_in_memory = \<lparr>se_path = None, se_contents = empty_contents, se_file = None\<rparr>"

definition secrets_update ::
  "'io option \<Rightarrow> (contents \<Rightarrow> contents) \<Rightarrow> secrets \<Rightarrow> secrets \<times> ('io secrets_error + unit)" where
  "secrets_update io change sec =
     (let new = change (se_contents sec)
      in if se_path sec = None then (sec\<lparr>se_contents := new\<rparr>, Inr ())
         else case io of
                Some e \<Rightarrow> (sec, Inl (SecretsWrite e))
              | None \<Rightarrow> (sec\<lparr>se_contents := new, se_file := Some new\<rparr>, Inr ()))"

definition get_backend_secret :: "string \<Rightarrow> string \<Rightarrow> secrets \<Rightarrow> string option" where
  "get_backend_secret source name sec =
     (case hm_get (co_backend_secrets (se_contents sec)) source of
        None \<Rightarrow> None
      | Some m \<Rightarrow> hm_get m name)"

definition has_backend_secret :: "string \<Rightarrow> string \<Rightarrow> secrets \<Rightarrow> bool" where
  "has_backend_secret source name sec = (get_backend_secret source name sec \<noteq> None)"

definition put_backend_secret :: "string \<Rightarrow> string \<Rightarrow> string \<Rightarrow> contents \<Rightarrow> contents" where
  "put_backend_secret source name v c =
     (let m = (case hm_get (co_backend_secrets c) source of None \<Rightarrow> hm_empty | Some m \<Rightarrow> m)
      in c\<lparr>co_backend_secrets := hm_insert source (hm_insert name v m) (co_backend_secrets c)\<rparr>)"

definition drop_backend_secret :: "string \<Rightarrow> string \<Rightarrow> contents \<Rightarrow> contents" where
  "drop_backend_secret source name c =
     (case hm_get (co_backend_secrets c) source of
        None \<Rightarrow> c
      | Some m \<Rightarrow>
          let m2 = hm_remove name m
          in if m2 = [] then c\<lparr>co_backend_secrets := hm_remove source (co_backend_secrets c)\<rparr>
             else c\<lparr>co_backend_secrets := hm_insert source m2 (co_backend_secrets c)\<rparr>)"

definition set_backend_secret ::
  "'io option \<Rightarrow> string \<Rightarrow> string \<Rightarrow> string \<Rightarrow> secrets \<Rightarrow> secrets \<times> ('io secrets_error + unit)" where
  "set_backend_secret io source name v sec = secrets_update io (put_backend_secret source name v) sec"

definition delete_backend_secret ::
  "'io option \<Rightarrow> string \<Rightarrow> string \<Rightarrow> secrets \<Rightarrow> secrets \<times> ('io secrets_error + unit)" where
  "delete_backend_secret io source name sec = secrets_update io (drop_backend_secret source name) sec"

definition set_sessions :: "'io option \<Rightarrow> tokens \<Rightarrow> secrets \<Rightarrow> secrets \<times> ('io secrets_error + unit)" where
  "set_sessions io ts sec = secrets_update io (\<lambda>c. c\<lparr>co_sessions := ts\<rparr>) sec"

subsection \<open>The token store\<close>

text \<open>A flush carries the sender's acknowledgement, named by a number.\<close>

datatype persist_msg = Wake | Flush nat

record token_store =
  st_tokens :: tokens
  st_mailbox :: "tokens option"
  st_chan :: "persist_msg list"

definition empty_store :: token_store where
  "empty_store = \<lparr>st_tokens = hm_empty, st_mailbox = None, st_chan = []\<rparr>"

text \<open>\<open>SessionPersister::submit\<close> of the map as it is, under the store's lock.\<close>

definition submit :: "token_store \<Rightarrow> token_store" where
  "submit st =
     (let newly_pending = (st_mailbox st = None)
      in st\<lparr>st_mailbox := Some (st_tokens st),
            st_chan := (if newly_pending then st_chan st @ [Wake] else st_chan st)\<rparr>)"

definition thirty_days :: int where
  "thirty_days = 30 * 24 * 3600 * 1000000000"

definition mint ::
  "string \<Rightarrow> int \<Rightarrow> string \<Rightarrow> string list \<Rightarrow> peer_identity \<Rightarrow> token_store \<Rightarrow> token_store \<times> (string \<times> int)" where
  "mint token now app_name scopes i st =
     (let expires_at = now + thirty_days;
          meta = \<lparr>tm_app_name = app_name, tm_scopes = scopes, tm_grantee = i, tm_issued_at = now,
                  tm_expires_at = expires_at\<rparr>
      in (submit (st\<lparr>st_tokens := hm_insert token meta (st_tokens st)\<rparr>), (token, expires_at)))"

definition validate_token :: "int \<Rightarrow> string \<Rightarrow> token_store \<Rightarrow> token_store \<times> (string + token_meta)" where
  "validate_token now token st =
     (case hm_get (st_tokens st) token of
        None \<Rightarrow> (st, Inl ''unknown'')
      | Some meta \<Rightarrow>
          if tm_expires_at meta < now
          then (submit (st\<lparr>st_tokens := hm_remove token (st_tokens st)\<rparr>), Inl ''expired'')
          else (st, Inr meta))"

definition revoke :: "string \<Rightarrow> token_store \<Rightarrow> token_store" where
  "revoke token st =
     (if hm_contains (st_tokens st) token
      then submit (st\<lparr>st_tokens := hm_remove token (st_tokens st)\<rparr>)
      else st)"

text \<open>\<open>load_persisted\<close>: what is live, and the file rewritten when something was pruned.\<close>

definition load_persisted :: "'io option \<Rightarrow> int \<Rightarrow> secrets \<Rightarrow> secrets \<times> token_store" where
  "load_persisted io now sec =
     (let loaded = co_sessions (se_contents sec);
          live = hm_retain (\<lambda>_ meta. tm_expires_at meta > now) loaded;
          pruned = hm_len loaded - hm_len live
      in ((if pruned > 0 then fst (set_sessions io live sec) else sec),
          empty_store\<lparr>st_tokens := live\<rparr>))"

text \<open>\<open>generate_token\<close>: the 32 random bytes in lower case hexadecimal, two digits each.\<close>

definition hex_byte :: "u8 \<Rightarrow> string" where
  "hex_byte b = [digit_char (unat b div 16), digit_char (unat b mod 16)]"

definition generate_token :: "u8 list \<Rightarrow> string" where
  "generate_token bytes = concat (map hex_byte bytes)"

subsection \<open>The persist task\<close>

datatype worker =
    WaitRecv
  | Draining "nat option"
  | Drained "nat option"
  | Writing "tokens option" "nat option"
  | Acking "nat option"

text \<open>The worker's reading of one message: a flush replaces the acknowledgement it holds.\<close>

definition ack_of :: "persist_msg \<Rightarrow> nat option \<Rightarrow> nat option" where
  "ack_of msg held = (case msg of Wake \<Rightarrow> held | Flush i \<Rightarrow> Some i)"

text \<open>
  The last four fields are the observer's: every state of the map so far, how long that history was
  when each flush was sent, which flushes were acknowledged, and whether a write has failed.
\<close>

record machine =
  m_store :: token_store
  m_worker :: worker
  m_disk :: tokens
  m_hist :: "tokens list"
  m_sent :: "(nat \<times> nat) list"
  m_acked :: "nat list"
  m_failed :: bool

definition start_machine :: "tokens \<Rightarrow> machine" where
  "start_machine live =
     \<lparr>m_store = empty_store\<lparr>st_tokens := live\<rparr>, m_worker = WaitRecv, m_disk = live, m_hist = [live],
      m_sent = [], m_acked = [], m_failed = False\<rparr>"

definition changed :: "token_store \<Rightarrow> machine \<Rightarrow> machine" where
  "changed st s = s\<lparr>m_store := st, m_hist := m_hist s @ [st_tokens st]\<rparr>"

definition send_flush :: "nat \<Rightarrow> machine \<Rightarrow> machine" where
  "send_flush i s =
     s\<lparr>m_store := (m_store s)\<lparr>st_chan := st_chan (m_store s) @ [Flush i]\<rparr>,
       m_sent := (i, length (m_hist s) - 1) # m_sent s\<rparr>"

inductive persist_step :: "machine \<Rightarrow> machine \<Rightarrow> bool" where
  step_mint:
    "persist_step s (changed (fst (mint token now app_name scopes i (m_store s))) s)"
| step_evict:
    "validate_token now token (m_store s) = (st, Inl ''expired'') \<Longrightarrow> persist_step s (changed st s)"
| step_revoke:
    "hm_contains (st_tokens (m_store s)) token \<Longrightarrow>
     persist_step s (changed (revoke token (m_store s)) s)"
| step_flush:
    "i \<notin> fst ` set (m_sent s) \<Longrightarrow> persist_step s (send_flush i s)"
| step_recv:
    "m_worker s = WaitRecv \<Longrightarrow> st_chan (m_store s) = msg # rest \<Longrightarrow>
     persist_step s (s\<lparr>m_store := (m_store s)\<lparr>st_chan := rest\<rparr>, m_worker := Draining (ack_of msg None)\<rparr>)"
| step_drain:
    "m_worker s = Draining held \<Longrightarrow> st_chan (m_store s) = msg # rest \<Longrightarrow>
     persist_step s (s\<lparr>m_store := (m_store s)\<lparr>st_chan := rest\<rparr>, m_worker := Draining (ack_of msg held)\<rparr>)"
| step_drained:
    "m_worker s = Draining held \<Longrightarrow> st_chan (m_store s) = [] \<Longrightarrow>
     persist_step s (s\<lparr>m_worker := Drained held\<rparr>)"
| step_take:
    "m_worker s = Drained held \<Longrightarrow>
     persist_step s (s\<lparr>m_store := (m_store s)\<lparr>st_mailbox := None\<rparr>,
       m_worker := Writing (st_mailbox (m_store s)) held\<rparr>)"
| step_write:
    "m_worker s = Writing (Some snapshot) held \<Longrightarrow>
     persist_step s (s\<lparr>m_disk := snapshot, m_worker := Acking held\<rparr>)"
| step_write_fails:
    "m_worker s = Writing (Some snapshot) held \<Longrightarrow>
     persist_step s (s\<lparr>m_failed := True, m_worker := Acking held\<rparr>)"
| step_nothing:
    "m_worker s = Writing None held \<Longrightarrow> persist_step s (s\<lparr>m_worker := Acking held\<rparr>)"
| step_ack:
    "m_worker s = Acking held \<Longrightarrow>
     persist_step s (s\<lparr>m_worker := WaitRecv,
       m_acked := (case held of Some i \<Rightarrow> i # m_acked s | None \<Rightarrow> m_acked s)\<rparr>)"

inductive persist_reach :: "tokens \<Rightarrow> machine \<Rightarrow> bool" for live where
  reach_start: "persist_reach live (start_machine live)"
| reach_step: "persist_reach live s \<Longrightarrow> persist_step s t \<Longrightarrow> persist_reach live t"

subsection \<open>What the worker keeps\<close>

text \<open>The flush \<open>held\<close> was sent when the history had a state of index at most \<open>k\<close>.\<close>

definition held_le :: "machine \<Rightarrow> nat option \<Rightarrow> nat \<Rightarrow> bool" where
  "held_le s held k =
     (case held of
        None \<Rightarrow> True
      | Some i \<Rightarrow> (case map_of (m_sent s) i of None \<Rightarrow> False | Some v \<Rightarrow> v \<le> k))"

abbreviation newest :: "machine \<Rightarrow> nat" where
  "newest s \<equiv> length (m_hist s) - 1"

definition worker_ok :: "machine \<Rightarrow> nat \<Rightarrow> bool" where
  "worker_ok s n =
     (case m_worker s of
        Writing (Some t) held \<Rightarrow>
          (\<exists>k. n \<le> k \<and> k < length (m_hist s) \<and> t = m_hist s ! k \<and> held_le s held k
             \<and> (st_mailbox (m_store s) = None \<longrightarrow> k = newest s))
      | Writing None held \<Rightarrow> held_le s held n \<and> (st_mailbox (m_store s) = None \<longrightarrow> n = newest s)
      | Acking held \<Rightarrow> held_le s held n \<and> (st_mailbox (m_store s) = None \<longrightarrow> n = newest s)
      | Draining held \<Rightarrow> held_le s held (newest s) \<and> (st_mailbox (m_store s) = None \<longrightarrow> n = newest s)
      | Drained held \<Rightarrow> held_le s held (newest s) \<and> (st_mailbox (m_store s) = None \<longrightarrow> n = newest s)
      | WaitRecv \<Rightarrow> st_mailbox (m_store s) = None \<longrightarrow> n = newest s)"

text \<open>The file holds the map's state of index \<open>n\<close>.\<close>

definition disk_at :: "machine \<Rightarrow> nat \<Rightarrow> bool" where
  "disk_at s n =
     (n < length (m_hist s) \<and> m_disk s = m_hist s ! n
      \<and> st_tokens (m_store s) = last (m_hist s)
      \<and> st_mailbox (m_store s) \<in> {None, Some (last (m_hist s))}
      \<and> (\<forall>i. Flush i \<in> set (st_chan (m_store s)) \<longrightarrow> held_le s (Some i) (newest s))
      \<and> (\<forall>i \<in> set (m_acked s). held_le s (Some i) n)
      \<and> worker_ok s n)"

definition wake_pending :: "machine \<Rightarrow> bool" where
  "wake_pending s =
     (st_mailbox (m_store s) = None \<or> Wake \<in> set (st_chan (m_store s))
      \<or> (\<exists>held. m_worker s = Draining held \<or> m_worker s = Drained held))"

lemma held_le_mono: "held_le s held k \<Longrightarrow> k \<le> l \<Longrightarrow> held_le s held l"
  by (auto simp: held_le_def split: option.splits)

lemma held_le_cong: "m_sent t = m_sent s \<Longrightarrow> held_le t held k = held_le s held k"
  by (cases held) (simp_all add: held_le_def)

lemma held_le_ack_of:
  "held_le s held k \<Longrightarrow> (\<And>i. msg = Flush i \<Longrightarrow> held_le s (Some i) k) \<Longrightarrow> held_le s (ack_of msg held) k"
  by (cases msg) (simp_all add: ack_of_def)

lemma held_le_None [simp]: "held_le s None k"
  by (simp add: held_le_def)

lemma disk_at_start: "disk_at (start_machine live) 0"
  by (simp add: disk_at_def start_machine_def empty_store_def worker_ok_def)

lemma submit_simps [simp]:
  "st_tokens (submit st) = st_tokens st"
  "st_mailbox (submit st) = Some (st_tokens st)"
  "set (st_chan (submit st)) \<subseteq> insert Wake (set (st_chan st))"
  by (auto simp: submit_def Let_def)

lemma disk_at_changed:
  assumes d: "disk_at s n" and mb: "st_mailbox st = Some (st_tokens st)"
    and ch: "set (st_chan st) \<subseteq> insert Wake (set (st_chan (m_store s)))"
  shows "disk_at (changed st s) n"
proof -
  let ?t = "changed st s"
  have h: "held_le ?t held k = held_le s held k" for held k
    by (rule held_le_cong) (simp add: changed_def)
  have up: "held_le s held (newest s) \<Longrightarrow> held_le s held (newest ?t)" for held
    by (erule held_le_mono) (simp add: changed_def)
  have "worker_ok s n" using d by (simp add: disk_at_def)
  then have "worker_ok ?t n"
    using up mb unfolding worker_ok_def h
    by (auto simp: changed_def nth_append split: worker.splits option.splits)
  moreover have "Flush i \<in> set (st_chan st) \<Longrightarrow> Flush i \<in> set (st_chan (m_store s))" for i
    using ch by auto
  ultimately show ?thesis
    using d up mb unfolding disk_at_def h by (auto simp: changed_def nth_append)
qed

lemma revoke_submits:
  assumes "hm_contains (st_tokens st) token"
  shows "st_mailbox (revoke token st) = Some (st_tokens (revoke token st))
    \<and> set (st_chan (revoke token st)) \<subseteq> insert Wake (set (st_chan st))
    \<and> (st_mailbox st = None \<longrightarrow> Wake \<in> set (st_chan (revoke token st)))
    \<and> set (st_chan st) \<subseteq> set (st_chan (revoke token st))"
  using assms by (auto simp: revoke_def submit_def Let_def)

lemma evict_submits:
  assumes "validate_token now token st = (u, Inl ''expired'')"
  shows "st_mailbox u = Some (st_tokens u) \<and> set (st_chan u) \<subseteq> insert Wake (set (st_chan st))
    \<and> (st_mailbox st = None \<longrightarrow> Wake \<in> set (st_chan u)) \<and> set (st_chan st) \<subseteq> set (st_chan u)"
  using assms by (auto simp: validate_token_def submit_def Let_def split: option.splits if_splits)

lemma mint_submits:
  "st_mailbox (fst (mint token now app scopes i st)) = Some (st_tokens (fst (mint token now app scopes i st)))
   \<and> set (st_chan (fst (mint token now app scopes i st))) \<subseteq> insert Wake (set (st_chan st))
   \<and> (st_mailbox st = None \<longrightarrow> Wake \<in> set (st_chan (fst (mint token now app scopes i st))))
   \<and> set (st_chan st) \<subseteq> set (st_chan (fst (mint token now app scopes i st)))"
  by (auto simp: mint_def submit_def Let_def)

lemma disk_at_flush:
  assumes d: "disk_at s n" and new: "i \<notin> fst ` set (m_sent s)"
  shows "disk_at (send_flush i s) n"
proof -
  let ?t = "send_flush i s"
  have keep: "held_le s held k \<Longrightarrow> held_le ?t held k" for held k
    using new by (auto simp: held_le_def send_flush_def map_of_eq_None_iff split: option.splits)
      (metis domI domIff map_of_eq_None_iff)+
  have own: "held_le ?t (Some i) (newest ?t)"
    by (simp add: held_le_def send_flush_def)
  have hist: "m_hist ?t = m_hist s" "m_worker ?t = m_worker s" "m_acked ?t = m_acked s"
      "m_disk ?t = m_disk s" "st_mailbox (m_store ?t) = st_mailbox (m_store s)"
      "st_tokens (m_store ?t) = st_tokens (m_store s)"
      "set (st_chan (m_store ?t)) = insert (Flush i) (set (st_chan (m_store s)))"
    by (auto simp: send_flush_def)
  have "worker_ok ?t n"
    using d keep unfolding disk_at_def worker_ok_def hist
    by (auto split: worker.splits option.splits)
  then show ?thesis using d keep own unfolding disk_at_def hist by auto
qed

lemma disk_at_worker:
  assumes d: "disk_at s n" and st: "persist_step s t" and nf: "\<not> m_failed t"
    and w: "m_hist t = m_hist s" "m_sent t = m_sent s"
  shows "\<exists>k. n \<le> k \<and> disk_at t k"
proof -
  have h: "held_le t held k = held_le s held k" for held k by (rule held_le_cong [OF w(2)])
  show ?thesis using st
  proof cases
    case (step_recv msg rest)
    then have "worker_ok t n"
      using d unfolding worker_ok_def h
      by (auto simp: disk_at_def worker_ok_def intro!: held_le_ack_of)
    then have "disk_at t n" using d step_recv unfolding disk_at_def h by auto
    then show ?thesis by blast
  next
    case (step_drain held msg rest)
    then have "worker_ok t n"
      using d unfolding worker_ok_def h
      by (auto simp: disk_at_def worker_ok_def intro!: held_le_ack_of)
    then have "disk_at t n" using d step_drain unfolding disk_at_def h by auto
    then show ?thesis by blast
  next
    case (step_drained held)
    then have "disk_at t n" using d unfolding disk_at_def worker_ok_def h by auto
    then show ?thesis by blast
  next
    case (step_take held)
    have len: "m_hist s \<noteq> []" "n \<le> newest s" using d by (auto simp: disk_at_def)
    show ?thesis
    proof (cases "st_mailbox (m_store s)")
      case None
      then have "disk_at t n" using d step_take unfolding disk_at_def worker_ok_def h by auto
      then show ?thesis by blast
    next
      case (Some m)
      then have m: "m = m_hist s ! newest s" using d len by (simp add: disk_at_def last_conv_nth)
      have "worker_ok t n"
        using d step_take Some m len unfolding worker_ok_def h
        by (auto simp: disk_at_def worker_ok_def intro!: exI [of _ "newest s"])
      then have "disk_at t n" using d step_take unfolding disk_at_def h by auto
      then show ?thesis by blast
    qed
  next
    case (step_write snapshot held)
    then obtain k where k: "n \<le> k" "k < length (m_hist s)" "snapshot = m_hist s ! k" "held_le s held k"
        "st_mailbox (m_store s) = None \<longrightarrow> k = newest s"
      using d by (auto simp: disk_at_def worker_ok_def)
    have "disk_at t k"
      using d step_write k held_le_mono [OF _ k(1)] unfolding disk_at_def worker_ok_def h by auto
    with k(1) show ?thesis by blast
  next
    case (step_write_fails snapshot held)
    with nf show ?thesis by simp
  next
    case (step_nothing held)
    then have "disk_at t n" using d unfolding disk_at_def worker_ok_def h by auto
    then show ?thesis by blast
  next
    case (step_ack held)
    then have "disk_at t n"
      using d unfolding disk_at_def worker_ok_def h by (auto split: option.splits)
    then show ?thesis by blast
  qed (use w in \<open>auto simp: changed_def send_flush_def\<close>)
qed

lemma disk_at_step:
  assumes d: "disk_at s n" and st: "persist_step s t" and nf: "\<not> m_failed t"
  shows "\<exists>k. n \<le> k \<and> disk_at t k"
proof (cases "m_hist t = m_hist s \<and> m_sent t = m_sent s")
  case True
  with disk_at_worker [OF d st nf] show ?thesis by blast
next
  case False
  from st have "disk_at t n"
  proof cases
    case (step_mint token now app_name scopes i)
    with disk_at_changed [OF d] mint_submits show ?thesis by metis
  next
    case (step_evict now token u)
    with disk_at_changed [OF d] evict_submits show ?thesis by metis
  next
    case (step_revoke token)
    with disk_at_changed [OF d] revoke_submits show ?thesis by metis
  next
    case (step_flush i)
    with disk_at_flush [OF d] show ?thesis by metis
  qed (use False in auto)
  then show ?thesis by blast
qed

lemma failed_stays: "persist_step s t \<Longrightarrow> m_failed s \<Longrightarrow> m_failed t"
  by (cases rule: persist_step.cases) (auto simp: changed_def send_flush_def)

lemma reach_disk_at: "persist_reach live s \<Longrightarrow> \<not> m_failed s \<Longrightarrow> \<exists>n. disk_at s n"
proof (induction rule: persist_reach.induct)
  case reach_start
  show ?case using disk_at_start by blast
next
  case (reach_step s t)
  then obtain n where "disk_at s n" using failed_stays by blast
  with reach_step disk_at_step show ?case by blast
qed

lemma wake_pending_step: "persist_step s t \<Longrightarrow> wake_pending s \<Longrightarrow> wake_pending t"
proof (induction rule: persist_step.induct)
  case (step_mint s token now app_name scopes i)
  then show ?case using mint_submits [of token now app_name scopes i "m_store s"]
    by (auto simp: wake_pending_def changed_def)
next
  case (step_evict now token s st)
  then show ?case using evict_submits [OF step_evict(1)] by (auto simp: wake_pending_def changed_def)
next
  case (step_revoke s token)
  then show ?case using revoke_submits [OF step_revoke(1)] by (auto simp: wake_pending_def changed_def)
qed (auto simp: wake_pending_def send_flush_def)

lemma wake_pending_start: "wake_pending (start_machine live)"
  by (simp add: start_machine_def empty_store_def wake_pending_def)

lemma reach_wake_pending: "persist_reach live s \<Longrightarrow> wake_pending s"
  by (induction rule: persist_reach.induct) (blast intro: wake_pending_step wake_pending_start)+

lemma reach_acked:
  assumes "persist_reach live s" and "\<not> m_failed s" and "i \<in> set (m_acked s)"
  shows "\<exists>v n. map_of (m_sent s) i = Some v \<and> v \<le> n \<and> n < length (m_hist s) \<and> m_disk s = m_hist s ! n"
proof -
  obtain n where n: "disk_at s n" using reach_disk_at assms(1,2) by blast
  then have "held_le s (Some i) n" using assms(3) by (simp add: disk_at_def)
  with n show ?thesis by (auto simp: disk_at_def held_le_def split: option.splits)
qed

lemma reach_settled:
  assumes "persist_reach live s" and "\<not> m_failed s" and "m_worker s = WaitRecv"
    and "st_mailbox (m_store s) = None"
  shows "m_disk s = st_tokens (m_store s)"
proof -
  obtain n where n: "disk_at s n" using reach_disk_at assms(1,2) by blast
  then have "n = newest s" using assms(3,4) by (simp add: disk_at_def worker_ok_def)
  moreover have "m_hist s \<noteq> []" using n by (auto simp: disk_at_def)
  ultimately show ?thesis using n by (simp add: disk_at_def last_conv_nth)
qed

lemma hm_remove_get: "hm_get (hm_remove k m) k2 = (if k2 = k then None else hm_get m k2)"
  by (simp add: hm_get_def hm_remove_def delete_conv')

subsection \<open>Properties\<close>

text \<open>
  C34. A flush is acknowledged only after everything that happened before it is in the file: under
  every interleaving of mints, evictions, revocations, flushes and the worker, while no write has
  failed, an acknowledged flush finds in the file the map as it was at some moment at or after the
  flush was sent; so a token revoked before the flush, and not minted again, is not in the file.
\<close>

theorem acknowledged_flush_is_durable:
  assumes "persist_reach live s" and "\<not> m_failed s" and "i \<in> set (m_acked s)"
  shows "\<exists>v n. map_of (m_sent s) i = Some v \<and> v \<le> n \<and> n < length (m_hist s)
    \<and> m_disk s = m_hist s ! n
    \<and> (list_all (\<lambda>ts. hm_get ts token = None) (drop v (m_hist s)) \<longrightarrow> hm_get (m_disk s) token = None)"
proof -
  obtain v n where h: "map_of (m_sent s) i = Some v" "v \<le> n" "n < length (m_hist s)"
      "m_disk s = m_hist s ! n"
    using reach_acked [OF assms] by blast
  then have "m_disk s = drop v (m_hist s) ! (n - v)" "n - v < length (drop v (m_hist s))" by simp_all
  then have "m_disk s \<in> set (drop v (m_hist s))" by (metis nth_mem)
  with h show ?thesis by (auto simp: list_all_iff)
qed

definition sample_meta :: token_meta where
  "sample_meta =
     \<lparr>tm_app_name = ''a'', tm_scopes = [''status''], tm_grantee = Native ''/usr/bin/x'' None,
      tm_issued_at = 0, tm_expires_at = thirty_days\<rparr>"

definition sample_machine :: machine where
  "sample_machine =
     \<lparr>m_store = \<lparr>st_tokens = [(''t'', sample_meta)], st_mailbox = None, st_chan = []\<rparr>,
      m_worker = WaitRecv, m_disk = [(''t'', sample_meta)], m_hist = [[], [(''t'', sample_meta)]],
      m_sent = [(0, 1)], m_acked = [0], m_failed = False\<rparr>"

lemma sample_machine_reached: "persist_reach [] sample_machine"
proof -
  have 1: "persist_reach [] (changed (fst (mint ''t'' 0 ''a'' [''status''] (Native ''/usr/bin/x'' None)
      (m_store (start_machine [])))) (start_machine []))" (is "persist_reach _ ?a")
    by (rule reach_step [OF reach_start step_mint])
  have 2: "persist_reach [] (send_flush 0 ?a)" (is "persist_reach _ ?b")
    by (rule reach_step [OF 1 step_flush]) (simp add: changed_def start_machine_def)
  note defs = changed_def start_machine_def send_flush_def mint_def submit_def Let_def empty_store_def
    hm_insert_def
  have w2: "m_worker ?b = WaitRecv" "st_chan (m_store ?b) = [Wake, Flush 0]"
    by (simp_all add: defs)
  note 3 = reach_step [OF 2 step_recv [OF w2]]
  have w3: "m_worker (?b\<lparr>m_store := (m_store ?b)\<lparr>st_chan := [Flush 0]\<rparr>, m_worker := Draining (ack_of Wake None)\<rparr>)
      = Draining (ack_of Wake None)"
    by simp
  note 4 = reach_step [OF 3 step_drain [OF w3, where msg = "Flush 0" and rest = "[]"]]
  have 5: "persist_reach [] (?b\<lparr>m_store := (m_store ?b)\<lparr>st_chan := []\<rparr>, m_worker := Draining (Some 0)\<rparr>)"
    (is "persist_reach _ ?c")
    using 4 by (simp add: ack_of_def)
  have 6: "persist_reach [] (?c\<lparr>m_worker := Drained (Some 0)\<rparr>)" (is "persist_reach _ ?d")
    by (rule reach_step [OF 5 step_drained]) simp_all
  have 7: "persist_reach [] (?d\<lparr>m_store := (m_store ?d)\<lparr>st_mailbox := None\<rparr>,
      m_worker := Writing (st_mailbox (m_store ?d)) (Some 0)\<rparr>)" (is "persist_reach _ ?e")
    by (rule reach_step [OF 6 step_take]) simp
  have w7: "m_worker ?e = Writing (Some [(''t'', sample_meta)]) (Some 0)"
    by (simp add: defs sample_meta_def)
  note 8 = reach_step [OF 7 step_write [OF w7]]
  have w8: "m_worker (?e\<lparr>m_disk := [(''t'', sample_meta)], m_worker := Acking (Some 0)\<rparr>) = Acking (Some 0)"
    by simp
  note 9 = reach_step [OF 8 step_ack [OF w8]]
  show ?thesis using 9 by (simp add: sample_machine_def defs sample_meta_def)
qed

theorem acknowledged_flush_is_durable_witness:
  "persist_reach [] sample_machine \<and> 0 \<in> set (m_acked sample_machine)
   \<and> (\<exists>v n. map_of (m_sent sample_machine) 0 = Some v \<and> v \<le> n \<and> n < length (m_hist sample_machine)
        \<and> m_disk sample_machine = m_hist sample_machine ! n)"
proof -
  have "\<not> m_failed sample_machine" "0 \<in> set (m_acked sample_machine)"
    by (simp_all add: sample_machine_def)
  with acknowledged_flush_is_durable [OF sample_machine_reached, where token = "''t''"]
    sample_machine_reached show ?thesis by blast
qed

text \<open>
  C35. The worker never sleeps on work and never settles on a stale file: in every reachable state
  with a snapshot in the mailbox and the worker waiting, a signal is in the channel to wake it, and
  while no write has failed, a waiting worker with an empty mailbox has the current map in the file.
\<close>

theorem persist_settles_on_the_latest:
  assumes "persist_reach live s"
  shows "(case st_mailbox (m_store s) of
      Some _ \<Rightarrow> m_worker s = WaitRecv \<longrightarrow> Wake \<in> set (st_chan (m_store s))
    | None \<Rightarrow> m_worker s = WaitRecv \<and> \<not> m_failed s \<longrightarrow> m_disk s = st_tokens (m_store s))"
  using reach_wake_pending [OF assms] reach_settled [OF assms]
  by (auto simp: wake_pending_def split: option.split)

theorem persist_settles_on_the_latest_witness:
  "persist_reach [] sample_machine \<and> m_disk sample_machine = st_tokens (m_store sample_machine)
   \<and> m_disk sample_machine \<noteq> []"
proof -
  have "st_mailbox (m_store sample_machine) = None" "m_worker sample_machine = WaitRecv"
      "\<not> m_failed sample_machine" "m_disk sample_machine \<noteq> []"
    by (simp_all add: sample_machine_def)
  with persist_settles_on_the_latest [OF sample_machine_reached] sample_machine_reached
  show ?thesis by simp
qed

text \<open>
  The life of a token: it is valid from its mint until thirty days later inclusive, with the
  scopes and the grantee it was minted for; the first use after that evicts it; a revoked token is
  unknown; and no operation on one token touches another.
\<close>

theorem token_lifecycle:
  "snd (validate_token later token (fst (mint token now app scopes i st))) =
      (if now + thirty_days < later then Inl ''expired''
       else Inr \<lparr>tm_app_name = app, tm_scopes = scopes, tm_grantee = i, tm_issued_at = now,
                 tm_expires_at = now + thirty_days\<rparr>)
   \<and> snd (validate_token later token (revoke token st)) = Inl ''unknown''
   \<and> (if snd (validate_token later token st) = Inl ''expired''
      then hm_get (st_tokens (fst (validate_token later token st))) token = None
      else fst (validate_token later token st) = st)
   \<and> (if other = token then True
      else hm_get (st_tokens (fst (mint token now app scopes i st))) other = hm_get (st_tokens st) other
           \<and> hm_get (st_tokens (revoke token st)) other = hm_get (st_tokens st) other
           \<and> hm_get (st_tokens (fst (validate_token later token st))) other = hm_get (st_tokens st) other)"
  by (auto simp: validate_token_def mint_def revoke_def hm.get_ins hm_remove_get hm_contains_def Let_def
      split: option.splits)

text \<open>
  A change to the secrets file is all or nothing: when the write fails nothing changes in
  memory or in the file; when it succeeds both hold the changed contents; a stored key is read back,
  a deleted one is gone, and neither touches the other names or the session tokens.
\<close>

theorem secrets_change_atomic:
  "(case secrets_update (io :: 'io option) change sec of
      (t, r) \<Rightarrow>
        if is_err r then t = sec
        else se_contents t = change (se_contents sec) \<and> se_path t = se_path sec
          \<and> se_file t = (if se_path sec = None then se_file sec else Some (se_contents t)))
   \<and> get_backend_secret src name (fst (set_backend_secret (None :: 'io option) src name v sec)) = Some v
   \<and> get_backend_secret src name (fst (delete_backend_secret (None :: 'io option) src name sec)) = None
   \<and> (if other = name then True
      else get_backend_secret src other (fst (set_backend_secret (None :: 'io option) src name v sec))
             = get_backend_secret src other sec
           \<and> get_backend_secret src other (fst (delete_backend_secret (None :: 'io option) src name sec))
             = get_backend_secret src other sec)
   \<and> co_sessions (se_contents (fst (set_backend_secret io src name v sec))) = co_sessions (se_contents sec)"
proof -
  have empty: "hm_get [] k = None" for k :: string by (simp add: hm_get_def)
  have 1: "case secrets_update io change sec of
      (t, r) \<Rightarrow>
        if is_err r then t = sec
        else se_contents t = change (se_contents sec) \<and> se_path t = se_path sec
          \<and> se_file t = (if se_path sec = None then se_file sec else Some (se_contents t))"
    by (auto simp: secrets_update_def Let_def split: option.splits)
  have c: "se_contents (fst (secrets_update (None :: 'io option) f sec)) = f (se_contents sec)" for f
    by (simp add: secrets_update_def Let_def)
  have gone: "hm_get (hm_remove name m) other = hm_get m other" if "other \<noteq> name"
    for m :: "(string, string) hmap"
    using that by (simp add: hm_remove_get)
  have 2: "get_backend_secret src k (fst (set_backend_secret (None :: 'io option) src name v sec))
      = (if k = name then Some v else get_backend_secret src k sec)" for k
    unfolding get_backend_secret_def set_backend_secret_def c
    by (auto simp: put_backend_secret_def Let_def hm.get_ins hm.get_empty split: option.splits)
  have 3: "get_backend_secret src k (fst (delete_backend_secret (None :: 'io option) src name sec))
      = (if k = name then None else get_backend_secret src k sec)" for k
  proof (cases "hm_get (co_backend_secrets (se_contents sec)) src")
    case None
    then show ?thesis
      unfolding get_backend_secret_def delete_backend_secret_def c by (simp add: drop_backend_secret_def)
  next
    case (Some m)
    have "hm_get (hm_remove name m) k = (if k = name then None else hm_get m k)"
      by (rule hm_remove_get)
    with Some show ?thesis
      unfolding get_backend_secret_def delete_backend_secret_def c
      by (cases "hm_remove name m = []"; cases "k = name")
        (simp_all add: drop_backend_secret_def Let_def hm.get_ins hm_remove_get empty)
  qed
  have 4: "co_sessions (se_contents (fst (set_backend_secret io src name v sec))) = co_sessions (se_contents sec)"
    by (auto simp: set_backend_secret_def secrets_update_def put_backend_secret_def Let_def
        split: option.splits)
  show ?thesis using 1 2 3 4 by simp
qed

end
