(* ===== verification/Auth_Consent.thy ===== *)
theory Auth_Consent
  imports Auth_Tokens
begin

section \<open>Asking the user\<close>

text \<open>
  \<open>auth/consent.rs\<close> and the constants of \<open>super-engine-protocol/src/consent.rs\<close>: the consent key,
  the per-key locks, the reading of the helper's answer, what the helper is told, and the checks
  that make a binary first-party or a helper trusted. The file system is the record \<open>fs_view\<close>: a
  canonical path is the list of its components from the root, and \<open>fs_canonical\<close> is the kernel's
  resolution of a path's text.
\<close>

subsection \<open>Keys and decisions\<close>

type_synonym consent_key = "peer_identity \<times> string list"

definition normalize_scopes :: "string list \<Rightarrow> string list" where
  "normalize_scopes scopes = remdups_adj (sort scopes)"

lemma normalize_scopes_set [simp]: "set (normalize_scopes scopes) = set scopes"
  by (simp add: normalize_scopes_def)

lemma normalize_scopes_sorted: "sorted (normalize_scopes scopes)" "distinct (normalize_scopes scopes)"
  by (simp_all add: normalize_scopes_def sorted_remdups_adj sorted_remdups_adj_distinct)

lemma normalize_scopes_cong: "set a = set b \<Longrightarrow> normalize_scopes a = normalize_scopes b"
  by (intro sorted_distinct_set_unique) (simp_all add: normalize_scopes_sorted)

lemma normalize_scopes_eq_iff: "normalize_scopes a = normalize_scopes b \<longleftrightarrow> set a = set b"
  by (metis normalize_scopes_cong normalize_scopes_set)

datatype consent_decision = Allow | Deny | Dismissed | PopupFailed

definition consent_allow :: string where "consent_allow = ''allow''"

definition consent_deny :: string where "consent_deny = ''deny''"

text \<open>The helper's first line, or none: its output ended or could not be read.\<close>

definition read_consent_decision :: "string option \<Rightarrow> consent_decision" where
  "read_consent_decision first_line =
     (case first_line of
        Some line \<Rightarrow>
          if trim line = consent_allow then Allow
          else if trim line = consent_deny then Deny
          else Dismissed
      | None \<Rightarrow> Dismissed)"

text \<open>
  How one asking can go: the helper does not start, its output is not piped, it answers within the
  minute, or the minute passes.
\<close>

datatype popup =
    NotSpawned
  | NoStdout
  | Answered "string option"
  | TimedOut

definition ask_user_for_consent :: "popup \<Rightarrow> consent_decision" where
  "ask_user_for_consent p =
     (case p of
        NotSpawned \<Rightarrow> PopupFailed
      | NoStdout \<Rightarrow> PopupFailed
      | Answered first_line \<Rightarrow> read_consent_decision first_line
      | TimedOut \<Rightarrow> Dismissed)"

lemma ask_user_Allow_iff:
  "ask_user_for_consent p = Allow \<longleftrightarrow> (\<exists>line. p = Answered (Some line) \<and> trim line = ''allow'')"
  by (auto simp: ask_user_for_consent_def read_consent_decision_def consent_allow_def consent_deny_def
      split: popup.splits option.splits)

subsection \<open>What the helper is told\<close>

definition var_app_name :: string where "var_app_name = ''AUTH_APP_NAME''"

definition var_scopes :: string where "var_scopes = ''AUTH_SCOPES''"

definition var_exe_path :: string where "var_exe_path = ''AUTH_EXE_PATH''"

definition var_flatpak_app_id :: string where "var_flatpak_app_id = ''AUTH_FLATPAK_APP_ID''"

definition var_web_origin :: string where "var_web_origin = ''AUTH_WEB_ORIGIN''"

text \<open>The variables \<open>spawn_consent_dialog\<close> sets, in order; \<open>lossy\<close> is \<open>Path::to_string_lossy\<close>.\<close>

definition dialog_env ::
  "(string \<Rightarrow> string) \<Rightarrow> product_spec \<Rightarrow> string \<Rightarrow> string list \<Rightarrow> peer_identity \<Rightarrow> (string \<times> string) list"
  where
  "dialog_env lossy product app_name scopes i =
     [(ps_env product var_app_name, app_name), (ps_env product var_scopes, join_str '' '' scopes)] @
     (case i of
        Native exe app \<Rightarrow>
          (ps_env product var_exe_path, lossy exe) #
          (case app of None \<Rightarrow> [] | Some a \<Rightarrow> [(ps_env product var_flatpak_app_id, a)])
      | Web origin \<Rightarrow> [(ps_env product var_web_origin, origin)])"

subsection \<open>The file system's answers\<close>

type_synonym abs_path = "string list"

definition path_text :: "abs_path \<Rightarrow> string" where
  "path_text p = (if p = [] then ''/'' else concat (map (\<lambda>c. ''/'' @ c) p))"

text \<open>\<open>fs_owner_mode\<close> is \<open>metadata\<close>: the owner and the mode of a file, or none when it fails.\<close>

record fs_view =
  fs_canonical :: "string \<Rightarrow> abs_path option"
  fs_owner_mode :: "abs_path \<Rightarrow> (u32 \<times> u32) option"
  fs_exists :: "abs_path \<Rightarrow> bool"
  fs_current_exe :: "abs_path option"
  fs_geteuid :: u32

definition path_parent :: "abs_path \<Rightarrow> abs_path option" where
  "path_parent p = (if p = [] then None else Some (butlast p))"

definition path_file_name :: "abs_path \<Rightarrow> string option" where
  "path_file_name p = (if p = [] then None else Some (last p))"

text \<open>\<open>Path::extension\<close>: what follows the last dot, unless the name starts with it or has none.\<close>

definition name_extension :: "string \<Rightarrow> string option" where
  "name_extension name =
     (case split_once CHR ''.'' (rev name) of
        None \<Rightarrow> None
      | Some (ext, stem) \<Rightarrow> if stem = [] then None else Some (rev ext))"

definition path_extension :: "abs_path \<Rightarrow> string option" where
  "path_extension p = (case path_file_name p of None \<Rightarrow> None | Some n \<Rightarrow> name_extension n)"

subsection \<open>Helper metadata\<close>

definition check_helper_metadata :: "u32 \<Rightarrow> u32 \<Rightarrow> u32 \<Rightarrow> string + unit" where
  "check_helper_metadata owner_uid our_uid mode =
     (if owner_uid \<noteq> our_uid \<and> owner_uid \<noteq> 0
      then Inl ''helper not owned by root or the daemon's effective uid''
      else if and mode 2 \<noteq> 0 then Inl ''helper is world-writable''
      else Inr ())"

definition verify_helper_metadata :: "fs_view \<Rightarrow> abs_path \<Rightarrow> string + unit" where
  "verify_helper_metadata fs path =
     (case fs_owner_mode fs path of
        None \<Rightarrow> Inl ''cannot stat helper''
      | Some (uid, mode) \<Rightarrow> check_helper_metadata uid (fs_geteuid fs) mode)"

definition locate_consent_helper :: "fs_view \<Rightarrow> product_spec \<Rightarrow> abs_path option" where
  "locate_consent_helper fs product =
     (case fs_current_exe fs of
        None \<Rightarrow> None
      | Some exe \<Rightarrow>
          (case path_parent exe of
             None \<Rightarrow> None
           | Some dir \<Rightarrow>
               let candidate = dir @ [consent_helper product]
               in if \<not> fs_exists fs candidate then None
                  else (case fs_canonical fs (path_text candidate) of
                          None \<Rightarrow> None
                        | Some resolved \<Rightarrow>
                            (case verify_helper_metadata fs resolved of
                               Inl _ \<Rightarrow> None
                             | Inr _ \<Rightarrow> Some resolved))))"

subsection \<open>First-party clients\<close>

definition official_client_names :: "product_spec \<Rightarrow> string list" where
  "official_client_names product =
     map (\<lambda>client. ps_slug product @ ''-'' @ client) [''app'', ''cli'', ''cosmic-applet'']
     @ [shared_applet]"

definition bundle_helpers_dir :: "abs_path \<Rightarrow> abs_path option" where
  "bundle_helpers_dir daemon_dir =
     (case path_parent daemon_dir of
        None \<Rightarrow> None
      | Some contents \<Rightarrow>
          (case path_parent contents of
             None \<Rightarrow> None
           | Some bundle \<Rightarrow>
               if path_file_name daemon_dir = Some ''MacOS'' \<and> path_file_name contents = Some ''Contents''
                  \<and> path_extension bundle = Some ''app''
               then Some (contents @ [''Helpers'']) else None))"

definition is_official_client_in :: "fs_view \<Rightarrow> product_spec \<Rightarrow> abs_path \<Rightarrow> string \<Rightarrow> bool" where
  "is_official_client_in fs product daemon_dir exe_path =
     (case (fs_canonical fs exe_path, fs_canonical fs (path_text daemon_dir)) of
        (Some resolved, Some dir) \<Rightarrow>
          (case path_file_name resolved of
             None \<Rightarrow> False
           | Some name \<Rightarrow>
               if \<not> list_ex (\<lambda>n. n = name) (official_client_names product) then False
               else if path_parent resolved \<noteq> Some dir \<and> path_parent resolved \<noteq> bundle_helpers_dir dir
               then False
               else is_ok (verify_helper_metadata fs resolved))
      | _ \<Rightarrow> False)"

definition is_official_client :: "fs_view \<Rightarrow> product_spec \<Rightarrow> peer_identity \<Rightarrow> bool" where
  "is_official_client fs product i =
     (case i of
        Web _ \<Rightarrow> False
      | Native exe_path app \<Rightarrow>
          if app \<noteq> None then False
          else (case fs_current_exe fs of
                  None \<Rightarrow> False
                | Some daemon_exe \<Rightarrow>
                    (case path_parent daemon_exe of
                       None \<Rightarrow> False
                     | Some daemon_dir \<Rightarrow> is_official_client_in fs product daemon_dir exe_path)))"

subsection \<open>The locks\<close>

text \<open>
  A lock is its allocation, a number; \<open>cl_next\<close> is the next one. \<open>Arc::strong_count\<close> is a number of
  the whole program and an argument of \<open>release\<close>.
\<close>

record consent_locks =
  cl_map :: "(consent_key, nat) hmap"
  cl_next :: nat

definition no_locks :: consent_locks where
  "no_locks = \<lparr>cl_map = hm_empty, cl_next = 0\<rparr>"

definition lock_for :: "consent_key \<Rightarrow> consent_locks \<Rightarrow> consent_locks \<times> nat" where
  "lock_for key ls =
     (case hm_get (cl_map ls) key of
        Some l \<Rightarrow> (ls, l)
      | None \<Rightarrow> (\<lparr>cl_map = hm_insert key (cl_next ls) (cl_map ls), cl_next = Suc (cl_next ls)\<rparr>, cl_next ls))"

definition release_lock :: "nat \<Rightarrow> consent_key \<Rightarrow> consent_locks \<Rightarrow> consent_locks" where
  "release_lock strong_count key ls =
     (if strong_count \<le> 2 then ls\<lparr>cl_map := hm_remove key (cl_map ls)\<rparr> else ls)"

subsection \<open>Lemmas\<close>

lemma check_helper_metadata_ok_iff:
  "is_ok (check_helper_metadata owner our mode) \<longleftrightarrow> (owner = our \<or> owner = 0) \<and> and mode 2 = 0"
  by (simp add: check_helper_metadata_def)

lemma verify_helper_metadata_ok_iff:
  "is_ok (verify_helper_metadata fs p) \<longleftrightarrow>
     (\<exists>uid mode. fs_owner_mode fs p = Some (uid, mode) \<and> (uid = fs_geteuid fs \<or> uid = 0) \<and> and mode 2 = 0)"
  by (auto simp: verify_helper_metadata_def check_helper_metadata_ok_iff split: option.splits)

lemma path_parent_Some: "path_parent p = Some d \<longleftrightarrow> (\<exists>n. p = d @ [n])"
  by (cases p rule: rev_cases) (auto simp: path_parent_def)

lemma path_file_name_Some: "path_file_name p = Some n \<longleftrightarrow> (\<exists>d. p = d @ [n])"
  by (cases p rule: rev_cases) (auto simp: path_file_name_def)

lemma name_extension_app:
  "name_extension n = Some ''app'' \<longleftrightarrow> (\<exists>stem. stem \<noteq> [] \<and> n = stem @ ''.app'')"
proof
  assume "name_extension n = Some ''app''"
  then obtain ext stem where h: "split_once CHR ''.'' (rev n) = Some (ext, stem)" "stem \<noteq> []" "rev ext = ''app''"
    by (auto simp: name_extension_def split: option.splits prod.splits if_splits)
  then have "rev n = ext @ CHR ''.'' # stem" by (simp add: split_once_iff)
  then have "n = rev stem @ CHR ''.'' # rev ext" by (metis append.assoc append_Cons append_Nil rev.simps(2) rev_append rev_rev_ident)
  with h show "\<exists>stem. stem \<noteq> [] \<and> n = stem @ ''.app''" by auto
next
  assume "\<exists>stem. stem \<noteq> [] \<and> n = stem @ ''.app''"
  then obtain stem where h: "stem \<noteq> []" "n = stem @ ''.app''" by blast
  then have "split_once CHR ''.'' (rev n) = Some (''ppa'', rev stem)" by (simp add: split_once_iff)
  with h show "name_extension n = Some ''app''" by (simp add: name_extension_def)
qed

text \<open>The helper directory of a bundle: \<open>.../<name>.app/Contents/MacOS\<close> gives \<open>.../<name>.app/Contents/Helpers\<close>.\<close>

lemma bundle_helpers_dir_Some:
  "bundle_helpers_dir d = Some h \<longleftrightarrow>
     (\<exists>above stem. stem \<noteq> [] \<and> d = above @ [stem @ ''.app'', ''Contents'', ''MacOS'']
        \<and> h = above @ [stem @ ''.app'', ''Contents'', ''Helpers''])"
  (is "?lhs \<longleftrightarrow> ?rhs")
proof
  assume ?lhs
  then obtain c b where h: "path_parent d = Some c" "path_parent c = Some b"
      "path_file_name d = Some ''MacOS''" "path_file_name c = Some ''Contents''"
      "path_extension b = Some ''app''" "h = c @ [''Helpers'']"
    by (auto simp: bundle_helpers_dir_def split: option.splits if_splits)
  then have d: "d = c @ [''MacOS'']" and c: "c = b @ [''Contents'']"
    by (auto simp: path_parent_Some path_file_name_Some)
  obtain n where "path_file_name b = Some n" "name_extension n = Some ''app''"
    using h(5) by (auto simp: path_extension_def split: option.splits)
  then obtain above stem where "b = above @ [n]" "stem \<noteq> []" "n = stem @ ''.app''"
    by (auto simp: path_file_name_Some name_extension_app)
  with d c h(6) show ?rhs by auto
next
  assume ?rhs
  then obtain above stem where h: "stem \<noteq> []" "d = above @ [stem @ ''.app'', ''Contents'', ''MacOS'']"
      "h = above @ [stem @ ''.app'', ''Contents'', ''Helpers'']" by blast
  have "path_parent d = Some (above @ [stem @ ''.app'', ''Contents''])"
    "path_parent (above @ [stem @ ''.app'', ''Contents'']) = Some (above @ [stem @ ''.app''])"
    using h(2) by (simp_all add: path_parent_def butlast_append)
  moreover have "path_extension (above @ [stem @ ''.app'']) = Some ''app''"
    using h(1) name_extension_app [of "stem @ ''.app''"] by (simp add: path_extension_def path_file_name_def)
  ultimately show ?lhs using h by (simp add: bundle_helpers_dir_def path_file_name_def)
qed

lemma is_official_client_in_iff:
  "is_official_client_in fs product daemon_dir exe \<longleftrightarrow>
     (\<exists>dir parent name uid mode. fs_canonical fs (path_text daemon_dir) = Some dir
        \<and> fs_canonical fs exe = Some (parent @ [name])
        \<and> name \<in> set (official_client_names product)
        \<and> (parent = dir \<or> bundle_helpers_dir dir = Some parent)
        \<and> fs_owner_mode fs (parent @ [name]) = Some (uid, mode)
        \<and> (uid = fs_geteuid fs \<or> uid = 0) \<and> and mode 2 = 0)"
proof (cases "fs_canonical fs exe")
  case None
  then show ?thesis by (simp add: is_official_client_in_def)
next
  case (Some resolved)
  show ?thesis
  proof (cases resolved rule: rev_cases)
    case Nil
    with Some show ?thesis by (auto simp: is_official_client_in_def path_file_name_def split: option.splits)
  next
    case (snoc parent name)
    have p: "path_parent resolved = Some parent" "path_file_name resolved = Some name"
      using snoc by (simp_all add: path_parent_def path_file_name_def)
    show ?thesis
      using Some p snoc
      by (cases "fs_canonical fs (path_text daemon_dir)")
        (auto simp: is_official_client_in_def verify_helper_metadata_ok_iff list_ex_iff eq_commute [of "Some parent"])
  qed
qed

subsection \<open>Properties\<close>

text \<open>
  Only the daemon's own binaries skip the question: a caller is first-party exactly when it is a
  native process outside any sandbox, whose executable resolves to one of the four client names
  directly in the daemon's own directory or in the helper directory of the bundle the daemon runs
  from, in a file owned by root or the daemon's user and not writable by everyone. No web page and
  no flatpak is, whatever its path.
\<close>

theorem official_client_iff:
  "is_official_client fs product i \<longleftrightarrow>
     (\<exists>exe above daemon_name dir parent name uid mode.
        i = Native exe None
        \<and> fs_current_exe fs = Some (above @ [daemon_name])
        \<and> fs_canonical fs (path_text above) = Some dir
        \<and> fs_canonical fs exe = Some (parent @ [name])
        \<and> name \<in> {ps_slug product @ ''-app'', ps_slug product @ ''-cli'', ps_slug product @ ''-cosmic-applet'',
                  ''super-cosmic-applet''}
        \<and> (parent = dir \<or>
           (\<exists>up stem. stem \<noteq> [] \<and> dir = up @ [stem @ ''.app'', ''Contents'', ''MacOS'']
              \<and> parent = up @ [stem @ ''.app'', ''Contents'', ''Helpers'']))
        \<and> fs_owner_mode fs (parent @ [name]) = Some (uid, mode)
        \<and> (uid = fs_geteuid fs \<or> uid = 0) \<and> and mode 2 = 0)"
proof (cases i)
  case (Web w)
  then show ?thesis by (simp add: is_official_client_def)
next
  case (Native exe app)
  have names: "set (official_client_names product) = {ps_slug product @ ''-app'', ps_slug product @ ''-cli'',
      ps_slug product @ ''-cosmic-applet'', ''super-cosmic-applet''}"
    by (auto simp: official_client_names_def shared_applet_def)
  have "is_official_client fs product i \<longleftrightarrow> app = None \<and>
      (\<exists>above n. fs_current_exe fs = Some (above @ [n]) \<and> is_official_client_in fs product above exe)"
  proof (cases "fs_current_exe fs")
    case None
    with Native show ?thesis by (simp add: is_official_client_def)
  next
    case (Some d)
    with Native show ?thesis
      by (cases d rule: rev_cases) (auto simp: is_official_client_def path_parent_def)
  qed
  then show ?thesis
    unfolding is_official_client_in_iff names bundle_helpers_dir_Some using Native by auto
qed

text \<open>
  What counts as a yes: a dialog's outcome is \<open>Allow\<close> only when the helper wrote the word
  \<open>allow\<close> in time; everything unrecognised is a dismissal. And the helper is told who asks exactly
  once: the executable for a native caller, the origin for a web one, never both.
\<close>

theorem consent_needs_the_word:
  "(ask_user_for_consent p = Allow \<longleftrightarrow> (\<exists>line. p = Answered (Some line) \<and> trim line = ''allow''))
   \<and> (ask_user_for_consent p = Deny \<longleftrightarrow> (\<exists>line. p = Answered (Some line) \<and> trim line = ''deny''))
   \<and> (case i of
        Native exe app \<Rightarrow>
          map_of (dialog_env lossy product name scopes i) (ps_env product ''AUTH_EXE_PATH'') = Some (lossy exe)
          \<and> map_of (dialog_env lossy product name scopes i) (ps_env product ''AUTH_FLATPAK_APP_ID'') = app
          \<and> map_of (dialog_env lossy product name scopes i) (ps_env product ''AUTH_WEB_ORIGIN'') = None
      | Web origin \<Rightarrow>
          map_of (dialog_env lossy product name scopes i) (ps_env product ''AUTH_WEB_ORIGIN'') = Some origin
          \<and> map_of (dialog_env lossy product name scopes i) (ps_env product ''AUTH_EXE_PATH'') = None
          \<and> map_of (dialog_env lossy product name scopes i) (ps_env product ''AUTH_FLATPAK_APP_ID'') = None)"
proof -
  have 1: "ask_user_for_consent p = Deny \<longleftrightarrow> (\<exists>line. p = Answered (Some line) \<and> trim line = ''deny'')"
    by (auto simp: ask_user_for_consent_def read_consent_decision_def consent_allow_def consent_deny_def
        split: popup.splits option.splits)
  have inj: "ps_env product a = ps_env product b \<longleftrightarrow> a = b" for a b by (simp add: ps_env_def)
  show ?thesis
    using ask_user_Allow_iff [of p] 1
    by (cases i)
      (auto simp: dialog_env_def inj var_app_name_def var_scopes_def var_exe_path_def var_flatpak_app_id_def
        var_web_origin_def split: option.split)
qed

end
