(* ===== verification/Daemon_Resource.thy ===== *)
theory Daemon_Resource
  imports SE_Hashmap
begin

section \<open>Connection cap and rate limits\<close>

text \<open>
  \<open>resource_management/{mod,connection,manager}.rs\<close>. The manager is its limits and the table of
  connections; every operation takes the table's write lock, so each is one step. Times are
  nanoseconds and the clock is an input. The clean-up task is the operation \<open>cleanup_tick\<close>. A length
  of time in seconds is clamped to \<open>i64\<close> as the code does; chrono panics on lengths past
  \<open>i64::MAX\<close> milliseconds, which none of the three sets of limits reaches.
\<close>

subsection \<open>Limits and errors\<close>

record resource_limits =
  rl_max_connections :: nat
  rl_max_requests_per_minute :: u32
  rl_max_requests_per_hour :: u32
  rl_connection_timeout_seconds :: u64
  rl_rate_limit_window_seconds :: u64

definition default_limits :: resource_limits where
  "default_limits =
     \<lparr>rl_max_connections = 100, rl_max_requests_per_minute = 120, rl_max_requests_per_hour = 3600,
      rl_connection_timeout_seconds = 300, rl_rate_limit_window_seconds = 60\<rparr>"

definition development_limits :: resource_limits where
  "development_limits =
     \<lparr>rl_max_connections = 50, rl_max_requests_per_minute = 300, rl_max_requests_per_hour = 7200,
      rl_connection_timeout_seconds = 600, rl_rate_limit_window_seconds = 60\<rparr>"

definition production_limits :: resource_limits where
  "production_limits =
     \<lparr>rl_max_connections = 20, rl_max_requests_per_minute = 300, rl_max_requests_per_hour = 7200,
      rl_connection_timeout_seconds = 180, rl_rate_limit_window_seconds = 60\<rparr>"

datatype resource_error =
    ConnectionLimitExceeded nat nat
  | RateLimitExceeded u32 u64 u32
  | ConnectionTimeout u64
  | ResourceUnavailable

subsection \<open>Histories\<close>

definition second :: int where
  "second = 1000000000"

text \<open>\<open>i64::try_from(secs).unwrap_or(i64::MAX)\<close> seconds, in nanoseconds.\<close>

definition span_of :: "u64 \<Rightarrow> int" where
  "span_of secs = (if uint secs < 2 ^ 63 then uint secs else 2 ^ 63 - 1) * second"

record request_history =
  rh_timestamps :: "int list"
  rh_last_cleanup :: int

definition new_history :: "int \<Rightarrow> request_history" where
  "new_history now = \<lparr>rh_timestamps = [], rh_last_cleanup = now\<rparr>"

definition cleanup_old_entries :: "int \<Rightarrow> u64 \<Rightarrow> request_history \<Rightarrow> request_history" where
  "cleanup_old_entries now max_age h =
     (let cutoff = now - span_of max_age
      in h\<lparr>rh_timestamps := filter (\<lambda>t. t > cutoff) (rh_timestamps h)\<rparr>)"

definition add_request :: "int \<Rightarrow> u64 \<Rightarrow> request_history \<Rightarrow> request_history" where
  "add_request now window h =
     (let h1 = h\<lparr>rh_timestamps := rh_timestamps h @ [now]\<rparr>
      in if length (rh_timestamps h1) mod 10 = 0 \<or> now - rh_last_cleanup h1 > 5 * 60 * second
         then (cleanup_old_entries now (window * 60) h1)\<lparr>rh_last_cleanup := now\<rparr>
         else h1)"

definition count_requests_in_window :: "int \<Rightarrow> u64 \<Rightarrow> request_history \<Rightarrow> u32" where
  "count_requests_in_window now window h =
     (let start = now - span_of window;
          n = length (filter (\<lambda>t. t > start) (rh_timestamps h))
      in if n < 2 ^ 32 then of_nat n else - 1)"

subsection \<open>Connections\<close>

record connection_info =
  ci_connected_at :: int
  ci_last_activity :: int
  ci_request_history :: request_history
  ci_client_id :: string
  ci_client_addr :: "string option"

definition new_connection :: "int \<Rightarrow> string \<Rightarrow> string option \<Rightarrow> connection_info" where
  "new_connection now client addr =
     \<lparr>ci_connected_at = now, ci_last_activity = now, ci_request_history = new_history now,
      ci_client_id = client, ci_client_addr = addr\<rparr>"

definition is_timed_out :: "int \<Rightarrow> u64 \<Rightarrow> connection_info \<Rightarrow> bool" where
  "is_timed_out now timeout c = (now - ci_last_activity c > span_of timeout)"

definition add_request_and_check_limits ::
  "int \<Rightarrow> resource_limits \<Rightarrow> connection_info \<Rightarrow> connection_info \<times> (resource_error + unit)" where
  "add_request_and_check_limits now limits c =
     (let h = add_request now (rl_rate_limit_window_seconds limits) (ci_request_history c);
          c1 = c\<lparr>ci_request_history := h, ci_last_activity := now\<rparr>;
          minute = count_requests_in_window now 60 h
      in if minute > rl_max_requests_per_minute limits
         then (c1, Inl (RateLimitExceeded minute 60 (rl_max_requests_per_minute limits)))
         else let hour = count_requests_in_window now 3600 h
              in if hour > rl_max_requests_per_hour limits
                 then (c1, Inl (RateLimitExceeded hour 3600 (rl_max_requests_per_hour limits)))
                 else (c1, Inr ()))"

subsection \<open>The manager\<close>

type_synonym connections = "(string, connection_info) hmap"

definition register_connection ::
  "int \<Rightarrow> resource_limits \<Rightarrow> string \<Rightarrow> string option \<Rightarrow> connections \<Rightarrow> connections \<times> (resource_error + unit)"
  where
  "register_connection now limits client addr conns =
     (if hm_contains conns client then (conns, Inr ())
      else if hm_len conns \<ge> rl_max_connections limits
      then (conns, Inl (ConnectionLimitExceeded (hm_len conns) (rl_max_connections limits)))
      else (hm_insert client (new_connection now client addr) conns, Inr ()))"

definition unregister_connection :: "string \<Rightarrow> connections \<Rightarrow> connections" where
  "unregister_connection client conns = hm_remove client conns"

definition record_request ::
  "int \<Rightarrow> resource_limits \<Rightarrow> string \<Rightarrow> connections \<Rightarrow> connections \<times> (resource_error + unit)" where
  "record_request now limits client conns =
     (case hm_get conns client of
        None \<Rightarrow> (conns, Inl ResourceUnavailable)
      | Some c \<Rightarrow>
          (case add_request_and_check_limits now limits c of
             (c1, r) \<Rightarrow> (hm_insert client c1 conns, r)))"

definition connection_count :: "connections \<Rightarrow> nat" where
  "connection_count conns = hm_len conns"

definition cleanup_tick :: "int \<Rightarrow> resource_limits \<Rightarrow> connections \<Rightarrow> connections" where
  "cleanup_tick now limits conns =
     hm_retain (\<lambda>_ c. \<not> is_timed_out now (rl_connection_timeout_seconds limits) c) conns"

record resource_stats =
  rs_total_connections :: nat
  rs_active_connections :: nat
  rs_total_requests_last_minute :: u32
  rs_total_requests_last_hour :: u32
  rs_max_connections :: nat
  rs_max_requests_per_minute :: u32
  rs_max_requests_per_hour :: u32

text \<open>
  The sums are \<open>u32\<close> additions; a release build wraps. \<open>is_timed_out\<close> reads the clock again for every
  connection: the readings are one here.
\<close>

definition get_stats :: "int \<Rightarrow> resource_limits \<Rightarrow> connections \<Rightarrow> resource_stats" where
  "get_stats now limits conns =
     (let active = filter (\<lambda>c. \<not> is_timed_out now (rl_connection_timeout_seconds limits) c) (map snd conns)
      in \<lparr>rs_total_connections = hm_len conns,
          rs_active_connections = length active,
          rs_total_requests_last_minute =
            sum_list (map (\<lambda>c. count_requests_in_window now 60 (ci_request_history c)) active),
          rs_total_requests_last_hour =
            sum_list (map (\<lambda>c. count_requests_in_window now 3600 (ci_request_history c)) active),
          rs_max_connections = rl_max_connections limits,
          rs_max_requests_per_minute = rl_max_requests_per_minute limits,
          rs_max_requests_per_hour = rl_max_requests_per_hour limits\<rparr>)"

subsection \<open>Runs\<close>

text \<open>
  The manager's operations in the order they take the lock. Beside the table, \<open>log_step\<close> keeps what
  the property is stated over: for each client, the time of every request since its entry was made,
  nothing ever dropped.
\<close>

datatype manager_op =
    OpRegister string "string option"
  | OpUnregister string
  | OpRequest string
  | OpTick

fun manager_step :: "resource_limits \<Rightarrow> connections \<Rightarrow> int \<times> manager_op \<Rightarrow> connections" where
  "manager_step limits conns (now, OpRegister c a) = fst (register_connection now limits c a conns)"
| "manager_step limits conns (now, OpUnregister c) = unregister_connection c conns"
| "manager_step limits conns (now, OpRequest c) = fst (record_request now limits c conns)"
| "manager_step limits conns (now, OpTick) = cleanup_tick now limits conns"

definition manager_run :: "resource_limits \<Rightarrow> (int \<times> manager_op) list \<Rightarrow> connections" where
  "manager_run limits ops = foldl (manager_step limits) hm_empty ops"

fun log_step :: "connections \<Rightarrow> (string \<Rightarrow> int list) \<Rightarrow> int \<times> manager_op \<Rightarrow> string \<Rightarrow> int list" where
  "log_step conns lg (now, OpRegister c a) = (if hm_contains conns c then lg else lg(c := []))"
| "log_step conns lg (now, OpRequest c) = lg(c := lg c @ [now])"
| "log_step conns lg (now, OpUnregister c) = lg"
| "log_step conns lg (now, OpTick) = lg"

fun request_log ::
  "resource_limits \<Rightarrow> connections \<Rightarrow> (string \<Rightarrow> int list) \<Rightarrow> (int \<times> manager_op) list \<Rightarrow> string \<Rightarrow> int list"
  where
  "request_log limits conns lg [] = lg"
| "request_log limits conns lg (e # es) =
     request_log limits (manager_step limits conns e) (log_step conns lg e) es"

definition requests_of :: "resource_limits \<Rightarrow> (int \<times> manager_op) list \<Rightarrow> string \<Rightarrow> int list" where
  "requests_of limits ops = request_log limits hm_empty (\<lambda>_. []) ops"

definition recent :: "int \<Rightarrow> int \<Rightarrow> int list \<Rightarrow> nat" where
  "recent now secs ts = length (filter (\<lambda>t. t > now - secs * second) ts)"

subsection \<open>Lemmas\<close>

lemma span_of_small [simp]: "span_of 60 = 60 * second" "span_of 3600 = 3600 * second"
  by (simp_all add: span_of_def)

lemma connection_ok_step:
  "hm_ok conns \<Longrightarrow> hm_len conns \<le> rl_max_connections limits \<Longrightarrow>
     hm_ok (manager_step limits conns e) \<and> hm_len (manager_step limits conns e) \<le> rl_max_connections limits"
proof (cases "(limits, conns, e)" rule: manager_step.cases)
  case (3 l cs now c)
  assume ok: "hm_ok conns" "hm_len conns \<le> rl_max_connections limits"
  with 3 show ?thesis
    by (cases "hm_get conns c")
      (auto simp: record_request_def hm.ok_ins hm.size_ins split: prod.splits)
qed (auto simp: register_connection_def unregister_connection_def cleanup_tick_def hm.ok_ins hm.ok_del
    hm.ok_keep hm.keep_bounded hm.size_ins_bounded hm.size_ins hm_contains_def
    intro: order.trans [OF hm_remove_len])

lemma manager_run_ok:
  "hm_ok (manager_run limits ops) \<and> hm_len (manager_run limits ops) \<le> rl_max_connections limits"
  unfolding manager_run_def
proof (induction ops rule: rev_induct)
  case Nil
  show ?case by (simp add: hm_ok_def hm_empty_def hm_len_def)
next
  case (snoc e ops)
  then show ?case using connection_ok_step by simp
qed

lemma add_request_keeps_client:
  "ci_client_id (fst (add_request_and_check_limits now limits c)) = ci_client_id c"
  "ci_request_history (fst (add_request_and_check_limits now limits c)) =
     add_request now (rl_rate_limit_window_seconds limits) (ci_request_history c)"
  "ci_last_activity (fst (add_request_and_check_limits now limits c)) = now"
  by (simp_all add: add_request_and_check_limits_def Let_def)

text \<open>Pruning never drops what the hour window still counts.\<close>

lemma add_request_recent:
  assumes "lo \<ge> now - 3600 * second"
  shows "filter (\<lambda>t. t > lo) (rh_timestamps (add_request now 60 h))
    = filter (\<lambda>t. t > lo) (rh_timestamps h @ [now])"
proof -
  have "filter (\<lambda>t. lo < t) (filter (\<lambda>t. now - 3600 * second < t) xs) = filter (\<lambda>t. lo < t) xs" for xs
    using assms by (auto simp: filter_filter intro: filter_cong)
  then show ?thesis
    by (simp add: add_request_def cleanup_old_entries_def Let_def del: filter_filter filter_append)
qed

text \<open>What the table remembers of each client agrees with the whole log on the last hour.\<close>

definition remembers :: "int \<Rightarrow> connections \<Rightarrow> (string \<Rightarrow> int list) \<Rightarrow> bool" where
  "remembers now conns lg \<longleftrightarrow>
     (\<forall>c ci lo. hm_get conns c = Some ci \<longrightarrow> lo \<ge> now - 3600 * second \<longrightarrow>
        filter (\<lambda>t. t > lo) (rh_timestamps (ci_request_history ci)) = filter (\<lambda>t. t > lo) (lg c))"

lemma remembers_later: "remembers now conns lg \<Longrightarrow> now \<le> later \<Longrightarrow> remembers later conns lg"
  by (fastforce simp: remembers_def)

lemma remembers_step:
  assumes r: "remembers now conns lg" and ok: "hm_ok conns"
    and w: "rl_rate_limit_window_seconds limits = 60"
  shows "remembers now (manager_step limits conns (now, op)) (log_step conns lg (now, op))"
proof (cases op)
  case (OpRegister c a)
  with r show ?thesis
    by (auto simp: remembers_def register_connection_def hm.get_ins new_connection_def new_history_def
        hm_contains_def)
next
  case (OpUnregister c)
  with r ok show ?thesis by (auto simp: remembers_def unregister_connection_def hm.get_del)
next
  case (OpTick)
  with r ok show ?thesis by (auto simp: remembers_def cleanup_tick_def hm.get_keep_Some)
next
  case (OpRequest c)
  show ?thesis
  proof (cases "hm_get conns c")
    case None
    with r OpRequest show ?thesis by (auto simp: remembers_def record_request_def)
  next
    case (Some ci)
    have h: "filter (\<lambda>t. lo < t) (rh_timestamps (add_request now 60 (ci_request_history ci)))
        = filter (\<lambda>t. lo < t) (lg c @ [now])" if "lo \<ge> now - 3600 * second" for lo
      using add_request_recent [OF that] r Some that by (simp add: remembers_def)
    have s: "manager_step limits conns (now, op)
        = hm_insert c (fst (add_request_and_check_limits now limits ci)) conns"
      using OpRequest Some by (simp add: record_request_def split: prod.split)
    show ?thesis
      unfolding remembers_def s
      using r h OpRequest w by (auto simp: remembers_def hm.get_ins add_request_keeps_client)
  qed
qed

lemma remembers_run:
  assumes "remembers start conns lg" and "hm_ok conns" and "hm_len conns \<le> rl_max_connections limits"
    and "sorted (start # map fst ops @ [now])" and "rl_rate_limit_window_seconds limits = 60"
  shows "remembers now (foldl (manager_step limits) conns ops) (request_log limits conns lg ops)"
  using assms
proof (induction ops arbitrary: start conns lg)
  case Nil
  then show ?case using remembers_later by simp
next
  case (Cons e ops)
  obtain t op where e: "e = (t, op)" by (cases e)
  have "remembers t conns lg" using Cons.prems(1,4) e remembers_later by simp
  then have "remembers t (manager_step limits conns e) (log_step conns lg e)"
    using remembers_step [OF _ Cons.prems(2,5)] e by simp
  then show ?case
    using Cons.IH [of t "manager_step limits conns e"] Cons.prems e
      connection_ok_step [OF Cons.prems(2,3), of e] by simp
qed

lemma count_le_iff:
  "count_requests_in_window now w h \<le> limit \<longleftrightarrow>
     min (length (filter (\<lambda>t. t > now - span_of w) (rh_timestamps h))) (2 ^ 32 - 1) \<le> unat limit"
proof -
  let ?n = "length (filter (\<lambda>t. t > now - span_of w) (rh_timestamps h))"
  have "unat (count_requests_in_window now w h) = min ?n (2 ^ 32 - 1)"
    using unat_max_value [where 'a = 32] unat_of_nat_small [where 'a = 32, of ?n]
    by (auto simp: count_requests_in_window_def Let_def min_def)
  then show ?thesis by (simp add: word_le_nat_alt)
qed

lemma check_limits_ok_iff:
  "is_ok (snd (add_request_and_check_limits now limits ci)) \<longleftrightarrow>
     count_requests_in_window now 60 (add_request now (rl_rate_limit_window_seconds limits) (ci_request_history ci))
       \<le> rl_max_requests_per_minute limits
     \<and> count_requests_in_window now 3600 (add_request now (rl_rate_limit_window_seconds limits) (ci_request_history ci))
       \<le> rl_max_requests_per_hour limits"
  by (auto simp: add_request_and_check_limits_def Let_def not_less)

lemma manager_run_client_id: "hm_get (manager_run limits ops) c = Some ci \<Longrightarrow> ci_client_id ci = c"
  unfolding manager_run_def
proof (induction ops arbitrary: ci c rule: rev_induct)
  case Nil
  then show ?case by (simp add: hm.get_empty)
next
  case (snoc e ops)
  let ?conns = "foldl (manager_step limits) hm_empty ops"
  have ok: "hm_ok ?conns" using manager_run_ok unfolding manager_run_def by blast
  obtain t op where e: "e = (t, op)" by (cases e)
  show ?case
  proof (cases op)
    case (OpRequest d)
    with snoc e show ?thesis
      by (cases "hm_get ?conns d")
        (auto simp: record_request_def hm.get_ins add_request_and_check_limits_def Let_def split: if_splits)
  next
    case (OpRegister d a)
    with snoc e show ?thesis
      by (auto simp: register_connection_def hm.get_ins new_connection_def split: if_splits)
  next
    case (OpUnregister d)
    with snoc e ok show ?thesis
      by (auto simp: unregister_connection_def hm.get_del split: if_splits)
  next
    case OpTick
    with snoc e ok show ?thesis by (auto simp: cleanup_tick_def hm.get_keep_Some)
  qed
qed

subsection \<open>Properties\<close>

text \<open>
  C37. The rate limit is exact: after any operations at non-decreasing times, a request is admitted
  exactly when its client is registered and, counting every request of the client since its entry
  was made, refused ones and this one included, the last minute and the last hour are within the
  limits; the pruning of the history never changes an answer, nor does registering again.
\<close>

theorem rate_limit_exact:
  assumes "sorted (map fst ops @ [now])" and "rl_rate_limit_window_seconds limits = 60"
  shows "is_ok (snd (record_request now limits c (manager_run limits ops))) \<longleftrightarrow>
     hm_contains (manager_run limits ops) c
     \<and> min (recent now 60 (requests_of limits ops c @ [now])) (2 ^ 32 - 1)
         \<le> unat (rl_max_requests_per_minute limits)
     \<and> min (recent now 3600 (requests_of limits ops c @ [now])) (2 ^ 32 - 1)
         \<le> unat (rl_max_requests_per_hour limits)"
proof (cases "hm_get (manager_run limits ops) c")
  case None
  then show ?thesis by (simp add: record_request_def hm_contains_def)
next
  case (Some ci)
  define start where "start = (case ops of [] \<Rightarrow> now | e # _ \<Rightarrow> fst e)"
  have st: "sorted (start # map fst ops @ [now])" using assms(1) by (cases ops) (auto simp: start_def)
  have "remembers now (foldl (manager_step limits) hm_empty ops) (request_log limits hm_empty (\<lambda>_. []) ops)"
    by (rule remembers_run [OF _ _ _ st assms(2)])
      (simp_all add: remembers_def hm_ok_def hm_len_def hm_empty_def hm_get_def)
  then have r: "remembers now (manager_run limits ops) (requests_of limits ops)"
    by (simp only: manager_run_def requests_of_def)
  have f: "length (filter (\<lambda>t. t > now - s * second)
        (rh_timestamps (add_request now (rl_rate_limit_window_seconds limits) (ci_request_history ci))))
      = recent now s (requests_of limits ops c @ [now])" if "s \<le> 3600" for s
  proof -
    have lo: "now - s * second \<ge> now - 3600 * second" using that by (simp add: second_def)
    show ?thesis
      using add_request_recent [OF lo, of "ci_request_history ci"] r Some lo
      unfolding remembers_def assms(2) recent_def by simp
  qed
  have "is_ok (snd (record_request now limits c (manager_run limits ops)))
      \<longleftrightarrow> is_ok (snd (add_request_and_check_limits now limits ci))"
    using Some by (simp add: record_request_def split: prod.split)
  then show ?thesis
    unfolding check_limits_ok_iff count_le_iff span_of_small
    using Some f [of 60] f [of 3600] by (simp add: hm_contains_def)
qed

definition tight_limits :: resource_limits where
  "tight_limits = default_limits\<lparr>rl_max_requests_per_minute := 1\<rparr>"

theorem rate_limit_exact_witness:
  "let ops = [(0, OpRegister ''a'' None), (1, OpRequest ''a''), (2, OpRegister ''a'' None)]
   in \<not> is_ok (snd (record_request 3 tight_limits ''a'' (manager_run tight_limits ops)))
      \<and> is_ok (snd (record_request (2 + 60 * second) tight_limits ''a'' (manager_run tight_limits ops)))"
proof -
  let ?ops = "[(0, OpRegister ''a'' None), (1, OpRequest ''a''), (2, OpRegister ''a'' None)]"
  have w: "rl_rate_limit_window_seconds tight_limits = 60"
    by (simp add: tight_limits_def default_limits_def)
  have here: "hm_contains (manager_run tight_limits ?ops) ''a''"
    by (simp add: manager_run_def register_connection_def record_request_def hm_contains_def hm_get_def
        hm_insert_def hm_empty_def hm_len_def tight_limits_def default_limits_def Let_def
        add_request_and_check_limits_def)
  have one: "hm_contains (manager_step tight_limits (manager_step tight_limits hm_empty
      (0, OpRegister ''a'' None)) (1, OpRequest ''a'')) ''a''"
    by (simp add: register_connection_def record_request_def hm_contains_def hm_get_def
        hm_insert_def hm_empty_def hm_len_def tight_limits_def default_limits_def Let_def
        add_request_and_check_limits_def)
  have log: "requests_of tight_limits ?ops ''a'' = [1]"
    using one by (simp add: requests_of_def hm_contains_def hm.get_empty)
  have max: "unat (rl_max_requests_per_minute tight_limits) = 1"
      "unat (rl_max_requests_per_hour tight_limits) = 3600"
    by (simp_all add: tight_limits_def default_limits_def)
  have 1: "\<not> is_ok (snd (record_request 3 tight_limits ''a'' (manager_run tight_limits ?ops)))"
    using rate_limit_exact [of ?ops 3 tight_limits "''a''", OF _ w] log max
    by (simp add: recent_def second_def)
  have 2: "is_ok (snd (record_request (2 + 60 * second) tight_limits ''a'' (manager_run tight_limits ?ops)))"
    using rate_limit_exact [of ?ops "2 + 60 * second" tight_limits "''a''", OF _ w] log max here
    by (simp add: recent_def second_def)
  show ?thesis using 1 2 by (simp add: Let_def)
qed

text \<open>
  The table after any operations, at any times: it never exceeds the cap, its entries are filed
  under their own client; registering a known client changes nothing even at the cap, a new one
  gets an empty history exactly while there is room and is otherwise refused with the counts; and
  a clean-up drops exactly the idle clients, after which the dropped client is refused whatever
  quota it has left, until it registers again.
\<close>

theorem connection_table_bounded:
  "let conns = manager_run limits ops
   in hm_len conns \<le> rl_max_connections limits
      \<and> (case hm_get conns c of
           Some ci \<Rightarrow> ci_client_id ci = c \<and> register_connection now limits c a conns = (conns, Inr ())
             \<and> (if is_timed_out now (rl_connection_timeout_seconds limits) ci
                then snd (record_request now limits c (cleanup_tick now limits conns)) = Inl ResourceUnavailable
                else hm_get (cleanup_tick now limits conns) c = Some ci)
         | None \<Rightarrow>
             if hm_len conns < rl_max_connections limits
             then snd (register_connection now limits c a conns) = Inr ()
                \<and> hm_get (fst (register_connection now limits c a conns)) c = Some (new_connection now c a)
                \<and> hm_len (fst (register_connection now limits c a conns)) = Suc (hm_len conns)
             else register_connection now limits c a conns
                = (conns, Inl (ConnectionLimitExceeded (rl_max_connections limits) (rl_max_connections limits))))"
proof -
  let ?conns = "manager_run limits ops"
  have ok: "hm_ok ?conns" and len: "hm_len ?conns \<le> rl_max_connections limits"
    using manager_run_ok by blast+
  show ?thesis
  proof (cases "hm_get ?conns c")
    case None
    with ok len show ?thesis
      by (simp add: Let_def register_connection_def hm_contains_def hm.get_ins hm.size_ins)
  next
    case (Some ci)
    have keep: "hm_get (cleanup_tick now limits ?conns) c
        = (if is_timed_out now (rl_connection_timeout_seconds limits) ci then None else Some ci)"
      using Some ok by (simp add: cleanup_tick_def hm.get_keep)
    show ?thesis
      using Some len keep manager_run_client_id [OF Some]
      by (simp add: Let_def register_connection_def hm_contains_def record_request_def)
  qed
qed

end
