(* ===== verification/Auth_Guards.thy ===== *)
theory Auth_Guards
  imports Auth_Consent Daemon_Resource
begin

section \<open>The guards and the auth routes\<close>

text \<open>
  \<open>auth/middleware.rs\<close> and \<open>auth/routes.rs\<close>. A guard either answers or passes the request on, with
  what it attached; \<open>Pass\<close> is \<open>next.run\<close>. A header is absent, or its bytes; what the
  \<open>http\<close> crate answers about a value's bytes is the record \<open>header_api\<close>. The state is the record \<open>auth\<close>, shared by all requests; the
  wait for a consent lock and for the dialog is in theory \<open>Auth_Handshake\<close>, so \<open>auth_request\<close>
  appears here as the steps between those waits.
\<close>

subsection \<open>Requests and the shared state\<close>

record http_request =
  rq_method :: string
  rq_origin :: "string option"
  rq_authorization :: "string option"
  rq_private_network :: "string option"
  rq_peer :: "peer_info option"
  rq_body :: "(unit + nat option) list"

type_synonym deny_cache = "consent_key set"

record auth =
  au_product :: product_spec
  au_tokens :: token_store
  au_locks :: consent_locks
  au_denied :: deny_cache
  au_limits :: resource_limits
  au_conns :: connections
  au_allowed_origins :: "string list"

definition deny_contains :: "consent_key \<Rightarrow> deny_cache \<Rightarrow> bool" where
  "deny_contains key c = (key \<in> c)"

definition deny_insert :: "consent_key \<Rightarrow> deny_cache \<Rightarrow> deny_cache" where
  "deny_insert key c = insert key c"

definition auth_origin_allowed :: "auth \<Rightarrow> string \<Rightarrow> bool" where
  "auth_origin_allowed au origin = is_origin_allowed (au_allowed_origins au) origin"

text \<open>\<open>HeaderValue::to_str\<close> and whether \<open>HeaderValue::from_str\<close> accepts a text.\<close>

record header_api =
  ha_to_str :: "string \<Rightarrow> string option"
  ha_from_str :: "string \<Rightarrow> bool"

definition request_origin :: "header_api \<Rightarrow> http_request \<Rightarrow> string option" where
  "request_origin api r = (case rq_origin r of None \<Rightarrow> None | Some v \<Rightarrow> ha_to_str api v)"

subsection \<open>Refusing\<close>

definition refused_body_drain_limit :: nat where
  "refused_body_drain_limit = 2 * 1024 * 1024"

text \<open>
  The frames \<open>refuse\<close> reads before it answers: a frame is data of some length, trailers, or an error.
  The value is how many frames were read and the bytes counted (\<open>usize\<close>, saturating far above the
  limit).
\<close>

fun drain_body :: "nat \<Rightarrow> (unit + nat option) list \<Rightarrow> nat \<times> nat" where
  "drain_body drained [] = (0, drained)"
| "drain_body drained (Inl _ # fs) = (1, drained)"
| "drain_body drained (Inr None # fs) = (case drain_body drained fs of (n, d) \<Rightarrow> (Suc n, d))"
| "drain_body drained (Inr (Some len) # fs) =
     (if drained + len \<ge> refused_body_drain_limit then (1, drained + len)
      else case drain_body (drained + len) fs of (n, d) \<Rightarrow> (Suc n, d))"

definition refuse :: "http_request \<Rightarrow> response \<Rightarrow> response" where
  "refuse r answer = (case drain_body 0 (rq_body r) of _ \<Rightarrow> answer)"

subsection \<open>The origin gate\<close>

text \<open>The CORS headers attached to an answer.\<close>

definition cors_allow_methods :: string where
  "cors_allow_methods = ''GET, POST, PATCH, DELETE, OPTIONS''"

definition cors_allow_headers :: string where
  "cors_allow_headers = ''authorization, content-type''"

definition cors_max_age :: string where
  "cors_max_age = ''600''"

definition cors_headers :: "header_api \<Rightarrow> string \<Rightarrow> (string \<times> string) list" where
  "cors_headers api origin =
     (if ha_from_str api origin then [(''access-control-allow-origin'', origin)] else []) @
     [(''access-control-allow-methods'', cors_allow_methods),
      (''access-control-allow-headers'', cors_allow_headers),
      (''access-control-max-age'', cors_max_age),
      (''vary'', ''origin'')]"

datatype gate =
    Pass http_request "(string \<times> string) list"
  | Preflight "(string \<times> string) list"
  | Refused response

definition is_tcp_request :: "http_request \<Rightarrow> bool" where
  "is_tcp_request r =
     (case rq_peer r of None \<Rightarrow> False | Some p \<Rightarrow> pi_pid p = None \<and> pi_uid p = None)"

definition allowed_origin_of :: "header_api \<Rightarrow> auth \<Rightarrow> http_request \<Rightarrow> string option" where
  "allowed_origin_of api au r =
     (case request_origin api r of
        None \<Rightarrow> None
      | Some origin \<Rightarrow> if auth_origin_allowed au origin then Some origin else None)"

definition require_allowed_origin :: "header_api \<Rightarrow> int \<Rightarrow> http_request \<Rightarrow> auth \<Rightarrow> auth \<times> gate" where
  "require_allowed_origin api now r au =
     (if \<not> is_tcp_request r then (au, Pass r [])
      else case allowed_origin_of api au r of
             None \<Rightarrow> (au, Refused (refuse r (auth_err 403 ''auth_denied'' reason_origin_not_allowed)))
           | Some origin \<Rightarrow>
               if rq_method r = ''OPTIONS'' then
                 (au, Preflight (cors_headers api origin @
                    (if rq_private_network r = Some ''true''
                     then [(''access-control-allow-private-network'', ''true'')] else [])))
               else
                 let peer = (case rq_peer r of Some p \<Rightarrow> p | None \<Rightarrow> peer_tcp)\<lparr>pi_web_origin := Some origin\<rparr>
                 in case register_connection now (au_limits au) (client_id peer) None (au_conns au) of
                      (conns, Inl _) \<Rightarrow>
                        (au\<lparr>au_conns := conns\<rparr>,
                         Refused (refuse r (error_response 503 ''connection_rejected'' ''too_many_clients'')))
                    | (conns, Inr _) \<Rightarrow>
                        (au\<lparr>au_conns := conns\<rparr>, Pass (r\<lparr>rq_peer := Some peer\<rparr>) (cors_headers api origin)))"

subsection \<open>Tokens and scopes\<close>

definition extract_bearer_token :: "header_api \<Rightarrow> http_request \<Rightarrow> string option" where
  "extract_bearer_token api r =
     (case rq_authorization r of
        None \<Rightarrow> None
      | Some v \<Rightarrow> (case ha_to_str api v of None \<Rightarrow> None | Some s \<Rightarrow> strip_prefix ''Bearer '' s))"

record auth_context =
  ac_meta :: token_meta
  ac_token :: string

definition verify_peer_binding ::
  "os_view \<Rightarrow> peer_info option \<Rightarrow> token_meta \<Rightarrow> string \<Rightarrow> token_store \<Rightarrow> token_store \<times> (string + unit)"
  where
  "verify_peer_binding os peer meta token st =
     (case resolve_peer_identity os peer of
        None \<Rightarrow> (st, Inl reason_unknown)
      | Some i \<Rightarrow>
          if tm_matches meta i then (st, Inr ())
          else (revoke token st, Inl reason_exe_changed))"

text \<open>
  A guarded handler is reached with the context, or the guard answers. \<open>require_scope\<close> and
  \<open>require_any_authenticated\<close> write these steps out twice. A guard is one step here: \<open>validate\<close> gives a
  copy of the token's data, so a revocation by another request in the meantime comes too late for
  this one in the code as well.
\<close>

definition check_session ::
  "header_api \<Rightarrow> os_view \<Rightarrow> int \<Rightarrow> http_request \<Rightarrow> token_store \<Rightarrow> token_store \<times> (response + auth_context)" where
  "check_session api os now r st =
     (case extract_bearer_token api r of
        None \<Rightarrow> (st, Inl (refuse r (invalid_session reason_unknown)))
      | Some token \<Rightarrow>
          (case validate_token now token st of
             (st1, Inl rsn) \<Rightarrow> (st1, Inl (refuse r (invalid_session rsn)))
           | (st1, Inr meta) \<Rightarrow>
               (case verify_peer_binding os (rq_peer r) meta token st1 of
                  (st2, Inl rsn) \<Rightarrow> (st2, Inl (refuse r (invalid_session rsn)))
                | (st2, Inr _) \<Rightarrow> (st2, Inr \<lparr>ac_meta = meta, ac_token = token\<rparr>))))"

definition require_scope ::
  "string \<Rightarrow> header_api \<Rightarrow> os_view \<Rightarrow> int \<Rightarrow> http_request \<Rightarrow> token_store \<Rightarrow> token_store \<times> (response + auth_context)"
  where
  "require_scope required api os now r st =
     (case check_session api os now r st of
        (st1, Inl answer) \<Rightarrow> (st1, Inl answer)
      | (st1, Inr ctx) \<Rightarrow>
          if list_ex (\<lambda>s. s = required) (tm_scopes (ac_meta ctx)) then (st1, Inr ctx)
          else (st1, Inl (refuse r scope_denied)))"

definition require_status_scope where
  "require_status_scope = require_scope ''status''"

definition require_settings_scope where
  "require_settings_scope = require_scope ''settings''"

definition require_secrets_scope where
  "require_secrets_scope = require_scope ''secrets''"

definition require_any_authenticated ::
  "header_api \<Rightarrow> os_view \<Rightarrow> int \<Rightarrow> http_request \<Rightarrow> token_store \<Rightarrow> token_store \<times> (response + auth_context)" where
  "require_any_authenticated api os now r st = check_session api os now r st"

definition require_rate_limit :: "int \<Rightarrow> peer_info \<Rightarrow> http_request \<Rightarrow> auth \<Rightarrow> auth \<times> (response + unit)" where
  "require_rate_limit now peer r au =
     (case record_request now (au_limits au) (client_id peer) (au_conns au) of
        (conns, Inr _) \<Rightarrow> (au\<lparr>au_conns := conns\<rparr>, Inr ())
      | (conns, Inl _) \<Rightarrow> (au\<lparr>au_conns := conns\<rparr>, Inl (refuse r rate_limited)))"

subsection \<open>The auth routes\<close>

record auth_request_body =
  ab_app_name :: string
  ab_scopes :: "string list"
  ab_version :: "string option"

datatype auth_reply =
    AuthOk string "string list" int
  | AuthStatusOk "string list" int
  | AuthErr response

text \<open>\<open>auth_denied\<close>, the one message of the refusals of \<open>auth_request\<close>.\<close>

definition auth_denied :: "nat \<Rightarrow> string \<Rightarrow> auth_reply" where
  "auth_denied status rsn = AuthErr (auth_err status ''auth_denied'' rsn)"

definition cached_deny_response :: "auth \<Rightarrow> consent_key \<Rightarrow> auth_reply option" where
  "cached_deny_response au key =
     (if \<not> deny_contains key (au_denied au) then None
      else Some (auth_denied 403 reason_user_denied_cached))"

definition reject_foreign_uid :: "u32 \<Rightarrow> peer_info option \<Rightarrow> auth_reply option" where
  "reject_foreign_uid daemon_uid peer =
     (if (case peer of None \<Rightarrow> False | Some p \<Rightarrow> pi_web_origin p \<noteq> None) then None
      else case (case peer of None \<Rightarrow> None | Some p \<Rightarrow> pi_uid p) of
             Some uid \<Rightarrow> if uid = daemon_uid then None else Some (auth_denied 403 reason_uid_mismatch)
           | None \<Rightarrow> Some (auth_denied 403 reason_uid_mismatch))"

definition finalize_consent_decision ::
  "string \<Rightarrow> int \<Rightarrow> consent_decision \<Rightarrow> auth_request_body \<Rightarrow> consent_key \<Rightarrow> auth \<Rightarrow> auth \<times> auth_reply" where
  "finalize_consent_decision token now decision body key au =
     (case decision of
        Allow \<Rightarrow>
          (case mint token now (ab_app_name body) (snd key) (fst key) (au_tokens au) of
             (st, (tok, expires_at)) \<Rightarrow> (au\<lparr>au_tokens := st\<rparr>, AuthOk tok (snd key) expires_at))
      | Deny \<Rightarrow> (au\<lparr>au_denied := deny_insert key (au_denied au)\<rparr>, auth_denied 403 reason_user_denied)
      | Dismissed \<Rightarrow> (au, auth_denied 403 reason_user_dismissed)
      | PopupFailed \<Rightarrow> (au, auth_denied 403 reason_popup_failed))"

definition official_client_response ::
  "fs_view \<Rightarrow> string \<Rightarrow> int \<Rightarrow> auth_request_body \<Rightarrow> consent_key \<Rightarrow> auth \<Rightarrow> (auth \<times> auth_reply) option" where
  "official_client_response fs token now body key au =
     (if \<not> is_official_client fs (au_product au) (fst key) then None
      else Some (finalize_consent_decision token now Allow body key au))"

text \<open>
  \<open>auth_request\<close> up to the wait for the consent lock: an answer, or the key and the lock to wait for.
\<close>

datatype started =
    Answer auth_reply
  | Queue consent_key nat

definition auth_request_start ::
  "fs_view \<Rightarrow> os_view \<Rightarrow> string \<Rightarrow> int \<Rightarrow> auth_request_body option \<Rightarrow> peer_info option \<Rightarrow> auth
   \<Rightarrow> auth \<times> started" where
  "auth_request_start fs os token now body_in peer au =
     (case body_in of
        None \<Rightarrow> (au, Answer (auth_denied 400 reason_invalid_body))
      | Some body \<Rightarrow>
          if ab_scopes body = [] \<or> \<not> list_all (is_known_scope (au_product au)) (ab_scopes body)
          then (au, Answer (auth_denied 400 reason_invalid_scope))
          else
            (case reject_foreign_uid (fs_geteuid fs) peer of
               Some rejection \<Rightarrow> (au, Answer rejection)
             | None \<Rightarrow>
                 (case resolve_peer_identity os peer of
                    None \<Rightarrow> (au, Answer (auth_denied 403 reason_peer_unverifiable))
                  | Some i \<Rightarrow>
                      let key = (i, normalize_scopes (ab_scopes body))
                      in case official_client_response fs token now body key au of
                           Some (au1, resp) \<Rightarrow> (au1, Answer resp)
                         | None \<Rightarrow>
                             (case cached_deny_response au key of
                                Some resp \<Rightarrow> (au, Answer resp)
                              | None \<Rightarrow>
                                  (case lock_for key (au_locks au) of
                                     (ls, l) \<Rightarrow> (au\<lparr>au_locks := ls\<rparr>, Queue key l))))))"

text \<open>
  Once the lock is held: the cached denial again, or none, and then the decision, which a debug build
  takes without asking when its environment says so.
\<close>

definition auth_request_locked :: "consent_key \<Rightarrow> auth \<Rightarrow> auth_reply option" where
  "auth_request_locked key au = cached_deny_response au key"

definition auth_request_decision :: "bool \<Rightarrow> bool \<Rightarrow> popup \<Rightarrow> consent_decision" where
  "auth_request_decision debug_build env_is_1 p =
     (if debug_build \<and> env_is_1 then Allow else ask_user_for_consent p)"

definition auth_status :: "auth_context option \<Rightarrow> auth_reply" where
  "auth_status ctx =
     (case ctx of
        None \<Rightarrow> AuthErr (invalid_session reason_unknown)
      | Some c \<Rightarrow> AuthStatusOk (tm_scopes (ac_meta c)) (tm_expires_at (ac_meta c)))"

subsection \<open>Lemmas\<close>

lemma check_session_Inr:
  "snd (check_session api os now r st) = Inr ctx \<longleftrightarrow>
     (\<exists>token meta. extract_bearer_token api r = Some token \<and> hm_get (st_tokens st) token = Some meta
        \<and> now \<le> tm_expires_at meta \<and> resolve_peer_identity os (rq_peer r) = Some (tm_grantee meta)
        \<and> ctx = \<lparr>ac_meta = meta, ac_token = token\<rparr>)"
  by (auto simp: check_session_def validate_token_def verify_peer_binding_def tm_matches_def
      split: option.splits if_splits)

lemma check_session_stolen:
  "extract_bearer_token api r = Some token \<Longrightarrow> hm_get (st_tokens st) token = Some meta \<Longrightarrow>
   now \<le> tm_expires_at meta \<Longrightarrow> resolve_peer_identity os (rq_peer r) = Some i \<Longrightarrow> i \<noteq> tm_grantee meta \<Longrightarrow>
     check_session api os now r st = (revoke token st, Inl (invalid_session reason_exe_changed))"
  by (auto simp: check_session_def validate_token_def verify_peer_binding_def tm_matches_def refuse_def)

lemma check_session_keeps:
  "other \<noteq> token \<Longrightarrow> extract_bearer_token api r = Some token \<Longrightarrow>
     hm_get (st_tokens (fst (check_session api os now r st))) other = hm_get (st_tokens st) other"
  by (auto simp: check_session_def validate_token_def verify_peer_binding_def revoke_def hm_remove_get
      split: option.splits prod.splits sum.splits if_splits)

lemma require_scope_fst: "fst (require_scope required api os now r st) = fst (check_session api os now r st)"
  by (auto simp: require_scope_def split: prod.splits sum.splits)

lemma require_scope_Inr:
  "snd (require_scope required api os now r st) = Inr ctx \<longleftrightarrow>
     snd (check_session api os now r st) = Inr ctx \<and> required \<in> set (tm_scopes (ac_meta ctx))"
  by (auto simp: require_scope_def list_ex_iff split: prod.splits sum.splits)

lemma revoked_gone: "hm_get (st_tokens (revoke token st)) token = None"
  by (auto simp: revoke_def hm_remove_get hm_contains_def)

subsection \<open>Properties\<close>

text \<open>
  C38. A guarded handler runs exactly for a caller who presents a bearer token that is in the store
  and not expired, who is itself the identity the token was granted to, and whose token carries the
  scope; an identified caller presenting another's token is answered \<open>exe_changed\<close> and the token is
  gone, so no later request with it is admitted anywhere; an unidentifiable caller leaves it alive;
  and no guard touches another token.
\<close>

theorem require_scope_exact:
  "(snd (require_scope required api os now r st) = Inr ctx \<longleftrightarrow>
     (\<exists>token meta. extract_bearer_token api r = Some token \<and> hm_get (st_tokens st) token = Some meta
        \<and> now \<le> tm_expires_at meta \<and> resolve_peer_identity os (rq_peer r) = Some (tm_grantee meta)
        \<and> required \<in> set (tm_scopes meta) \<and> ctx = \<lparr>ac_meta = meta, ac_token = token\<rparr>))
   \<and> (case extract_bearer_token api r of
        None \<Rightarrow> require_scope required api os now r st = (st, Inl (invalid_session ''unknown''))
      | Some token \<Rightarrow>
          (case hm_get (st_tokens st) token of
             None \<Rightarrow> require_scope required api os now r st = (st, Inl (invalid_session ''unknown''))
           | Some meta \<Rightarrow>
               (case resolve_peer_identity os (rq_peer r) of
                  None \<Rightarrow> if now \<le> tm_expires_at meta
                           then require_scope required api os now r st = (st, Inl (invalid_session ''unknown''))
                           else True
                | Some i \<Rightarrow>
                    if now \<le> tm_expires_at meta \<and> i \<noteq> tm_grantee meta
                    then snd (require_scope required api os now r st) = Inl (invalid_session ''exe_changed'')
                       \<and> (if extract_bearer_token api r2 = Some token
                          then is_err (snd (require_scope required2 api os2 now2 r2
                                 (fst (require_scope required api os now r st)))) else True)
                    else True))
          \<and> (if other = token then True
             else hm_get (st_tokens (fst (require_scope required api os now r st))) other
                = hm_get (st_tokens st) other))"
proof -
  have 1: "snd (require_scope required api os now r st) = Inr ctx \<longleftrightarrow>
     (\<exists>token meta. extract_bearer_token api r = Some token \<and> hm_get (st_tokens st) token = Some meta
        \<and> now \<le> tm_expires_at meta \<and> resolve_peer_identity os (rq_peer r) = Some (tm_grantee meta)
        \<and> required \<in> set (tm_scopes meta) \<and> ctx = \<lparr>ac_meta = meta, ac_token = token\<rparr>)"
    by (auto simp: require_scope_Inr check_session_Inr)
  have gone: "is_err (snd (require_scope required2 api os2 now2 r2 (revoke token st)))"
    if "extract_bearer_token api r2 = Some token" for token
  proof (rule ccontr)
    assume "\<not> ?thesis"
    then obtain c where "snd (require_scope required2 api os2 now2 r2 (revoke token st)) = Inr c"
      by (metis sum.collapse(2))
    with that show False by (auto simp: require_scope_Inr check_session_Inr revoked_gone)
  qed
  show ?thesis
  proof (cases "extract_bearer_token api r")
    case None
    with 1 show ?thesis by (simp add: require_scope_def check_session_def refuse_def reason_unknown_def)
  next
    case (Some token)
    have other: "other \<noteq> token \<Longrightarrow>
        hm_get (st_tokens (fst (require_scope required api os now r st))) other = hm_get (st_tokens st) other"
      by (simp add: require_scope_fst check_session_keeps [OF _ Some])
    show ?thesis
    proof (cases "hm_get (st_tokens st) token")
      case None
      with 1 Some show ?thesis
        by (simp add: require_scope_def check_session_def validate_token_def refuse_def)
    next
      case meta: (Some meta)
      show ?thesis
      proof (cases "resolve_peer_identity os (rq_peer r)")
        case None
        with 1 Some meta other show ?thesis
          by (simp add: require_scope_def check_session_def validate_token_def verify_peer_binding_def
              refuse_def reason_unknown_def)
      next
        case i: (Some i)
        have "snd (require_scope required api os now r st) = Inl (invalid_session ''exe_changed'')
            \<and> fst (require_scope required api os now r st) = revoke token st"
          if "now \<le> tm_expires_at meta" "i \<noteq> tm_grantee meta"
          using check_session_stolen [OF Some meta that(1) i that(2)]
          by (simp add: require_scope_def reason_exe_changed_def)
        with 1 Some meta i other gone show ?thesis by simp
      qed
    qed
  qed
qed

lemma register_result:
  "is_ok (snd (register_connection now limits c a conns)) \<longleftrightarrow>
     hm_contains conns c \<or> hm_len conns < rl_max_connections limits"
  "is_ok (snd (register_connection now limits c a conns)) \<Longrightarrow>
     hm_contains (fst (register_connection now limits c a conns)) c"
  by (auto simp: register_connection_def hm_contains_def hm.get_ins split: if_splits)

lemma gate_unfold:
  assumes "is_tcp_request r" and "rq_peer r = Some p" and "rq_method r \<noteq> ''OPTIONS''"
  shows "require_allowed_origin api now r au =
    (case allowed_origin_of api au r of
       None \<Rightarrow> (au, Refused (auth_err 403 ''auth_denied'' reason_origin_not_allowed))
     | Some origin \<Rightarrow>
         let peer = p\<lparr>pi_web_origin := Some origin\<rparr>;
             reg = register_connection now (au_limits au) (client_id peer) None (au_conns au)
         in (au\<lparr>au_conns := fst reg\<rparr>,
             if is_ok (snd reg) then Pass (r\<lparr>rq_peer := Some peer\<rparr>) (cors_headers api origin)
             else Refused (error_response 503 ''connection_rejected'' ''too_many_clients'')))"
  using assms
  by (simp add: require_allowed_origin_def refuse_def Let_def split: option.split sum.split prod.split)

lemma gate_preflight:
  "is_tcp_request r \<Longrightarrow> rq_method r = ''OPTIONS'' \<Longrightarrow> snd (require_allowed_origin api now r au) \<noteq> Pass r2 hs"
  by (simp add: require_allowed_origin_def split: option.split)

lemma allowed_origin_of_Some:
  "allowed_origin_of api au r = Some origin \<longleftrightarrow>
     request_origin api r = Some origin \<and> is_origin_allowed (au_allowed_origins au) origin"
  by (auto simp: allowed_origin_of_def auth_origin_allowed_def split: option.splits if_splits)

lemma gate_tcp_Pass:
  assumes tcp: "is_tcp_request r"
  shows "snd (require_allowed_origin api now r au) = Pass r2 hs \<longleftrightarrow>
     rq_method r \<noteq> ''OPTIONS'' \<and>
     (\<exists>p origin. rq_peer r = Some p \<and> request_origin api r = Some origin
        \<and> is_origin_allowed (au_allowed_origins au) origin
        \<and> (hm_contains (au_conns au) (client_id (p\<lparr>pi_web_origin := Some origin\<rparr>))
           \<or> hm_len (au_conns au) < rl_max_connections (au_limits au))
        \<and> r2 = r\<lparr>rq_peer := Some (p\<lparr>pi_web_origin := Some origin\<rparr>)\<rparr>
        \<and> hs = cors_headers api origin)"
proof -
  obtain p where p: "rq_peer r = Some p"
    using tcp by (auto simp: is_tcp_request_def split: option.splits)
  show ?thesis
  proof (cases "rq_method r = ''OPTIONS''")
    case True
    with tcp show ?thesis by (simp add: gate_preflight)
  next
    case False
    show ?thesis
    proof (cases "allowed_origin_of api au r")
      case None
      then have "\<nexists>origin. request_origin api r = Some origin \<and> is_origin_allowed (au_allowed_origins au) origin"
        using allowed_origin_of_Some [of api au r] by (metis option.distinct(1))
      moreover have "snd (require_allowed_origin api now r au) \<noteq> Pass r2 hs"
        unfolding gate_unfold [OF tcp p False] None by simp
      ultimately show ?thesis by blast
    next
      case (Some origin)
      let ?peer = "p\<lparr>pi_web_origin := Some origin\<rparr>"
      have o: "request_origin api r = Some origin" "is_origin_allowed (au_allowed_origins au) origin"
        using Some allowed_origin_of_Some by metis+
      have "snd (require_allowed_origin api now r au) = Pass r2 hs \<longleftrightarrow>
          is_ok (snd (register_connection now (au_limits au) (client_id ?peer) None (au_conns au)))
          \<and> r2 = r\<lparr>rq_peer := Some ?peer\<rparr> \<and> hs = cors_headers api origin"
        unfolding gate_unfold [OF tcp p False] Some by (auto simp only: Let_def option.case snd_conv gate.inject gate.distinct split: if_split)
      also have "\<dots> \<longleftrightarrow> (hm_contains (au_conns au) (client_id ?peer) \<or> hm_len (au_conns au) < rl_max_connections (au_limits au))
          \<and> r2 = r\<lparr>rq_peer := Some ?peer\<rparr> \<and> hs = cors_headers api origin"
        by (simp only: register_result(1))
      finally show ?thesis using False p o by simp
    qed
  qed
qed

lemma gate_registers:
  assumes pass: "snd (require_allowed_origin api now r au) = Pass r2 hs" and tcp: "is_tcp_request r"
    and peer: "rq_peer r2 = Some q"
  shows "hm_contains (au_conns (fst (require_allowed_origin api now r au))) (client_id q)"
proof -
  obtain p where p: "rq_peer r = Some p"
    using tcp by (auto simp: is_tcp_request_def split: option.splits)
  have m: "rq_method r \<noteq> ''OPTIONS''" using pass tcp gate_preflight by blast
  show ?thesis
  proof (cases "allowed_origin_of api au r")
    case None
    with pass show ?thesis unfolding gate_unfold [OF tcp p m] by simp
  next
    case (Some origin)
    let ?peer = "p\<lparr>pi_web_origin := Some origin\<rparr>"
    let ?reg = "register_connection now (au_limits au) (client_id ?peer) None (au_conns au)"
    have ok: "is_ok (snd ?reg)" and "r2 = r\<lparr>rq_peer := Some ?peer\<rparr>"
      using pass unfolding gate_unfold [OF tcp p m] Some by (simp_all add: Let_def split: if_splits)
    then have "q = ?peer" using peer by simp
    then show ?thesis
      using register_result(2) [OF ok] unfolding gate_unfold [OF tcp p m] Some by (simp add: Let_def)
  qed
qed

text \<open>
  A TCP request gets past the origin gate exactly when its origin is on the user's list, it is
  no preflight, and its quota key has a place in the table; it then carries that origin as its
  identity and is registered, and the only origin its answer names is that one. Any other TCP
  request reaches no handler, and a request with a pid or uid passes untouched. Behind the gate a
  scope guard admits a TCP caller only with a token the user granted to that very origin.
\<close>

theorem origin_gate_exact:
  "(if is_tcp_request r
    then (snd (require_allowed_origin api now r au) = Pass r2 hs \<longleftrightarrow>
           rq_method r \<noteq> ''OPTIONS'' \<and>
           (\<exists>p origin. rq_peer r = Some p \<and> request_origin api r = Some origin
              \<and> (any_origin \<in> set (au_allowed_origins au) \<or> origin \<in> set (au_allowed_origins au))
              \<and> (hm_contains (au_conns au) (client_id (p\<lparr>pi_web_origin := Some origin\<rparr>))
                 \<or> hm_len (au_conns au) < rl_max_connections (au_limits au))
              \<and> r2 = r\<lparr>rq_peer := Some (p\<lparr>pi_web_origin := Some origin\<rparr>)\<rparr>
              \<and> hs = cors_headers api origin))
    else require_allowed_origin api now r au = (au, Pass r []))
   \<and> (if is_tcp_request r \<and> snd (require_allowed_origin api now r au) = Pass r2 hs
      then (\<exists>origin p. request_origin api r = Some origin \<and> rq_peer r2 = Some p
              \<and> resolve_peer_identity os (rq_peer r2) = Some (Web origin)
              \<and> (if snd (require_scope required api os now r2 st) = Inr ctx
                 then tm_grantee (ac_meta ctx) = Web origin else True)
              \<and> map_of hs ''access-control-allow-origin'' \<in> {None, Some origin}
              \<and> hm_contains (au_conns (fst (require_allowed_origin api now r au))) (client_id p))
      else True)"
proof (cases "is_tcp_request r")
  case False
  then show ?thesis by (simp add: require_allowed_origin_def)
next
  case tcp: True
  note pass = gate_tcp_Pass [OF tcp, of api now au r2 hs]
  show ?thesis
  proof (cases "snd (require_allowed_origin api now r au) = Pass r2 hs")
    case False
    with tcp pass show ?thesis unfolding is_origin_allowed_iff by simp
  next
    case True
    with tcp pass obtain p origin where h: "rq_peer r = Some p" "request_origin api r = Some origin"
        "r2 = r\<lparr>rq_peer := Some (p\<lparr>pi_web_origin := Some origin\<rparr>)\<rparr>" "hs = cors_headers api origin"
      by blast
    let ?p = "p\<lparr>pi_web_origin := Some origin\<rparr>"
    have peer: "rq_peer r2 = Some ?p" using h by simp
    then have web: "resolve_peer_identity os (rq_peer r2) = Some (Web origin)"
      by (simp add: resolve_Web_iff)
    then have grantee: "tm_grantee (ac_meta ctx) = Web origin"
      if "snd (require_scope required api os now r2 st) = Inr ctx"
      using that by (auto simp: require_scope_Inr check_session_Inr)
    have cors: "map_of hs ''access-control-allow-origin'' \<in> {None, Some origin}"
      using h(4) by (simp add: cors_headers_def)
    have reg: "hm_contains (au_conns (fst (require_allowed_origin api now r au))) (client_id ?p)"
      by (rule gate_registers [OF True tcp peer])
    have second: "\<exists>origin p. request_origin api r = Some origin \<and> rq_peer r2 = Some p
        \<and> resolve_peer_identity os (rq_peer r2) = Some (Web origin)
        \<and> (if snd (require_scope required api os now r2 st) = Inr ctx
           then tm_grantee (ac_meta ctx) = Web origin else True)
        \<and> map_of hs ''access-control-allow-origin'' \<in> {None, Some origin}
        \<and> hm_contains (au_conns (fst (require_allowed_origin api now r au))) (client_id p)"
      using h(2) peer web grantee cors reg by (metis (full_types))
    from tcp pass True second show ?thesis unfolding is_origin_allowed_iff by simp
  qed
qed

lemma cached_deny_None: "cached_deny_response au key = None \<longleftrightarrow> key \<notin> au_denied au"
  by (simp add: cached_deny_response_def deny_contains_def)

lemma reject_foreign_uid_None:
  "reject_foreign_uid daemon_uid peer = None \<longleftrightarrow>
     (\<exists>p. peer = Some p \<and> (pi_web_origin p \<noteq> None \<or> pi_uid p = Some daemon_uid))"
  by (auto simp: reject_foreign_uid_def split: option.splits if_splits)

definition admitted ::
  "fs_view \<Rightarrow> os_view \<Rightarrow> auth_request_body option \<Rightarrow> peer_info option \<Rightarrow> auth \<Rightarrow> consent_key option" where
  "admitted fs os body_in peer au =
     (case body_in of
        None \<Rightarrow> None
      | Some body \<Rightarrow>
          if ab_scopes body \<noteq> [] \<and> list_all (is_known_scope (au_product au)) (ab_scopes body)
             \<and> reject_foreign_uid (fs_geteuid fs) peer = None
          then map_option (\<lambda>i. (i, normalize_scopes (ab_scopes body))) (resolve_peer_identity os peer)
          else None)"

lemma admitted_iff:
  "admitted fs os body_in peer au = Some key \<longleftrightarrow>
     (\<exists>body p. body_in = Some body \<and> peer = Some p
        \<and> ab_scopes body \<noteq> [] \<and> list_all (is_known_scope (au_product au)) (ab_scopes body)
        \<and> (pi_web_origin p \<noteq> None \<or> pi_uid p = Some (fs_geteuid fs))
        \<and> resolve_peer_identity os peer = Some (fst key) \<and> snd key = normalize_scopes (ab_scopes body))"
  by (cases key) (auto simp: admitted_def reject_foreign_uid_None split: option.splits)

lemma start_admitted:
  assumes "admitted fs os (Some body) peer au = Some key"
  shows "auth_request_start fs os token now (Some body) peer au =
    (if is_official_client fs (au_product au) (fst key)
     then (let r = finalize_consent_decision token now Allow body key au in (fst r, Answer (snd r)))
     else if key \<in> au_denied au then (au, Answer (auth_denied 403 reason_user_denied_cached))
     else (au\<lparr>au_locks := fst (lock_for key (au_locks au))\<rparr>, Queue key (snd (lock_for key (au_locks au)))))"
  using assms
  by (auto simp: admitted_def auth_request_start_def official_client_response_def cached_deny_response_def
      deny_contains_def Let_def split: option.splits if_splits prod.split)

lemma start_not_admitted:
  assumes "admitted fs os body_in peer au = None"
  shows "\<exists>status rsn. auth_request_start fs os token now body_in peer au = (au, Answer (auth_denied status rsn))
    \<and> rsn \<in> {reason_invalid_body, reason_invalid_scope, reason_uid_mismatch, reason_peer_unverifiable}"
  using assms
  by (auto simp: admitted_def auth_request_start_def reject_foreign_uid_def split: option.splits if_splits)

text \<open>
  Before anyone is asked: a request is admitted exactly when its body is there, names at least
  one scope and only scopes the product has, and comes from the daemon's own user or an allowed
  origin, with an identity that could be resolved; anything else is refused and changes nothing. An
  admitted first-party client gets its token at once; a key the user has denied is refused from the
  cache; every other request waits for the one lock of its key, under scopes that do not depend on
  the order or repetitions of the list it sent.
\<close>

theorem auth_request_start_exact:
  "case admitted fs os body_in peer au of
     None \<Rightarrow>
       (\<exists>status rsn. auth_request_start fs os token now body_in peer au = (au, Answer (auth_denied status rsn))
          \<and> rsn \<in> {''invalid_body'', ''invalid_scope'', ''uid_mismatch'', ''peer_unverifiable''})
   | Some key \<Rightarrow>
       (\<exists>body p. body_in = Some body \<and> peer = Some p \<and> ab_scopes body \<noteq> []
          \<and> list_all (is_known_scope (au_product au)) (ab_scopes body)
          \<and> (if pi_web_origin p = None then pi_uid p = Some (fs_geteuid fs) else True)
          \<and> resolve_peer_identity os peer = Some (fst key)
          \<and> set (snd key) = set (ab_scopes body) \<and> sorted (snd key) \<and> distinct (snd key)
          \<and> auth_request_start fs os token now (Some body) peer au =
             (if is_official_client fs (au_product au) (fst key)
              then (au\<lparr>au_tokens := fst (mint token now (ab_app_name body) (snd key) (fst key) (au_tokens au))\<rparr>,
                    Answer (AuthOk token (snd key) (now + thirty_days)))
              else if key \<in> au_denied au then (au, Answer (auth_denied 403 ''user_denied_cached''))
              else (au\<lparr>au_locks := fst (lock_for key (au_locks au))\<rparr>,
                    Queue key (snd (lock_for key (au_locks au))))))"
proof (cases "admitted fs os body_in peer au")
  case None
  then show ?thesis
    using start_not_admitted [OF None, of token now]
    by (simp add: reason_invalid_body_def reason_invalid_scope_def reason_uid_mismatch_def
        reason_peer_unverifiable_def)
next
  case (Some key)
  then obtain body p where h: "body_in = Some body" "peer = Some p" "ab_scopes body \<noteq> []"
      "list_all (is_known_scope (au_product au)) (ab_scopes body)"
      "pi_web_origin p \<noteq> None \<or> pi_uid p = Some (fs_geteuid fs)"
      "resolve_peer_identity os peer = Some (fst key)" "snd key = normalize_scopes (ab_scopes body)"
    unfolding admitted_iff by blast
  have m: "finalize_consent_decision token now Allow body key au =
      (au\<lparr>au_tokens := fst (mint token now (ab_app_name body) (snd key) (fst key) (au_tokens au))\<rparr>,
       AuthOk token (snd key) (now + thirty_days))"
    by (simp add: finalize_consent_decision_def mint_def Let_def)
  have "auth_request_start fs os token now (Some body) peer au =
      (if is_official_client fs (au_product au) (fst key)
       then (au\<lparr>au_tokens := fst (mint token now (ab_app_name body) (snd key) (fst key) (au_tokens au))\<rparr>,
             Answer (AuthOk token (snd key) (now + thirty_days)))
       else if key \<in> au_denied au then (au, Answer (auth_denied 403 ''user_denied_cached''))
       else (au\<lparr>au_locks := fst (lock_for key (au_locks au))\<rparr>,
             Queue key (snd (lock_for key (au_locks au)))))"
    using start_admitted [of fs os body peer au key token now] Some h(1)
    by (simp add: m Let_def reason_user_denied_cached_def)
  with Some h show ?thesis by (auto simp: normalize_scopes_sorted)
qed

end
