(* ===== verification/Auth_Handshake.thy ===== *)
theory Auth_Handshake
  imports Auth_Guards
begin

section \<open>Concurrent consent requests\<close>

text \<open>
  Any number of \<open>auth_request\<close> calls in flight at once, cut where they wait: for the lock of their
  key, for the one dialog permit (\<open>CONSENT_POPUP\<close>), for the user, and for the helper to be reaped. A
  caller that goes away cancels its request at any of those waits, which frees what it holds but
  runs none of the code after. Everything else on the shared state is \<open>hub_other\<close>: it may do
  anything but touch the denials and the locks, which only these requests use.
\<close>

subsection \<open>Requests in flight\<close>

datatype phase =
    Queued
  | Ready
  | OnScreen
  | Reaping consent_decision
  | Done auth_reply

record flight =
  fl_key :: consent_key
  fl_lock :: nat
  fl_body :: auth_request_body
  fl_phase :: phase

text \<open>What the user was asked and answered, the newest first.\<close>

datatype consent_event =
    Asked consent_key
  | Said consent_key consent_decision

record hub =
  hb_auth :: auth
  hb_flights :: "(nat, flight) hmap"
  hb_permit :: bool
  hb_log :: "consent_event list"
  hb_cancelled :: bool

definition start_hub :: "auth \<Rightarrow> hub" where
  "start_hub au =
     \<lparr>hb_auth = au\<lparr>au_denied := {}, au_locks := no_locks\<rparr>, hb_flights = hm_empty, hb_permit = True,
      hb_log = [], hb_cancelled = False\<rparr>"

text \<open>The lock is held from its acquisition to the end of the block that asks.\<close>

definition holds_lock :: "flight \<Rightarrow> bool" where
  "holds_lock f = (case fl_phase f of Ready \<Rightarrow> True | OnScreen \<Rightarrow> True | Reaping _ \<Rightarrow> True | _ \<Rightarrow> False)"

definition lock_free :: "nat \<Rightarrow> hub \<Rightarrow> bool" where
  "lock_free l s = list_all (\<lambda>(_, f). \<not> (holds_lock f \<and> fl_lock f = l)) (hb_flights s)"

text \<open>\<open>Arc::strong_count\<close>: one for every request that has the lock, one for its registry entry.\<close>

definition strong_count :: "nat \<Rightarrow> hub \<Rightarrow> nat" where
  "strong_count l s =
     length (filter (\<lambda>(_, f). fl_lock f = l) (hb_flights s))
     + length (filter (\<lambda>(_, v). v = l) (cl_map (au_locks (hb_auth s))))"

definition set_phase :: "nat \<Rightarrow> flight \<Rightarrow> phase \<Rightarrow> hub \<Rightarrow> hub" where
  "set_phase t f ph s = s\<lparr>hb_flights := hm_insert t (f\<lparr>fl_phase := ph\<rparr>) (hb_flights s)\<rparr>"

definition finalize_flight :: "string \<Rightarrow> int \<Rightarrow> consent_decision \<Rightarrow> nat \<Rightarrow> flight \<Rightarrow> hub \<Rightarrow> hub" where
  "finalize_flight token now d t f s =
     (case finalize_consent_decision token now d (fl_body f) (fl_key f) (hb_auth s) of
        (au, reply) \<Rightarrow>
          (set_phase t f (Done reply) s)\<lparr>hb_auth := au, hb_log := Said (fl_key f) d # hb_log s\<rparr>)"

definition leave :: "nat \<Rightarrow> flight \<Rightarrow> hub \<Rightarrow> hub" where
  "leave t f s =
     s\<lparr>hb_auth := (hb_auth s)\<lparr>au_locks :=
         release_lock (strong_count (fl_lock f) s) (fl_key f) (au_locks (hb_auth s))\<rparr>,
       hb_flights := hm_remove t (hb_flights s)\<rparr>"

inductive hub_step :: "fs_view \<Rightarrow> os_view \<Rightarrow> bool \<Rightarrow> hub \<Rightarrow> hub \<Rightarrow> bool" for fs os auto_approve where
  hub_answer:
    "auth_request_start fs os token now body_in peer (hb_auth s) = (au, Answer reply) \<Longrightarrow>
     hub_step fs os auto_approve s (s\<lparr>hb_auth := au\<rparr>)"
| hub_arrive:
    "auth_request_start fs os token now (Some body) peer (hb_auth s) = (au, Queue key l) \<Longrightarrow>
     hm_get (hb_flights s) t = None \<Longrightarrow>
     hub_step fs os auto_approve s
       (s\<lparr>hb_auth := au,
          hb_flights := hm_insert t \<lparr>fl_key = key, fl_lock = l, fl_body = body, fl_phase = Queued\<rparr>
            (hb_flights s)\<rparr>)"
| hub_acquire:
    "hm_get (hb_flights s) t = Some f \<Longrightarrow> fl_phase f = Queued \<Longrightarrow> lock_free (fl_lock f) s \<Longrightarrow>
     hub_step fs os auto_approve s
       (set_phase t f
          (case auth_request_locked (fl_key f) (hb_auth s) of Some reply \<Rightarrow> Done reply | None \<Rightarrow> Ready) s)"
| hub_auto:
    "hm_get (hb_flights s) t = Some f \<Longrightarrow> fl_phase f = Ready \<Longrightarrow> auto_approve \<Longrightarrow>
     hub_step fs os auto_approve s (finalize_flight token now Allow t f s)"
| hub_open:
    "hm_get (hb_flights s) t = Some f \<Longrightarrow> fl_phase f = Ready \<Longrightarrow> \<not> auto_approve \<Longrightarrow> hb_permit s \<Longrightarrow>
     hub_step fs os auto_approve s
       ((set_phase t f OnScreen s)\<lparr>hb_permit := False, hb_log := Asked (fl_key f) # hb_log s\<rparr>)"
| hub_no_helper:
    "hm_get (hb_flights s) t = Some f \<Longrightarrow> fl_phase f = Ready \<Longrightarrow> \<not> auto_approve \<Longrightarrow> hb_permit s \<Longrightarrow>
     hub_step fs os auto_approve s (finalize_flight token now (ask_user_for_consent NotSpawned) t f s)"
| hub_user:
    "hm_get (hb_flights s) t = Some f \<Longrightarrow> fl_phase f = OnScreen \<Longrightarrow> p \<noteq> NotSpawned \<Longrightarrow>
     hub_step fs os auto_approve s
       ((set_phase t f (Reaping (ask_user_for_consent p)) s)\<lparr>hb_permit := True\<rparr>)"
| hub_finalize:
    "hm_get (hb_flights s) t = Some f \<Longrightarrow> fl_phase f = Reaping d \<Longrightarrow>
     hub_step fs os auto_approve s (finalize_flight token now d t f s)"
| hub_leave:
    "hm_get (hb_flights s) t = Some f \<Longrightarrow> fl_phase f = Done reply \<Longrightarrow>
     hub_step fs os auto_approve s (leave t f s)"
| hub_cancel:
    "hm_get (hb_flights s) t = Some f \<Longrightarrow> (\<And>reply. fl_phase f \<noteq> Done reply) \<Longrightarrow>
     hub_step fs os auto_approve s
       (s\<lparr>hb_flights := hm_remove t (hb_flights s),
          hb_permit := (fl_phase f = OnScreen \<or> hb_permit s), hb_cancelled := True\<rparr>)"
| hub_other:
    "au_denied au = au_denied (hb_auth s) \<Longrightarrow> au_locks au = au_locks (hb_auth s) \<Longrightarrow>
     hub_step fs os auto_approve s (s\<lparr>hb_auth := au\<rparr>)"

inductive hub_reach :: "fs_view \<Rightarrow> os_view \<Rightarrow> bool \<Rightarrow> hub \<Rightarrow> bool" for fs os auto_approve where
  hub_start: "hub_reach fs os auto_approve (start_hub au)"
| hub_next: "hub_reach fs os auto_approve s \<Longrightarrow> hub_step fs os auto_approve s t \<Longrightarrow>
    hub_reach fs os auto_approve t"

subsection \<open>What the requests keep\<close>

type_synonym flights = "(nat, flight) hmap"

definition locks_ok :: "flights \<Rightarrow> consent_locks \<Rightarrow> bool" where
  "locks_ok fl ls \<longleftrightarrow>
     hm_ok fl \<and> hm_ok (cl_map ls)
     \<and> (\<forall>k l. hm_get (cl_map ls) k = Some l \<longrightarrow> l < cl_next ls)
     \<and> (\<forall>k k2 l. hm_get (cl_map ls) k = Some l \<longrightarrow> hm_get (cl_map ls) k2 = Some l \<longrightarrow> k = k2)
     \<and> (\<forall>t f. hm_get fl t = Some f \<longrightarrow> hm_get (cl_map ls) (fl_key f) = Some (fl_lock f))"

definition mutex_ok :: "flights \<Rightarrow> bool" where
  "mutex_ok fl \<longleftrightarrow>
     (\<forall>t u f g. hm_get fl t = Some f \<longrightarrow> hm_get fl u = Some g \<longrightarrow> holds_lock f \<longrightarrow> holds_lock g \<longrightarrow>
        fl_lock f = fl_lock g \<longrightarrow> t = u)"

definition deny_ok :: "flights \<Rightarrow> deny_cache \<Rightarrow> bool" where
  "deny_ok fl denied \<longleftrightarrow> (\<forall>t f. hm_get fl t = Some f \<longrightarrow> holds_lock f \<longrightarrow> fl_key f \<notin> denied)"

definition screen_ok :: "flights \<Rightarrow> bool \<Rightarrow> bool" where
  "screen_ok fl permit \<longleftrightarrow>
     (\<forall>t f. hm_get fl t = Some f \<longrightarrow> fl_phase f = OnScreen \<longrightarrow> \<not> permit)
     \<and> (\<forall>t u f g. hm_get fl t = Some f \<longrightarrow> hm_get fl u = Some g \<longrightarrow> fl_phase f = OnScreen \<longrightarrow>
          fl_phase g = OnScreen \<longrightarrow> t = u)"

text \<open>In the log no key is asked about, or granted, after it was denied.\<close>

fun log_ok :: "consent_event list \<Rightarrow> bool" where
  "log_ok [] = True"
| "log_ok (Asked k # es) = (Said k Deny \<notin> set es \<and> log_ok es)"
| "log_ok (Said k d # es) = (Said k Deny \<notin> set es \<and> log_ok es)"

definition hub_ok :: "hub \<Rightarrow> bool" where
  "hub_ok s \<longleftrightarrow>
     locks_ok (hb_flights s) (au_locks (hb_auth s))
     \<and> mutex_ok (hb_flights s)
     \<and> deny_ok (hb_flights s) (au_denied (hb_auth s))
     \<and> screen_ok (hb_flights s) (hb_permit s)
     \<and> {k. Said k Deny \<in> set (hb_log s)} = au_denied (hb_auth s)
     \<and> log_ok (hb_log s)"

text \<open>While no request was cancelled, the registry holds the keys in flight and no others.\<close>

definition drained :: "flights \<Rightarrow> consent_locks \<Rightarrow> bool" where
  "drained fl ls \<longleftrightarrow>
     (\<forall>k l. hm_get (cl_map ls) k = Some l \<longrightarrow> (\<exists>t f. hm_get fl t = Some f \<and> fl_key f = k))"

lemmas inv_defs = locks_ok_def mutex_ok_def deny_ok_def screen_ok_def

lemma start_Answer:
  assumes "auth_request_start fs os token now body_in peer au = (au2, Answer reply)"
  shows "au_denied au2 = au_denied au \<and> au_locks au2 = au_locks au"
proof (cases "admitted fs os body_in peer au")
  case None
  with start_not_admitted [OF None, of token now] assms show ?thesis by auto
next
  case (Some key)
  then obtain body where b: "body_in = Some body" unfolding admitted_iff by blast
  from assms show ?thesis
    unfolding b start_admitted [OF Some [unfolded b]]
    by (auto simp: Let_def finalize_consent_decision_def split: if_splits prod.splits)
qed

lemma start_Queue:
  assumes "auth_request_start fs os token now body_in peer au = (au2, Queue key l)"
  shows "au2 = au\<lparr>au_locks := fst (lock_for key (au_locks au))\<rparr> \<and> l = snd (lock_for key (au_locks au))"
proof (cases "admitted fs os body_in peer au")
  case None
  with start_not_admitted [OF None, of token now] assms show ?thesis by auto
next
  case (Some k)
  then obtain body where b: "body_in = Some body" unfolding admitted_iff by blast
  from assms show ?thesis
    unfolding b start_admitted [OF Some [unfolded b]] by (auto simp: Let_def split: if_splits)
qed

subsubsection \<open>The registry\<close>

lemma locks_ok_set_phase:
  "locks_ok fl ls \<Longrightarrow> hm_get fl t = Some f \<Longrightarrow> locks_ok (hm_insert t (f\<lparr>fl_phase := ph\<rparr>) fl) ls"
  by (auto simp: locks_ok_def hm.get_ins hm.ok_ins)

lemma locks_ok_remove: "locks_ok fl ls \<Longrightarrow> locks_ok (hm_remove t fl) ls"
  unfolding locks_ok_def using hm.get_del_Some [of fl] hm.ok_del [of fl] by blast

lemma locks_ok_arrive:
  assumes "locks_ok fl ls" and "lock_for key ls = (ls2, l)"
  shows "locks_ok (hm_insert t \<lparr>fl_key = key, fl_lock = l, fl_body = b, fl_phase = ph\<rparr> fl) ls2"
proof (cases "hm_get (cl_map ls) key")
  case None
  have ok: "hm_ok fl" "hm_ok (cl_map ls)"
    and less: "\<And>k v. hm_get (cl_map ls) k = Some v \<Longrightarrow> v < cl_next ls"
    and inj: "\<And>k k2 v. hm_get (cl_map ls) k = Some v \<Longrightarrow> hm_get (cl_map ls) k2 = Some v \<Longrightarrow> k = k2"
    and reg: "\<And>t f. hm_get fl t = Some f \<Longrightarrow> hm_get (cl_map ls) (fl_key f) = Some (fl_lock f)"
    using assms(1) unfolding locks_ok_def by blast+
  have ls2: "ls2 = \<lparr>cl_map = hm_insert key (cl_next ls) (cl_map ls), cl_next = Suc (cl_next ls)\<rparr>"
    and l: "l = cl_next ls"
    using assms(2) None by (auto simp add: lock_for_def)
  have away: "fl_key f \<noteq> key" if "hm_get fl t = Some f" for t f
    using reg [OF that] None by auto
  show ?thesis
    unfolding locks_ok_def ls2 l
  proof (intro conjI allI impI)
    fix k v
    assume "hm_get (cl_map \<lparr>cl_map = hm_insert key (cl_next ls) (cl_map ls), cl_next = Suc (cl_next ls)\<rparr>) k = Some v"
    then show "v < cl_next \<lparr>cl_map = hm_insert key (cl_next ls) (cl_map ls), cl_next = Suc (cl_next ls)\<rparr>"
      using less [of k v] by (simp add: hm.get_ins less_Suc_eq split: if_splits)
  next
    fix k k2 v
    assume "hm_get (cl_map \<lparr>cl_map = hm_insert key (cl_next ls) (cl_map ls), cl_next = Suc (cl_next ls)\<rparr>) k = Some v"
      and "hm_get (cl_map \<lparr>cl_map = hm_insert key (cl_next ls) (cl_map ls), cl_next = Suc (cl_next ls)\<rparr>) k2 = Some v"
    then show "k = k2"
      using less [of k v] less [of k2 v] inj [of k v k2] by (simp add: hm.get_ins split: if_splits)
  next
    fix u f
    assume "hm_get (hm_insert t \<lparr>fl_key = key, fl_lock = cl_next ls, fl_body = b, fl_phase = ph\<rparr> fl) u = Some f"
    then show "hm_get (cl_map \<lparr>cl_map = hm_insert key (cl_next ls) (cl_map ls), cl_next = Suc (cl_next ls)\<rparr>)
        (fl_key f) = Some (fl_lock f)"
      using reg away by (auto simp: hm.get_ins split: if_splits)
  qed (use ok in \<open>simp_all add: hm.ok_ins\<close>)
next
  case (Some v)
  with assms show ?thesis
    unfolding locks_ok_def lock_for_def by (auto simp: hm.get_ins hm.ok_ins)
qed

lemma two_in_filter:
  assumes "x \<in> set xs" and "y \<in> set xs" and "x \<noteq> y" and "P x" and "P y"
  shows "2 \<le> length (filter P xs)"
proof -
  have "card {x, y} \<le> card (set (filter P xs))"
    using assms by (intro card_mono) auto
  also have "\<dots> \<le> length (filter P xs)" by (rule card_length)
  finally show ?thesis using assms(3) by simp
qed

lemma one_in_filter: "x \<in> set xs \<Longrightarrow> P x \<Longrightarrow> 1 \<le> length (filter P xs)"
  by (cases "filter P xs") (auto simp: filter_empty_conv)

text \<open>A count of two is the leaving request and the registry: nobody else has the lock.\<close>

lemma strong_count_two:
  assumes ok: "locks_ok (hb_flights s) (au_locks (hb_auth s))"
    and f: "hm_get (hb_flights s) t = Some f" and g: "hm_get (hb_flights s) u = Some g"
    and "t \<noteq> u" and same: "fl_lock g = fl_lock f"
  shows "2 < strong_count (fl_lock f) s"
proof -
  have "2 \<le> length (filter (\<lambda>(_, h). fl_lock h = fl_lock f) (hb_flights s))"
    by (rule two_in_filter [of "(t, f)" _ "(u, g)"]) (use assms hm_get_set in auto)
  moreover have "1 \<le> length (filter (\<lambda>(_, v). v = fl_lock f) (cl_map (au_locks (hb_auth s))))"
    using ok f by (intro one_in_filter [of "(fl_key f, fl_lock f)"]) (auto simp: locks_ok_def hm_get_set)
  ultimately show ?thesis by (simp add: strong_count_def)
qed

lemma locks_ok_leave:
  assumes ok: "locks_ok (hb_flights s) (au_locks (hb_auth s))" and f: "hm_get (hb_flights s) t = Some f"
  shows "locks_ok (hm_remove t (hb_flights s))
    (release_lock (strong_count (fl_lock f) s) (fl_key f) (au_locks (hb_auth s)))"
proof (cases "strong_count (fl_lock f) s \<le> 2")
  case False
  with ok show ?thesis by (simp add: release_lock_def locks_ok_remove)
next
  case True
  have away: "fl_key g \<noteq> fl_key f" if "hm_get (hm_remove t (hb_flights s)) u = Some g" for u g
  proof
    assume k: "fl_key g = fl_key f"
    have u: "u \<noteq> t" "hm_get (hb_flights s) u = Some g"
      using that by (simp_all add: hm_remove_get split: if_splits)
    have "fl_lock g = fl_lock f" using ok f u(2) k unfolding locks_ok_def by (metis option.inject)
    with strong_count_two [OF ok f u(2)] u(1) True show False by simp
  qed
  have "locks_ok (hm_remove t (hb_flights s)) (au_locks (hb_auth s))" by (rule locks_ok_remove [OF ok])
  with True away show ?thesis
    unfolding locks_ok_def release_lock_def by (auto simp: hm_remove_get hm.ok_del split: if_splits)
qed

subsubsection \<open>Locks, denials, the screen\<close>

lemma lock_freeD:
  "lock_free l s \<Longrightarrow> hm_get (hb_flights s) t = Some f \<Longrightarrow> holds_lock f \<Longrightarrow> fl_lock f \<noteq> l"
  by (auto simp: lock_free_def list_all_iff dest: hm_get_set)

lemma mutex_ok_keep:
  "mutex_ok fl \<Longrightarrow> hm_get fl t = Some f \<Longrightarrow> holds_lock (f\<lparr>fl_phase := ph\<rparr>) \<longrightarrow> holds_lock f \<Longrightarrow>
     mutex_ok (hm_insert t (f\<lparr>fl_phase := ph\<rparr>) fl)"
  unfolding mutex_ok_def hm.get_ins by (auto split: if_splits)

lemma mutex_ok_acquire:
  assumes "mutex_ok (hb_flights s)" and "lock_free (fl_lock f) s"
  shows "mutex_ok (hm_insert t (f\<lparr>fl_phase := ph\<rparr>) (hb_flights s))"
  using assms lock_freeD [OF assms(2)] unfolding mutex_ok_def hm.get_ins
  by (auto split: if_splits; metis)

lemma mutex_ok_remove: "mutex_ok fl \<Longrightarrow> mutex_ok (hm_remove t fl)"
  unfolding mutex_ok_def hm_remove_get by (simp split: if_splits)

lemma mutex_ok_waiting: "mutex_ok fl \<Longrightarrow> \<not> holds_lock f \<Longrightarrow> mutex_ok (hm_insert t f fl)"
  unfolding mutex_ok_def hm.get_ins by (auto split: if_splits)

lemma deny_ok_insert:
  "deny_ok fl denied \<Longrightarrow> holds_lock f \<longrightarrow> fl_key f \<notin> denied \<Longrightarrow> deny_ok (hm_insert t f fl) denied"
  unfolding deny_ok_def hm.get_ins by (simp split: if_splits)

lemma deny_ok_remove: "deny_ok fl denied \<Longrightarrow> deny_ok (hm_remove t fl) denied"
  unfolding deny_ok_def hm_remove_get by (simp split: if_splits)

lemma screen_ok_keep:
  "screen_ok fl permit \<Longrightarrow> fl_phase f \<noteq> OnScreen \<Longrightarrow> screen_ok (hm_insert t f fl) permit"
  unfolding screen_ok_def hm.get_ins by (auto split: if_splits)

lemma screen_ok_open: "screen_ok fl True \<Longrightarrow> screen_ok (hm_insert t f fl) False"
  unfolding screen_ok_def hm.get_ins by (auto split: if_splits)

lemma screen_ok_close:
  "screen_ok fl permit \<Longrightarrow> hm_get fl t = Some f \<Longrightarrow> fl_phase f = OnScreen \<Longrightarrow> fl_phase g \<noteq> OnScreen \<Longrightarrow>
     screen_ok (hm_insert t g fl) True"
  unfolding screen_ok_def hm.get_ins by (auto split: if_splits)

lemma screen_ok_remove:
  "screen_ok fl permit \<Longrightarrow> hm_get fl t = Some f \<Longrightarrow>
     screen_ok (hm_remove t fl) (fl_phase f = OnScreen \<or> permit)"
  unfolding screen_ok_def hm_remove_get by (auto split: if_splits)

lemma screen_ok_gone: "screen_ok fl permit \<Longrightarrow> screen_ok (hm_remove t fl) permit"
  unfolding screen_ok_def hm_remove_get by (auto split: if_splits)

text \<open>The one lock of a key, held by one request: a denial finds no other request past the lock.\<close>

lemma deny_ok_Deny:
  assumes l: "locks_ok fl ls" and m: "mutex_ok fl" and d: "deny_ok fl denied"
    and f: "hm_get fl t = Some f" "holds_lock f"
  shows "deny_ok (hm_insert t (f\<lparr>fl_phase := Done reply\<rparr>) fl) (insert (fl_key f) denied)"
  unfolding deny_ok_def
proof (intro allI impI)
  fix u g
  assume g: "hm_get (hm_insert t (f\<lparr>fl_phase := Done reply\<rparr>) fl) u = Some g" and h: "holds_lock g"
  then have u: "u \<noteq> t" "hm_get fl u = Some g"
    by (auto simp: hm.get_ins holds_lock_def split: if_splits)
  have "fl_key g \<noteq> fl_key f"
  proof
    assume k: "fl_key g = fl_key f"
    have "fl_lock g = fl_lock f" using l f(1) u(2) k unfolding locks_ok_def by (metis option.inject)
    with m f u h show False unfolding mutex_ok_def by metis
  qed
  with d u(2) h show "fl_key g \<notin> insert (fl_key f) denied" by (simp add: deny_ok_def)
qed

lemma finalize_effect:
  assumes "finalize_consent_decision token now d body key au = (au2, reply)"
  shows "au_locks au2 = au_locks au
    \<and> au_denied au2 = (if d = Deny then insert key (au_denied au) else au_denied au)"
  using assms
  by (cases d) (auto simp: finalize_consent_decision_def deny_insert_def split: prod.splits)

lemma hub_ok_finalize:
  assumes ok: "hub_ok s" and f: "hm_get (hb_flights s) t = Some f" "holds_lock f" "fl_phase f \<noteq> OnScreen"
  shows "hub_ok (finalize_flight token now d t f s)"
proof -
  obtain au reply where e: "finalize_consent_decision token now d (fl_body f) (fl_key f) (hb_auth s) = (au, reply)"
    by (cases "finalize_consent_decision token now d (fl_body f) (fl_key f) (hb_auth s)")
  let ?g = "f\<lparr>fl_phase := Done reply\<rparr>"
  note eff = finalize_effect [OF e]
  have nh: "\<not> holds_lock ?g" by (simp add: holds_lock_def)
  have key: "fl_key f \<notin> au_denied (hb_auth s)" using ok f by (auto simp: hub_ok_def deny_ok_def)
  have d: "deny_ok (hm_insert t ?g (hb_flights s)) (au_denied au)"
  proof (cases "d = Deny")
    case True
    have "deny_ok (hm_insert t ?g (hb_flights s)) (insert (fl_key f) (au_denied (hb_auth s)))"
      by (rule deny_ok_Deny [OF _ _ _ f(1,2), of "au_locks (hb_auth s)"]) (use ok in \<open>unfold hub_ok_def, blast+\<close>)
    with True eff show ?thesis by simp
  next
    case False
    then show ?thesis using ok eff nh by (simp add: hub_ok_def deny_ok_insert)
  qed
  show ?thesis
    using ok f eff nh d key
    by (auto simp: hub_ok_def finalize_flight_def e set_phase_def locks_ok_set_phase mutex_ok_keep
        screen_ok_keep simp del: split_paired_All split_paired_Ex)
qed

lemma hub_ok_start: "hub_ok (start_hub au)"
  by (simp add: hub_ok_def start_hub_def inv_defs no_locks_def hm.get_empty hm.ok_empty)

lemma hub_ok_step: "hub_step fs os auto_approve s t \<Longrightarrow> hub_ok s \<Longrightarrow> hub_ok t"
proof (induction rule: hub_step.induct)
  case (hub_answer token now body_in peer s au reply)
  then show ?case using start_Answer [OF hub_answer(1)] by (simp add: hub_ok_def)
next
  case (hub_arrive token now body peer s au key l t)
  have au: "au = (hb_auth s)\<lparr>au_locks := fst (lock_for key (au_locks (hb_auth s)))\<rparr>"
      "l = snd (lock_for key (au_locks (hb_auth s)))"
    using start_Queue [OF hub_arrive(1)] by simp_all
  then show ?case
    using hub_arrive(3) locks_ok_arrive [of "hb_flights s" "au_locks (hb_auth s)" key "au_locks au" l]
    by (simp add: hub_ok_def mutex_ok_waiting deny_ok_insert screen_ok_keep holds_lock_def)
next
  case (hub_acquire s t f)
  let ?r = "auth_request_locked (fl_key f) (hb_auth s)"
  let ?ph = "case ?r of Some reply \<Rightarrow> Done reply | None \<Rightarrow> Ready"
  have free: "holds_lock (f\<lparr>fl_phase := ?ph\<rparr>) \<longrightarrow> fl_key f \<notin> au_denied (hb_auth s)"
    by (auto simp: holds_lock_def auth_request_locked_def cached_deny_response_def deny_contains_def)
  have "?ph \<noteq> OnScreen" by (simp split: option.split)
  with hub_acquire free show ?case
    by (simp add: hub_ok_def set_phase_def locks_ok_set_phase mutex_ok_acquire deny_ok_insert screen_ok_keep)
next
  case (hub_open s t f)
  have "holds_lock f" using hub_open(2) by (simp add: holds_lock_def)
  with hub_open have "fl_key f \<notin> au_denied (hb_auth s)" by (simp add: hub_ok_def deny_ok_def)
  with hub_open \<open>holds_lock f\<close> show ?case
    by (auto simp add: hub_ok_def set_phase_def locks_ok_set_phase mutex_ok_keep deny_ok_insert screen_ok_open
        simp del: split_paired_All split_paired_Ex)
next
  case (hub_user s t f p)
  have h: "holds_lock f" using hub_user(2) by (simp add: holds_lock_def)
  with hub_user have k: "fl_key f \<notin> au_denied (hb_auth s)" by (simp add: hub_ok_def deny_ok_def)
  from hub_user have "screen_ok (hm_insert t (f\<lparr>fl_phase := Reaping (ask_user_for_consent p)\<rparr>) (hb_flights s)) True"
    by (intro screen_ok_close [of "hb_flights s" "hb_permit s" t f]) (simp_all add: hub_ok_def)
  with hub_user h k show ?case
    by (simp add: hub_ok_def set_phase_def locks_ok_set_phase mutex_ok_keep deny_ok_insert)
next
  case (hub_leave s t f reply)
  then show ?case
    using locks_ok_leave [of s t f]
    by (simp add: hub_ok_def leave_def mutex_ok_remove deny_ok_remove screen_ok_gone)
next
  case (hub_cancel s t f)
  then show ?case
    using screen_ok_remove [of "hb_flights s" "hb_permit s" t f]
    by (simp add: hub_ok_def locks_ok_remove mutex_ok_remove deny_ok_remove)
next
  case (hub_other au s)
  then show ?case by (simp add: hub_ok_def)
qed (auto intro!: hub_ok_finalize simp: holds_lock_def)

lemma hub_reach_ok: "hub_reach fs os auto_approve s \<Longrightarrow> hub_ok s"
  by (induction rule: hub_reach.induct) (blast intro: hub_ok_start hub_ok_step)+

subsubsection \<open>The registry drains\<close>

lemma at_most_one:
  assumes ok: "hm_ok m" and inj: "\<And>k k2 v v2. hm_get m k = Some v \<Longrightarrow> hm_get m k2 = Some v2 \<Longrightarrow> P v \<Longrightarrow> P v2 \<Longrightarrow> k = k2"
  shows "length (filter (\<lambda>(_, v). P v) m) \<le> 1"
proof (rule ccontr)
  assume two: "\<not> length (filter (\<lambda>(_, v). P v) m) \<le> 1"
  let ?xs = "filter (\<lambda>(_, v). P v) m"
  have "distinct m" using ok by (simp add: hm_ok_def distinct_map)
  then have "distinct ?xs" by (rule distinct_filter)
  moreover have len: "0 < length ?xs" "1 < length ?xs" using two by linarith+
  ultimately have ne: "?xs ! 0 \<noteq> ?xs ! 1" by (simp only: nth_eq_iff_index_eq)
  obtain k v k2 v2 where kv: "?xs ! 0 = (k, v)" "?xs ! 1 = (k2, v2)" by (metis surj_pair)
  have "?xs ! 0 \<in> set ?xs" "?xs ! 1 \<in> set ?xs" by (rule nth_mem, rule len)+
  then have "(k, v) \<in> set m \<and> P v" "(k2, v2) \<in> set m \<and> P v2" unfolding kv by simp_all
  then have g: "hm_get m k = Some v" "hm_get m k2 = Some v2" "P v" "P v2" using hm_get_iff [OF ok] by simp_all
  then have "k = k2" by (rule inj)
  with g ne kv show False by simp
qed

lemma drained_leave:
  assumes ok: "locks_ok (hb_flights s) (au_locks (hb_auth s))"
    and d: "drained (hb_flights s) (au_locks (hb_auth s))"
    and f: "hm_get (hb_flights s) t = Some f"
  shows "drained (hm_remove t (hb_flights s))
    (release_lock (strong_count (fl_lock f) s) (fl_key f) (au_locks (hb_auth s)))"
proof (cases "strong_count (fl_lock f) s \<le> 2")
  case True
  show ?thesis
    unfolding drained_def
  proof (intro allI impI)
    fix k l
    assume "hm_get (cl_map (release_lock (strong_count (fl_lock f) s) (fl_key f) (au_locks (hb_auth s)))) k = Some l"
    with True have k: "k \<noteq> fl_key f" "hm_get (cl_map (au_locks (hb_auth s))) k = Some l"
      by (simp_all add: release_lock_def hm_remove_get split: if_splits)
    with d obtain v h where "hm_get (hb_flights s) v = Some h" "fl_key h = k"
      unfolding drained_def by blast
    moreover from this k f have "v \<noteq> t" by auto
    ultimately show "\<exists>v h. hm_get (hm_remove t (hb_flights s)) v = Some h \<and> fl_key h = k"
      by (auto simp: hm_remove_get)
  qed
next
  case False
  let ?P = "\<lambda>(_, g). fl_lock g = fl_lock f"
  have "length (filter (\<lambda>(_, v). v = fl_lock f) (cl_map (au_locks (hb_auth s)))) \<le> 1"
    by (rule at_most_one) (use ok in \<open>unfold locks_ok_def, blast+\<close>)
  with False have two: "2 \<le> length (filter ?P (hb_flights s))" by (simp add: strong_count_def)
  have "distinct (hb_flights s)"
    using ok by (simp add: locks_ok_def hm_ok_def distinct_map)
  then have "distinct (filter ?P (hb_flights s))" by (rule distinct_filter)
  then have "2 \<le> card (set (filter ?P (hb_flights s)))" using two by (simp only: distinct_card)
  then obtain e where e: "e \<in> set (filter ?P (hb_flights s))" "e \<noteq> (t, f)"
    by (metis card_2_iff card_le_Suc0_iff_eq finite_set not_less_eq_eq numeral_2_eq_2)
  obtain u g where ug: "e = (u, g)" by (cases e)
  with e ok have g: "hm_get (hb_flights s) u = Some g" "fl_lock g = fl_lock f"
    by (auto simp: locks_ok_def hm_get_iff)
  then have "u \<noteq> t" using e(2) ug f by auto
  have "fl_key g = fl_key f" using ok f g unfolding locks_ok_def by metis
  show ?thesis
    unfolding drained_def
  proof (intro allI impI)
    fix k l
    assume "hm_get (cl_map (release_lock (strong_count (fl_lock f) s) (fl_key f) (au_locks (hb_auth s)))) k = Some l"
    with False have "hm_get (cl_map (au_locks (hb_auth s))) k = Some l" by (simp add: release_lock_def)
    with d obtain v h where h: "hm_get (hb_flights s) v = Some h" "fl_key h = k"
      unfolding drained_def by blast
    show "\<exists>w h. hm_get (hm_remove t (hb_flights s)) w = Some h \<and> fl_key h = k"
    proof (cases "v = t")
      case True
      with h f have "k = fl_key g" using \<open>fl_key g = fl_key f\<close> by simp
      with g \<open>u \<noteq> t\<close> show ?thesis by (auto simp: hm_remove_get)
    next
      case False
      with h show ?thesis by (auto simp: hm_remove_get)
    qed
  qed
qed

lemma drained_set_phase:
  "drained fl ls \<Longrightarrow> hm_get fl t = Some f \<Longrightarrow> fl_key g = fl_key f \<Longrightarrow> drained (hm_insert t g fl) ls"
  unfolding drained_def hm.get_ins by (metis option.inject)

lemma drained_arrive:
  assumes "drained fl ls" and "lock_for key ls = (ls2, l)" and "hm_get fl t = None" and "fl_key g = key"
  shows "drained (hm_insert t g fl) ls2"
  unfolding drained_def
proof (intro allI impI)
  fix k v
  assume k: "hm_get (cl_map ls2) k = Some v"
  show "\<exists>u h. hm_get (hm_insert t g fl) u = Some h \<and> fl_key h = k"
  proof (cases "k = key")
    case True
    with assms(4) show ?thesis by (metis hm.get_ins_same)
  next
    case False
    with k assms(2) have "hm_get (cl_map ls) k = Some v"
      by (auto simp: lock_for_def hm.get_ins split: option.splits)
    with assms(1) obtain u h where u: "hm_get fl u = Some h" "fl_key h = k" unfolding drained_def by blast
    with assms(3) have "u \<noteq> t" by auto
    with u show ?thesis by (metis hm.get_ins_other)
  qed
qed

lemma finalize_flight_drained:
  "drained (hb_flights s) (au_locks (hb_auth s)) \<Longrightarrow> hm_get (hb_flights s) t = Some f \<Longrightarrow>
     drained (hb_flights (finalize_flight token now d t f s)) (au_locks (hb_auth (finalize_flight token now d t f s)))"
  using finalize_effect [of token now d "fl_body f" "fl_key f" "hb_auth s"]
  by (auto simp: finalize_flight_def set_phase_def drained_set_phase split: prod.split)

lemma finalize_flight_cancelled: "hb_cancelled (finalize_flight token now d t f s) = hb_cancelled s"
  by (simp add: finalize_flight_def set_phase_def split: prod.split)

lemma drained_step:
  "hub_step fs os auto_approve s t \<Longrightarrow> hub_ok s \<Longrightarrow>
     (\<not> hb_cancelled s \<longrightarrow> drained (hb_flights s) (au_locks (hb_auth s))) \<Longrightarrow>
     \<not> hb_cancelled t \<longrightarrow> drained (hb_flights t) (au_locks (hb_auth t))"
proof (induction rule: hub_step.induct)
  case (hub_answer token now body_in peer s au reply)
  then show ?case using start_Answer [OF hub_answer(1)] by simp
next
  case (hub_arrive token now body peer s au key l t)
  have "au = (hb_auth s)\<lparr>au_locks := fst (lock_for key (au_locks (hb_auth s)))\<rparr>"
      "l = snd (lock_for key (au_locks (hb_auth s)))"
    using start_Queue [OF hub_arrive(1)] by simp_all
  then show ?case
    using hub_arrive drained_arrive [of "hb_flights s" "au_locks (hb_auth s)" key "au_locks au" l] by simp
next
  case (hub_leave s t f reply)
  then show ?case using drained_leave [of s t f] by (auto simp: leave_def hub_ok_def)
qed (auto simp: set_phase_def drained_set_phase finalize_flight_drained finalize_flight_cancelled)

lemma hub_reach_drained:
  "hub_reach fs os auto_approve s \<Longrightarrow> \<not> hb_cancelled s \<longrightarrow> drained (hb_flights s) (au_locks (hb_auth s))"
proof (induction rule: hub_reach.induct)
  case (hub_start au)
  show ?case by (simp add: drained_def start_hub_def no_locks_def hm.get_empty)
next
  case (hub_next s t)
  then show ?case using drained_step hub_reach_ok by blast
qed

lemma log_ok_split:
  "log_ok (newer @ Said k Deny # older) \<Longrightarrow> Asked k \<notin> set newer \<and> Said k d \<notin> set newer"
proof (induction newer)
  case (Cons e es)
  then show ?case by (cases e) auto
qed simp

subsection \<open>A run\<close>

definition sample_product :: product_spec where
  "sample_product =
     \<lparr>ps_display_name = ''Test'', ps_slug = ''super-test'', ps_short_name = ''test'',
      ps_env_prefix = ''SUPER_TEST'', ps_tcp_port = 1, ps_repo = [], ps_index_url = [], ps_scopes = [],
      ps_topics = []\<rparr>"

definition sample_auth :: auth where
  "sample_auth =
     \<lparr>au_product = sample_product, au_tokens = empty_store, au_locks = no_locks, au_denied = {},
      au_limits = default_limits, au_conns = hm_empty, au_allowed_origins = []\<rparr>"

definition sample_fs :: fs_view where
  "sample_fs =
     \<lparr>fs_canonical = (\<lambda>_. None), fs_owner_mode = (\<lambda>_. None), fs_exists = (\<lambda>_. False),
      fs_current_exe = None, fs_geteuid = 1000\<rparr>"

definition sample_os :: os_view where
  "sample_os =
     \<lparr>os_exe = (\<lambda>_. Some ''/usr/bin/x''), os_root = (\<lambda>_. Some (0, 2)), os_our_root = Some (0, 2),
      os_flatpak_info = (\<lambda>_. None)\<rparr>"

definition sample_body :: auth_request_body where
  "sample_body = \<lparr>ab_app_name = ''X'', ab_scopes = [''status''], ab_version = None\<rparr>"

definition sample_key :: consent_key where
  "sample_key = (Native ''/usr/bin/x'' None, [''status''])"

definition arrived :: hub where
  "arrived =
     (start_hub sample_auth)
       \<lparr>hb_auth := sample_auth\<lparr>au_locks := \<lparr>cl_map = [(sample_key, 0)], cl_next = 1\<rparr>\<rparr>,
        hb_flights := [(0, \<lparr>fl_key = sample_key, fl_lock = 0, fl_body = sample_body, fl_phase = Queued\<rparr>)]\<rparr>"

lemma arrived_reached: "hub_reach sample_fs sample_os False arrived"
proof -
  let ?au = "hb_auth (start_hub sample_auth)"
  have "auth_request_start sample_fs sample_os [] 0 (Some sample_body) (Some (peer_unix (Some 7) (Some 1000))) ?au
      = (?au\<lparr>au_locks := \<lparr>cl_map = [(sample_key, 0)], cl_next = 1\<rparr>\<rparr>, Queue sample_key 0)"
    by (simp add: auth_request_start_def sample_body_def start_hub_def sample_auth_def is_known_scope_def
        known_scopes_def core_scopes_def reject_foreign_uid_def peer_unix_def sample_fs_def
        resolve_peer_identity_def peer_exe_path_def peer_sandbox_app_id_def sample_os_def
        official_client_response_def is_official_client_def cached_deny_response_def deny_contains_def
        lock_for_def no_locks_def hm.get_empty hm_insert_def hm_empty_def sample_key_def normalize_scopes_def
        hm_get_def Let_def)
  from hub_step.hub_arrive [OF this, where t = 0 and auto_approve = False]
  have "hub_step sample_fs sample_os False (start_hub sample_auth) arrived"
    by (simp add: arrived_def start_hub_def hm.get_empty hm_insert_def hm_empty_def hm_get_def sample_auth_def)
  then show ?thesis by (rule hub_next [OF hub_start])
qed

definition denied_hub :: hub where
  "denied_hub =
     arrived
       \<lparr>hb_auth := (hb_auth arrived)\<lparr>au_denied := {sample_key}\<rparr>,
        hb_flights := [(0, \<lparr>fl_key = sample_key, fl_lock = 0, fl_body = sample_body,
           fl_phase = Done (auth_denied 403 reason_user_denied)\<rparr>)],
        hb_log := [Said sample_key Deny, Asked sample_key]\<rparr>"

lemmas run_defs = arrived_def start_hub_def set_phase_def hm_get_def hm_insert_def sample_auth_def
  finalize_flight_def finalize_consent_decision_def deny_insert_def denied_hub_def

lemma denied_hub_reached: "hub_reach sample_fs sample_os False denied_hub"
proof -
  let ?f = "\<lambda>ph. \<lparr>fl_key = sample_key, fl_lock = 0, fl_body = sample_body, fl_phase = ph\<rparr>"
  let ?s = "\<lambda>ph. arrived\<lparr>hb_flights := [(0, ?f ph)]\<rparr>"
  have "hub_step sample_fs sample_os False arrived (?s Ready)"
    using hub_step.hub_acquire [of arrived 0 "?f Queued" sample_fs sample_os False]
    by (simp add: run_defs lock_free_def holds_lock_def auth_request_locked_def cached_deny_response_def
        deny_contains_def)
  then have 1: "hub_reach sample_fs sample_os False (?s Ready)" by (rule hub_next [OF arrived_reached])
  have "hub_step sample_fs sample_os False (?s Ready)
      ((?s OnScreen)\<lparr>hb_permit := False, hb_log := [Asked sample_key]\<rparr>)"
    using hub_step.hub_open [of "?s Ready" 0 "?f Ready" False sample_fs sample_os] by (simp add: run_defs)
  note 2 = hub_next [OF 1 this]
  have deny: "ask_user_for_consent (Answered (Some ''deny'')) = Deny"
    by (simp add: ask_user_for_consent_def read_consent_decision_def consent_allow_def consent_deny_def
        is_graphic_def)
  have "hub_step sample_fs sample_os False ((?s OnScreen)\<lparr>hb_permit := False, hb_log := [Asked sample_key]\<rparr>)
      ((?s (Reaping Deny))\<lparr>hb_log := [Asked sample_key]\<rparr>)"
    using hub_step.hub_user [of "(?s OnScreen)\<lparr>hb_permit := False, hb_log := [Asked sample_key]\<rparr>" 0
        "?f OnScreen" "Answered (Some ''deny'')" sample_fs sample_os False]
    by (simp add: run_defs deny)
  note 3 = hub_next [OF 2 this]
  have "hub_step sample_fs sample_os False ((?s (Reaping Deny))\<lparr>hb_log := [Asked sample_key]\<rparr>) denied_hub"
    using hub_step.hub_finalize [of "(?s (Reaping Deny))\<lparr>hb_log := [Asked sample_key]\<rparr>" 0
        "?f (Reaping Deny)" Deny sample_fs sample_os False "[]" 0]
    by (simp add: run_defs)
  then show ?thesis by (rule hub_next [OF 3])
qed

definition left_hub :: hub where
  "left_hub =
     denied_hub\<lparr>hb_auth := (hb_auth denied_hub)\<lparr>au_locks := \<lparr>cl_map = [], cl_next = 1\<rparr>\<rparr>, hb_flights := []\<rparr>"

lemma left_hub_reached: "hub_reach sample_fs sample_os False left_hub"
proof -
  let ?r = "auth_denied 403 reason_user_denied"
  let ?f = "\<lparr>fl_key = sample_key, fl_lock = 0, fl_body = sample_body, fl_phase = Done ?r\<rparr>"
  have "hub_step sample_fs sample_os False denied_hub left_hub"
    using hub_step.hub_leave [of denied_hub 0 ?f ?r sample_fs sample_os False]
    by (simp add: run_defs left_hub_def leave_def strong_count_def release_lock_def hm_remove_def)
  then show ?thesis by (rule hub_next [OF denied_hub_reached])
qed

subsection \<open>Properties\<close>

text \<open>
  C39. A denial is final however the requests interleave: once the user's Deny for a caller and a
  scope set is recorded, no dialog for that key opens again and no answer for it is taken, however
  many requests were already waiting for the lock or the screen; none of them is past the lock.
\<close>

theorem denial_sticks:
  assumes "hub_reach fs os auto_approve s" and "hb_log s = newer @ Said k Deny # older"
  shows "Asked k \<notin> set newer \<and> Said k d \<notin> set newer \<and> k \<in> au_denied (hb_auth s)
    \<and> length (filter (\<lambda>(_, f). holds_lock f \<and> fl_key f = k) (hb_flights s)) = 0"
proof -
  have ok: "hub_ok s" by (rule hub_reach_ok [OF assms(1)])
  then have "log_ok (newer @ Said k Deny # older)" using assms(2) by (simp add: hub_ok_def)
  note log = log_ok_split [OF this, of d]
  have "{k. Said k Deny \<in> set (hb_log s)} = au_denied (hb_auth s)"
    using ok unfolding hub_ok_def by blast
  then have k: "k \<in> au_denied (hb_auth s)" using assms(2) by auto
  have "\<not> (holds_lock f \<and> fl_key f = k)" if "(t, f) \<in> set (hb_flights s)" for t f
    using ok k that hm_get_iff [of "hb_flights s" t f] unfolding hub_ok_def deny_ok_def locks_ok_def by blast
  then show ?thesis using log k by (auto simp: filter_empty_conv)
qed

theorem denial_sticks_witness:
  "hub_reach sample_fs sample_os False denied_hub
   \<and> sample_key \<in> au_denied (hb_auth denied_hub) \<and> hb_log denied_hub \<noteq> []"
proof -
  have log: "hb_log denied_hub = [] @ Said sample_key Deny # [Asked sample_key]"
    by (simp add: denied_hub_def)
  show ?thesis using denial_sticks [OF denied_hub_reached log] denied_hub_reached log by simp
qed

text \<open>
  C40. The screen and the locks: at every moment at most one dialog is open in the whole daemon, at
  most one request per caller and scope set is past the lock, and every request in flight waits for
  the very lock the registry has for its key.
\<close>

theorem one_dialog_at_a_time:
  assumes "hub_reach fs os auto_approve s"
  shows "length (filter (\<lambda>(_, f). fl_phase f = OnScreen) (hb_flights s)) \<le> 1
    \<and> length (filter (\<lambda>(_, f). holds_lock f \<and> fl_key f = k) (hb_flights s)) \<le> 1
    \<and> list_all (\<lambda>(_, f). hm_get (cl_map (au_locks (hb_auth s))) (fl_key f) = Some (fl_lock f)) (hb_flights s)"
proof -
  have ok: "hub_ok s" by (rule hub_reach_ok [OF assms])
  then have hm: "hm_ok (hb_flights s)" by (simp add: hub_ok_def locks_ok_def)
  have reg: "hm_get (cl_map (au_locks (hb_auth s))) (fl_key f) = Some (fl_lock f)"
    if "hm_get (hb_flights s) t = Some f" for t f
    using ok that unfolding hub_ok_def locks_ok_def by blast
  have 1: "length (filter (\<lambda>(_, f). fl_phase f = OnScreen) (hb_flights s)) \<le> 1"
    by (rule at_most_one [OF hm]) (use ok in \<open>unfold hub_ok_def screen_ok_def, blast\<close>)
  have 2: "length (filter (\<lambda>(_, f). holds_lock f \<and> fl_key f = k) (hb_flights s)) \<le> 1"
  proof (rule at_most_one [OF hm])
    fix t u f g
    assume f: "hm_get (hb_flights s) t = Some f" and g: "hm_get (hb_flights s) u = Some g"
      and h: "holds_lock f \<and> fl_key f = k" "holds_lock g \<and> fl_key g = k"
    then have "fl_lock f = fl_lock g" using reg [OF f] reg [OF g] by simp
    then show "t = u" using ok f g h unfolding hub_ok_def mutex_ok_def by blast
  qed
  have "list_all (\<lambda>(_, f). hm_get (cl_map (au_locks (hb_auth s))) (fl_key f) = Some (fl_lock f)) (hb_flights s)"
    using reg hm_get_iff [OF hm] by (auto simp: list_all_iff)
  with 1 2 show ?thesis by blast
qed

theorem one_dialog_at_a_time_witness:
  "hub_reach sample_fs sample_os False arrived
   \<and> list_all (\<lambda>(_, f). hm_get (cl_map (au_locks (hb_auth arrived))) (fl_key f) = Some (fl_lock f)) (hb_flights arrived)
   \<and> hb_flights arrived \<noteq> []"
  using one_dialog_at_a_time [OF arrived_reached, of sample_key] arrived_reached
  by (simp add: arrived_def)

text \<open>
  The lock registry does not grow with finished requests: as long as no caller went away in the
  middle, a registry with nobody in flight is empty, and otherwise every entry is some request's key.
\<close>

theorem lock_registry_drains:
  assumes "hub_reach fs os auto_approve s" and "\<not> hb_cancelled s"
  shows "(case hm_get (cl_map (au_locks (hb_auth s))) k of
      None \<Rightarrow> True
    | Some l \<Rightarrow> list_ex (\<lambda>(_, f). fl_key f = k \<and> fl_lock f = l) (hb_flights s))"
proof (cases "hm_get (cl_map (au_locks (hb_auth s))) k")
  case (Some l)
  have ok: "hub_ok s" by (rule hub_reach_ok [OF assms(1)])
  have "drained (hb_flights s) (au_locks (hb_auth s))" using hub_reach_drained [OF assms(1)] assms(2) by blast
  with Some obtain t f where f: "hm_get (hb_flights s) t = Some f" "fl_key f = k" unfolding drained_def by blast
  then have "fl_lock f = l" using ok Some unfolding hub_ok_def locks_ok_def by (metis option.inject)
  with f Some show ?thesis by (auto simp: list_ex_iff dest: hm_get_set)
qed simp

theorem lock_registry_drains_witness:
  "hub_reach sample_fs sample_os False left_hub \<and> cl_map (au_locks (hb_auth left_hub)) = []
   \<and> hm_get (cl_map (au_locks (hb_auth left_hub))) sample_key = None"
proof -
  have "\<not> hb_cancelled left_hub" "hb_flights left_hub = []" "cl_map (au_locks (hb_auth left_hub)) = []"
    by (simp_all add: left_hub_def denied_hub_def arrived_def start_hub_def)
  with lock_registry_drains [OF left_hub_reached, of sample_key] left_hub_reached show ?thesis
    by (cases "hm_get (cl_map (au_locks (hb_auth left_hub))) sample_key") simp_all
qed

text \<open>
  A caller that hangs up while it waits leaves its entry behind: the registry is not empty
  although nobody is in flight.
\<close>

theorem cancelled_request_leaves_its_lock:
  "\<exists>fs os s. hub_reach fs os False s \<and> hb_flights s = [] \<and> cl_map (au_locks (hb_auth s)) \<noteq> []"
proof -
  let ?f = "\<lparr>fl_key = sample_key, fl_lock = 0, fl_body = sample_body, fl_phase = Queued\<rparr>"
  have get: "hm_get (hb_flights arrived) 0 = Some ?f" by (simp add: arrived_def hm_get_def)
  have "hub_step sample_fs sample_os False arrived
      (arrived\<lparr>hb_flights := hm_remove 0 (hb_flights arrived),
        hb_permit := (fl_phase ?f = OnScreen \<or> hb_permit arrived), hb_cancelled := True\<rparr>)"
    (is "hub_step _ _ _ _ ?t")
    by (rule hub_step.hub_cancel [OF get]) simp
  then have "hub_reach sample_fs sample_os False ?t" by (rule hub_next [OF arrived_reached])
  moreover have "hb_flights ?t = []" "cl_map (au_locks (hb_auth ?t)) \<noteq> []"
    by (simp_all add: arrived_def hm_remove_def)
  ultimately show ?thesis by blast
qed

end
