(* ===== verification/SE_Net.thy ===== *)
theory SE_Net
  imports SE_Numbers
begin

unbundle bit_operations_syntax

section \<open>Network addresses\<close>

text \<open>
  \<open>std::net\<close>: IPv4 addresses as four octets, IPv6 addresses as eight segments, the classes the source
  asks for, and the parser of \<open>IpAddr\<close>, which reads from the front of the text and must use it up.
\<close>

datatype ipv4 = Ipv4 u8 u8 u8 u8

datatype ipv6 = Ipv6 u16 u16 u16 u16 u16 u16 u16 u16

datatype ip_addr = V4 ipv4 | V6 ipv6

subsection \<open>Classes\<close>

fun v4_link_local :: "ipv4 \<Rightarrow> bool" where
  "v4_link_local (Ipv4 a b c d) = (a = 169 \<and> b = 254)"

fun v4_unspecified :: "ipv4 \<Rightarrow> bool" where
  "v4_unspecified (Ipv4 a b c d) = (a = 0 \<and> b = 0 \<and> c = 0 \<and> d = 0)"

fun v4_broadcast :: "ipv4 \<Rightarrow> bool" where
  "v4_broadcast (Ipv4 a b c d) = (a = 255 \<and> b = 255 \<and> c = 255 \<and> d = 255)"

fun v4_loopback :: "ipv4 \<Rightarrow> bool" where
  "v4_loopback (Ipv4 a b c d) = (a = 127)"

fun v4_private :: "ipv4 \<Rightarrow> bool" where
  "v4_private (Ipv4 a b c d) = (a = 10 \<or> a = 172 \<and> 16 \<le> b \<and> b \<le> 31 \<or> a = 192 \<and> b = 168)"

fun v6_loopback :: "ipv6 \<Rightarrow> bool" where
  "v6_loopback (Ipv6 a b c d e f g h) =
     (a = 0 \<and> b = 0 \<and> c = 0 \<and> d = 0 \<and> e = 0 \<and> f = 0 \<and> g = 0 \<and> h = 1)"

fun v6_unspecified :: "ipv6 \<Rightarrow> bool" where
  "v6_unspecified (Ipv6 a b c d e f g h) =
     (a = 0 \<and> b = 0 \<and> c = 0 \<and> d = 0 \<and> e = 0 \<and> f = 0 \<and> g = 0 \<and> h = 0)"

fun v6_unicast_link_local :: "ipv6 \<Rightarrow> bool" where
  "v6_unicast_link_local (Ipv6 a b c d e f g h) = (a AND 0xFFC0 = 0xFE80)"

fun v6_unique_local :: "ipv6 \<Rightarrow> bool" where
  "v6_unique_local (Ipv6 a b c d e f g h) = (a AND 0xFE00 = 0xFC00)"

definition ip_loopback :: "ip_addr \<Rightarrow> bool" where
  "ip_loopback ip = (case ip of V4 a \<Rightarrow> v4_loopback a | V6 a \<Rightarrow> v6_loopback a)"

subsection \<open>An IPv4 address inside an IPv6 one\<close>

text \<open>\<open>u16::to_be_bytes\<close>, and its inverse.\<close>

definition hi_byte :: "u16 \<Rightarrow> u8" where
  "hi_byte w = ucast (drop_bit 8 w)"

definition lo_byte :: "u16 \<Rightarrow> u8" where
  "lo_byte w = ucast w"

definition be_u16 :: "u8 \<Rightarrow> u8 \<Rightarrow> u16" where
  "be_u16 h l = push_bit 8 (ucast h) OR ucast l"

text \<open>\<open>Ipv6Addr::to_ipv4\<close>: the mapped and the deprecated compatible form.\<close>

fun to_ipv4 :: "ipv6 \<Rightarrow> ipv4 option" where
  "to_ipv4 (Ipv6 a b c d e f g h) =
     (if a = 0 \<and> b = 0 \<and> c = 0 \<and> d = 0 \<and> e = 0 \<and> (f = 0 \<or> f = 0xFFFF)
      then Some (Ipv4 (hi_byte g) (lo_byte g) (hi_byte h) (lo_byte h)) else None)"

lemma bytes_be [simp]: "hi_byte (be_u16 h l) = h" "lo_byte (be_u16 h l) = l"
  unfolding hi_byte_def lo_byte_def be_u16_def
  by (rule bit_word_eqI, auto simp: bit_simps dest: bit_imp_le_length)+

lemma be_bytes [simp]: "be_u16 (hi_byte w) (lo_byte w) = w"
  unfolding hi_byte_def lo_byte_def be_u16_def
  by (rule bit_word_eqI) (auto simp: bit_simps dest: bit_imp_le_length)

lemma be_u16_inject: "be_u16 a b = be_u16 c d \<longleftrightarrow> a = c \<and> b = d"
  by (metis bytes_be)

subsection \<open>Text\<close>

text \<open>
  \<open>core::net::parser\<close>: every reader takes the rest of the text and gives the value with what is left.
\<close>

type_synonym 'a reader = "string \<Rightarrow> ('a \<times> string) option"

definition read_char :: "char \<Rightarrow> unit reader" where
  "read_char c s = (case s of x # rest \<Rightarrow> if x = c then Some ((), rest) else None | [] \<Rightarrow> None)"

text \<open>
  \<open>read_number\<close>: at most \<open>max\<close> digits in the radix, no value above the bound, and without \<open>zeros\<close> no
  leading zero on a number of more than one digit.
\<close>

fun read_digits :: "nat \<Rightarrow> int \<Rightarrow> nat \<Rightarrow> int \<Rightarrow> string \<Rightarrow> (nat \<times> int \<times> string) option" where
  "read_digits radix limit most n [] = Some (0, n, [])"
| "read_digits radix limit most n (c # rest) =
     (case digit_val radix c of
        None \<Rightarrow> Some (0, n, c # rest)
      | Some v \<Rightarrow>
          let m = n * int radix + int v
          in if most = 0 \<or> m \<ge> limit then None
             else (case read_digits radix limit (most - 1) m rest of
                     None \<Rightarrow> None
                   | Some (k, r) \<Rightarrow> Some (Suc k, r)))"

definition read_number :: "nat \<Rightarrow> int \<Rightarrow> nat \<Rightarrow> bool \<Rightarrow> int reader" where
  "read_number radix limit most zeros s =
     (case read_digits radix limit most 0 s of
        None \<Rightarrow> None
      | Some (k, n, rest) \<Rightarrow>
          if k = 0 then None
          else if \<not> zeros \<and> hd s = CHR ''0'' \<and> k > 1 then None
          else Some (n, rest))"

definition read_sep :: "char \<Rightarrow> nat \<Rightarrow> 'a reader \<Rightarrow> 'a reader" where
  "read_sep sep i inner s =
     (if i = 0 then inner s
      else case read_char sep s of None \<Rightarrow> None | Some (_, rest) \<Rightarrow> inner rest)"

definition read_octet :: "nat \<Rightarrow> u8 reader" where
  "read_octet i s =
     map_option (map_prod of_int id) (read_sep (CHR ''.'') i (read_number 10 256 3 False) s)"

definition read_ipv4 :: "ipv4 reader" where
  "read_ipv4 s =
     (case read_octet 0 s of None \<Rightarrow> None | Some (a, s) \<Rightarrow>
      case read_octet 1 s of None \<Rightarrow> None | Some (b, s) \<Rightarrow>
      case read_octet 2 s of None \<Rightarrow> None | Some (c, s) \<Rightarrow>
      case read_octet 3 s of None \<Rightarrow> None | Some (d, s) \<Rightarrow> Some (Ipv4 a b c d, s))"

text \<open>\<open>read_groups\<close> from group \<open>i\<close> of \<open>limit\<close>: the groups read and whether the last two are an IPv4 address.\<close>

fun v4_groups :: "ipv4 \<Rightarrow> u16 list" where
  "v4_groups (Ipv4 a b c d) = [be_u16 a b, be_u16 c d]"

function read_groups :: "nat \<Rightarrow> nat \<Rightarrow> string \<Rightarrow> u16 list \<times> bool \<times> string" where
  "read_groups limit i s =
     (if i \<ge> limit then ([], False, s)
      else case (if i + 1 < limit then read_sep (CHR '':'') i read_ipv4 s else None) of
             Some (a, rest) \<Rightarrow> (v4_groups a, True, rest)
           | None \<Rightarrow>
               (case read_sep (CHR '':'') i (read_number 16 65536 4 True) s of
                  None \<Rightarrow> ([], False, s)
                | Some (g, rest) \<Rightarrow>
                    (case read_groups limit (i + 1) rest of (gs, v4, r) \<Rightarrow> (of_int g # gs, v4, r))))"
  by pat_completeness auto

termination by (relation "measure (\<lambda>(limit, i, s). limit - i)") auto

definition ipv6_of :: "u16 list \<Rightarrow> ipv6" where
  "ipv6_of g = Ipv6 (g ! 0) (g ! 1) (g ! 2) (g ! 3) (g ! 4) (g ! 5) (g ! 6) (g ! 7)"

definition read_ipv6 :: "ipv6 reader" where
  "read_ipv6 s =
     (case read_groups 8 0 s of (head, head_v4, s1) \<Rightarrow>
        if length head = 8 then Some (ipv6_of head, s1)
        else if head_v4 then None
        else case read_char (CHR '':'') s1 of None \<Rightarrow> None | Some (_, s2) \<Rightarrow>
             case read_char (CHR '':'') s2 of None \<Rightarrow> None | Some (_, s3) \<Rightarrow>
             (case read_groups (7 - length head) 0 s3 of (tail, _, s4) \<Rightarrow>
                Some (ipv6_of (head @ replicate (8 - length head - length tail) 0 @ tail), s4)))"

definition parse_ip :: "string \<Rightarrow> ip_addr option" where
  "parse_ip s =
     (case read_ipv4 s of
        Some (a, []) \<Rightarrow> Some (V4 a)
      | Some (_, _ # _) \<Rightarrow> None
      | None \<Rightarrow> (case read_ipv6 s of Some (a, []) \<Rightarrow> Some (V6 a) | _ \<Rightarrow> None))"

lemma parse_ip_samples:
  "parse_ip ''169.254.169.254'' = Some (V4 (Ipv4 169 254 169 254))"
  "parse_ip ''01.2.3.4'' = None" "parse_ip ''1.2.3.256'' = None"
  "parse_ip ''::1'' = Some (V6 (Ipv6 0 0 0 0 0 0 0 1))"
  "parse_ip ''64:ff9b::192.168.1.1'' = Some (V6 (Ipv6 0x64 0xFF9B 0 0 0 0 0xC0A8 0x0101))"
  "parse_ip ''fe80::1:2'' = Some (V6 (Ipv6 0xFE80 0 0 0 0 0 1 2))"
  "parse_ip ''1:2:3:4:5:6:7:8:9'' = None" "parse_ip ''1::2::3'' = None" "parse_ip ''localhost'' = None"
  by code_simp+

end
