(* ===== verification/Wasm_Egress.thy ===== *)
theory Wasm_Egress
  imports SE_Net Daemon_Backends
begin

section \<open>What a backend may connect to\<close>

text \<open>
  \<open>super-engine-daemon/src/wasm/host.rs\<close> and \<open>base_url.rs\<close>: the addresses an outbound connection may
  reach, and the one option whose value widens them. Resolving a name is the parameter \<open>dns\<close>, the URI
  parser of the \<open>http\<close> crate the parameter \<open>U\<close>.
\<close>

subsection \<open>Classes of addresses\<close>

text \<open>The IPv4 address an IPv6 address stands for.\<close>

definition embedded_v4 :: "ipv6 \<Rightarrow> ipv4 option" where
  "embedded_v4 v6 =
     (if v6_loopback v6 \<or> v6_unspecified v6 then None
      else case v6 of Ipv6 s0 s1 s2 s3 s4 s5 s6 s7 \<Rightarrow>
        if s0 = 0x0064 \<and> s1 = 0xFF9B \<and> s2 = 0 \<and> s3 = 0 \<and> s4 = 0 \<and> s5 = 0
        then Some (Ipv4 (hi_byte s6) (lo_byte s6) (hi_byte s7) (lo_byte s7))
        else if s0 = 0x2002 then Some (Ipv4 (hi_byte s1) (lo_byte s1) (hi_byte s2) (lo_byte s2))
        else to_ipv4 v6)"

definition is_never_routable_v4 :: "ipv4 \<Rightarrow> bool" where
  "is_never_routable_v4 v4 = (v4_link_local v4 \<or> v4_unspecified v4 \<or> v4_broadcast v4)"

definition is_never_routable_ip :: "ip_addr \<Rightarrow> bool" where
  "is_never_routable_ip ip =
     (case ip of
        V4 v4 \<Rightarrow> is_never_routable_v4 v4
      | V6 v6 \<Rightarrow>
          (case embedded_v4 v6 of
             Some v4 \<Rightarrow> is_never_routable_v4 v4
           | None \<Rightarrow> v6_unspecified v6 \<or> v6_unicast_link_local v6))"

definition is_local_v4 :: "ipv4 \<Rightarrow> bool" where
  "is_local_v4 v4 = (v4_loopback v4 \<or> v4_private v4)"

definition is_local_ip :: "ip_addr \<Rightarrow> bool" where
  "is_local_ip ip =
     (case ip of
        V4 v4 \<Rightarrow> is_local_v4 v4
      | V6 v6 \<Rightarrow>
          (case embedded_v4 v6 of
             Some v4 \<Rightarrow> is_local_v4 v4
           | None \<Rightarrow> v6_loopback v6 \<or> v6_unique_local v6))"

subsection \<open>The guard\<close>

datatype egress_scope = PublicOnly | UserAuthorized

definition is_egress_permitted :: "ip_addr \<Rightarrow> bool \<Rightarrow> egress_scope \<Rightarrow> bool" where
  "is_egress_permitted ip allow_loopback scope =
     (if is_never_routable_ip ip then False
      else case scope of
             UserAuthorized \<Rightarrow> True
           | PublicOnly \<Rightarrow> allow_loopback \<and> ip_loopback ip \<or> \<not> is_local_ip ip)"

datatype egress_error =
    HostNotAllowed string
  | DisallowedAddress string ip_addr
  | ResolvesToDisallowed string ip_addr
  | CannotResolve string
  | NoHost

definition ip_literal :: "string \<Rightarrow> ip_addr option" where
  "ip_literal host =
     parse_ip (if host \<noteq> [] \<and> hd host = CHR ''['' \<and> tl host \<noteq> [] \<and> last host = CHR '']''
               then butlast (tl host) else host)"

type_synonym dns = "string \<Rightarrow> u16 \<Rightarrow> ip_addr list option"

definition check_resolved_addrs ::
  "dns \<Rightarrow> string \<Rightarrow> u16 \<Rightarrow> bool \<Rightarrow> egress_scope \<Rightarrow> egress_error + unit" where
  "check_resolved_addrs dns host port allow_loopback scope =
     (case dns host port of
        None \<Rightarrow> Inl (CannotResolve host)
      | Some addrs \<Rightarrow>
          (case find (\<lambda>ip. \<not> is_egress_permitted ip allow_loopback scope) addrs of
             Some ip \<Rightarrow> Inl (ResolvesToDisallowed host ip)
           | None \<Rightarrow> Inr ()))"

definition guard_egress_host ::
  "dns \<Rightarrow> string \<Rightarrow> u16 \<Rightarrow> bool \<Rightarrow> egress_scope \<Rightarrow> egress_error + unit" where
  "guard_egress_host dns host port allow_loopback scope =
     (case ip_literal host of
        Some ip \<Rightarrow>
          if is_egress_permitted ip allow_loopback scope then Inr () else Inl (DisallowedAddress host ip)
      | None \<Rightarrow> check_resolved_addrs dns host port allow_loopback scope)"

definition authority_text :: "string \<Rightarrow> u16 \<Rightarrow> string" where
  "authority_text host port = host @ '':'' @ show_nat (unat port)"

definition check_host_allowed ::
  "dns \<Rightarrow> string list \<Rightarrow> string list \<Rightarrow> string \<Rightarrow> u16 \<Rightarrow> bool \<Rightarrow> egress_error + unit" where
  "check_host_allowed dns allowed user_allowed host port allow_loopback =
     (let auth = authority_text host port
      in if list_ex (\<lambda>a. eq_ignore_case a auth) user_allowed
         then guard_egress_host dns host port allow_loopback UserAuthorized
         else if list_ex (\<lambda>a. eq_ignore_case a host \<or> eq_ignore_case a auth) allowed
                \<or> list_ex (\<lambda>a. eq_ignore_case a host) user_allowed
         then guard_egress_host dns host port allow_loopback PublicOnly
         else Inl (HostNotAllowed host))"

subsection \<open>The configured endpoint\<close>

record uri =
  u_scheme :: "string option"
  u_host :: "string option"
  u_port :: "u16 option"
  u_path :: string

type_synonym uri_parser = "string \<Rightarrow> uri option"

definition default_port :: "string option \<Rightarrow> u16" where
  "default_port scheme =
     (case scheme of
        Some s \<Rightarrow> if eq_ignore_case s ''http'' \<or> eq_ignore_case s ''ws'' then 80 else 443
      | None \<Rightarrow> 443)"

definition inferred_scheme :: "string \<Rightarrow> string" where
  "inferred_scheme host =
     (if eq_ignore_case host ''localhost''
         \<or> (case ip_literal host of None \<Rightarrow> False | Some ip \<Rightarrow> is_local_ip ip)
      then ''http'' else ''https'')"

definition read_base_url :: "uri_parser \<Rightarrow> string \<Rightarrow> uri option" where
  "read_base_url U value =
     (let trimmed = trim value
      in if trimmed = [] then None
         else if contains_str ''://'' trimmed then U trimmed
         else case U (''https://'' @ trimmed) of
                None \<Rightarrow> None
              | Some probe \<Rightarrow>
                  (case u_host probe of
                     None \<Rightarrow> None
                   | Some h \<Rightarrow> U (inferred_scheme h @ ''://'' @ trimmed)))"

definition host_of :: "uri \<Rightarrow> string option" where
  "host_of u = (case u_host u of Some h \<Rightarrow> if h = [] then None else Some h | None \<Rightarrow> None)"

definition trim_slashes :: "string \<Rightarrow> string" where
  "trim_slashes s = rev (dropWhile (\<lambda>c. c = CHR ''/'') (rev s))"

definition port_text :: "u16 option \<Rightarrow> string" where
  "port_text p = (case p of None \<Rightarrow> [] | Some n \<Rightarrow> '':'' @ show_nat (unat n))"

definition lower :: "string \<Rightarrow> string" where
  "lower s = map to_ascii_lower s"

definition normalize :: "uri_parser \<Rightarrow> string \<Rightarrow> string option" where
  "normalize U value =
     (case read_base_url U value of
        None \<Rightarrow> None
      | Some u \<Rightarrow>
          (case host_of u of
             None \<Rightarrow> None
           | Some host \<Rightarrow>
               Some (lower (unwrap_or ''https'' (u_scheme u)) @ ''://'' @ host @ port_text (u_port u)
                     @ trim_slashes (u_path u))))"

definition authority :: "uri_parser \<Rightarrow> string \<Rightarrow> (string \<times> u16) option" where
  "authority U value =
     (case read_base_url U value of
        None \<Rightarrow> None
      | Some u \<Rightarrow>
          map_option (\<lambda>host. (host, unwrap_or (default_port (u_scheme u)) (u_port u))) (host_of u))"

definition egress_entries :: "uri_parser \<Rightarrow> string \<Rightarrow> string list" where
  "egress_entries U value =
     (case authority U value of None \<Rightarrow> [] | Some (host, port) \<Rightarrow> [authority_text host port, host])"

definition canonicalize_override ::
  "uri_parser \<Rightarrow> ('cap, 'm, 'f) discovered \<Rightarrow> (string, string) hmap \<Rightarrow> string + (string, string) hmap" where
  "canonicalize_override U backend overrides =
     (case find (\<lambda>opt. opt_name opt = base_url_option) (db_options backend) of
        None \<Rightarrow> Inr overrides
      | Some opt \<Rightarrow>
          (case hm_get overrides base_url_option of
             None \<Rightarrow> Inr overrides
           | Some raw \<Rightarrow>
               if trim raw = [] then Inr (hm_remove base_url_option overrides)
               else case normalize U raw of
                      Some canonical \<Rightarrow> Inr (hm_insert base_url_option canonical overrides)
                    | None \<Rightarrow> Inl (unwrap_or (opt_name opt) (opt_label opt))))"

definition egress_hosts ::
  "uri_parser \<Rightarrow> ('cap, 'm, 'f) discovered \<Rightarrow> (string, string) hmap \<Rightarrow> string list" where
  "egress_hosts U backend overrides =
     (if \<not> list_ex (\<lambda>o1. opt_name o1 = base_url_option) (db_options backend) then []
      else case hm_get overrides base_url_option of
             None \<Rightarrow> []
           | Some value \<Rightarrow> egress_entries U value)"

subsection \<open>The hook every request passes\<close>

record allowlist_hooks =
  ah_allowed_hosts :: "string list"
  ah_user_allowed_hosts :: "string list"
  ah_allow_loopback :: bool

text \<open>\<open>Inl\<close>: the request is refused and no connection is opened.\<close>

definition send_verdict :: "dns \<Rightarrow> allowlist_hooks \<Rightarrow> uri \<Rightarrow> egress_error + unit" where
  "send_verdict dns hooks u =
     (case u_host u of
        None \<Rightarrow> Inl NoHost
      | Some host \<Rightarrow>
          check_host_allowed dns (ah_allowed_hosts hooks) (ah_user_allowed_hosts hooks) host
            (unwrap_or (default_port (u_scheme u)) (u_port u)) (ah_allow_loopback hooks))"

subsection \<open>What the guard lets through\<close>








text \<open>The four ways an IPv6 address stands for an IPv4 one.\<close>

fun mapped :: "ipv4 \<Rightarrow> ipv6" where
  "mapped (Ipv4 a b c d) = Ipv6 0 0 0 0 0 0xFFFF (be_u16 a b) (be_u16 c d)"

fun compatible :: "ipv4 \<Rightarrow> ipv6" where
  "compatible (Ipv4 a b c d) = Ipv6 0 0 0 0 0 0 (be_u16 a b) (be_u16 c d)"

fun nat64 :: "ipv4 \<Rightarrow> ipv6" where
  "nat64 (Ipv4 a b c d) = Ipv6 0x64 0xFF9B 0 0 0 0 (be_u16 a b) (be_u16 c d)"

fun sixto4 :: "ipv4 \<Rightarrow> u16 \<Rightarrow> u16 \<Rightarrow> u16 \<Rightarrow> u16 \<Rightarrow> u16 \<Rightarrow> ipv6" where
  "sixto4 (Ipv4 a b c d) s3 s4 s5 s6 s7 = Ipv6 0x2002 (be_u16 a b) (be_u16 c d) s3 s4 s5 s6 s7"

definition stands_for :: "ipv6 \<Rightarrow> ipv4 \<Rightarrow> bool" where
  "stands_for x v4 =
     (x \<noteq> Ipv6 0 0 0 0 0 0 0 0 \<and> x \<noteq> Ipv6 0 0 0 0 0 0 0 1
      \<and> (x = mapped v4 \<or> x = compatible v4 \<or> x = nat64 v4
         \<or> (\<exists>s3 s4 s5 s6 s7. x = sixto4 v4 s3 s4 s5 s6 s7)))"

lemma be_parts: "x = be_u16 a b \<longleftrightarrow> hi_byte x = a \<and> lo_byte x = b"
  by (metis be_bytes bytes_be)

lemma embedded_stands_for: "embedded_v4 x = Some v4 \<longleftrightarrow> stands_for x v4"
proof (cases x)
  case (Ipv6 s0 s1 s2 s3 s4 s5 s6 s7)
  then show ?thesis
    by (cases v4) (auto simp: embedded_v4_def stands_for_def be_parts)
qed

text \<open>
  C28. An IPv6 address is judged as the IPv4 address it stands for, in all four encodings and in no
  other: \<open>embedded_v4\<close> finds exactly those, and such an address may be reached exactly where its IPv4
  form may, with one exception on the safe side: where a build permits loopback to what a manifest
  declares, that covers \<open>127.0.0.0/8\<close> and \<open>::1\<close> but none of the four spellings of \<open>127.0.0.0/8\<close> in IPv6.
  So no spelling of a private or of the metadata address gets past the guard.
\<close>

theorem egress_sees_through_encodings:
  "(embedded_v4 x = Some v4 \<longleftrightarrow> stands_for x v4)
   \<and> (if stands_for x v4
      then is_egress_permitted (V6 x) allow_loopback scope
             = (is_egress_permitted (V4 v4) allow_loopback scope
                \<and> \<not> (allow_loopback \<and> scope = PublicOnly \<and> (case v4 of Ipv4 a b c d \<Rightarrow> a = 127)))
      else True)"
proof (cases "stands_for x v4")
  case True
  then have e: "embedded_v4 x = Some v4" and "x \<noteq> Ipv6 0 0 0 0 0 0 0 1"
    by (simp_all add: embedded_stands_for stands_for_def)
  then have "\<not> ip_loopback (V6 x)" by (cases x) (auto simp: ip_loopback_def)
  moreover have "is_never_routable_ip (V6 x) = is_never_routable_ip (V4 v4)"
    "is_local_ip (V6 x) = is_local_ip (V4 v4)"
    using e by (simp_all add: is_never_routable_ip_def is_local_ip_def)
  moreover have "ip_loopback (V4 v4) = (case v4 of Ipv4 a b c d \<Rightarrow> a = 127)"
    by (cases v4) (simp add: ip_loopback_def)
  moreover have "ip_loopback (V4 v4) \<Longrightarrow> is_local_ip (V4 v4)"
    by (simp add: is_local_ip_def is_local_v4_def ip_loopback_def)
  ultimately show ?thesis using True
    by (cases scope) (auto simp: embedded_stands_for is_egress_permitted_def)
qed (simp add: embedded_stands_for)

subsection \<open>The endpoint that is dialled\<close>

text \<open>
  What the code relies on of the URI parser: the parts of a URI it reads are made of the characters of
  the text, and a URI written out from the parts of one it has read, without user, query and fragment,
  the scheme in lower case, is read back as those parts, an empty path as a slash.
\<close>

definition written_path :: "string \<Rightarrow> string" where
  "written_path p = (if p = [] then ''/'' else p)"

definition uri_reads :: "uri_parser \<Rightarrow> bool" where
  "uri_reads U =
     (\<forall>t u h. U t = Some u \<longrightarrow> host_of u = Some h \<longrightarrow>
        (let s = lower (unwrap_or ''https'' (u_scheme u)); p = trim_slashes (u_path u)
         in U (s @ ''://'' @ h @ port_text (u_port u) @ p)
              = Some \<lparr>u_scheme = Some s, u_host = Some h, u_port = u_port u, u_path = written_path p\<rparr>
            \<and> (list_all is_graphic t \<longrightarrow> list_all is_graphic (s @ h @ p))))"

lemma to_ascii_lower_idem [simp]: "to_ascii_lower (to_ascii_lower c) = to_ascii_lower c"
  by (simp add: to_ascii_lower_def)

lemma lower_idem [simp]: "lower (lower s) = lower s"
  by (simp add: lower_def)

lemma eq_ignore_lower [simp]: "eq_ignore_case (lower s) t = eq_ignore_case s t"
  by (simp add: eq_ignore_case_def lower_def comp_def)

lemma default_port_lower: "default_port (Some (lower (unwrap_or ''https'' sch))) = default_port sch"
proof (cases sch)
  case None
  then show ?thesis by (simp add: default_port_def unwrap_or_def) code_simp
next
  case (Some s)
  then show ?thesis by (simp add: default_port_def unwrap_or_def)
qed

lemma trim_slashes_idem: "trim_slashes (written_path (trim_slashes s)) = trim_slashes s"
proof (cases "trim_slashes s = []")
  case True
  have "trim_slashes ''/'' = []" by code_simp
  then show ?thesis unfolding True by (simp add: written_path_def)
next
  case False
  then show ?thesis by (simp add: written_path_def) (simp add: trim_slashes_def)
qed

lemma port_graphic: "list_all is_graphic (port_text p)"
  by (auto simp: port_text_def show_nat_graphic is_graphic_def split: option.split)

lemma inferred_graphic: "list_all is_graphic (inferred_scheme h)"
  unfolding inferred_scheme_def by (simp add: is_graphic_def)

lemma read_base_url_graphic:
  assumes "read_base_url U v = Some u" "list_all is_graphic (trim v)"
  obtains t where "U t = Some u" "list_all is_graphic t"
proof -
  have "list_all is_graphic ''://''" by (simp add: is_graphic_def)
  with assms inferred_graphic that show thesis
    by (auto simp: read_base_url_def Let_def split: if_splits option.splits)
qed

lemma written_read:
  assumes U: "uri_reads U" and v: "list_all is_graphic (trim v)"
    and u: "read_base_url U v = Some u" "host_of u = Some h"
    and s_def: "s = lower (unwrap_or ''https'' (u_scheme u))"
    and c_def: "c = s @ ''://'' @ h @ port_text (u_port u) @ trim_slashes (u_path u)"
  shows "read_base_url U c = Some \<lparr>u_scheme = Some s, u_host = Some h, u_port = u_port u,
      u_path = written_path (trim_slashes (u_path u))\<rparr>"
proof -
  obtain t where t: "U t = Some u" "list_all is_graphic t" using read_base_url_graphic [OF u(1) v] .
  from U t u(2) have law: "U c = Some \<lparr>u_scheme = Some s, u_host = Some h, u_port = u_port u,
      u_path = written_path (trim_slashes (u_path u))\<rparr>"
    "list_all is_graphic (s @ h @ trim_slashes (u_path u))"
    unfolding uri_reads_def c_def s_def Let_def by blast+
  have "list_all is_graphic c"
    using law(2) port_graphic [of "u_port u"] by (simp add: c_def is_graphic_def)
  then have "trim c = c" by simp
  moreover have "contains_str ''://'' c" unfolding contains_str_iff c_def by blast
  moreover have "c \<noteq> []" by (simp add: c_def)
  ultimately show ?thesis using law(1) by (simp add: read_base_url_def)
qed

lemma dialled_core:
  assumes "uri_reads U" "list_all is_graphic (trim v)" "normalize U v = Some c"
  shows "authority U c = authority U v \<and> authority U v \<noteq> None
    \<and> egress_entries U c = egress_entries U v \<and> normalize U c = Some c"
proof -
  from assms(3) obtain u h where u: "read_base_url U v = Some u" "host_of u = Some h"
    and c: "c = lower (unwrap_or ''https'' (u_scheme u)) @ ''://'' @ h @ port_text (u_port u)
              @ trim_slashes (u_path u)"
    by (auto simp: normalize_def split: option.splits)
  note again = written_read [OF assms(1,2) u refl c]
  have h: "h \<noteq> []" using u(2) by (auto simp: host_of_def split: option.splits if_splits)
  have some: "unwrap_or d (Some y) = y" for d y :: string by (simp add: unwrap_or_def)
  have "authority U c = authority U v"
    using again u h by (simp add: authority_def host_of_def default_port_lower)
  moreover have "authority U v \<noteq> None" using u by (simp add: authority_def)
  moreover have "normalize U c = Some c"
    using again h some by (simp add: normalize_def host_of_def trim_slashes_idem) (simp add: c)
  ultimately show ?thesis by (simp add: egress_entries_def)
qed

lemma override_keeps_egress:
  assumes "uri_reads U" "canonicalize_override U b ov = Inr ov2"
    and "list_all is_graphic (trim (unwrap_or [] (hm_get ov base_url_option)))"
  shows "egress_hosts U b ov2 = egress_hosts U b ov
    \<and> (k \<noteq> base_url_option \<longrightarrow> hm_get ov2 k = hm_get ov k)"
proof (cases "find (\<lambda>opt. opt_name opt = base_url_option) (db_options b)")
  case None
  with assms(2) show ?thesis by (simp add: canonicalize_override_def)
next
  case (Some opt)
  show ?thesis
  proof (cases "hm_get ov base_url_option")
    case None
    with Some assms(2) show ?thesis by (simp add: canonicalize_override_def)
  next
    case raw: (Some raw)
    show ?thesis
    proof (cases "trim raw = []")
      case True
      with Some raw assms(2) have "ov2 = hm_remove base_url_option ov" by (simp add: canonicalize_override_def)
      with True raw show ?thesis
        by (simp add: egress_hosts_def egress_entries_def authority_def read_base_url_def)
    next
      case False
      with Some raw assms(2) obtain c where c: "normalize U raw = Some c" "ov2 = hm_insert base_url_option c ov"
        by (auto simp: canonicalize_override_def split: option.splits)
      have "list_all is_graphic (trim raw)" using assms(3) raw by (simp add: unwrap_or_def)
      from dialled_core [OF assms(1) this c(1)] c raw show ?thesis by (simp add: egress_hosts_def)
    qed
  qed
qed

text \<open>
  The endpoint a backend is told to dial is the one the user authorized: the canonical form of a
  \<open>base_url\<close> names the same host and port as the value the user wrote, it authorizes the same egress,
  and it is its own canonical form.
\<close>

theorem dialled_is_authorized:
  assumes "uri_reads U" "list_all is_graphic (trim v)" "normalize U v = Some c"
  shows "authority U c = authority U v \<and> authority U v \<noteq> None
    \<and> egress_entries U c = egress_entries U v \<and> normalize U c = Some c"
  by (rule dialled_core [OF assms])

text \<open>A gateway named without a scheme, as one parser reads it.\<close>

definition gateway_uri :: uri_parser where
  "gateway_uri t =
     (let u = \<lparr>u_scheme = Some ''https'', u_host = Some ''gw'', u_port = Some 81, u_path = ''/v1/''\<rparr>
      in if t = ''https://gw:81/v1/'' then Some u
         else if t = ''https://gw:81/v1'' then Some (u\<lparr>u_path := ''/v1''\<rparr>) else None)"

lemma gateway_reads: "uri_reads gateway_uri"
  unfolding uri_reads_def
proof (intro allI impI)
  fix t u h
  assume u: "gateway_uri t = Some u" and h: "host_of u = Some h"
  from u have "u_scheme u = Some ''https''" "u_host u = Some ''gw''" "u_port u = Some 81"
    "u_path u = ''/v1/'' \<or> u_path u = ''/v1''"
    by (auto simp: gateway_uri_def Let_def split: if_splits)
  moreover have "lower ''https'' = ''https''" "trim_slashes ''/v1/'' = ''/v1''" "trim_slashes ''/v1'' = ''/v1''"
    "port_text (Some 81) = '':81''" by code_simp+
  moreover have "h = ''gw''" using h calculation by (simp add: host_of_def)
  ultimately show "let s = lower (unwrap_or ''https'' (u_scheme u)); p = trim_slashes (u_path u)
      in gateway_uri (s @ ''://'' @ h @ port_text (u_port u) @ p)
           = Some \<lparr>u_scheme = Some s, u_host = Some h, u_port = u_port u, u_path = written_path p\<rparr>
         \<and> (list_all is_graphic t \<longrightarrow> list_all is_graphic (s @ h @ p))"
    by (auto simp: Let_def unwrap_or_def written_path_def gateway_uri_def is_graphic_def)
qed

theorem dialled_is_authorized_witness:
  "authority gateway_uri ''https://gw:81/v1'' = authority gateway_uri ''gw:81/v1/''
   \<and> egress_entries gateway_uri ''gw:81/v1/'' = [''gw:81'', ''gw'']"
proof -
  have "list_all is_graphic (trim ''gw:81/v1/'')"
    "normalize gateway_uri ''gw:81/v1/'' = Some ''https://gw:81/v1''"
    "egress_entries gateway_uri ''gw:81/v1/'' = [''gw:81'', ''gw'']" by code_simp+
  then show ?thesis using dialled_is_authorized [OF gateway_reads] by blast
qed

end
