(* ===== verification/Daemon_LoadGate.thy ===== *)
theory Daemon_LoadGate
  imports SE_Prelude
begin

section \<open>One model load at a time\<close>

text \<open>
  \<open>super-engine-daemon/src/load_gate.rs\<close>. The gate is its counter and whether its mutex is held; a
  daemon's requests are the relation \<open>load_step\<close>: a request takes its ticket as it arrives, waits for
  the gate, then loads or gives up, and can be dropped at any moment.
\<close>

record load_gate =
  lg_newest :: u64
  lg_held :: bool

definition new_gate :: load_gate where
  "new_gate = \<lparr>lg_newest = 0, lg_held = False\<rparr>"

definition ticket :: "load_gate \<Rightarrow> load_gate \<times> u64" where
  "ticket g = (let n = lg_newest g + 1 in (g\<lparr>lg_newest := n\<rparr>, n))"

text \<open>
  \<open>enter\<close> once the mutex is free: the guard is kept (\<open>True\<close>) by the newest ticket and dropped at once
  by any other.
\<close>

definition enter :: "u64 \<Rightarrow> load_gate \<Rightarrow> (load_gate \<times> bool) option" where
  "enter t g =
     (if lg_held g then None
      else Some (if lg_newest g = t then (g\<lparr>lg_held := True\<rparr>, True) else (g, False)))"

definition leave_gate :: "load_gate \<Rightarrow> load_gate" where
  "leave_gate g = g\<lparr>lg_held := False\<rparr>"

subsection \<open>Requests\<close>

datatype load_phase = Waiting | Loading | Loaded | Superseded | Dropped

record load_request =
  lr_ticket :: u64
  lr_phase :: load_phase

record load_sys =
  ls_gate :: load_gate
  ls_requests :: "load_request list"

definition start_loads :: load_sys where
  "start_loads = \<lparr>ls_gate = new_gate, ls_requests = []\<rparr>"

definition set_phase_at :: "nat \<Rightarrow> load_phase \<Rightarrow> load_gate \<Rightarrow> load_sys \<Rightarrow> load_sys" where
  "set_phase_at i p g s =
     s\<lparr>ls_gate := g, ls_requests := (ls_requests s)[i := (ls_requests s ! i)\<lparr>lr_phase := p\<rparr>]\<rparr>"

abbreviation phase_at :: "load_sys \<Rightarrow> nat \<Rightarrow> load_phase" where
  "phase_at s i \<equiv> lr_phase (ls_requests s ! i)"

definition arrive :: "load_sys \<Rightarrow> load_sys" where
  "arrive s =
     (case ticket (ls_gate s) of
        (g, t) \<Rightarrow> s\<lparr>ls_gate := g, ls_requests := ls_requests s @ [\<lparr>lr_ticket = t, lr_phase = Waiting\<rparr>]\<rparr>)"

text \<open>
  What a request already made does next: \<open>gate_move\<close> is the code's own step, \<open>drop_move\<close> is a caller that
  hangs up, which the code cannot count on.
\<close>

inductive gate_move :: "load_sys \<Rightarrow> load_sys \<Rightarrow> bool" where
  enters: "i < length (ls_requests s) \<Longrightarrow> phase_at s i = Waiting \<Longrightarrow>
    enter (lr_ticket (ls_requests s ! i)) (ls_gate s) = Some (g, won) \<Longrightarrow>
    gate_move s (set_phase_at i (if won then Loading else Superseded) g s)"
| finishes: "i < length (ls_requests s) \<Longrightarrow> phase_at s i = Loading \<Longrightarrow>
    gate_move s (set_phase_at i Loaded (leave_gate (ls_gate s)) s)"

inductive drop_move :: "load_sys \<Rightarrow> load_sys \<Rightarrow> bool" where
  dropped_waiting: "i < length (ls_requests s) \<Longrightarrow> phase_at s i = Waiting \<Longrightarrow>
    drop_move s (set_phase_at i Dropped (ls_gate s) s)"
| dropped_loading: "i < length (ls_requests s) \<Longrightarrow> phase_at s i = Loading \<Longrightarrow>
    drop_move s (set_phase_at i Dropped (leave_gate (ls_gate s)) s)"

definition load_move :: "load_sys \<Rightarrow> load_sys \<Rightarrow> bool" where
  "load_move s t = (gate_move s t \<or> drop_move s t)"

inductive load_reach :: "load_sys \<Rightarrow> bool" where
  load_start: "load_reach start_loads"
| load_arrive: "load_reach s \<Longrightarrow> load_reach (arrive s)"
| load_moves: "load_reach s \<Longrightarrow> load_move s t \<Longrightarrow> load_reach t"

subsection \<open>The invariant\<close>

definition loading_at :: "load_sys \<Rightarrow> nat set" where
  "loading_at s = {i. i < length (ls_requests s) \<and> phase_at s i = Loading}"

text \<open>
  Tickets are the positions, the gate is held exactly by a loading request, and only one loads.
\<close>

definition loads_ok :: "load_sys \<Rightarrow> bool" where
  "loads_ok s =
     (lg_newest (ls_gate s) = of_nat (length (ls_requests s))
      \<and> (\<forall>i < length (ls_requests s). lr_ticket (ls_requests s ! i) = of_nat (Suc i))
      \<and> (if lg_held (ls_gate s) then \<exists>i. loading_at s = {i} else loading_at s = {})
      \<and> (\<forall>i. Suc i = length (ls_requests s) \<longrightarrow> phase_at s i \<noteq> Superseded))"

lemma set_phase_simps [simp]:
  "ls_gate (set_phase_at i p g s) = g" "length (ls_requests (set_phase_at i p g s)) = length (ls_requests s)"
  by (simp_all add: set_phase_at_def)

lemma set_phase_nth:
  "i < length (ls_requests s) \<Longrightarrow> j < length (ls_requests s) \<Longrightarrow>
    ls_requests (set_phase_at i p g s) ! j =
      (if j = i then (ls_requests s ! i)\<lparr>lr_phase := p\<rparr> else ls_requests s ! j)"
  by (auto simp: set_phase_at_def)

lemma loading_set_phase:
  "i < length (ls_requests s) \<Longrightarrow>
    loading_at (set_phase_at i p g s) = (if p = Loading then insert i (loading_at s) else loading_at s - {i})"
  by (auto simp: loading_at_def set_phase_nth split: if_splits)

lemma loads_ok_set_phase:
  assumes "loads_ok s" "i < length (ls_requests s)"
    and "lg_newest g = lg_newest (ls_gate s)"
    and "if lg_held g then \<exists>j. loading_at (set_phase_at i p g s) = {j} else loading_at (set_phase_at i p g s) = {}"
    and "Suc i = length (ls_requests s) \<Longrightarrow> p \<noteq> Superseded"
  shows "loads_ok (set_phase_at i p g s)"
  using assms unfolding loads_ok_def
  by (simp add: set_phase_nth)

lemma loads_ok_arrive: "loads_ok s \<Longrightarrow> loads_ok (arrive s)"
proof -
  assume ok: "loads_ok s"
  have "loading_at (arrive s) = loading_at s"
    by (auto simp: loading_at_def arrive_def ticket_def Let_def nth_append less_Suc_eq)
  with ok show ?thesis
    by (auto simp: loads_ok_def arrive_def ticket_def Let_def nth_append less_Suc_eq add.commute)
qed

lemma loading_unique:
  "loads_ok s \<Longrightarrow> i < length (ls_requests s) \<Longrightarrow> phase_at s i = Loading \<Longrightarrow> loading_at s = {i}"
proof -
  assume ok: "loads_ok s" and i: "i < length (ls_requests s)" "phase_at s i = Loading"
  then have "i \<in> loading_at s" by (simp add: loading_at_def)
  with ok show ?thesis by (auto simp: loads_ok_def split: if_splits)
qed

lemma loads_ok_gate_move:
  assumes "gate_move s t" "loads_ok s"
  shows "loads_ok t"
  using assms
proof (induction rule: gate_move.induct)
  case (enters i s g won)
  have t: "lr_ticket (ls_requests s ! i) = of_nat (Suc i)" using enters by (simp add: loads_ok_def)
  have free: "\<not> lg_held (ls_gate s)" "loading_at s = {}"
    using enters by (auto simp: loads_ok_def enter_def split: if_splits)
  have newest: "lg_newest (ls_gate s) = of_nat (length (ls_requests s))" using enters by (simp add: loads_ok_def)
  show ?case
  proof (rule loads_ok_set_phase [OF enters(4,1)])
    show "(if won then Loading else Superseded) \<noteq> Superseded" if "Suc i = length (ls_requests s)"
      using enters(3) t newest that free by (auto simp: enter_def split: if_splits)
  qed (use enters(1,3) free in \<open>auto simp: enter_def loading_set_phase split: if_splits\<close>)
next
  case (finishes i s)
  from loading_unique [OF finishes(3,1,2)] show ?case
    using finishes by (auto simp: leave_gate_def loading_set_phase intro!: loads_ok_set_phase)
qed

lemma loads_ok_drop_move:
  assumes "drop_move s t" "loads_ok s"
  shows "loads_ok t"
  using assms
proof (induction rule: drop_move.induct)
  case (dropped_waiting i s)
  then have "i \<notin> loading_at s" by (simp add: loading_at_def)
  with dropped_waiting show ?case
    by (auto simp: loading_set_phase loads_ok_def [of s] intro!: loads_ok_set_phase)
next
  case (dropped_loading i s)
  from loading_unique [OF dropped_loading(3,1,2)] show ?case
    using dropped_loading by (auto simp: leave_gate_def loading_set_phase intro!: loads_ok_set_phase)
qed

lemma loads_ok_move: "load_move s t \<Longrightarrow> loads_ok s \<Longrightarrow> loads_ok t"
  unfolding load_move_def by (blast intro: loads_ok_gate_move loads_ok_drop_move)

lemma load_reach_ok: "load_reach s \<Longrightarrow> loads_ok s"
proof (induction rule: load_reach.induct)
  case load_start
  then show ?case by (simp add: loads_ok_def start_loads_def new_gate_def loading_at_def)
qed (auto intro: loads_ok_arrive loads_ok_move)

subsection \<open>What the gate promises\<close>

text \<open>The moves left: two for a request that waits, one for a request that loads.\<close>

definition work_left :: "load_sys \<Rightarrow> nat" where
  "work_left s =
     sum_list (map (\<lambda>r. case lr_phase r of Waiting \<Rightarrow> 2 | Loading \<Rightarrow> 1 | _ \<Rightarrow> 0) (ls_requests s))"

definition quiet :: "load_sys \<Rightarrow> bool" where
  "quiet s = list_all (\<lambda>r. lr_phase r \<notin> {Waiting, Loading}) (ls_requests s)"

lemma move_less: "load_move s t \<Longrightarrow> work_left t < work_left s"
  unfolding load_move_def
  by (auto elim!: gate_move.cases drop_move.cases simp: work_left_def set_phase_at_def intro!: sum_list_update_less)

lemma gate_move_if_not_quiet:
  assumes ok: "loads_ok s" and "\<not> quiet s"
  shows "\<exists>t. gate_move s t"
proof (cases "lg_held (ls_gate s)")
  case True
  with ok obtain i where "loading_at s = {i}" by (auto simp: loads_ok_def)
  then have i: "i < length (ls_requests s)" "phase_at s i = Loading" by (auto simp: loading_at_def)
  from finishes [OF this] show ?thesis by blast
next
  case False
  with ok have none: "loading_at s = {}" by (auto simp: loads_ok_def)
  from assms(2) obtain i where i: "i < length (ls_requests s)" "phase_at s i \<in> {Waiting, Loading}"
    by (auto simp: quiet_def list_all_length)
  with none have w: "phase_at s i = Waiting" by (auto simp: loading_at_def)
  from False obtain g won where "enter (lr_ticket (ls_requests s ! i)) (ls_gate s) = Some (g, won)"
    by (simp add: enter_def split: if_splits) (metis surj_pair)
  from enters [OF i(1) w this] show ?thesis by blast
qed

text \<open>A request that waits is taken in as the newest, or superseded, or dropped by its caller.\<close>

definition outcome_fits :: "load_sys \<Rightarrow> load_sys \<Rightarrow> nat \<Rightarrow> bool" where
  "outcome_fits s t i =
     (if phase_at s i = Waiting
      then phase_at t i \<in> {Waiting, Dropped, if Suc i = length (ls_requests s) then Loading else Superseded}
      else if phase_at s i = Loading then phase_at t i \<in> {Loading, Loaded, Dropped}
      else phase_at t i = phase_at s i)"

lemma move_fits:
  assumes "load_move s t" "loads_ok s" "length (ls_requests s) < 2 ^ 64" "j < length (ls_requests s)"
  shows "outcome_fits s t j"
proof -
  have newest: "lg_newest (ls_gate s) = lr_ticket (ls_requests s ! i) \<longleftrightarrow> Suc i = length (ls_requests s)"
    if "i < length (ls_requests s)" for i
    using assms(2,3) that unfolding loads_ok_def
    by (auto simp: word_of_nat_eq_iff take_bit_nat_eq_self simp del: of_nat_Suc)
  from assms(1) consider "gate_move s t" | "drop_move s t" unfolding load_move_def by blast
  then show ?thesis
  proof cases
    case 1
    then show ?thesis using assms(4) newest
      by cases (auto simp: outcome_fits_def set_phase_nth enter_def split: if_splits)
  next
    case 2
    then show ?thesis using assms(4)
      by cases (auto simp: outcome_fits_def set_phase_nth)
  qed
qed

lemma gate_moves_ok: "gate_move\<^sup>*\<^sup>* s t \<Longrightarrow> loads_ok s \<Longrightarrow> loads_ok t \<and> length (ls_requests t) = length (ls_requests s)"
proof (induction rule: rtranclp_induct)
  case (step u t)
  from step.hyps(2) have "length (ls_requests t) = length (ls_requests u)" by cases simp_all
  with step loads_ok_gate_move show ?case by auto
qed simp

lemma gate_move_not_dropped:
  "gate_move s t \<Longrightarrow> i < length (ls_requests s) \<Longrightarrow> phase_at t i = Dropped \<Longrightarrow> phase_at s i = Dropped"
  by (auto elim!: gate_move.cases simp: set_phase_nth split: if_splits)

lemma drains:
  assumes "loads_ok s"
  shows "\<exists>t. gate_move\<^sup>*\<^sup>* s t \<and> quiet t
    \<and> (\<forall>i < length (ls_requests s). phase_at t i = Dropped \<longrightarrow> phase_at s i = Dropped)"
  using assms
proof (induction "work_left s" arbitrary: s rule: less_induct)
  case less
  show ?case
  proof (cases "quiet s")
    case False
    from gate_move_if_not_quiet [OF less.prems this] obtain u where u: "gate_move s u" by blast
    have len: "length (ls_requests u) = length (ls_requests s)" using u by cases simp_all
    have "work_left u < work_left s" using u by (simp add: move_less load_move_def)
    from less.hyps [OF this loads_ok_gate_move [OF u less.prems]] obtain t where
      "gate_move\<^sup>*\<^sup>* u t" "quiet t" "\<forall>i < length (ls_requests u). phase_at t i = Dropped \<longrightarrow> phase_at u i = Dropped"
      by blast
    with u len gate_move_not_dropped [OF u] show ?thesis by (metis converse_rtranclp_into_rtranclp)
  qed (use less.prems in blast)
qed

lemma move_ok: "(load_move ^^ n) s t \<Longrightarrow> loads_ok s \<Longrightarrow>
    loads_ok t \<and> n + work_left t \<le> work_left s \<and> length (ls_requests t) = length (ls_requests s)"
proof (induction n arbitrary: t)
  case (Suc n)
  from Suc.prems(1) obtain u where u: "(load_move ^^ n) s u" "load_move u t" by auto
  have "length (ls_requests t) = length (ls_requests u)"
    using u(2) unfolding load_move_def by (auto elim!: gate_move.cases drop_move.cases)
  with Suc.IH [OF u(1) Suc.prems(2)] move_less [OF u(2)] loads_ok_move [OF u(2)] show ?case by auto
qed simp

lemma work_bound: "work_left s \<le> 2 * length (ls_requests s)"
proof -
  have "sum_list (map f rs) \<le> 2 * length rs" if "\<And>r. f r \<le> 2" for f :: "load_request \<Rightarrow> nat" and rs
  proof (induction rs)
    case (Cons r rs)
    then show ?case using that [of r] by simp
  qed simp
  then show ?thesis unfolding work_left_def by (simp split: load_phase.split)
qed

text \<open>
  C32. Requests never wait for ever. Once no further one arrives at most two moves per request are left;
  and as long as a request waits or loads, the gate itself can make the next one, without any caller
  having to hang up.
\<close>

theorem load_queue_drains:
  assumes "load_reach s" "(load_move ^^ n) s t"
  shows "n \<le> 2 * length (ls_requests s) \<and> (quiet t \<or> (\<exists>u. gate_move t u))"
  using move_ok [OF assms(2) load_reach_ok [OF assms(1)]] work_bound [of s] gate_move_if_not_quiet [of t] by auto

text \<open>
  C33. The newest request wins and a superseded one never starts. At most one request loads at a time. A
  request that waited starts only as the newest; any other is turned away, and the newest never is. When
  all is quiet the newest has loaded unless its caller dropped it, and the gate's own moves alone lead
  there from anywhere. (Below the 2 to the 64 requests after which tickets repeat.)
\<close>

theorem newest_load_wins:
  assumes "load_reach s" "length (ls_requests s) < 2 ^ 64"
  shows "card (loading_at s) \<le> 1
    \<and> (\<forall>t. load_move s t \<longrightarrow> list_all (outcome_fits s t) [0..<length (ls_requests s)])
    \<and> (\<exists>t. gate_move\<^sup>*\<^sup>* s t \<and> quiet t
         \<and> (if ls_requests s = [] \<or> lr_phase (last (ls_requests s)) = Dropped then True
            else lr_phase (last (ls_requests t)) = Loaded))
    \<and> (if quiet s \<and> ls_requests s \<noteq> [] then lr_phase (last (ls_requests s)) \<in> {Loaded, Dropped} else True)"
proof -
  have ok: "loads_ok s" using assms(1) by (rule load_reach_ok)
  have ended: "lr_phase (last (ls_requests t)) \<in> {Loaded, Dropped}"
    if "loads_ok t" "quiet t" "ls_requests t \<noteq> []" for t
  proof -
    have "lr_phase (last (ls_requests t)) \<noteq> Superseded"
      using that by (auto simp: loads_ok_def last_conv_nth Suc_diff_1)
    moreover have "lr_phase (last (ls_requests t)) \<notin> {Waiting, Loading}"
      using that by (auto simp: quiet_def list_all_iff)
    ultimately show ?thesis by (cases "lr_phase (last (ls_requests t))") auto
  qed
  have "card (loading_at s) \<le> 1" using ok by (auto simp: loads_ok_def split: if_splits)
  moreover have "\<forall>t. load_move s t \<longrightarrow> list_all (outcome_fits s t) [0..<length (ls_requests s)]"
    using move_fits [OF _ ok assms(2)] by (auto simp: list_all_iff)
  moreover from drains [OF ok] obtain t where t: "gate_move\<^sup>*\<^sup>* s t" "quiet t"
    "\<forall>i < length (ls_requests s). phase_at t i = Dropped \<longrightarrow> phase_at s i = Dropped" by blast
  note okt = gate_moves_ok [OF t(1) ok]
  have "lr_phase (last (ls_requests t)) = Loaded"
    if ne: "ls_requests s \<noteq> []" and nd: "lr_phase (last (ls_requests s)) \<noteq> Dropped"
  proof -
    have ne2: "ls_requests t \<noteq> []" using okt ne by auto
    then have "last (ls_requests t) = ls_requests t ! (length (ls_requests s) - 1)"
      using okt by (simp add: last_conv_nth)
    with t(3) ne nd have "lr_phase (last (ls_requests t)) \<noteq> Dropped" by (auto simp: last_conv_nth)
    with ended [OF conjunct1 [OF okt] t(2) ne2] show ?thesis by simp
  qed
  ultimately show ?thesis using t ended [OF ok] by auto
qed

text \<open>One load in progress, a second and a third request behind it.\<close>

definition three_requests :: load_sys where
  "three_requests =
     arrive (arrive (set_phase_at 0 Loading (\<lparr>lg_newest = 1, lg_held = True\<rparr>) (arrive start_loads)))"

lemma three_reached: "load_reach three_requests"
proof -
  have "enter 1 (ls_gate (arrive start_loads)) = Some (\<lparr>lg_newest = 1, lg_held = True\<rparr>, True)"
    by (simp add: enter_def arrive_def start_loads_def new_gate_def ticket_def Let_def)
  then have "gate_move (arrive start_loads)
      (set_phase_at 0 (if True then Loading else Superseded) (\<lparr>lg_newest = 1, lg_held = True\<rparr>) (arrive start_loads))"
    by (intro enters) (simp_all add: arrive_def start_loads_def new_gate_def ticket_def Let_def)
  then show ?thesis
    unfolding three_requests_def
    by (intro load_arrive) (rule load_moves [of "arrive start_loads"], rule load_arrive [OF load_start], simp add: load_move_def)
qed

lemma three_phases:
  "map lr_phase (ls_requests three_requests) = [Loading, Waiting, Waiting]"
  by code_simp

theorem load_queue_drains_witness: "\<not> quiet three_requests \<and> (\<exists>u. gate_move three_requests u)"
proof -
  have "\<not> quiet three_requests" by code_simp
  then show ?thesis using load_queue_drains [OF three_reached, of 0 three_requests] by simp
qed

theorem newest_load_wins_witness:
  "\<exists>t. gate_move\<^sup>*\<^sup>* three_requests t \<and> quiet t \<and> lr_phase (last (ls_requests t)) = Loaded"
proof -
  have "ls_requests three_requests \<noteq> []" "lr_phase (last (ls_requests three_requests)) \<noteq> Dropped" by code_simp+
  moreover have "length (ls_requests three_requests) = 3" by code_simp
  ultimately show ?thesis using newest_load_wins [OF three_reached] by auto
qed

end
