(* ===== verification/SE_Wire.thy ===== *)
theory SE_Wire
  imports SE_Numbers
begin

section \<open>What crosses a connection\<close>

text \<open>
  \<open>std::str::from_utf8\<close> on bytes, and the values \<open>serde_json\<close> reads and writes. The reader and the
  writer of the text themselves are parameters wherever they are used; \<open>json_codec\<close> is what the code relies on.
\<close>

subsection \<open>Valid UTF-8\<close>

definition in_bytes :: "nat \<Rightarrow> nat \<Rightarrow> char \<Rightarrow> bool" where
  "in_bytes lo hi c = (lo \<le> byte c \<and> byte c \<le> hi)"

text \<open>The second byte of a character, which excludes overlong forms, surrogates and what is above U+10FFFF.\<close>

definition second_ok :: "char \<Rightarrow> char \<Rightarrow> bool" where
  "second_ok a b =
     (if byte a = 224 then in_bytes 160 191 b
      else if byte a = 237 then in_bytes 128 159 b
      else if byte a = 240 then in_bytes 144 191 b
      else if byte a = 244 then in_bytes 128 143 b
      else in_bytes 128 191 b)"

definition char_width :: "char \<Rightarrow> nat" where
  "char_width a =
     (if byte a < 128 then 1 else if in_bytes 194 223 a then 2
      else if in_bytes 224 239 a then 3 else if in_bytes 240 244 a then 4 else 0)"

text \<open>Whether the bytes begin with a whole character.\<close>

definition char_ok :: "string \<Rightarrow> bool" where
  "char_ok s =
     (char_width (hd s) \<noteq> 0 \<and> char_width (hd s) \<le> length s
      \<and> (if char_width (hd s) = 1 then True
         else second_ok (hd s) (s ! 1) \<and> list_all is_cont_byte (take (char_width (hd s) - 2) (drop 2 s))))"

function utf8_ok :: "string \<Rightarrow> bool" where
  "utf8_ok s = (if s = [] then True else if char_ok s then utf8_ok (drop (char_width (hd s)) s) else False)"
  by pat_completeness auto
termination by (relation "measure length") (auto simp: char_ok_def)

declare utf8_ok.simps [simp del]

lemma utf8_ok_Nil [simp]: "utf8_ok []"
  by (simp add: utf8_ok.simps)

lemma char_ok_append: "s \<noteq> [] \<Longrightarrow> char_ok s \<Longrightarrow> char_ok (s @ b)"
  by (auto simp: char_ok_def nth_append)

lemma utf8_ok_append: "utf8_ok a \<Longrightarrow> utf8_ok (a @ b) \<longleftrightarrow> utf8_ok b"
proof (induction a rule: utf8_ok.induct)
  case (1 s)
  show ?case
  proof (cases "s = []")
    case False
    with 1(2) have ok: "char_ok s" "utf8_ok (drop (char_width (hd s)) s)"
      by (simp_all add: utf8_ok.simps [of s] split: if_splits)
    moreover have "char_width (hd s) \<le> length s" using ok(1) by (simp add: char_ok_def)
    ultimately show ?thesis
      using 1(1) False char_ok_append [of s b] by (simp add: utf8_ok.simps [of "s @ b"])
  qed simp
qed

lemma utf8_ok_ascii: "list_all (\<lambda>c. byte c < 128) s \<Longrightarrow> utf8_ok s"
proof (induction s)
  case (Cons c s)
  then show ?case by (subst utf8_ok.simps) (simp add: char_width_def char_ok_def)
qed simp

subsection \<open>JSON values\<close>

datatype jvalue =
  VNull | VBool bool | VNum int | VStr string | VArr "jvalue list" | VObj "(string \<times> jvalue) list"

text \<open>\<open>Value::get\<close> with a key, and \<open>Value::as_str\<close>.\<close>

fun get_key :: "string \<Rightarrow> jvalue \<Rightarrow> jvalue option" where
  "get_key k (VObj fields) = map_of fields k"
| "get_key k _ = None"

fun as_str :: "jvalue \<Rightarrow> string option" where
  "as_str (VStr s) = Some s"
| "as_str _ = None"

definition str_at :: "string \<Rightarrow> jvalue \<Rightarrow> string option" where
  "str_at k v = Option.bind (get_key k v) as_str"

type_synonym json_reader = "string \<Rightarrow> jvalue option"

text \<open>\<open>serde_json::to_string\<close>: one line of valid UTF-8 that begins with no blank and reads back.\<close>

definition json_text :: "json_reader \<Rightarrow> jvalue \<Rightarrow> string \<Rightarrow> bool" where
  "json_text J v s =
     (J s = Some v \<and> s \<noteq> [] \<and> is_graphic (hd s) \<and> CHR 0x0A \<notin> set s \<and> CHR 0x0D \<notin> set s \<and> utf8_ok s)"

lemma get_key_simps [simp]:
  "str_at k (VObj []) = None"
  "str_at k (VObj ((k2, v) # fs)) = (if k = k2 then as_str v else str_at k (VObj fs))"
  by (simp_all add: str_at_def)

end
