(* ===== verification/Client_Transport.thy ===== *)
theory Client_Transport
  imports SE_Wire Auth_Guards
begin

section \<open>The client's requests and what it makes of the answers\<close>

text \<open>
  \<open>super-engine-client/src/http_client/internal/error.rs\<close> and \<open>transport.rs\<close>, and \<open>auth_request\<close>. The
  connection is hyper over a Unix socket; what it came to is an input (\<open>exchange\<close>).
\<close>

subsection \<open>Errors\<close>

datatype http_error =
  InvalidSession string
  | AuthDenied string
  | ScopeDenied
  | Other string

definition is_invalid_session :: "http_error \<Rightarrow> bool" where
  "is_invalid_session e = (case e of InvalidSession _ \<Rightarrow> True | _ \<Rightarrow> False)"

definition is_scope_denied :: "http_error \<Rightarrow> bool" where
  "is_scope_denied e = (e = ScopeDenied)"

definition show_http_error :: "http_error \<Rightarrow> string" where
  "show_http_error e =
     (case e of
        InvalidSession rsn \<Rightarrow> ''invalid_session ('' @ rsn @ '')''
      | AuthDenied rsn \<Rightarrow> ''auth_denied ('' @ rsn @ '')''
      | ScopeDenied \<Rightarrow> ''scope_denied (HTTP 403)''
      | Other s \<Rightarrow> s)"

text \<open>\<open>str::rfind\<close> and \<open>str::split_once\<close> with a pattern of several characters.\<close>

definition rfind_str :: "string \<Rightarrow> string \<Rightarrow> nat option" where
  "rfind_str pat s = find (\<lambda>i. starts_with pat (drop i s)) (rev [0..<Suc (length s)])"

fun split_once_str :: "string \<Rightarrow> string \<Rightarrow> (string \<times> string) option" where
  "split_once_str pat s =
     (case strip_prefix pat s of
        Some rest \<Rightarrow> Some ([], rest)
      | None \<Rightarrow>
          (case s of
             [] \<Rightarrow> None
           | c # cs \<Rightarrow> map_option (\<lambda>(a, b). (c # a, b)) (split_once_str pat cs)))"

declare split_once_str.simps [simp del]

definition drop_status :: "string \<Rightarrow> string" where
  "drop_status out =
     (case rfind_str '' (HTTP '' out of
        None \<Rightarrow> out
      | Some opening \<Rightarrow>
          if out \<noteq> [] \<and> last out = CHR '')''
             \<and> list_all is_ascii_digit (drop (opening + 7) (butlast out))
          then trim_end (take opening out) else out)"

definition drop_code :: "string \<Rightarrow> string" where
  "drop_code out =
     (case split_once_str '': '' out of
        None \<Rightarrow> out
      | Some (head, rest) \<Rightarrow>
          if head \<noteq> [] \<and> list_all (\<lambda>c. is_ascii_lower c \<or> is_ascii_digit c \<or> c = CHR ''_'') head
             \<and> trim rest \<noteq> []
          then trim_start rest else out)"

definition strip_log_decoration :: "string \<Rightarrow> string" where
  "strip_log_decoration s = drop_code (drop_status (trim s))"

definition user_message :: "product_spec \<Rightarrow> http_error \<Rightarrow> string" where
  "user_message p e =
     (case e of
        InvalidSession _ \<Rightarrow>
          ''The session with the '' @ ps_display_name p @ '' service expired. Reconnecting.''
      | AuthDenied _ \<Rightarrow> ps_display_name p @ '' did not grant this app permission for that.''
      | ScopeDenied \<Rightarrow> ps_display_name p @ '' did not grant this app permission for that.''
      | Other s \<Rightarrow> strip_log_decoration s)"

subsection \<open>Answers\<close>

definition body_value :: "json_reader \<Rightarrow> string \<Rightarrow> jvalue" where
  "body_value J body = (case J body of Some v \<Rightarrow> v | None \<Rightarrow> VNull)"

definition parse_reason :: "json_reader \<Rightarrow> string \<Rightarrow> string \<Rightarrow> string" where
  "parse_reason J body fallback =
     (case Option.bind (get_key ''data'' (body_value J body)) (str_at ''reason'') of
        Some rsn \<Rightarrow> rsn | None \<Rightarrow> fallback)"

definition names_scope_denied :: "json_reader \<Rightarrow> string \<Rightarrow> bool" where
  "names_scope_denied J body =
     list_ex (\<lambda>key. str_at key (body_value J body) = Some ''scope_denied'')
       [''error_code'', ''error'', ''message'']"

definition daemon_error :: "json_reader \<Rightarrow> nat \<Rightarrow> string \<Rightarrow> http_error" where
  "daemon_error J status body =
     (let field = (\<lambda>key. case str_at key (body_value J body) of
                     Some s \<Rightarrow> if s \<noteq> [] then Some s else None | None \<Rightarrow> None);
          code = (case field ''error_code'' of Some c \<Rightarrow> Some c | None \<Rightarrow> field ''error'');
          detail = (case (code, field ''message'') of
              (Some code, Some message) \<Rightarrow>
                if code = message then Some code else Some (code @ '': '' @ message)
            | (Some s, None) \<Rightarrow> Some s
            | (None, Some s) \<Rightarrow> Some s
            | (None, None) \<Rightarrow> None)
      in Other (case detail of
           None \<Rightarrow> ''daemon returned HTTP '' @ show_nat status
         | Some detail \<Rightarrow> detail @ '' (HTTP '' @ show_nat status @ '')''))"

definition error_for_status :: "json_reader \<Rightarrow> nat \<Rightarrow> string \<Rightarrow> http_error" where
  "error_for_status J status body =
     (if status = 401 then InvalidSession (parse_reason J body ''unknown'')
      else if status = 403 \<and> names_scope_denied J body then ScopeDenied
      else daemon_error J status body)"

subsection \<open>Exchanges\<close>

text \<open>What connecting and sending came to; a body that cannot be read is \<open>Inl\<close>.\<close>

datatype exchange =
  NoListener
  | NoConnection string
  | NoHandshake string
  | TimedOut
  | NoAnswer string
  | Answered nat "string + string"

definition request_timeout_s :: nat where "request_timeout_s = 90"

text \<open>\<open>transport::open\<close>: an exchange without a timeout does not time out.\<close>

definition open_exchange :: "nat option \<Rightarrow> exchange \<Rightarrow> http_error + nat \<times> (string + string)" where
  "open_exchange timeout x =
     (case x of
        NoListener \<Rightarrow> Inl (Other ''Daemon HTTP listener not running. Start the daemon first.'')
      | NoConnection e \<Rightarrow> Inl (Other (''Connection failed: '' @ e))
      | NoHandshake e \<Rightarrow> Inl (Other (''HTTP handshake failed: '' @ e))
      | TimedOut \<Rightarrow> Inl (Other (''Daemon did not respond within '' @ show_nat (case timeout of Some s \<Rightarrow> s | None \<Rightarrow> 0)
            @ ''s (it may be stuck or still starting up)''))
      | NoAnswer e \<Rightarrow> Inl (Other (''Request failed: '' @ e))
      | Answered status body \<Rightarrow> Inr (status, body))"

definition is_success :: "nat \<Rightarrow> bool" where
  "is_success status = (200 \<le> status \<and> status < 300)"

definition collect_body :: "string + string \<Rightarrow> http_error + string" where
  "collect_body body =
     (case body of Inl e \<Rightarrow> Inl (Other (''Failed to read response: '' @ e)) | Inr bytes \<Rightarrow> Inr bytes)"

definition check_subscribe_status ::
  "json_reader \<Rightarrow> nat \<times> (string + string) \<Rightarrow> http_error + nat \<times> (string + string)" where
  "check_subscribe_status J answer =
     (if is_success (fst answer) then Inr answer
      else and_then (collect_body (snd answer)) (\<lambda>body. Inl (error_for_status J (fst answer) body)))"

definition send_request_with_timeout ::
  "json_reader \<Rightarrow> (string \<Rightarrow> string + 'a) \<Rightarrow> nat option \<Rightarrow> exchange \<Rightarrow> http_error + 'a" where
  "send_request_with_timeout J read_body timeout x =
     and_then (open_exchange timeout x) (\<lambda>(status, answer).
       and_then (collect_body answer) (\<lambda>body.
         if \<not> is_success status then Inl (error_for_status J status body)
         else case read_body body of
             Inl e \<Rightarrow> Inl (Other (''Failed to parse response: '' @ e))
           | Inr v \<Rightarrow> Inr v))"

definition send_request :: "json_reader \<Rightarrow> (string \<Rightarrow> string + 'a) \<Rightarrow> exchange \<Rightarrow> http_error + 'a" where
  "send_request J read_body x = send_request_with_timeout J read_body (Some request_timeout_s) x"

text \<open>The payload of a granted \<open>POST /auth/request\<close>, the expiry as the text it is.\<close>

record auth_grant =
  ag_session_token :: string
  ag_scopes :: "string list"
  ag_expires_at :: string

definition auth_request_call ::
  "json_reader \<Rightarrow> (string \<Rightarrow> string + auth_grant) \<Rightarrow> exchange \<Rightarrow> http_error + auth_grant" where
  "auth_request_call J read_grant x =
     and_then (open_exchange None x) (\<lambda>(status, answer).
       and_then (collect_body answer) (\<lambda>body.
         if \<not> is_success status then Inl (AuthDenied (parse_reason J body ''auth_denied''))
         else case read_grant body of
             Inl e \<Rightarrow> Inl (Other (''Failed to parse auth_ok: '' @ e))
           | Inr g \<Rightarrow> Inr g))"

subsection \<open>What the daemon's refusals become\<close>

text \<open>The body \<open>error_response\<close>, \<open>scope_denied\<close> and \<open>rate_limited\<close> write.\<close>

definition response_json :: "response \<Rightarrow> jvalue" where
  "response_json r =
     VObj ([(''status'', VStr ''error''), (''message'', VStr (rs_message r))]
           @ (case rs_reason r of None \<Rightarrow> [] | Some rsn \<Rightarrow> [(''data'', VObj [(''reason'', VStr rsn)])]))"

lemma response_fields:
  fixes J :: json_reader
  assumes "J body = Some (response_json r)"
  shows "parse_reason J body fallback = (case rs_reason r of Some rsn \<Rightarrow> rsn | None \<Rightarrow> fallback)"
    and "names_scope_denied J body \<longleftrightarrow> rs_message r = ''scope_denied''"
    and "daemon_error J status body
       = Other ((if rs_message r = [] then ''daemon returned HTTP '' @ show_nat status
                 else rs_message r @ '' (HTTP '' @ show_nat status @ '')''))"
  using assms
  by (simp_all add: parse_reason_def names_scope_denied_def daemon_error_def body_value_def
      response_json_def str_at_def split: option.splits)

text \<open>
  The body \<open>error_envelope\<close> of the registry's endpoints writes, and where a refusal can come from: a
  guard, an endpoint of the registry, or the router, whose bodies are not JSON.
\<close>

definition error_envelope :: "string \<Rightarrow> string option \<Rightarrow> jvalue" where
  "error_envelope code message =
     VObj ([(''status'', VStr ''error''), (''error_code'', VStr code), (''error'', VStr code)]
           @ (case message of None \<Rightarrow> [] | Some m \<Rightarrow> [(''message'', VStr m)]))"

datatype refusal =
    OfGuard response
  | OfRegistry nat string "string option"
  | OfRouter nat

definition refusal_status :: "refusal \<Rightarrow> nat" where
  "refusal_status f = (case f of OfGuard r \<Rightarrow> rs_status r | OfRegistry st _ _ \<Rightarrow> st | OfRouter st \<Rightarrow> st)"

definition refusal_body :: "refusal \<Rightarrow> jvalue option" where
  "refusal_body f =
     (case f of
        OfGuard r \<Rightarrow> Some (response_json r)
      | OfRegistry _ code message \<Rightarrow> Some (error_envelope code message)
      | OfRouter _ \<Rightarrow> None)"

text \<open>What a refusal says: its reason, whether it is of a scope, and the text for a log.\<close>

definition said_reason :: "refusal \<Rightarrow> string option" where
  "said_reason f = (case f of OfGuard r \<Rightarrow> rs_reason r | _ \<Rightarrow> None)"

definition of_scope :: "refusal \<Rightarrow> bool" where
  "of_scope f =
     (case f of
        OfGuard r \<Rightarrow> rs_message r = ''scope_denied''
      | OfRegistry _ code message \<Rightarrow> code = ''scope_denied'' \<or> message = Some ''scope_denied''
      | OfRouter _ \<Rightarrow> False)"

definition said :: "refusal \<Rightarrow> string" where
  "said f =
     (case f of
        OfGuard r \<Rightarrow> rs_message r
      | OfRegistry _ code message \<Rightarrow>
          (case message of
             None \<Rightarrow> code
           | Some m \<Rightarrow> if m = [] \<or> m = code then code else if code = [] then m else code @ '': '' @ m)
      | OfRouter _ \<Rightarrow> [])"

lemma envelope_fields:
  fixes J :: json_reader
  assumes "J body = Some (error_envelope code message)"
  shows "parse_reason J body fallback = fallback"
    and "names_scope_denied J body \<longleftrightarrow> code = ''scope_denied'' \<or> message = Some ''scope_denied''"
    and "daemon_error J status body = Other (let s = said (OfRegistry status code message)
      in if s = [] then ''daemon returned HTTP '' @ show_nat status else s @ '' (HTTP '' @ show_nat status @ '')'')"
  using assms
  by (simp_all add: parse_reason_def names_scope_denied_def daemon_error_def body_value_def
      error_envelope_def str_at_def said_def Let_def split: option.splits)

lemma unread_fields:
  fixes J :: json_reader
  assumes "J body = None"
  shows "parse_reason J body fallback = fallback" "\<not> names_scope_denied J body"
    and "daemon_error J status body = Other (''daemon returned HTTP '' @ show_nat status)"
  using assms
  by (simp_all add: parse_reason_def names_scope_denied_def daemon_error_def body_value_def str_at_def)

text \<open>
  C25. The client reads every refusal of the daemon's guards, of its registry's endpoints and of its
  router as what it is. A rejected token and a missing scope come back as their own errors, with the
  daemon's reason, and nothing else does: no other refusal makes a client throw its token away. Any
  other one comes back as the daemon's own words, code and message once each, with the status. A
  refused authorization carries the daemon's reason, so that exactly the user's own denial counts as one.
\<close>

theorem refusals_understood:
  assumes "J body = refusal_body f" "\<not> is_success (refusal_status f)"
  shows "send_request J rd (Answered (refusal_status f) (Inr body)) = Inl
      (if refusal_status f = 401 then InvalidSession (case said_reason f of Some rsn \<Rightarrow> rsn | None \<Rightarrow> ''unknown'')
       else if refusal_status f = 403 \<and> of_scope f then ScopeDenied
       else Other (if said f = [] then ''daemon returned HTTP '' @ show_nat (refusal_status f)
                   else said f @ '' (HTTP '' @ show_nat (refusal_status f) @ '')''))
     \<and> auth_request_call J rg (Answered (refusal_status f) (Inr body)) = Inl
      (AuthDenied (case said_reason f of Some rsn \<Rightarrow> rsn | None \<Rightarrow> ''auth_denied''))"
proof (cases f)
  case (OfGuard r)
  then have "J body = Some (response_json r)" using assms(1) by (simp add: refusal_body_def)
  from response_fields [where J = J and body = body, OF this] assms(2) OfGuard show ?thesis
    by (simp add: send_request_def send_request_with_timeout_def auth_request_call_def open_exchange_def
        collect_body_def and_then_def error_for_status_def refusal_status_def said_reason_def of_scope_def said_def)
next
  case (OfRegistry st code message)
  then have "J body = Some (error_envelope code message)" using assms(1) by (simp add: refusal_body_def)
  from envelope_fields [where J = J and body = body, OF this] assms(2) OfRegistry show ?thesis
    by (simp add: send_request_def send_request_with_timeout_def auth_request_call_def open_exchange_def
        collect_body_def and_then_def error_for_status_def refusal_status_def said_reason_def of_scope_def Let_def)
next
  case (OfRouter st)
  then have "J body = None" using assms(1) by (simp add: refusal_body_def)
  from unread_fields [where J = J and body = body, OF this] assms(2) OfRouter show ?thesis
    by (simp add: send_request_def send_request_with_timeout_def auth_request_call_def open_exchange_def
        collect_body_def and_then_def error_for_status_def refusal_status_def said_reason_def of_scope_def said_def)
qed

definition refusal_reader :: json_reader where
  "refusal_reader s = (if s = ''body'' then Some (response_json (invalid_session ''expired'')) else None)"

theorem refusals_understood_witness:
  "send_request refusal_reader (\<lambda>_. Inl []) (Answered 401 (Inr ''body'')) = (Inl (InvalidSession ''expired'') :: _ + unit)"
  using conjunct1 [OF refusals_understood [of refusal_reader "''body''" "OfGuard (invalid_session ''expired'')" "\<lambda>_. Inl []"]]
  by (simp add: refusal_reader_def invalid_session_def error_response_def is_success_def refusal_status_def
      refusal_body_def said_reason_def)

subsection \<open>What a person is told\<close>

lemma find_rev_upt:
  "i \<le> n \<Longrightarrow> P i \<Longrightarrow> (\<And>j. i < j \<Longrightarrow> j \<le> n \<Longrightarrow> \<not> P j) \<Longrightarrow> find P (rev [0..<Suc n]) = Some i"
proof (induction n)
  case (Suc n)
  then show ?case by (cases "i = Suc n") (simp_all del: upt_Suc add: upt_Suc_append)
qed simp

lemma show_nat_digits: "list_all is_ascii_digit (show_nat n)"
  by (auto simp: list_all_iff dest: show_nat_ascii)

lemma split_once_code:
  "CHR '':'' \<notin> set code \<Longrightarrow> split_once_str '': '' (code @ '': '' @ m) = Some (code, m)"
  by (induction code) (simp_all add: split_once_str.simps)

lemma rfind_status:
  assumes "list_all is_ascii_digit ds" "ds \<noteq> []"
  shows "rfind_str '' (HTTP '' (pre @ '' (HTTP '' @ ds @ '')'') = Some (length pre)"
  unfolding rfind_str_def
proof (rule find_rev_upt)
  fix j assume j: "length pre < j" "j \<le> length (pre @ '' (HTTP '' @ ds @ '')'')"
  obtain k where k: "j = length pre + Suc k" using j(1) less_iff_Suc_add by auto
  have no: "c \<noteq> CHR '' '' \<and> c \<noteq> CHR ''(''" if "c \<in> set (ds @ '')'')" for c
    using that assms(1) by (auto simp: list_all_iff is_ascii_digit_def)
  have "\<not> starts_with '' (HTTP '' (drop k (''(HTTP '' @ ds @ '')''))"
  proof (cases "k < 6")
    case True
    then have "k \<in> {0, 1, 2, 3, 4, 5}" by auto
    moreover obtain d dd where "ds = d # dd" using assms(2) by (cases ds) auto
    ultimately show ?thesis using no [of d] by (auto simp: starts_with_def)
  next
    case False
    then obtain l where "k = 6 + l" by (metis le_Suc_ex not_less)
    then have "k = Suc (Suc (Suc (Suc (Suc (Suc l)))))" by simp
    then have "drop k (''(HTTP '' @ ds @ '')'') = drop l (ds @ '')'')" by (simp only: drop_Suc_Cons append_Cons append_Nil)
    moreover have "\<not> starts_with '' (HTTP '' u" if "set u \<subseteq> set (ds @ '')'')" for u
      using that no by (cases u) (auto simp: starts_with_def)
    ultimately show ?thesis by (metis set_drop_subset)
  qed
  then show "\<not> starts_with '' (HTTP '' (drop j (pre @ '' (HTTP '' @ ds @ '')''))" by (simp add: k)
qed (simp_all add: starts_with_def)

lemma drop_status_suffix:
  assumes "list_all is_ascii_digit ds" "ds \<noteq> []" "trim_end pre = pre"
  shows "drop_status (pre @ '' (HTTP '' @ ds @ '')'') = pre"
proof -
  have "butlast (pre @ '' (HTTP '' @ ds @ '')'') = pre @ '' (HTTP '' @ ds"
    by (simp add: butlast_append)
  then show ?thesis
    using rfind_status [OF assms(1,2), of pre] assms by (simp add: drop_status_def)
qed

text \<open>
  What a person is shown of a failed request is the daemon's sentence: the machine's code before it
  and the status after it, which the log keeps, are taken off again.
\<close>

theorem refusal_told_plainly:
  assumes "str_at ''error_code'' (body_value J body) = Some code"
    and "str_at ''message'' (body_value J body) = Some m"
    and "code \<noteq> []" "list_all (\<lambda>c. is_ascii_lower c \<or> is_ascii_digit c \<or> c = CHR ''_'') code"
    and "m \<noteq> code" "m \<noteq> []" "is_graphic (hd m)" "is_graphic (last m)"
  shows "daemon_error J status body = Other (code @ '': '' @ m @ '' (HTTP '' @ show_nat status @ '')'')
    \<and> user_message p (daemon_error J status body) = m"
proof -
  let ?pre = "code @ '': '' @ m" and ?ds = "show_nat status"
  have e: "daemon_error J status body = Other (?pre @ '' (HTTP '' @ ?ds @ '')'')"
    using assms by (simp add: daemon_error_def)
  have code: "CHR '':'' \<notin> set code" "list_all is_graphic code"
    using assms(4) by (auto simp: list_all_iff is_ascii_lower_def is_ascii_digit_def is_graphic_def)
  have ds: "list_all is_ascii_digit ?ds" "?ds \<noteq> []"
    using show_nat_digits by simp_all
  have "is_graphic (hd ?pre)" using code assms(3) by (cases code) auto
  then have "trim (?pre @ '' (HTTP '' @ ?ds @ '')'') = ?pre @ '' (HTTP '' @ ?ds @ '')''"
    unfolding trim_def using assms(3)
    by (subst trim_start_graphic, cases code, simp, simp) (rule trim_end_graphic, simp add: is_graphic_def)
  moreover have "drop_status (?pre @ '' (HTTP '' @ ?ds @ '')'') = ?pre"
    by (rule drop_status_suffix [OF ds]) (rule trim_end_graphic, use assms in simp)
  moreover have "trim_start m = m" "trim m = m"
    using assms by (simp_all add: trim_def trim_start_graphic trim_end_graphic)
  then have "drop_code ?pre = m"
    using split_once_code [OF code(1), of m] assms by (simp add: drop_code_def)
  ultimately show ?thesis by (simp add: e user_message_def strip_log_decoration_def)
qed

definition not_found_reader :: json_reader where
  "not_found_reader s = Some (VObj [(''error_code'', VStr ''not_found''), (''message'', VStr ''no release'')])"

theorem refusal_told_plainly_witness:
  "\<forall>p. user_message p (daemon_error not_found_reader 404 []) = ''no release''"
proof
  fix p
  have "list_all (\<lambda>c. is_ascii_lower c \<or> is_ascii_digit c \<or> c = CHR ''_'') ''not_found''" by code_simp
  then show "user_message p (daemon_error not_found_reader 404 []) = ''no release''"
    by (intro conjunct2 [OF refusal_told_plainly [where code = "''not_found''"]])
      (simp_all add: not_found_reader_def body_value_def is_graphic_def)
qed

end
