(* ===== verification/Client_Session.thy ===== *)
theory Client_Session
  imports Client_Transport Spec_Paths
begin

section \<open>The client's session\<close>

text \<open>
  \<open>super-engine-client/src/session.rs\<close>: the record of a token, the file it is kept in, and \<open>obtain\<close> and
  \<open>with_token\<close> as the steps of any number of calls of one app in one process. A call can be preempted
  between any two accesses to the cache, the file and the lock, and dropped wherever it awaits; other
  processes may rewrite the file at any time, and a subscription may call \<open>forget\<close>.
\<close>

subsection \<open>Records and their file\<close>

record stored =
  sd_token :: string
  sd_requested :: "string list"
  sd_granted :: "string list"

definition covers :: "stored \<Rightarrow> string list \<Rightarrow> bool" where
  "covers s needed = list_all (\<lambda>n. list_ex (\<lambda>r. r = n) (sd_requested s)) needed"

text \<open>\<open>stored.filter(|s| s.covers(scopes))\<close>, of which \<open>usable\<close> gives the token.\<close>

definition covering :: "stored option \<Rightarrow> string list \<Rightarrow> stored option" where
  "covering stored needed = (case stored of Some s \<Rightarrow> if covers s needed then Some s else None | None \<Rightarrow> None)"

definition usable :: "stored option \<Rightarrow> string list \<Rightarrow> string option" where
  "usable stored needed = map_option sd_token (covering stored needed)"

definition is_file_char :: "char \<Rightarrow> bool" where
  "is_file_char c =
     ((65 \<le> byte c \<and> byte c \<le> 90) \<or> is_ascii_lower c \<or> is_ascii_digit c \<or> contains_char c ''._-@:'')"

text \<open>A character of several bytes becomes one underscore.\<close>

definition file_safe :: "string \<Rightarrow> string" where
  "file_safe name =
     concat (map (\<lambda>c. if is_cont_byte c then [] else if is_file_char c then [c] else ''_'') name)"

definition token_file :: "string \<Rightarrow> string option \<Rightarrow> string" where
  "token_file app sandbox =
     file_safe (case sandbox of Some i \<Rightarrow> app @ ''@flatpak:'' @ i | None \<Rightarrow> app) @ ''.json''"

definition token_path :: "string list \<Rightarrow> string \<Rightarrow> string option \<Rightarrow> string list" where
  "token_path state_dir app sandbox = state_dir @ [''clients'', token_file app sandbox]"

subsection \<open>Calls\<close>

text \<open>
  Where a call is: before the cache, before the file, with the file's record in hand, before the lock,
  and with the lock held: before the second look at the cache and at the file, with the file's record,
  asking the daemon, and writing the file. \<open>Uses\<close> is the caller's operation with a record's token,
  \<open>Forgets\<close> the deletion of the file after the cache has been cleared. \<open>ta_again\<close> is the second try.
  \<open>ta_uses\<close> and \<open>ta_heard\<close> are a record of what has happened, which no step reads: how often the operation
  was started, and what it returned each time it came back.
\<close>

datatype call_phase =
  AtCache | AtFile | FileHit stored | AtLock
  | Rechecks | RechecksFile | LockedHit stored | Asks | Writes stored
  | Uses stored | Forgets | Ended "http_error option" | Cancelled

record call =
  ta_needed :: "string list"
  ta_again :: bool
  ta_uses :: nat
  ta_heard :: "http_error option list"
  ta_phase :: call_phase

text \<open>\<open>sh_asked\<close> counts the requests for consent, \<open>sh_refused\<close> those that brought no token, \<open>sh_forgot\<close> the tokens dropped.\<close>

record shared =
  sh_cache :: "stored option"
  sh_file :: "stored option"
  sh_lock :: "nat option"
  sh_asked :: nat
  sh_refused :: nat
  sh_forgot :: nat

definition new_call :: "string list \<Rightarrow> call" where
  "new_call needed = \<lparr>ta_needed = needed, ta_again = False, ta_uses = 0, ta_heard = [], ta_phase = AtCache\<rparr>"

definition at :: "call_phase \<Rightarrow> call \<Rightarrow> call" where
  "at p c = c\<lparr>ta_phase := p\<rparr>"

definition use_token :: "stored \<Rightarrow> call \<Rightarrow> call" where
  "use_token s c = c\<lparr>ta_phase := Uses s, ta_uses := Suc (ta_uses c)\<rparr>"

definition release :: "shared \<Rightarrow> shared" where
  "release sh = sh\<lparr>sh_lock := None\<rparr>"

definition check_cache :: "shared \<times> call \<Rightarrow> shared \<times> call" where
  "check_cache = (\<lambda>(sh, c).
     case covering (sh_cache sh) (ta_needed c) of
       Some s \<Rightarrow> (sh, use_token s c)
     | None \<Rightarrow> (sh, at AtFile c))"

definition check_file :: "shared \<times> call \<Rightarrow> shared \<times> call" where
  "check_file = (\<lambda>(sh, c).
     case covering (sh_file sh) (ta_needed c) of
       Some s \<Rightarrow> (sh, at (FileHit s) c)
     | None \<Rightarrow> (sh, at AtLock c))"

definition take_file_record :: "stored \<Rightarrow> shared \<times> call \<Rightarrow> shared \<times> call" where
  "take_file_record s = (\<lambda>(sh, c). (sh\<lparr>sh_cache := Some s\<rparr>, use_token s c))"

definition take_lock :: "nat \<Rightarrow> shared \<times> call \<Rightarrow> shared \<times> call" where
  "take_lock i = (\<lambda>(sh, c). (sh\<lparr>sh_lock := Some i\<rparr>, at Rechecks c))"

definition recheck_cache :: "shared \<times> call \<Rightarrow> shared \<times> call" where
  "recheck_cache = (\<lambda>(sh, c).
     case covering (sh_cache sh) (ta_needed c) of
       Some s \<Rightarrow> (release sh, use_token s c)
     | None \<Rightarrow> (sh, at RechecksFile c))"

definition recheck_file :: "shared \<times> call \<Rightarrow> shared \<times> call" where
  "recheck_file = (\<lambda>(sh, c).
     case covering (sh_file sh) (ta_needed c) of
       Some s \<Rightarrow> (sh, at (LockedHit s) c)
     | None \<Rightarrow> (sh\<lparr>sh_asked := Suc (sh_asked sh)\<rparr>, at Asks c))"

text \<open>\<open>save\<close> in two steps, the cache and the file; \<open>obtain\<close> ignores whether the file was written.\<close>

definition answered :: "http_error + auth_grant \<Rightarrow> shared \<times> call \<Rightarrow> shared \<times> call" where
  "answered res = (\<lambda>(sh, c).
     case res of
       Inl e \<Rightarrow> ((release sh)\<lparr>sh_refused := Suc (sh_refused sh)\<rparr>, at (Ended (Some e)) c)
     | Inr g \<Rightarrow>
         let s = \<lparr>sd_token = ag_session_token g, sd_requested = ta_needed c, sd_granted = ag_scopes g\<rparr>
         in (sh\<lparr>sh_cache := Some s\<rparr>, at (Writes s) c))"

definition write_stored :: "bool \<Rightarrow> stored \<Rightarrow> shared \<times> call \<Rightarrow> shared \<times> call" where
  "write_stored written s = (\<lambda>(sh, c).
     (release (if written then sh\<lparr>sh_file := Some s\<rparr> else sh), use_token s c))"

text \<open>What \<open>with_token\<close> does with the operation's result; \<open>forget\<close> clears the cache and then the file.\<close>

definition used :: "http_error option \<Rightarrow> shared \<times> call \<Rightarrow> shared \<times> call" where
  "used res = (\<lambda>(sh, c0).
     let c = c0\<lparr>ta_heard := ta_heard c0 @ [res]\<rparr>
     in case res of
          None \<Rightarrow> (sh, at (Ended None) c)
        | Some e \<Rightarrow>
            if \<not> ta_again c \<and> (is_invalid_session e \<or> is_scope_denied e)
            then (sh\<lparr>sh_cache := None, sh_forgot := Suc (sh_forgot sh)\<rparr>, at Forgets (c\<lparr>ta_again := True\<rparr>))
            else (sh, at (Ended (Some e)) c))"

definition delete_stored :: "bool \<Rightarrow> shared \<times> call \<Rightarrow> shared \<times> call" where
  "delete_stored deleted = (\<lambda>(sh, c).
     (if deleted then sh\<lparr>sh_file := None\<rparr> else sh, at AtCache c))"

text \<open>A future dropped at an await: the guard goes with it, an answer that comes later is lost.\<close>

definition drop_call :: "nat \<Rightarrow> shared \<times> call \<Rightarrow> shared \<times> call" where
  "drop_call i = (\<lambda>(sh, c).
     let sh1 = (if ta_phase c = Asks then sh\<lparr>sh_refused := Suc (sh_refused sh)\<rparr> else sh)
     in (if sh_lock sh = Some i then release sh1 else sh1, at Cancelled c))"

inductive call_step :: "nat \<Rightarrow> shared \<times> call \<Rightarrow> shared \<times> call \<Rightarrow> bool" where
  looks_in_cache: "ta_phase c = AtCache \<Longrightarrow> call_step i (sh, c) (check_cache (sh, c))"
| looks_in_file: "ta_phase c = AtFile \<Longrightarrow> call_step i (sh, c) (check_file (sh, c))"
| takes_record: "ta_phase c = FileHit s \<Longrightarrow> call_step i (sh, c) (take_file_record s (sh, c))"
| locks: "ta_phase c = AtLock \<Longrightarrow> sh_lock sh = None \<Longrightarrow> call_step i (sh, c) (take_lock i (sh, c))"
| looks_again: "ta_phase c = Rechecks \<Longrightarrow> call_step i (sh, c) (recheck_cache (sh, c))"
| looks_in_file_again: "ta_phase c = RechecksFile \<Longrightarrow> call_step i (sh, c) (recheck_file (sh, c))"
| takes_record_locked: "ta_phase c = LockedHit s \<Longrightarrow>
    call_step i (sh, c) (case take_file_record s (sh, c) of (sh1, c1) \<Rightarrow> (release sh1, c1))"
| hears: "ta_phase c = Asks \<Longrightarrow> call_step i (sh, c) (answered res (sh, c))"
| writes: "ta_phase c = Writes s \<Longrightarrow> call_step i (sh, c) (write_stored written s (sh, c))"
| uses: "ta_phase c = Uses s \<Longrightarrow> call_step i (sh, c) (used res (sh, c))"
| forgets: "ta_phase c = Forgets \<Longrightarrow> call_step i (sh, c) (delete_stored deleted (sh, c))"
| drops: "ta_phase c = AtLock \<or> ta_phase c = Asks \<or> (\<exists>s. ta_phase c = Uses s) \<Longrightarrow>
    call_step i (sh, c) (drop_call i (sh, c))"

type_synonym session = "shared \<times> call list"

inductive session_move :: "session \<Rightarrow> session \<Rightarrow> bool" where
  moves: "i < length cs \<Longrightarrow> call_step i (sh, cs ! i) (sh2, c) \<Longrightarrow> session_move (sh, cs) (sh2, cs[i := c])"

definition start_session :: "stored option \<Rightarrow> session" where
  "start_session file =
     (\<lparr>sh_cache = None, sh_file = file, sh_lock = None, sh_asked = 0, sh_refused = 0, sh_forgot = 0\<rparr>, [])"

inductive session_reach :: "session \<Rightarrow> bool" where
  session_start: "session_reach (start_session file)"
| session_call: "session_reach (sh, cs) \<Longrightarrow> session_reach (sh, cs @ [new_call needed])"
| session_moves: "session_reach s \<Longrightarrow> session_move s t \<Longrightarrow> session_reach t"
| session_others: "session_reach (sh, cs) \<Longrightarrow> session_reach (sh\<lparr>sh_file := file\<rparr>, cs)"
| session_forget: "session_reach (sh, cs) \<Longrightarrow>
    session_reach (sh\<lparr>sh_cache := None, sh_file := file, sh_forgot := Suc (sh_forgot sh)\<rparr>, cs)"

subsection \<open>Invariants\<close>

definition holds_lock :: "call_phase \<Rightarrow> bool" where
  "holds_lock p =
     (case p of Rechecks \<Rightarrow> True | RechecksFile \<Rightarrow> True | LockedHit _ \<Rightarrow> True | Asks \<Rightarrow> True | Writes _ \<Rightarrow> True
      | _ \<Rightarrow> False)"

definition record_of :: "call_phase \<Rightarrow> stored option" where
  "record_of p =
     (case p of FileHit s \<Rightarrow> Some s | LockedHit s \<Rightarrow> Some s | Writes s \<Rightarrow> Some s | Uses s \<Rightarrow> Some s | _ \<Rightarrow> None)"

definition has_used :: "call_phase \<Rightarrow> bool" where
  "has_used p = (case p of Uses _ \<Rightarrow> True | Ended _ \<Rightarrow> True | Cancelled \<Rightarrow> True | _ \<Rightarrow> False)"

definition call_ok :: "nat \<Rightarrow> nat option \<Rightarrow> call \<Rightarrow> bool" where
  "call_ok i lock c =
     ((holds_lock (ta_phase c) \<longleftrightarrow> lock = Some i)
      \<and> (case record_of (ta_phase c) of Some s \<Rightarrow> covers s (ta_needed c) | None \<Rightarrow> True)
      \<and> ta_uses c \<le> (if ta_again c then 1 else 0) + (if has_used (ta_phase c) then 1 else 0))"

definition session_ok :: "session \<Rightarrow> bool" where
  "session_ok = (\<lambda>(sh, cs).
     (\<forall>i < length cs. call_ok i (sh_lock sh) (cs ! i))
     \<and> (\<forall>i. sh_lock sh = Some i \<longrightarrow> i < length cs))"

lemmas step_defs = check_cache_def check_file_def take_file_record_def take_lock_def recheck_cache_def
  recheck_file_def answered_def write_stored_def used_def delete_stored_def drop_call_def
  at_def use_token_def release_def

lemma covering_Some: "covering st n = Some s \<longleftrightarrow> st = Some s \<and> covers s n"
  by (auto simp: covering_def split: option.splits)

lemma covers_self [simp]: "covers \<lparr>sd_token = t, sd_requested = n, sd_granted = g\<rparr> n"
  by (simp add: covers_def list_all_iff list_ex_iff)

lemmas phase_defs = holds_lock_def record_of_def has_used_def

lemma call_step_ok:
  assumes "call_step i (sh, c) (sh2, c2)" "call_ok i (sh_lock sh) c"
  shows "call_ok i (sh_lock sh2) c2
    \<and> (sh_lock sh2 = sh_lock sh \<or> sh_lock sh = None \<and> sh_lock sh2 = Some i \<or> sh_lock sh = Some i \<and> sh_lock sh2 = None)
    \<and> ta_needed c2 = ta_needed c"
  using assms
  by (cases rule: call_step.cases)
    (auto simp: step_defs call_ok_def phase_defs covering_Some Let_def split: option.splits sum.splits if_splits)

lemma session_move_ok:
  assumes "session_move s t" "session_ok s"
  shows "session_ok t"
  using assms
proof (cases rule: session_move.cases)
  case (moves i cs sh sh2 c)
  have "call_ok i (sh_lock sh) (cs ! i)" using moves assms(2) by (auto simp: session_ok_def)
  with call_step_ok [of i sh "cs ! i" sh2 c] moves
  have c: "call_ok i (sh_lock sh2) c"
    "sh_lock sh2 = sh_lock sh \<or> sh_lock sh = None \<and> sh_lock sh2 = Some i \<or> sh_lock sh = Some i \<and> sh_lock sh2 = None"
    by auto
  have "call_ok j (sh_lock sh2) (cs ! j)" if "j < length cs" "j \<noteq> i" for j
    using that c(2) moves assms(2) by (auto simp: session_ok_def call_ok_def)
  with c moves assms(2) show ?thesis
    by (auto simp: session_ok_def nth_list_update)
qed

lemma session_reach_ok: "session_reach s \<Longrightarrow> session_ok s"
proof (induction rule: session_reach.induct)
  case (session_start f)
  then show ?case by (simp add: session_ok_def start_session_def)
next
  case (session_call sh cs needed)
  have "call_ok (length cs) (sh_lock sh) (new_call needed)"
    using session_call by (auto simp: session_ok_def call_ok_def new_call_def phase_defs)
  with session_call show ?case by (auto simp: session_ok_def nth_append less_Suc_eq)
next
  case (session_moves s t)
  then show ?case by (blast intro: session_move_ok)
qed (auto simp: session_ok_def)

subsection \<open>Popups\<close>

definition holder :: "session \<Rightarrow> call_phase option" where
  "holder = (\<lambda>(sh, cs). case sh_lock sh of Some i \<Rightarrow> Some (ta_phase (cs ! i)) | None \<Rightarrow> None)"

text \<open>
  How many requests for consent can have brought a token not yet forgotten: between the second look at
  the cache and the request, none.
\<close>

definition slack :: "call_phase option \<Rightarrow> bool \<Rightarrow> nat" where
  "slack p covered =
     (case p of
        Some Asks \<Rightarrow> 1
      | Some RechecksFile \<Rightarrow> 0
      | Some (LockedHit _) \<Rightarrow> 0
      | _ \<Rightarrow> if covered then 1 else 0)"

lemma slack_simps [simp]:
  "slack None b = (if b then 1 else 0)" "slack (Some Asks) b = 1" "slack (Some RechecksFile) b = 0"
  "slack (Some (LockedHit s)) b = 0" "slack (Some Rechecks) b = (if b then 1 else 0)"
  "slack (Some (Writes s)) b = (if b then 1 else 0)"
  by (simp_all add: slack_def)

lemma slack_mono: "slack p b \<le> slack p True" "slack p b \<le> Suc (slack p False)"
  by (simp_all add: slack_def split: option.split call_phase.split)

definition asked_ok :: "string list \<Rightarrow> shared \<Rightarrow> call_phase option \<Rightarrow> bool" where
  "asked_ok n sh p =
     (sh_asked sh \<le> sh_refused sh + sh_forgot sh + slack p (covering (sh_cache sh) n \<noteq> None))"

lemma holder_step:
  assumes "session_ok (sh, cs)" "i < length cs" "call_step i (sh, cs ! i) (sh2, c)"
  shows "holder (sh2, cs[i := c]) =
      (if sh_lock sh2 = Some i then Some (ta_phase c) else if sh_lock sh2 = None then None else holder (sh, cs))"
    and "sh_lock sh = Some i \<Longrightarrow> holder (sh, cs) = Some (ta_phase (cs ! i))"
    and "sh_lock sh = Some i \<longleftrightarrow> holds_lock (ta_phase (cs ! i))"
proof -
  have "call_ok i (sh_lock sh) (cs ! i)" using assms by (simp add: session_ok_def)
  then show "sh_lock sh = Some i \<longleftrightarrow> holds_lock (ta_phase (cs ! i))" by (auto simp: call_ok_def)
  from call_step_ok [OF assms(3)] \<open>call_ok i (sh_lock sh) (cs ! i)\<close>
  show "holder (sh2, cs[i := c]) =
      (if sh_lock sh2 = Some i then Some (ta_phase c) else if sh_lock sh2 = None then None else holder (sh, cs))"
    using assms(2) by (auto simp: holder_def split: option.splits)
qed (simp add: holder_def)

lemma asked_ok_step:
  assumes "call_step i (sh, c) (sh2, c2)" "call_ok i (sh_lock sh) c" "ta_needed c = n"
    and "asked_ok n sh (if sh_lock sh = Some i then Some (ta_phase c) else p)"
    and "sh_lock sh = None \<Longrightarrow> p = None"
  shows "asked_ok n sh2 (if sh_lock sh2 = Some i then Some (ta_phase c2) else if sh_lock sh2 = None then None else p)"
proof -
  have lock: "holds_lock (ta_phase c) \<longleftrightarrow> sh_lock sh = Some i" using assms(2) by (simp add: call_ok_def)
  have rec: "record_of (ta_phase c) = Some s \<Longrightarrow> covers s n" for s
    using assms(2,3) by (simp add: call_ok_def)
  have up: "covering (Some s) n = Some s" if "record_of (ta_phase c) = Some s" for s
    using rec [OF that] by (simp add: covering_def)
  note simps = step_defs asked_ok_def phase_defs Let_def
  from assms(1) show ?thesis
  proof (cases rule: call_step.cases)
    case (takes_record s)
    then show ?thesis using assms(4,5) lock up [of s] slack_mono(1) [of p "covering (sh_cache sh) n \<noteq> None"]
      by (cases "sh_lock sh = None") (auto simp: simps split: if_splits)
  next
    case (uses s res)
    then show ?thesis using assms(4,5) lock slack_mono(2) [of p "covering (sh_cache sh) n \<noteq> None"]
      by (auto simp: simps covering_def split: option.splits if_splits)
  next
    case (drops)
    then show ?thesis using assms(4,5) lock by (auto simp: simps split: if_splits)
  next
    case (hears res)
    then show ?thesis using assms(3-5) lock by (auto simp: simps covering_def split: sum.splits if_splits)
  next
    case (takes_record_locked s)
    then show ?thesis using assms(4,5) lock up [of s] by (simp add: simps split: if_splits)
  next
    case looks_again
    then show ?thesis using assms(3-5) lock by (auto simp: simps split: option.splits if_splits)
  next
    case looks_in_file_again
    then show ?thesis using assms(4,5) lock by (auto simp: simps split: option.splits if_splits)
  next
    case (writes s written)
    then show ?thesis using assms(4,5) lock by (simp add: simps split: if_splits)
  qed (use assms(4,5) lock in \<open>auto simp: simps split: option.splits if_splits\<close>)
qed

lemma asked_ok_move:
  assumes "session_move (sh, cs) (sh2, cs2)" "session_ok (sh, cs)" "list_all (\<lambda>c. ta_needed c = n) cs"
    and "asked_ok n sh (holder (sh, cs))"
  shows "asked_ok n sh2 (holder (sh2, cs2)) \<and> list_all (\<lambda>c. ta_needed c = n) cs2"
  using assms(1)
proof (cases rule: session_move.cases)
  case (moves i c)
  note h = holder_step [OF assms(2) moves(2,3)]
  have n: "ta_needed (cs ! i) = n" using assms(3) moves(2) by (simp add: list_all_length)
  have ok: "call_ok i (sh_lock sh) (cs ! i)" using assms(2) moves(2) by (simp add: session_ok_def)
  have "asked_ok n sh (if sh_lock sh = Some i then Some (ta_phase (cs ! i)) else holder (sh, cs))"
    using assms(4) h(2) by (cases "sh_lock sh = Some i") simp_all
  from asked_ok_step [OF moves(3) ok n this] h(1)
  have "asked_ok n sh2 (holder (sh2, cs2))" by (simp add: moves(1) holder_def)
  moreover have "ta_needed c = n" using call_step_ok [OF moves(3) ok] n by simp
  ultimately show ?thesis using assms(3) moves(1,2) by (simp add: list_all_length nth_list_update)
qed

lemma asked_reach:
  "session_reach s \<Longrightarrow> list_all (\<lambda>c. ta_needed c = n) (snd s) \<Longrightarrow> asked_ok n (fst s) (holder s)"
proof (induction rule: session_reach.induct)
  case (session_start f)
  then show ?case by (simp add: asked_ok_def start_session_def)
next
  case (session_call sh cs needed)
  have "holder (sh, cs @ [new_call needed]) = holder (sh, cs)"
    using session_reach_ok [OF session_call(1)]
    by (auto simp: holder_def session_ok_def nth_append split: option.splits)
  with session_call show ?case by simp
next
  case (session_moves s t)
  have eq: "ta_needed (snd t ! i) = ta_needed (snd s ! i) \<and> length (snd t) = length (snd s)" for i
    using session_moves(2) session_reach_ok [OF session_moves(1)]
  proof (cases rule: session_move.cases)
    case (moves j cs sh sh2 c)
    then have "call_ok j (sh_lock sh) (cs ! j)"
      using session_reach_ok [OF session_moves(1)] by (simp add: session_ok_def)
    with call_step_ok moves show ?thesis by (auto simp: nth_list_update)
  qed
  then have "list_all (\<lambda>c. ta_needed c = n) (snd s)"
    using session_moves(4) by (simp add: list_all_length)
  with session_moves asked_ok_move [of "fst s" "snd s" "fst t" "snd t" n] session_reach_ok [of s]
  show ?case by simp
next
  case (session_others sh cs f)
  then show ?case by (simp add: asked_ok_def holder_def)
next
  case (session_forget sh cs f)
  have "holder (sh\<lparr>sh_cache := None, sh_file := f, sh_forgot := Suc (sh_forgot sh)\<rparr>, cs) = holder (sh, cs)"
    by (simp add: holder_def)
  with session_forget slack_mono(2) [of "holder (sh, cs)" "covering (sh_cache sh) n \<noteq> None"] show ?case
    by (auto simp: asked_ok_def covering_def)
qed

text \<open>
  C23. However many calls of an app run at once, they share one popup: at most one asks the daemon at a
  time, and where all need the same scopes, one request is made beyond those that brought no token and
  the tokens that were dropped since.
\<close>

theorem one_popup_shared:
  assumes "session_reach (sh, cs)" "list_all (\<lambda>c. ta_needed c = n) cs"
  shows "length (filter (\<lambda>c. ta_phase c = Asks) cs) \<le> 1
    \<and> sh_asked sh \<le> Suc (sh_refused sh + sh_forgot sh)"
proof -
  have ok: "session_ok (sh, cs)" using assms(1) by (rule session_reach_ok)
  have asks: "sh_lock sh = Some i" if "i < length cs" "ta_phase (cs ! i) = Asks" for i
    using ok that by (auto simp: session_ok_def call_ok_def phase_defs)
  then have "{i. i < length cs \<and> ta_phase (cs ! i) = Asks} \<subseteq> set_option (sh_lock sh)" by auto
  then have "card {i. i < length cs \<and> ta_phase (cs ! i) = Asks} \<le> card (set_option (sh_lock sh))"
    by (rule card_mono [rotated]) simp
  moreover have "card (set_option (sh_lock sh)) \<le> 1" by (cases "sh_lock sh") simp_all
  moreover have "slack p b \<le> 1" for p b
    by (simp add: slack_def split: option.split call_phase.split)
  then have "slack (holder (sh, cs)) (covering (sh_cache sh) n \<noteq> None) \<le> 1" .
  then have "sh_asked sh \<le> sh_refused sh + sh_forgot sh + 1"
    using asked_reach [OF assms(1), of n, unfolded asked_ok_def fst_conv snd_conv, OF assms(2)] by linarith
  ultimately show ?thesis by (simp add: length_filter_conv_card)
qed

subsection \<open>Second tries\<close>

text \<open>The two answers that a new token can help with: an unknown or expired one, and one without the scope.\<close>

definition token_refused :: "http_error option \<Rightarrow> bool" where
  "token_refused r =
     (case r of
        Some (InvalidSession _) \<Rightarrow> True
      | Some ScopeDenied \<Rightarrow> True
      | _ \<Rightarrow> False)"

definition tries_ok :: "call \<Rightarrow> bool" where
  "tries_ok c =
     (let n = (if ta_again c then 1 else 0)
      in (ta_again c \<longleftrightarrow> (case ta_heard c of r # _ \<Rightarrow> token_refused r | [] \<Rightarrow> False))
         \<and> (case ta_phase c of
              Uses s \<Rightarrow> ta_uses c = Suc n \<and> length (ta_heard c) = n
            | Ended r \<Rightarrow> ta_uses c = length (ta_heard c)
                \<and> (length (ta_heard c) = n \<or> length (ta_heard c) = Suc n \<and> r = last (ta_heard c))
            | Cancelled \<Rightarrow> n \<le> ta_uses c \<and> ta_uses c \<le> Suc n \<and> length (ta_heard c) = n
            | _ \<Rightarrow> ta_uses c = n \<and> length (ta_heard c) = n))"

lemma refused_error: "token_refused (Some e) \<longleftrightarrow> is_invalid_session e \<or> is_scope_denied e"
  by (cases e) (simp_all add: token_refused_def is_invalid_session_def is_scope_denied_def)

lemma token_refused_None [simp]: "\<not> token_refused None"
  by (simp add: token_refused_def)

lemma call_step_tries:
  assumes "call_step i (sh, c) (sh2, c2)" "tries_ok c"
  shows "tries_ok c2"
  using assms(1)
proof (cases rule: call_step.cases)
  case (uses s res)
  then show ?thesis using assms(2)
    by (cases "ta_heard c")
      (auto simp: step_defs tries_ok_def refused_error Let_def split: option.splits if_splits)
qed (use assms(2) in \<open>auto simp: step_defs tries_ok_def Let_def split: option.splits sum.splits if_splits\<close>)

lemma tries_reach: "session_reach s \<Longrightarrow> list_all tries_ok (snd s)"
proof (induction rule: session_reach.induct)
  case (session_start f)
  then show ?case by (simp add: start_session_def)
next
  case (session_call sh cs needed)
  then show ?case by (simp add: tries_ok_def new_call_def)
next
  case (session_moves s t)
  from session_moves(2) show ?case
  proof (cases rule: session_move.cases)
    case (moves i cs sh sh2 c)
    then have "tries_ok c" using call_step_tries session_moves(3) by (simp add: list_all_length)
    with moves session_moves(3) show ?thesis by (simp add: list_all_length nth_list_update)
  qed
qed auto

text \<open>
  C26. A token is used only for scopes it was requested with. A call makes a second try exactly when the
  operation's first answer was that the token is unknown or lacks a scope: after any other answer, and
  after a second one, it is over and returns that answer.
\<close>

theorem token_used_within_scopes:
  assumes "session_reach (sh, cs)"
  shows "list_all (\<lambda>c.
    (ta_again c \<longleftrightarrow> (case ta_heard c of r # _ \<Rightarrow> token_refused r | [] \<Rightarrow> False))
    \<and> length (ta_heard c) \<le> ta_uses c \<and> ta_uses c \<le> (if ta_again c then 2 else 1)
    \<and> (case ta_phase c of Uses s \<Rightarrow> covers s (ta_needed c) | _ \<Rightarrow> True)
    \<and> (if length (ta_heard c) = (if ta_again c then 2 else 1) then ta_phase c = Ended (last (ta_heard c))
       else True)) cs"
  (is "list_all ?P cs")
proof -
  have "?P c" if "call_ok i l c" "tries_ok c" for c i l
    using that by (cases "ta_phase c")
      (auto simp: call_ok_def tries_ok_def record_of_def Let_def split: if_splits)
  then show ?thesis
    using session_reach_ok [OF assms] tries_reach [OF assms]
    unfolding session_ok_def list_all_length split_conv snd_conv by blast
qed

subsection \<open>Calls end\<close>

definition phase_rank :: "call_phase \<Rightarrow> nat" where
  "phase_rank p =
     (case p of Forgets \<Rightarrow> 12 | AtCache \<Rightarrow> 11 | AtFile \<Rightarrow> 10 | FileHit _ \<Rightarrow> 9 | AtLock \<Rightarrow> 8 | Rechecks \<Rightarrow> 7
      | RechecksFile \<Rightarrow> 6 | LockedHit _ \<Rightarrow> 5 | Asks \<Rightarrow> 4 | Writes _ \<Rightarrow> 3 | Uses _ \<Rightarrow> 2
      | Ended _ \<Rightarrow> 0 | Cancelled \<Rightarrow> 0)"

definition call_rank :: "call \<Rightarrow> nat" where
  "call_rank c = (if ta_again c then 0 else 11) + phase_rank (ta_phase c)"

definition call_over :: "call \<Rightarrow> bool" where
  "call_over c = (case ta_phase c of Ended _ \<Rightarrow> True | Cancelled \<Rightarrow> True | _ \<Rightarrow> False)"

lemma call_step_rank: "call_step i (sh, c) (sh2, c2) \<Longrightarrow> call_rank c2 < call_rank c"
  by (cases rule: call_step.cases)
    (auto simp: step_defs call_rank_def phase_rank_def Let_def split: option.splits sum.splits if_splits)

lemma moves_left:
  "(session_move ^^ n) s t \<Longrightarrow> session_ok s \<Longrightarrow>
     session_ok t \<and> length (snd t) = length (snd s)
     \<and> n + sum_list (map call_rank (snd t)) \<le> sum_list (map call_rank (snd s))"
proof (induction n arbitrary: t)
  case (Suc n)
  from Suc.prems(1) obtain u where u: "(session_move ^^ n) s u" "session_move u t" by auto
  from u(2) have "length (snd t) = length (snd u)
      \<and> sum_list (map call_rank (snd t)) < sum_list (map call_rank (snd u))"
  proof (cases rule: session_move.cases)
    case (moves i cs sh sh2 c)
    then show ?thesis
      using sum_list_update_less [OF moves(3), of call_rank c] call_step_rank [OF moves(4)] by simp
  qed
  with Suc.IH [OF u(1) Suc.prems(2)] session_move_ok [OF u(2)] show ?case by auto
qed simp

text \<open>A move of a call that is not dropped by it: what is left of the moves when no future is dropped.\<close>

inductive own_call_move :: "session \<Rightarrow> session \<Rightarrow> bool" where
  calls_move: "i < length cs \<Longrightarrow> call_step i (sh, cs ! i) (sh2, c) \<Longrightarrow> ta_phase c \<noteq> Cancelled \<Longrightarrow>
    own_call_move (sh, cs) (sh2, cs[i := c])"

lemma own_session_move: "own_call_move s t \<Longrightarrow> session_move s t"
  by (auto elim!: own_call_move.cases intro: moves)

lemma call_can_step:
  assumes "\<not> call_over c" "ta_phase c = AtLock \<longrightarrow> sh_lock sh = None"
  shows "\<exists>sh2 c2. call_step i (sh, c) (sh2, c2) \<and> ta_phase c2 \<noteq> Cancelled"
proof -
  have "\<exists>r. call_step i (sh, c) r \<and> ta_phase (snd r) \<noteq> Cancelled"
  proof (cases "ta_phase c")
    case AtLock
    then have "call_step i (sh, c) (take_lock i (sh, c))" using assms(2) by (simp add: locks)
    then show ?thesis by (rule exI [of _ "take_lock i (sh, c)", OF conjI]) (simp add: take_lock_def at_def)
  next
    case (Asks)
    then have "call_step i (sh, c) (answered (Inl ScopeDenied) (sh, c))" by (rule hears)
    then show ?thesis
      by (rule exI [of _ "answered (Inl ScopeDenied) (sh, c)", OF conjI]) (simp add: answered_def at_def)
  next
    case (Uses s)
    then have "call_step i (sh, c) (used None (sh, c))" by (rule uses)
    then show ?thesis by (rule exI [of _ "used None (sh, c)", OF conjI]) (simp add: used_def at_def Let_def)
  next
    case (FileHit s)
    then have "call_step i (sh, c) (take_file_record s (sh, c))" by (rule takes_record)
    then show ?thesis
      by (rule exI [of _ "take_file_record s (sh, c)", OF conjI]) (simp add: take_file_record_def use_token_def)
  next
    case (LockedHit s)
    then have "call_step i (sh, c) (case take_file_record s (sh, c) of (sh1, c1) \<Rightarrow> (release sh1, c1))"
      by (rule takes_record_locked)
    then show ?thesis
      by (rule exI [of _ "case take_file_record s (sh, c) of (sh1, c1) \<Rightarrow> (release sh1, c1)", OF conjI])
        (simp add: take_file_record_def use_token_def)
  next
    case (Writes s)
    then have "call_step i (sh, c) (write_stored True s (sh, c))" by (rule writes)
    then show ?thesis
      by (rule exI [of _ "write_stored True s (sh, c)", OF conjI]) (simp add: write_stored_def use_token_def)
  next
    case AtCache
    then have "call_step i (sh, c) (check_cache (sh, c))" by (rule looks_in_cache)
    then show ?thesis
      by (rule exI [of _ "check_cache (sh, c)", OF conjI])
        (simp add: check_cache_def use_token_def at_def split: option.split)
  next
    case AtFile
    then have "call_step i (sh, c) (check_file (sh, c))" by (rule looks_in_file)
    then show ?thesis
      by (rule exI [of _ "check_file (sh, c)", OF conjI]) (simp add: check_file_def at_def split: option.split)
  next
    case Rechecks
    then have "call_step i (sh, c) (recheck_cache (sh, c))" by (rule looks_again)
    then show ?thesis
      by (rule exI [of _ "recheck_cache (sh, c)", OF conjI])
        (simp add: recheck_cache_def use_token_def at_def split: option.split)
  next
    case RechecksFile
    then have "call_step i (sh, c) (recheck_file (sh, c))" by (rule looks_in_file_again)
    then show ?thesis
      by (rule exI [of _ "recheck_file (sh, c)", OF conjI]) (simp add: recheck_file_def at_def split: option.split)
  next
    case Forgets
    then have "call_step i (sh, c) (delete_stored True (sh, c))" by (rule forgets)
    then show ?thesis by (rule exI [of _ "delete_stored True (sh, c)", OF conjI]) (simp add: delete_stored_def at_def)
  qed (use assms(1) in \<open>simp_all add: call_over_def\<close>)
  then show ?thesis by auto
qed

lemma not_stuck:
  assumes "session_ok (sh, cs)" "\<not> list_all call_over cs"
  shows "\<exists>t. own_call_move (sh, cs) t"
proof (cases "sh_lock sh")
  case None
  from assms(2) obtain i where i: "i < length cs" "\<not> call_over (cs ! i)" by (auto simp: list_all_length)
  from call_can_step [OF i(2)] None calls_move [OF i(1)] show ?thesis by blast
next
  case (Some i)
  with assms(1) have i: "i < length cs" "holds_lock (ta_phase (cs ! i))"
    by (auto simp: session_ok_def call_ok_def)
  then have "\<not> call_over (cs ! i)" "ta_phase (cs ! i) \<noteq> AtLock"
    by (auto simp: holds_lock_def call_over_def split: call_phase.splits)
  with call_can_step calls_move [OF i(1)] show ?thesis by blast
qed

lemma own_moves_finish: "session_ok s \<Longrightarrow> \<exists>t. own_call_move\<^sup>*\<^sup>* s t \<and> list_all call_over (snd t)"
proof (induction "sum_list (map call_rank (snd s))" arbitrary: s rule: less_induct)
  case less
  show ?case
  proof (cases "list_all call_over (snd s)")
    case False
    with less.prems not_stuck [of "fst s" "snd s"] obtain u where u: "own_call_move s u" by auto
    then have m: "(session_move ^^ 1) s u" using own_session_move by (auto simp: relcompp.simps)
    from moves_left [OF m less.prems] less.hyps [of u] u show ?thesis
      by (auto intro: converse_rtranclp_into_rtranclp)
  next
    case True
    then show ?thesis by (intro exI [of _ s]) simp
  qed
qed

text \<open>
  C24. Every call comes back. Once no further call is made, at most 23 steps of each are left whatever
  the daemon, the file and the operations answer and whichever futures are dropped; and from every
  state on the way, with no future dropped any more, a call that is not over can be brought to its end
  by the calls' own steps: none waits for a lock that is never released.
\<close>

theorem calls_come_back:
  assumes "session_reach s" "(session_move ^^ n) s t"
  shows "n \<le> 23 * length (snd s)
    \<and> (list_all call_over (snd t) \<or> (\<exists>u. own_call_move t u))
    \<and> (\<exists>u. own_call_move\<^sup>*\<^sup>* t u \<and> list_all call_over (snd u))"
proof -
  have bound: "sum_list (map call_rank xs) \<le> 23 * length xs" for xs
  proof (induction xs)
    case (Cons c xs)
    have "call_rank c \<le> 23" by (simp add: call_rank_def phase_rank_def split: call_phase.split)
    with Cons show ?case by simp
  qed simp
  from moves_left [OF assms(2) session_reach_ok [OF assms(1)]] bound [of "snd s"] not_stuck [of "fst t" "snd t"]
    own_moves_finish [of t]
  show ?thesis by auto
qed

subsection \<open>Calls that run\<close>

text \<open>One step of a call that is not dropped, with what the operation and the daemon answer, the file obeying.\<close>

definition advance ::
  "http_error option \<Rightarrow> http_error + auth_grant \<Rightarrow> nat \<Rightarrow> shared \<times> call \<Rightarrow> (shared \<times> call) option" where
  "advance op auth i x =
     (case ta_phase (snd x) of
        AtCache \<Rightarrow> Some (check_cache x)
      | AtFile \<Rightarrow> Some (check_file x)
      | FileHit s \<Rightarrow> Some (take_file_record s x)
      | AtLock \<Rightarrow> if sh_lock (fst x) = None then Some (take_lock i x) else None
      | Rechecks \<Rightarrow> Some (recheck_cache x)
      | RechecksFile \<Rightarrow> Some (recheck_file x)
      | LockedHit s \<Rightarrow> Some (case take_file_record s x of (sh1, c1) \<Rightarrow> (release sh1, c1))
      | Asks \<Rightarrow> Some (answered auth x)
      | Writes s \<Rightarrow> Some (write_stored True s x)
      | Uses s \<Rightarrow> Some (used op x)
      | Forgets \<Rightarrow> Some (delete_stored True x)
      | _ \<Rightarrow> None)"

lemma advance_step: "advance op auth i x = Some y \<Longrightarrow> call_step i x y"
  by (cases x; cases "ta_phase (snd x)")
    (auto simp: advance_def split: if_splits intro: call_step.intros simp del: split_paired_Ex)

fun run_calls :: "(nat \<times> http_error option \<times> (http_error + auth_grant)) list \<Rightarrow> session \<Rightarrow> session option" where
  "run_calls [] s = Some s"
| "run_calls ((i, op, auth) # more_steps) (sh, cs) =
     (if i < length cs then
        case advance op auth i (sh, cs ! i) of
          Some (sh2, c) \<Rightarrow> run_calls more_steps (sh2, cs[i := c])
        | None \<Rightarrow> None
      else None)"

lemma run_calls_reach: "run_calls steps s = Some t \<Longrightarrow> session_reach s \<Longrightarrow> session_reach t"
proof (induction steps s rule: run_calls.induct)
  case (2 i op auth steps sh cs)
  then obtain sh2 c where a: "i < length cs" "advance op auth i (sh, cs ! i) = Some (sh2, c)"
    "run_calls steps (sh2, cs[i := c]) = Some t" by (auto split: if_splits option.splits)
  from session_moves [OF 2(3) moves [OF a(1) advance_step [OF a(2)]]] 2(1) [OF a(1,2) refl] a(3)
  show ?case by simp
qed simp

lemma run_calls_shows:
  assumes "case run_calls steps s of Some t \<Rightarrow> P t | None \<Rightarrow> False" "session_reach s"
  shows "\<exists>t. session_reach t \<and> P t"
proof (cases "run_calls steps s")
  case (Some t)
  then have "P t" using assms(1) by simp
  with run_calls_reach [OF Some assms(2)] show ?thesis by (intro exI [of _ t]) simp
qed (use assms in simp)

definition two_calls :: session where
  "two_calls = (fst (start_session None), [new_call [''s''], new_call [''s'']])"

lemma two_calls_reached: "session_reach two_calls"
  using session_call [OF session_call [OF session_start [of None, unfolded start_session_def]], of "[''s'']" "[''s'']"]
  by (simp add: two_calls_def start_session_def)

definition steps_of :: "nat \<Rightarrow> nat \<Rightarrow> http_error option \<Rightarrow> http_error + auth_grant \<Rightarrow>
    (nat \<times> http_error option \<times> (http_error + auth_grant)) list" where
  "steps_of n i op auth = replicate n (i, op, auth)"

definition grant :: "string \<Rightarrow> http_error + auth_grant" where
  "grant t = Inr \<lparr>ag_session_token = t, ag_scopes = [''s''], ag_expires_at = []\<rparr>"

definition dismissed :: "http_error + auth_grant" where
  "dismissed = Inl (AuthDenied ''user_dismissed'')"

text \<open>The second call waits for the lock while the first one asks.\<close>

definition asking :: session where
  "asking = the (run_calls (steps_of 5 0 None dismissed @ steps_of 2 1 None dismissed) two_calls)"

lemma asking_reached: "session_reach asking"
proof -
  have "run_calls (steps_of 5 0 None dismissed @ steps_of 2 1 None dismissed) two_calls = Some asking"
    unfolding asking_def by code_simp
  then show ?thesis using run_calls_reach two_calls_reached by blast
qed

lemma asking_phases:
  "map ta_phase (snd asking) = [Asks, AtLock]" "sh_asked (fst asking) = 1"
  "list_all (\<lambda>c. ta_needed c = [''s'']) (snd asking)"
  unfolding asking_def by code_simp+

theorem one_popup_shared_witness:
  "length (filter (\<lambda>c. ta_phase c = Asks) (snd asking)) \<le> 1 \<and> sh_asked (fst asking) = 1"
  using one_popup_shared [of "fst asking" "snd asking"] asking_reached asking_phases by simp

theorem calls_come_back_witness: "\<exists>u. own_call_move asking u"
proof -
  have "\<not> list_all call_over (snd asking)" unfolding asking_def by code_simp
  then show ?thesis using calls_come_back [OF asking_reached, of 0 asking] by simp
qed

text \<open>The popup is dismissed, the waiting call asks again: a batch of calls can raise one popup each.\<close>

lemma dismissed_popup_comes_again:
  "\<exists>s. session_reach s \<and> sh_asked (fst s) = 2 \<and> sh_forgot (fst s) = 0
     \<and> map ta_phase (snd s) = [Ended (Some (AuthDenied ''user_dismissed'')), Asks]"
proof (rule run_calls_shows [OF _ asking_reached])
  show "case run_calls (steps_of 1 0 None dismissed @ steps_of 3 1 None dismissed) asking of
     Some s \<Rightarrow> sh_asked (fst s) = 2 \<and> sh_forgot (fst s) = 0
       \<and> map ta_phase (snd s) = [Ended (Some (AuthDenied ''user_dismissed'')), Asks]
   | None \<Rightarrow> False"
    unfolding asking_def by code_simp
qed

text \<open>
  Both calls use the first token and are refused. The first one has replaced it when the refusal
  reaches the second one, which drops the new token and asks again.
\<close>

definition token_in_use :: "call \<Rightarrow> string option" where
  "token_in_use c = map_option sd_token (record_of (ta_phase c))"

lemma late_refusal_drops_new_token:
  "\<exists>s. session_reach s \<and> sh_asked (fst s) = 3
     \<and> map token_in_use (snd s) = [Some ''new'', None] \<and> sh_cache (fst s) = None \<and> sh_file (fst s) = None
     \<and> ta_phase (last (snd s)) = Asks"
proof (rule run_calls_shows [OF _ asking_reached])
  show "case run_calls (steps_of 2 0 None (grant ''old'') @ steps_of 2 1 None (grant ''old'')
        @ steps_of 7 0 (Some (InvalidSession ''unknown'')) (grant ''new'') @ steps_of 2 0 None (grant ''new'')
        @ steps_of 7 1 (Some (InvalidSession ''unknown'')) (grant ''last'')) asking of
      Some s \<Rightarrow> sh_asked (fst s) = 3
        \<and> map token_in_use (snd s) = [Some ''new'', None] \<and> sh_cache (fst s) = None \<and> sh_file (fst s) = None
        \<and> ta_phase (last (snd s)) = Asks
    | None \<Rightarrow> False"
    unfolding asking_def by code_simp
qed

theorem token_used_within_scopes_witness:
  "\<exists>s. session_reach s \<and> map ta_heard (snd s) = [[Some (InvalidSession ''unknown'')], []]
     \<and> ta_again (hd (snd s)) \<and> list_all (\<lambda>c. ta_uses c \<le> (if ta_again c then 2 else 1)) (snd s)"
proof -
  have "\<exists>s. session_reach s \<and> (map ta_heard (snd s) = [[Some (InvalidSession ''unknown'')], []]
      \<and> ta_again (hd (snd s)))"
  proof (rule run_calls_shows [OF _ asking_reached])
    show "case run_calls (steps_of 2 0 None (grant ''old'') @ steps_of 1 0 (Some (InvalidSession ''unknown'')) (grant ''old''))
        asking of
        Some s \<Rightarrow> map ta_heard (snd s) = [[Some (InvalidSession ''unknown'')], []] \<and> ta_again (hd (snd s))
      | None \<Rightarrow> False"
      unfolding asking_def by code_simp
  qed
  then obtain sh cs where "session_reach (sh, cs)"
    "map ta_heard cs = [[Some (InvalidSession ''unknown'')], []] \<and> ta_again (hd cs)" by auto
  moreover have "list_all (\<lambda>c. ta_uses c \<le> (if ta_again c then 2 else 1)) cs"
    by (rule list.pred_mono_strong [OF token_used_within_scopes [OF calculation(1)]]) blast
  ultimately show ?thesis by (intro exI [of _ "(sh, cs)"]) simp
qed

subsection \<open>The token file\<close>

text \<open>Whatever an app is called, its file is a child of the directory of the clients.\<close>

lemma file_safe_chars: "c \<in> set (file_safe name) \<Longrightarrow> is_file_char c"
  by (auto simp: file_safe_def is_file_char_def contains_char_def split: if_splits)

lemma token_file_safe: "is_safe_component (token_file app sandbox)"
proof -
  let ?f = "token_file app sandbox"
  have "c \<noteq> CHR ''/'' \<and> c \<noteq> CHR 0x5C \<and> c \<noteq> CHR 0x00" if "c \<in> set ?f" for c
    using that file_safe_chars
    by (fastforce simp: token_file_def is_file_char_def contains_char_def is_ascii_lower_def is_ascii_digit_def)
  moreover have "4 < length ?f" by (simp add: token_file_def)
  ultimately show ?thesis by (auto simp: is_safe_component_def contains_char_def)
qed

lemma token_path_contained:
  "resolve state_dir [''clients'', token_file app sandbox] = Some (token_path state_dir app sandbox)"
  using resolve_safe [of "[''clients'', token_file app sandbox]" state_dir] token_file_safe
  by (simp add: token_path_def is_safe_component_def contains_char_def)

text \<open>Two names can share a file: what is replaced is not told apart.\<close>

lemma token_files_can_collide: "token_file ''a b'' None = token_file ''a_b'' None"
  by code_simp

end
