(* ===== verification/Daemon_Events.thy ===== *)
theory Daemon_Events
  imports Auth_Guards Proto_Product
begin

section \<open>The event stream\<close>

text \<open>
  \<open>super-engine-daemon/src/events.rs\<close>: the topics \<open>event_topics!\<close> generates from a daemon's rows, the
  checks of \<open>GET /events\<close>, and the tasks of an open stream. A topic is its row. The broadcast channels
  of tokio are not modelled: what a forwarder receives next is an input.
\<close>

subsection \<open>Topics\<close>

record topic_row =
  tr_wire :: string
  tr_scope :: string
  tr_cap :: nat

definition audio_buf_capacity :: nat where "audio_buf_capacity = 256"

definition state_buf_capacity :: nat where "state_buf_capacity = 32"

definition core_rows :: "topic_row list" where
  "core_rows =
     [\<lparr>tr_wire = ''frequency_bands'', tr_scope = ''audio_visualization'', tr_cap = audio_buf_capacity\<rparr>,
      \<lparr>tr_wire = ''daemon_status_changed'', tr_scope = ''daemon_status'', tr_cap = state_buf_capacity\<rparr>,
      \<lparr>tr_wire = ''download_progress'', tr_scope = ''daemon_status'', tr_cap = state_buf_capacity\<rparr>,
      \<lparr>tr_wire = ''registry_install'', tr_scope = ''daemon_status'', tr_cap = state_buf_capacity\<rparr>]"

text \<open>The rows of the generated enum: the product's, then the core ones.\<close>

definition event_topics :: "topic_row list \<Rightarrow> topic_row list" where
  "event_topics rows = rows @ core_rows"

definition from_wire :: "topic_row list \<Rightarrow> string \<Rightarrow> topic_row option" where
  "from_wire rows s = find (\<lambda>r. tr_wire r = s) (event_topics rows)"

fun collect_topics :: "topic_row list \<Rightarrow> string list \<Rightarrow> topic_row list \<Rightarrow> string + topic_row list" where
  "collect_topics rows [] requested = Inr requested"
| "collect_topics rows (raw # rest) requested =
     (case from_wire rows raw of
        None \<Rightarrow> Inl raw
      | Some t \<Rightarrow> collect_topics rows rest (if t \<in> set requested then requested else requested @ [t]))"

definition parse_topics :: "topic_row list \<Rightarrow> string option \<Rightarrow> string + topic_row list" where
  "parse_topics rows topics =
     (case topics of
        None \<Rightarrow> Inl ''missing_topics''
      | Some csv \<Rightarrow>
          if csv = [] then Inl ''missing_topics''
          else and_then (collect_topics rows (filter (\<lambda>t. t \<noteq> []) (map trim (split_on (CHR '','') csv))) [])
            (\<lambda>requested. if requested = [] then Inl ''missing_topics'' else Inr requested))"

definition invalid_topic :: "string \<Rightarrow> response" where
  "invalid_topic rsn = error_response 400 ''invalid_topic'' rsn"

text \<open>The checks of \<open>stream\<close>: what it refuses with, or the topics it opens on.\<close>

definition stream_checks ::
  "topic_row list \<Rightarrow> string option \<Rightarrow> auth_context option \<Rightarrow> response + topic_row list \<times> auth_context" where
  "stream_checks rows topics ctx =
     (case parse_topics rows topics of
        Inl rsn \<Rightarrow> Inl (invalid_topic rsn)
      | Inr requested \<Rightarrow>
          (case ctx of
             None \<Rightarrow> Inl (invalid_session reason_unknown)
           | Some c \<Rightarrow>
               if list_ex (\<lambda>t. \<not> list_ex (\<lambda>s. s = tr_scope t) (tm_scopes (ac_meta c))) requested
               then Inl scope_denied else Inr (requested, c)))"

subsection \<open>Frames\<close>

definition sse_frame :: "string \<Rightarrow> string \<Rightarrow> string" where
  "sse_frame event data = ''event: '' @ event @ [CHR 0x0A] @ ''data: '' @ data @ [CHR 0x0A, CHR 0x0A]"

definition keepalive_frame :: string where
  "keepalive_frame = '': keepalive'' @ [CHR 0x0A, CHR 0x0A]"

definition sse_channel_capacity :: nat where "sse_channel_capacity = 256"

subsection \<open>The tasks of a stream\<close>

text \<open>
  A forwarder has looked whether the stream is cancelled before it has an event in hand (\<open>Holding\<close>);
  another task can run before it emits it. The timer task waits between two ticks (\<open>Waits\<close>); a tick of
  the watch resolves who is behind the stream, compares, and after a mismatch announces, revokes and
  cancels in three steps, between which any other task can run.

  What no step reads: \<open>es_sent\<close>, every frame that entered the channel, the newest last; \<open>es_seen\<close>, every
  identity the watch resolved; \<open>es_after\<close>, how many frames entered the channel after the stream was
  cancelled, and \<open>es_late\<close> how many of them each forwarder put there.
\<close>

datatype forwarder = Polling | Holding string | Stopped

datatype watch_state =
  Unspawned | Waits | Resolved "peer_identity option" | Announced | Revoked | Over

record event_stream =
  es_queue :: "string list"
  es_open :: bool
  es_cancelled :: bool
  es_acked :: bool
  es_watch :: watch_state
  es_forwarders :: "(topic_row \<times> forwarder) list"
  es_tokens :: token_store
  es_sent :: "string list"
  es_read :: "string list"
  es_seen :: "peer_identity option list"
  es_after :: nat
  es_late :: "nat list"

text \<open>\<open>try_send\<close>: the frame is queued, dropped because the channel is full, or the receiver is gone.\<close>

definition try_send :: "string \<Rightarrow> event_stream \<Rightarrow> event_stream \<times> bool" where
  "try_send frame st =
     (if \<not> es_open st then (st, False)
      else if length (es_queue st) < sse_channel_capacity
      then (st\<lparr>es_queue := es_queue st @ [frame], es_sent := es_sent st @ [frame],
               es_after := es_after st + (if es_cancelled st then 1 else 0)\<rparr>, True)
      else (st, True))"

definition try_emit_sse_event :: "string \<Rightarrow> string \<Rightarrow> event_stream \<Rightarrow> event_stream \<times> bool" where
  "try_emit_sse_event event data st = try_send (sse_frame event data) st"

definition open_stream :: "topic_row list \<Rightarrow> token_store \<Rightarrow> event_stream" where
  "open_stream requested tokens =
     \<lparr>es_queue = [], es_open = True, es_cancelled = False, es_acked = False, es_watch = Unspawned,
      es_forwarders = map (\<lambda>t. (t, Polling)) requested, es_tokens = tokens,
      es_sent = [], es_read = [], es_seen = [], es_after = 0,
      es_late = map (\<lambda>_. 0) requested\<rparr>"

definition set_forwarder :: "nat \<Rightarrow> forwarder \<Rightarrow> event_stream \<Rightarrow> event_stream" where
  "set_forwarder i f st =
     st\<lparr>es_forwarders := (es_forwarders st)[i := (fst (es_forwarders st ! i), f)]\<rparr>"

text \<open>What a receiver answers: an event's payload, the events skipped, or that its sender is gone.\<close>

datatype received = Event string | Lagged nat | Closed

definition forward_recv :: "nat \<Rightarrow> received \<Rightarrow> event_stream \<Rightarrow> event_stream" where
  "forward_recv i res st =
     set_forwarder i (case res of Event payload \<Rightarrow> Holding payload | Lagged _ \<Rightarrow> Polling | Closed \<Rightarrow> Stopped) st"

definition count_late :: "nat \<Rightarrow> event_stream \<Rightarrow> event_stream \<Rightarrow> event_stream" where
  "count_late i st st1 =
     st1\<lparr>es_late := (es_late st1)[i := es_late st1 ! i + (es_after st1 - es_after st)]\<rparr>"

definition forward_emit :: "nat \<Rightarrow> event_stream \<Rightarrow> event_stream" where
  "forward_emit i st =
     (case es_forwarders st ! i of
        (t, Holding payload) \<Rightarrow>
          (case try_emit_sse_event (tr_wire t) payload st of
             (st1, True) \<Rightarrow> set_forwarder i Polling (count_late i st st1)
           | (st1, False) \<Rightarrow> set_forwarder i Stopped (count_late i st st1))
      | _ \<Rightarrow> st)"

definition keepalive_tick :: "event_stream \<Rightarrow> event_stream" where
  "keepalive_tick st =
     (case try_send keepalive_frame st of
        (st1, True) \<Rightarrow> st1
      | (st1, False) \<Rightarrow> st1\<lparr>es_cancelled := True, es_watch := Over\<rparr>)"

text \<open>
  A tick of the exe watch: \<open>current\<close> is what the process behind \<open>pid\<close> resolves to now, \<open>stored\<close> what the
  token was granted to.
\<close>

definition exe_watch_resolve :: "nat option \<Rightarrow> peer_identity option \<Rightarrow> event_stream \<Rightarrow> event_stream" where
  "exe_watch_resolve pid current st =
     (case pid of
        None \<Rightarrow> st
      | Some _ \<Rightarrow> st\<lparr>es_watch := Resolved current, es_seen := es_seen st @ [current]\<rparr>)"

definition exe_watch_compare :: "peer_identity \<Rightarrow> peer_identity option \<Rightarrow> event_stream \<Rightarrow> event_stream" where
  "exe_watch_compare stored current st =
     (if (case current of Some c \<Rightarrow> c = stored | None \<Rightarrow> False) then st\<lparr>es_watch := Waits\<rparr>
      else (fst (try_emit_sse_event ''revoked'' ''{\"reason\":\"exe_changed\"}'' st))\<lparr>es_watch := Announced\<rparr>)"

definition exe_watch_revoke :: "string \<Rightarrow> event_stream \<Rightarrow> event_stream" where
  "exe_watch_revoke token st = st\<lparr>es_tokens := revoke token (es_tokens st), es_watch := Revoked\<rparr>"

definition exe_watch_cancel :: "event_stream \<Rightarrow> event_stream" where
  "exe_watch_cancel st = st\<lparr>es_cancelled := True, es_watch := Over\<rparr>"

definition exe_watch_next :: "string \<Rightarrow> peer_identity \<Rightarrow> event_stream \<Rightarrow> event_stream" where
  "exe_watch_next token stored st =
     (case es_watch st of
        Resolved current \<Rightarrow> exe_watch_compare stored current st
      | Announced \<Rightarrow> exe_watch_revoke token st
      | Revoked \<Rightarrow> exe_watch_cancel st
      | _ \<Rightarrow> st)"

text \<open>The frame that acknowledges the subscription, and the timer the handler spawns after it.\<close>

definition ack :: "string \<Rightarrow> event_stream \<Rightarrow> event_stream" where
  "ack data st = (fst (try_emit_sse_event ''subscribed'' data st))\<lparr>es_acked := True, es_watch := Waits\<rparr>"

inductive stream_step ::
  "nat option \<Rightarrow> string \<Rightarrow> peer_identity \<Rightarrow> event_stream \<Rightarrow> event_stream \<Rightarrow> bool"
  for pid :: "nat option" and token :: string and stored :: peer_identity where
  acknowledges: "\<not> es_acked st \<Longrightarrow> stream_step pid token stored st (ack data st)"
| receives: "i < length (es_forwarders st) \<Longrightarrow> snd (es_forwarders st ! i) = Polling \<Longrightarrow>
    \<not> es_cancelled st \<Longrightarrow> stream_step pid token stored st (forward_recv i res st)"
| emits: "i < length (es_forwarders st) \<Longrightarrow> stream_step pid token stored st (forward_emit i st)"
| stops: "i < length (es_forwarders st) \<Longrightarrow> snd (es_forwarders st ! i) = Polling \<Longrightarrow>
    es_cancelled st \<Longrightarrow> stream_step pid token stored st (set_forwarder i Stopped st)"
| heartbeat: "es_watch st = Waits \<Longrightarrow> stream_step pid token stored st (keepalive_tick st)"
| watches: "es_watch st = Waits \<Longrightarrow> stream_step pid token stored st (exe_watch_resolve pid current st)"
| watches_on: "stream_step pid token stored st (exe_watch_next token stored st)"
| reads: "es_queue st = frame # rest \<Longrightarrow>
    stream_step pid token stored st (st\<lparr>es_queue := rest, es_read := es_read st @ [frame]\<rparr>)"
| leaves: "stream_step pid token stored st (st\<lparr>es_open := False, es_queue := []\<rparr>)"
| others: "hm_ok (st_tokens ts) \<Longrightarrow> (\<And>k. hm_contains (st_tokens ts) k \<Longrightarrow>
      hm_contains (st_tokens (es_tokens st)) k \<or> k \<noteq> token) \<Longrightarrow>
    stream_step pid token stored st (st\<lparr>es_tokens := ts\<rparr>)"

inductive stream_reach ::
  "nat option \<Rightarrow> string \<Rightarrow> peer_identity \<Rightarrow> topic_row list \<Rightarrow> token_store \<Rightarrow> event_stream \<Rightarrow> bool"
  for pid :: "nat option" and token :: string and stored :: peer_identity
    and requested :: "topic_row list" and tokens :: token_store where
  stream_start: "stream_reach pid token stored requested tokens (open_stream requested tokens)"
| stream_next: "stream_reach pid token stored requested tokens st \<Longrightarrow> stream_step pid token stored st st2 \<Longrightarrow>
    stream_reach pid token stored requested tokens st2"

subsection \<open>Opening a stream\<close>

text \<open>The names a query asks for.\<close>

definition topic_names :: "string \<Rightarrow> string list" where
  "topic_names csv = filter (\<lambda>t. t \<noteq> []) (map trim (split_on (CHR '','') csv))"

lemma from_wire_name: "from_wire rows s = Some t \<Longrightarrow> tr_wire t = s \<and> t \<in> set (event_topics rows)"
  by (auto simp: from_wire_def dest: find_SomeD)

lemma collect_topics_ok:
  "collect_topics rows raws acc = Inr req \<longleftrightarrow>
     list_all (\<lambda>r. from_wire rows r \<noteq> None) raws
     \<and> req = foldl push_unique acc (map (\<lambda>r. the (from_wire rows r)) raws)"
proof (induction raws arbitrary: acc)
  case (Cons raw raws)
  then show ?case
    by (cases "from_wire rows raw") (simp_all add: push_unique.simps split: if_splits)
qed auto

lemma collect_topics_bad:
  "collect_topics rows raws acc = Inl e \<longleftrightarrow> find (\<lambda>r. from_wire rows r = None) raws = Some e"
  by (induction raws arbitrary: acc) (auto split: option.split)

lemma stream_opens_core:
  "stream_checks rows (Some csv) (Some c) = Inr (req, c2) \<longleftrightarrow>
     c2 = c \<and> topic_names csv \<noteq> []
     \<and> list_all (\<lambda>r. from_wire rows r \<noteq> None) (topic_names csv)
     \<and> req = foldl push_unique [] (map (\<lambda>r. the (from_wire rows r)) (topic_names csv))
     \<and> list_all (\<lambda>t. tr_scope t \<in> set (tm_scopes (ac_meta c))) req"
proof -
  have empty: "foldl push_unique [] xs = [] \<longleftrightarrow> xs = []" for xs :: "topic_row list"
    using foldl_push_unique_set [of "[]" xs] by (metis set_empty sup_bot_left)
  have scopes: "list_ex (\<lambda>t. \<not> list_ex (\<lambda>s. s = tr_scope t) sc) ts \<longleftrightarrow> \<not> list_all (\<lambda>t. tr_scope t \<in> set sc) ts"
    for sc ts by (auto simp: list_ex_iff list_all_iff)
  have none: "topic_names [] = []" by code_simp
  show ?thesis
  proof (cases "collect_topics rows (topic_names csv) []")
    case (Inl e)
    then have "\<not> list_all (\<lambda>r. from_wire rows r \<noteq> None) (topic_names csv)"
      using collect_topics_ok by (metis Inl_Inr_False)
    with Inl show ?thesis
      by (auto simp: stream_checks_def parse_topics_def and_then_def topic_names_def split: sum.splits)
  next
    case (Inr ts)
    then have ts: "list_all (\<lambda>r. from_wire rows r \<noteq> None) (topic_names csv)"
      "ts = foldl push_unique [] (map (\<lambda>r. the (from_wire rows r)) (topic_names csv))"
      by (simp_all add: collect_topics_ok)
    have "parse_topics rows (Some csv) = (if topic_names csv = [] then Inl ''missing_topics'' else Inr ts)"
    proof (cases "csv = []")
      case True
      with none show ?thesis by (simp add: parse_topics_def)
    next
      case False
      with Inr ts(2) empty show ?thesis
        by (simp add: parse_topics_def and_then_def topic_names_def)
    qed
    then show ?thesis using ts(1) by (auto simp: stream_checks_def scopes ts(2))
  qed
qed

text \<open>
  A stream opens exactly when every name in the query is a topic, there is at least one, and the
  token holds the scope of each; it opens on those topics, each once, in the order they were asked for.
\<close>

theorem stream_opens_exactly:
  "stream_checks rows (Some csv) (Some c) = Inr (req, c2) \<longleftrightarrow>
     c2 = c \<and> topic_names csv \<noteq> []
     \<and> list_all (\<lambda>r. from_wire rows r \<noteq> None) (topic_names csv)
     \<and> req = foldl push_unique [] (map (\<lambda>r. the (from_wire rows r)) (topic_names csv))
     \<and> list_all (\<lambda>t. tr_scope t \<in> set (tm_scopes (ac_meta c))) req"
  by (rule stream_opens_core)

subsection \<open>The client's own check\<close>

lemma split_on_join:
  "ts \<noteq> [] \<Longrightarrow> list_all (\<lambda>t. c \<notin> set t) ts \<Longrightarrow> split_on c (join_str [c] ts) = ts"
proof (induction ts)
  case (Cons t ts)
  have sep: "split_on c (t @ c # s) = t # split_on c s" if "c \<notin> set t" for s
    using that by (induction t) auto
  show ?case
  proof (cases "ts = []")
    case True
    with Cons.prems show ?thesis by (simp add: split_on_no_sep)
  next
    case False
    with Cons sep show ?thesis by (simp add: join_str_Cons)
  qed
qed simp

text \<open>The rows a product's specification describes.\<close>

definition rows_agree :: "product_spec \<Rightarrow> topic_row list \<Rightarrow> bool" where
  "rows_agree p rows =
     (map (\<lambda>r. (tr_wire r, tr_scope r)) rows = ps_topics p
      \<and> distinct (map tr_wire (event_topics rows)))"

lemma rows_scope:
  assumes "rows_agree p rows" "required_scope_for_topic p t = Some sc"
  shows "\<exists>r. from_wire rows t = Some r \<and> tr_scope r = sc"
proof -
  have core: "map (\<lambda>r. (tr_wire r, tr_scope r)) core_rows = core_topics" by code_simp
  have "(t, sc) \<in> set (core_topics @ ps_topics p)"
    using assms(2) by (auto simp: required_scope_for_topic_def dest: find_SomeD)
  then have "(t, sc) \<in> set (map (\<lambda>r. (tr_wire r, tr_scope r)) (event_topics rows))"
    using assms(1) core by (auto simp: rows_agree_def event_topics_def)
  then obtain r where r: "r \<in> set (event_topics rows)" "tr_wire r = t" "tr_scope r = sc" by auto
  have "from_wire rows t = Some r"
  proof (cases "from_wire rows t")
    case None
    with r show ?thesis by (auto simp: from_wire_def find_None_iff)
  next
    case (Some x)
    with from_wire_name [OF this] r assms(1) show ?thesis
      by (auto simp: rows_agree_def dest: distinct_map [THEN iffD1] inj_onD)
  qed
  with r show ?thesis by blast
qed

text \<open>
  The check a client runs before it subscribes is enough: when it finds no topic its scopes do not
  cover, a daemon of the same product opens the stream for a token with those scopes, on every topic
  asked for.
\<close>

theorem covered_subscription_opens:
  assumes "rows_agree p rows" "uncovered_topic p scopes topics = None" "topics \<noteq> []"
    and "list_all (\<lambda>t. t \<noteq> [] \<and> list_all is_graphic t \<and> CHR '','' \<notin> set t) topics"
    and "set scopes \<subseteq> set (tm_scopes (ac_meta c))"
  shows "\<exists>req. stream_checks rows (Some (join_str '','' topics)) (Some c) = Inr (req, c)
    \<and> tr_wire ` set req = set topics"
proof -
  have names: "topic_names (join_str '','' topics) = topics"
  proof -
    have "split_on (CHR '','') (join_str [CHR '',''] topics) = topics"
      using assms(3,4) by (intro split_on_join) (auto simp: list_all_iff)
    moreover have "map trim topics = topics" using assms(4) by (auto simp: list_all_iff intro!: map_idI trim_graphic)
    ultimately show ?thesis using assms(4) by (simp add: topic_names_def list_all_iff)
  qed
  have each: "\<exists>r. from_wire rows t = Some r \<and> tr_scope r \<in> set scopes \<and> tr_wire r = t" if "t \<in> set topics" for t
  proof -
    from assms(2) that obtain sc where "required_scope_for_topic p t = Some sc" "sc \<in> set scopes"
      by (auto simp: uncovered_topic_def find_None_iff split: option.splits)
    with rows_scope [OF assms(1)] from_wire_name show ?thesis by fastforce
  qed
  let ?req = "foldl push_unique [] (map (\<lambda>r. the (from_wire rows r)) topics)"
  have req: "set ?req = (\<lambda>t. the (from_wire rows t)) ` set topics" by (simp add: foldl_push_unique_set)
  have "tr_wire ` set ?req = set topics"
    using each unfolding req by (auto simp: image_image) (metis option.sel image_eqI)+
  moreover have "list_all (\<lambda>t. tr_scope t \<in> set (tm_scopes (ac_meta c))) ?req"
    using each assms(5) unfolding list_all_iff req by fastforce
  moreover have "list_all (\<lambda>r. from_wire rows r \<noteq> None) topics"
    using each by (auto simp: list_all_iff)
  ultimately show ?thesis
    by (intro exI [of _ ?req]) (simp add: stream_opens_core names assms(3))
qed

subsection \<open>While a stream is open\<close>

definition holds :: "forwarder \<Rightarrow> nat" where
  "holds f = (case f of Holding _ \<Rightarrow> 1 | _ \<Rightarrow> 0)"

definition changed :: "peer_identity \<Rightarrow> event_stream \<Rightarrow> bool" where
  "changed stored st = list_ex (\<lambda>c. c \<noteq> Some stored) (es_seen st)"

definition channel_ok :: "event_stream \<Rightarrow> bool" where
  "channel_ok st =
     (length (es_queue st) \<le> sse_channel_capacity
      \<and> (\<exists>lost. es_sent st = es_read st @ es_queue st @ lost \<and> (es_open st \<longrightarrow> lost = []))
      \<and> (es_open st \<or> es_queue st = []))"

definition late_ok :: "topic_row list \<Rightarrow> event_stream \<Rightarrow> bool" where
  "late_ok requested st =
     (map fst (es_forwarders st) = requested \<and> length (es_late st) = length requested
      \<and> es_after st = sum_list (es_late st)
      \<and> (es_cancelled st \<or> es_after st = 0)
      \<and> (\<forall>i < length requested. es_late st ! i + holds (snd (es_forwarders st ! i)) \<le> 1))"

definition watch_ok :: "nat option \<Rightarrow> string \<Rightarrow> peer_identity \<Rightarrow> event_stream \<Rightarrow> bool" where
  "watch_ok pid token stored st =
     ((es_acked st \<longleftrightarrow> es_watch st \<noteq> Unspawned) \<and> (es_cancelled st \<longleftrightarrow> es_watch st = Over)
      \<and> (pid = None \<longrightarrow> es_seen st = [])
      \<and> (case es_watch st of
           Unspawned \<Rightarrow> es_seen st = []
         | Waits \<Rightarrow> \<not> changed stored st
         | Resolved c \<Rightarrow> changed stored st \<longleftrightarrow> c \<noteq> Some stored
         | Announced \<Rightarrow> changed stored st
         | Revoked \<Rightarrow> changed stored st \<and> \<not> hm_contains (st_tokens (es_tokens st)) token
         | Over \<Rightarrow> if changed stored st then \<not> hm_contains (st_tokens (es_tokens st)) token else \<not> es_open st))"

lemmas stream_parts = channel_ok_def late_ok_def watch_ok_def changed_def







lemma set_forwarder_simps [simp]:
  "es_queue (set_forwarder i f st) = es_queue st" "es_sent (set_forwarder i f st) = es_sent st"
  "es_read (set_forwarder i f st) = es_read st" "es_open (set_forwarder i f st) = es_open st"
  "es_watch (set_forwarder i f st) = es_watch st" "es_acked (set_forwarder i f st) = es_acked st"
  "es_cancelled (set_forwarder i f st) = es_cancelled st" "es_seen (set_forwarder i f st) = es_seen st"
  "es_tokens (set_forwarder i f st) = es_tokens st" "es_after (set_forwarder i f st) = es_after st"
  "es_late (set_forwarder i f st) = es_late st"
  "es_forwarders (set_forwarder i f st) = (es_forwarders st)[i := (fst (es_forwarders st ! i), f)]"
  by (simp_all add: set_forwarder_def)














subsection \<open>Streams that run\<close>

text \<open>One topic, one subscriber whose process cannot be identified at the first check.\<close>

definition sample_row :: topic_row where
  "sample_row = \<lparr>tr_wire = ''test_started'', tr_scope = ''test_events'', tr_cap = 32\<rparr>"

definition sample_stored :: peer_identity where
  "sample_stored = Web ''https://a''"




definition sample_spec :: product_spec where
  "sample_spec =
     \<lparr>ps_display_name = ''Test'', ps_slug = ''super-test'', ps_short_name = ''test'', ps_env_prefix = ''T'',
      ps_tcp_port = 1, ps_repo = [], ps_index_url = [], ps_scopes = [''test_events''],
      ps_topics = [(''test_started'', ''test_events'')]\<rparr>"

definition sample_context :: auth_context where
  "sample_context =
     \<lparr>ac_meta = \<lparr>tm_app_name = ''a'', tm_scopes = [''test_events'', ''daemon_status''],
        tm_grantee = sample_stored, tm_issued_at = 0, tm_expires_at = 1\<rparr>, ac_token = ''tok''\<rparr>"

theorem covered_subscription_opens_witness:
  "\<exists>req. stream_checks [sample_row] (Some ''download_progress,test_started'') (Some sample_context) = Inr (req, sample_context)
    \<and> tr_wire ` set req = {''download_progress'', ''test_started''}"
proof -
  have "rows_agree sample_spec [sample_row]"
    "uncovered_topic sample_spec [''test_events'', ''daemon_status''] [''download_progress'', ''test_started''] = None"
    "list_all (\<lambda>t. t \<noteq> [] \<and> list_all is_graphic t \<and> CHR '','' \<notin> set t) [''download_progress'', ''test_started'']"
    "join_str '','' [''download_progress'', ''test_started''] = ''download_progress,test_started''"
    by code_simp+
  moreover have "set [''test_events'', ''daemon_status''] \<subseteq> set (tm_scopes (ac_meta sample_context))"
    by (simp add: sample_context_def)
  ultimately show ?thesis
    using covered_subscription_opens [of sample_spec "[sample_row]" "[''test_events'', ''daemon_status'']"
        "[''download_progress'', ''test_started'']" sample_context] by simp
qed

text \<open>
  The forwarders run before the handler acknowledges: an event's frame can precede \<open>subscribed\<close>.
\<close>

lemma event_before_subscribed:
  "\<exists>st. stream_reach pid token stored [sample_row] tokens st
     \<and> es_sent st = [sse_frame ''test_started'' ''{}'', sse_frame ''subscribed'' data]"
proof -
  let ?s0 = "open_stream [sample_row] tokens"
  let ?s1 = "forward_recv 0 (Event ''{}'') ?s0" and ?R = "stream_reach pid token stored [sample_row] tokens"
  let ?s2 = "forward_emit 0 ?s1"
  have s1: "?R ?s1"
    by (rule stream_next [OF stream_start], rule receives) (simp_all add: open_stream_def)
  have s2: "?R ?s2"
    by (rule stream_next [OF s1], rule emits) (simp add: forward_recv_def set_forwarder_def open_stream_def)
  have s2_def: "es_sent ?s2 = [sse_frame ''test_started'' ''{}''] \<and> \<not> es_acked ?s2 \<and> es_open ?s2
      \<and> es_queue ?s2 = [sse_frame ''test_started'' ''{}'']"
    by (simp add: forward_emit_def forward_recv_def set_forwarder_def open_stream_def try_emit_sse_event_def
        count_late_def try_send_def sse_channel_capacity_def sample_row_def)
  have "?R (ack data ?s2)" by (rule stream_next [OF s2], rule acknowledges) (use s2_def in blast)
  moreover have "es_sent (ack data ?s2) = [sse_frame ''test_started'' ''{}'', sse_frame ''subscribed'' data]"
    using s2_def by (simp add: ack_def try_emit_sse_event_def try_send_def sse_channel_capacity_def)
  ultimately show ?thesis by blast
qed

end
