(* ===== verification/Client_Sse.thy ===== *)
theory Client_Sse
  imports SE_Wire Daemon_Events
begin

section \<open>The client's end of an event stream\<close>

text \<open>
  \<open>super-engine-client/src/http_client/internal/sse.rs\<close> and \<open>v1/events.rs\<close>: cutting a response body
  into blocks, reading a block, and the events a subscriber gets. The body arrives in frames of any
  size; what hyper answers next is an input. The last part joins it to the frames the daemon writes.
\<close>

subsection \<open>Blocks\<close>

abbreviation LF :: char where "LF \<equiv> CHR 0x0A"
abbreviation CR :: char where "CR \<equiv> CHR 0x0D"

text \<open>The loop of \<open>find_blank_line\<close> at index \<open>i\<close>, on what is left of the buffer there.\<close>

fun blank_line_at :: "nat \<Rightarrow> string \<Rightarrow> (nat \<times> nat) option" where
  "blank_line_at i (a # b # rest) =
     (if a = LF \<and> b = LF then Some (i, i + 2)
      else if a = CR \<and> b = LF \<and> 2 \<le> length rest \<and> take 2 rest = [CR, LF] then Some (i, i + 4)
      else blank_line_at (i + 1) (b # rest))"
| "blank_line_at i _ = None"

definition find_blank_line :: "string \<Rightarrow> (nat \<times> nat) option" where
  "find_blank_line buffer = blank_line_at 0 buffer"

lemma blank_line_bounds:
  "blank_line_at i buf = Some (st, e) \<Longrightarrow> i \<le> st \<and> st < e \<and> e \<le> i + length buf"
  by (induction i buf rule: blank_line_at.induct) (fastforce split: if_splits)+

datatype sse_body_error = BodyRead string | NonUtf8 string

text \<open>What the next frame of the body is: data, trailers, or a failed read.\<close>

datatype body_frame = Data string | Trailers | Failed string

definition block_out :: "(string \<Rightarrow> 'e option) \<Rightarrow> (sse_body_error \<Rightarrow> 'e) \<Rightarrow> string \<Rightarrow> 'e list" where
  "block_out parse_block on_error block =
     (if \<not> utf8_ok block then [on_error (NonUtf8 block)]
      else case parse_block block of None \<Rightarrow> [] | Some ev \<Rightarrow> [ev])"

text \<open>The inner loop: every whole block of the buffer, and what is left of it.\<close>

function drain_blocks ::
  "(string \<Rightarrow> 'e option) \<Rightarrow> (sse_body_error \<Rightarrow> 'e) \<Rightarrow> string \<Rightarrow> 'e list \<times> string" where
  "drain_blocks parse_block on_error buffer =
     (case find_blank_line buffer of
        None \<Rightarrow> ([], buffer)
      | Some (start, end_) \<Rightarrow>
          (case drain_blocks parse_block on_error (drop end_ buffer) of
             (out, rest) \<Rightarrow> (block_out parse_block on_error (take start buffer) @ out, rest)))"
  by pat_completeness auto
termination
  by (relation "measure (\<lambda>(_, _, b). length b)")
    (auto simp: find_blank_line_def dest!: blank_line_bounds)

declare drain_blocks.simps [simp del]

fun read_body ::
  "(string \<Rightarrow> 'e option) \<Rightarrow> (sse_body_error \<Rightarrow> 'e) \<Rightarrow> string \<Rightarrow> body_frame list \<Rightarrow> 'e list" where
  "read_body parse_block on_error buffer [] = []"
| "read_body parse_block on_error buffer (Failed e # _) = [on_error (BodyRead e)]"
| "read_body parse_block on_error buffer (Trailers # frames) = read_body parse_block on_error buffer frames"
| "read_body parse_block on_error buffer (Data bytes # frames) =
     (case drain_blocks parse_block on_error (buffer @ bytes) of
        (out, rest) \<Rightarrow> out @ read_body parse_block on_error rest frames)"

definition block_stream ::
  "(string \<Rightarrow> 'e option) \<Rightarrow> (sse_body_error \<Rightarrow> 'e) \<Rightarrow> body_frame list \<Rightarrow> 'e list" where
  "block_stream parse_block on_error frames = read_body parse_block on_error [] frames"

subsection \<open>Fields\<close>

record sse_fields =
  sf_event :: "string option"
  sf_data :: string
  sf_comment :: bool

definition trim_end_cr :: "string \<Rightarrow> string" where
  "trim_end_cr line = rev (dropWhile (\<lambda>c. c = CR) (rev line))"

definition field_line :: "string \<Rightarrow> sse_fields \<Rightarrow> sse_fields" where
  "field_line raw acc =
     (let line = trim_end_cr raw in
      if line = [] then acc
      else if starts_with '':'' line then acc\<lparr>sf_comment := True\<rparr>
      else case strip_prefix ''event:'' line of
          Some rest \<Rightarrow> acc\<lparr>sf_event := Some (trim_start rest)\<rparr>
        | None \<Rightarrow>
            (case strip_prefix ''data:'' line of
               Some rest \<Rightarrow>
                 acc\<lparr>sf_data := (if sf_data acc \<noteq> [] then sf_data acc @ [LF] else []) @ trim_start rest\<rparr>
             | None \<Rightarrow> acc))"

definition parse_fields :: "string \<Rightarrow> sse_fields" where
  "parse_fields block =
     fold field_line (split_on LF block) \<lparr>sf_event = None, sf_data = [], sf_comment = False\<rparr>"

subsection \<open>Events\<close>

record widget_event =
  we_name :: string
  we_payload :: jvalue

definition parse_widget_sse_block :: "json_reader \<Rightarrow> string \<Rightarrow> widget_event option" where
  "parse_widget_sse_block J block =
     (let fields = parse_fields block in
      case sf_event fields of
        Some name \<Rightarrow>
          Some \<lparr>we_name = name, we_payload = (case J (sf_data fields) of Some v \<Rightarrow> v | None \<Rightarrow> VNull)\<rparr>
      | None \<Rightarrow>
          if sf_comment fields then Some \<lparr>we_name = ''keepalive'', we_payload = VNull\<rparr> else None)"

text \<open>The message of an error is kept as what it is about.\<close>

definition error_event :: "(sse_body_error \<Rightarrow> string) \<Rightarrow> sse_body_error \<Rightarrow> widget_event" where
  "error_event show_error e = \<lparr>we_name = ''error'', we_payload = VObj [(''message'', VStr (show_error e))]\<rparr>"

definition parse_widget_event_stream ::
  "json_reader \<Rightarrow> (sse_body_error \<Rightarrow> string) \<Rightarrow> body_frame list \<Rightarrow> widget_event list" where
  "parse_widget_event_stream J show_error frames =
     block_stream (parse_widget_sse_block J) (error_event show_error) frames"

subsection \<open>Cutting does not depend on the frames\<close>

lemma blank_line_append:
  "blank_line_at i buf = Some r \<Longrightarrow> blank_line_at i (buf @ bs) = Some r"
proof (induction i buf rule: blank_line_at.induct)
  case (1 i a b rest)
  show ?case
  proof (cases "a = CR \<and> b = LF \<and> length rest < 2")
    case True
    then show ?thesis using 1 by (cases rest; cases "tl rest") (auto split: if_splits)
  qed (use 1 in \<open>auto split: if_splits\<close>)
qed auto

lemma drain_None: "find_blank_line buf = None \<Longrightarrow> drain_blocks P E buf = ([], buf)"
  by (subst drain_blocks.simps) simp

lemma drain_Some:
  "find_blank_line buf = Some (st, e) \<Longrightarrow>
     drain_blocks P E buf = (block_out P E (take st buf) @ fst (drain_blocks P E (drop e buf)),
                             snd (drain_blocks P E (drop e buf)))"
  by (subst drain_blocks.simps) (simp split: prod.splits)

lemma drain_append:
  "drain_blocks P E (buf @ bs) =
     (fst (drain_blocks P E buf) @ fst (drain_blocks P E (snd (drain_blocks P E buf) @ bs)),
      snd (drain_blocks P E (snd (drain_blocks P E buf) @ bs)))"
proof (induction P E buf rule: drain_blocks.induct)
  case (1 P E buf)
  show ?case
  proof (cases "find_blank_line buf")
    case (Some r)
    obtain st e where r: "r = (st, e)" by (cases r)
    have found: "find_blank_line (buf @ bs) = Some (st, e)"
      using Some r blank_line_append by (simp add: find_blank_line_def)
    have len: "st < e" "e \<le> length buf"
      using blank_line_bounds [of 0 buf st e] Some r by (simp_all add: find_blank_line_def)
    show ?thesis
      using 1 [OF Some r [symmetric]] len
      by (simp add: drain_Some [OF found] drain_Some [OF Some [unfolded r]])
  qed (simp add: drain_None)
qed

lemma drained: "find_blank_line (snd (drain_blocks P E buf)) = None"
proof (induction P E buf rule: drain_blocks.induct)
  case (1 P E buf)
  then show ?case by (cases "find_blank_line buf") (auto simp: drain_None drain_Some)
qed

lemma read_body_data:
  "find_blank_line buf = None \<Longrightarrow>
     read_body P E buf (map Data chunks) = fst (drain_blocks P E (buf @ concat chunks))"
proof (induction chunks arbitrary: buf)
  case (Cons c chunks)
  then show ?case
    using drained [of P E "buf @ c"] drain_append [of P E "buf @ c" "concat chunks"]
    by (simp add: split_beta)
qed (simp add: drain_None)

lemma block_stream_data: "block_stream P E (map Data chunks) = fst (drain_blocks P E (concat chunks))"
  by (simp add: block_stream_def read_body_data find_blank_line_def)

subsection \<open>The daemon's frames\<close>

text \<open>
  What a stream of the daemon carries: an event's name and value, or a heartbeat. \<open>text_of\<close> is what
  the daemon writes the value as, \<open>json_text\<close> what the code relies on of it.
\<close>

datatype stream_item = Named string jvalue | Heartbeat

definition wire_bytes :: "(jvalue \<Rightarrow> string) \<Rightarrow> stream_item \<Rightarrow> string" where
  "wire_bytes text_of item =
     (case item of Named name v \<Rightarrow> sse_frame name (text_of v) | Heartbeat \<Rightarrow> keepalive_frame)"

definition item_ok :: "json_reader \<Rightarrow> (jvalue \<Rightarrow> string) \<Rightarrow> stream_item \<Rightarrow> bool" where
  "item_ok J text_of item =
     (case item of
        Named name v \<Rightarrow> name \<noteq> [] \<and> list_all is_graphic name \<and> json_text J v (text_of v)
      | Heartbeat \<Rightarrow> True)"

definition item_event :: "stream_item \<Rightarrow> widget_event" where
  "item_event item =
     (case item of
        Named name v \<Rightarrow> \<lparr>we_name = name, we_payload = v\<rparr>
      | Heartbeat \<Rightarrow> \<lparr>we_name = ''keepalive'', we_payload = VNull\<rparr>)"

lemma blank_line_skip:
  "LF \<notin> set l \<Longrightarrow> CR \<notin> set l \<Longrightarrow> c \<noteq> LF \<Longrightarrow>
     blank_line_at i (l @ LF # c # rest) = blank_line_at (Suc (i + length l)) (c # rest)"
proof (induction l arbitrary: i)
  case (Cons x l)
  then show ?case by (cases l) auto
qed simp

lemma blank_line_here:
  "LF \<notin> set l \<Longrightarrow> CR \<notin> set l \<Longrightarrow>
     blank_line_at i (l @ LF # LF # rest) = Some (i + length l, i + length l + 2)"
proof (induction l arbitrary: i)
  case (Cons x l)
  then show ?case by (cases l) auto
qed simp

lemma trim_end_cr_same: "CR \<notin> set l \<Longrightarrow> trim_end_cr l = l"
  by (cases l rule: rev_cases) (auto simp: trim_end_cr_def)

lemma split_on_append: "c \<notin> set a \<Longrightarrow> split_on c (a @ c # b) = a # split_on c b"
  by (induction a) auto

lemma trim_start_blank: "trim_start (CHR 0x20 # s) = trim_start s"
  by (simp add: trim_start_def strip_ws.simps(2) ws_len_def unicode_ws_def starts_with_def)

lemma frame_block:
  assumes "LF \<notin> set n" "CR \<notin> set n" "LF \<notin> set d" "CR \<notin> set d"
    and "b = (''event: '' @ n) @ LF # CHR ''d'' # (''ata: '' @ d)"
  shows "find_blank_line (b @ LF # LF # rest) = Some (length b, length b + 2)"
proof -
  have "blank_line_at 0 ((''event: '' @ n) @ LF # CHR ''d'' # (''ata: '' @ d @ LF # LF # rest))
      = blank_line_at (Suc (0 + length (''event: '' @ n))) (CHR ''d'' # (''ata: '' @ d @ LF # LF # rest))"
    by (rule blank_line_skip) (use assms in auto)
  also have "\<dots> = blank_line_at (Suc (0 + length (''event: '' @ n))) ((''data: '' @ d) @ LF # LF # rest)"
    by (simp del: blank_line_at.simps)
  also have "\<dots> = Some (Suc (0 + length (''event: '' @ n)) + length (''data: '' @ d),
      Suc (0 + length (''event: '' @ n)) + length (''data: '' @ d) + 2)"
    by (rule blank_line_here) (use assms in auto)
  finally show ?thesis unfolding find_blank_line_def assms(5) append_assoc append_Cons by simp
qed

lemma block_of_frame:
  assumes "list_all is_graphic n" "json_text J v d"
  shows "block_out (parse_widget_sse_block J) E (''event: '' @ n @ LF # ''data: '' @ d)
     = [\<lparr>we_name = n, we_payload = v\<rparr>]"
proof -
  have g: "LF \<notin> set n" "CR \<notin> set n" using assms(1) by (auto simp: list_all_iff is_graphic_def)
  have d: "LF \<notin> set d" "CR \<notin> set d" "d \<noteq> []" "is_graphic (hd d)" "J d = Some v" "utf8_ok d"
    using assms(2) by (simp_all add: json_text_def)
  have ascii: "utf8_ok (''event: '' @ n @ LF # ''data: '')"
    using assms(1) by (intro utf8_ok_ascii) (auto simp: list_all_iff is_graphic_def)
  have ok: "utf8_ok (''event: '' @ n @ LF # ''data: '' @ d)"
    using utf8_ok_append [OF ascii, of d] d by simp
  have n: "trim_start n = n" using assms(1) by (intro trim_start_graphic) (cases n; simp)
  have "split_on LF (''event: '' @ n @ LF # ''data: '' @ d) = [''event: '' @ n, ''data: '' @ d]"
    using split_on_append [of LF "''event: '' @ n" "''data: '' @ d"] split_on_no_sep [of LF "''data: '' @ d"] g d
    by simp
  then have "parse_fields (''event: '' @ n @ LF # ''data: '' @ d)
      = \<lparr>sf_event = Some n, sf_data = d, sf_comment = False\<rparr>"
    using g d n trim_end_cr_same [of "''event: '' @ n"] trim_end_cr_same [of "''data: '' @ d"]
    by (simp add: parse_fields_def field_line_def starts_with_def trim_start_blank trim_start_graphic)
  then show ?thesis
    unfolding block_out_def parse_widget_sse_block_def using ok d by simp
qed

lemma drain_block:
  assumes "find_blank_line (b @ LF # LF # rest) = Some (length b, length b + 2)"
  shows "drain_blocks P E (b @ LF # LF # rest)
     = (block_out P E b @ fst (drain_blocks P E rest), snd (drain_blocks P E rest))"
  by (simp add: drain_Some [OF assms])

lemma drain_item:
  assumes "item_ok J t x"
  shows "drain_blocks (parse_widget_sse_block J) E (wire_bytes t x @ rest)
     = (item_event x # fst (drain_blocks (parse_widget_sse_block J) E rest),
        snd (drain_blocks (parse_widget_sse_block J) E rest))"
proof (cases x)
  case (Named n v)
  let ?b = "''event: '' @ n @ LF # ''data: '' @ t v"
  from assms Named have ok: "list_all is_graphic n" "json_text J v (t v)" by (simp_all add: item_ok_def)
  then have "LF \<notin> set n" "CR \<notin> set n" "LF \<notin> set (t v)" "CR \<notin> set (t v)"
    by (auto simp: list_all_iff is_graphic_def json_text_def)
  then have "find_blank_line (?b @ LF # LF # rest) = Some (length ?b, length ?b + 2)"
    by (intro frame_block) auto
  from drain_block [OF this, of "parse_widget_sse_block J" E] block_of_frame [OF ok, of E] show ?thesis
    by (simp add: Named wire_bytes_def item_event_def sse_frame_def)
next
  case Heartbeat
  have f: "find_blank_line ('': keepalive'' @ LF # LF # rest)
      = Some (length '': keepalive'', length '': keepalive'' + 2)"
    using blank_line_here [of "'': keepalive''" 0 rest] by (simp add: find_blank_line_def)
  have "block_out (parse_widget_sse_block J) E '': keepalive'' = [item_event Heartbeat]"
    by code_simp
  with drain_block [OF f, of "parse_widget_sse_block J" E] show ?thesis
    by (simp add: Heartbeat wire_bytes_def item_event_def keepalive_frame_def)
qed

lemma drain_items:
  "list_all (item_ok J t) items \<Longrightarrow>
     drain_blocks (parse_widget_sse_block J) E (concat (map (wire_bytes t) items)) = (map item_event items, [])"
  by (induction items) (simp_all add: drain_item drain_None find_blank_line_def)

lemma daemon_frames_read_back_core:
  assumes "list_all (item_ok J text_of) items"
    and "concat chunks @ lost = concat (map (wire_bytes text_of) items)"
  shows "\<exists>k. parse_widget_event_stream J show_error (map Data chunks) = map item_event (take k items)
     \<and> (if lost = [] then k = length items else True)"
proof -
  let ?D = "drain_blocks (parse_widget_sse_block J) (error_event show_error)"
  have "?D (concat chunks @ lost) = (map item_event items, [])"
    unfolding assms(2) by (rule drain_items [OF assms(1)])
  with drain_append [of "parse_widget_sse_block J" "error_event show_error" "concat chunks" lost]
  obtain later where "map item_event items = fst (?D (concat chunks)) @ later" by auto
  moreover have "lost = [] \<Longrightarrow> fst (?D (concat chunks)) = map item_event items"
    using drain_items [OF assms(1)] assms(2) by simp
  ultimately show ?thesis
    unfolding parse_widget_event_stream_def block_stream_data
    by (intro exI [of _ "length (fst (?D (concat chunks)))"]) (auto simp: take_map [symmetric] dest: arg_cong [of _ _ length])
qed

text \<open>
  What a subscriber sees is what the daemon sent. However the connection cuts the bytes into
  frames, the client yields the daemon's events and heartbeats, each once, in order and whole; where
  the connection ends early it has yielded the first of them, and no part of another.
\<close>

theorem daemon_frames_read_back:
  assumes "list_all (item_ok J text_of) items"
    and "concat chunks @ lost = concat (map (wire_bytes text_of) items)"
  shows "\<exists>k. parse_widget_event_stream J show_error (map Data chunks) = map item_event (take k items)
     \<and> (if lost = [] then k = length items else True)"
  by (rule daemon_frames_read_back_core [OF assms])

text \<open>A heartbeat and an event, cut inside the blank line and in the middle of the second frame.\<close>

definition sample_json :: json_reader where
  "sample_json s = (if s = ''{}'' then Some (VObj []) else None)"

theorem daemon_frames_read_back_witness:
  "\<exists>k. parse_widget_event_stream sample_json (\<lambda>_. [])
      (map Data [butlast keepalive_frame, [LF] @ ''event: x'', [LF] @ ''data: {}'' @ [LF, LF]])
    = map item_event (take k [Heartbeat, Named ''x'' (VObj [])])
    \<and> (if ([] :: string) = [] then k = length [Heartbeat, Named ''x'' (VObj [])] else True)"
proof (rule daemon_frames_read_back [where text_of = "\<lambda>_. ''{}''"])
  show "list_all (item_ok sample_json (\<lambda>_. ''{}'')) [Heartbeat, Named ''x'' (VObj [])]" by code_simp
qed code_simp

end
