(* ===== verification/Client_Subscription.thy ===== *)
theory Client_Subscription
  imports Client_Sse Client_Transport
begin

section \<open>A subscription that heals itself\<close>

text \<open>
  \<open>super-engine-client/src/retry.rs\<close> and \<open>widget_subscription/mod.rs\<close>: the delay between connections,
  and the loop that obtains a token, opens the stream, reads it with a deadline and starts again. What
  each of these came to is an input, and so is the clock the jitter is drawn from. A \<open>Duration\<close> is its
  nanoseconds.
\<close>

subsection \<open>The delay\<close>

type_synonym duration = nat

record retry_strategy =
  rt_attempt :: u32
  rt_initial_delay :: duration
  rt_max_delay :: duration
  rt_exponential :: bool

definition duration_millis :: "duration \<Rightarrow> u64" where
  "duration_millis d = (if d div 1000000 < 2 ^ 64 then of_nat (d div 1000000) else - 1)"

definition from_millis :: "u64 \<Rightarrow> duration" where
  "from_millis ms = unat ms * 1000000"

definition from_secs :: "nat \<Rightarrow> duration" where
  "from_secs s = s * 1000000000"

definition default_retry :: retry_strategy where
  "default_retry =
     \<lparr>rt_attempt = 0, rt_initial_delay = from_secs 1, rt_max_delay = from_secs 15, rt_exponential = True\<rparr>"

definition for_initial_connection :: retry_strategy where
  "for_initial_connection =
     \<lparr>rt_attempt = 0, rt_initial_delay = from_millis 500, rt_max_delay = from_secs 15, rt_exponential = True\<rparr>"

text \<open>\<open>2_u64.saturating_pow\<close>.\<close>

definition sat_pow2 :: "u32 \<Rightarrow> u64" where
  "sat_pow2 n = (if unat n < 64 then 2 ^ unat n else - 1)"

text \<open>The sum of a release build, which wraps; \<open>delay_fits\<close> below shows when it does not.\<close>

definition next_delay :: "duration \<Rightarrow> retry_strategy \<Rightarrow> duration" where
  "next_delay now r =
     (if \<not> rt_exponential r then rt_initial_delay r
      else
        let capped = min (sat_mul (duration_millis (rt_initial_delay r)) (sat_pow2 (rt_attempt r)))
                         (duration_millis (rt_max_delay r));
            jitter_range = capped div 10
        in if jitter_range = 0 then from_millis capped
           else from_millis (capped + duration_millis now mod (jitter_range * 2) - jitter_range))"

definition should_retry :: "retry_strategy \<Rightarrow> retry_strategy" where
  "should_retry r = r\<lparr>rt_attempt := rt_attempt r + 1\<rparr>"

definition reset :: "retry_strategy \<Rightarrow> retry_strategy" where
  "reset r = r\<lparr>rt_attempt := 0\<rparr>"

subsection \<open>The loop\<close>

datatype update =
  Connected
  | Event widget_event
  | Disconnected string
  | NeedsReauth string
  | Blocked string

record subscription_config =
  wc_scopes :: "string list"
  wc_topics :: "string list"
  wc_idle_timeout :: duration
  wc_initial_backoff :: duration
  wc_max_backoff :: duration

definition default_idle_timeout :: duration where "default_idle_timeout = from_secs 60"
definition default_initial_backoff :: duration where "default_initial_backoff = from_secs 1"
definition default_max_backoff :: duration where "default_max_backoff = from_secs 30"

text \<open>\<open>WidgetSubscriptionConfig::new\<close>; its assertion is \<open>uncovered_topic\<close> of \<open>Proto_Product\<close>.\<close>

definition new_config :: "string list \<Rightarrow> string list \<Rightarrow> subscription_config" where
  "new_config scopes topics =
     \<lparr>wc_scopes = scopes, wc_topics = topics, wc_idle_timeout = default_idle_timeout,
      wc_initial_backoff = default_initial_backoff, wc_max_backoff = default_max_backoff\<rparr>"

definition is_user_denied_reason :: "string \<Rightarrow> bool" where
  "is_user_denied_reason rsn = (rsn = ''user_denied'' \<or> rsn = ''user_denied_cached'')"

definition is_user_denied :: "http_error \<Rightarrow> bool" where
  "is_user_denied e = (case e of AuthDenied rsn \<Rightarrow> is_user_denied_reason rsn | _ \<Rightarrow> False)"

datatype token_outcome =
  TokenReady string | TokenBlocked string | TokenReauth string | TokenDisconnected string

definition acquire_token :: "http_error + string \<Rightarrow> token_outcome" where
  "acquire_token obtained =
     (case obtained of
        Inr t \<Rightarrow> TokenReady t
      | Inl (AuthDenied rsn) \<Rightarrow>
          if is_user_denied_reason rsn then TokenBlocked (''auth_denied ('' @ rsn @ '')'')
          else TokenReauth (show_http_error (AuthDenied rsn))
      | Inl (InvalidSession rsn) \<Rightarrow> TokenReauth (show_http_error (InvalidSession rsn))
      | Inl ScopeDenied \<Rightarrow> TokenReauth (show_http_error ScopeDenied)
      | Inl (Other s) \<Rightarrow> TokenDisconnected (show_http_error (Other s)))"

text \<open>What the loop does, besides waiting for an input.\<close>

datatype effect = Yield update | Forget | Sleep duration

datatype open_outcome = OpenReady | OpenReauth string | OpenDisconnected string

definition open_subscription :: "http_error + unit \<Rightarrow> effect list \<times> open_outcome" where
  "open_subscription opened =
     (case opened of
        Inr _ \<Rightarrow> ([], OpenReady)
      | Inl e \<Rightarrow>
          if is_invalid_session e \<or> is_scope_denied e then ([Forget], OpenReauth (show_http_error e))
          else ([], OpenDisconnected (show_http_error e)))"

text \<open>What a read with the deadline came to: an event, the end of the stream, or the deadline.\<close>

datatype read = Got widget_event | Eof | Idle

text \<open>What the loop was left with: it waits for a read, it lost the connection, or the token.\<close>

datatype reading = Waiting | Lost | Revoked string

definition revoked_reason :: "jvalue \<Rightarrow> string" where
  "revoked_reason payload = (case str_at ''reason'' payload of Some rsn \<Rightarrow> rsn | None \<Rightarrow> ''unknown'')"

fun read_stream :: "subscription_config \<Rightarrow> read list \<Rightarrow> update list \<times> reading" where
  "read_stream cfg [] = ([], Waiting)"
| "read_stream cfg (Got evt # reads) =
     (if we_name evt = ''revoked'' then ([], Revoked (''revoked: '' @ revoked_reason (we_payload evt)))
      else if we_name evt = ''subscribed'' \<or> we_name evt = ''keepalive'' then read_stream cfg reads
      else (case read_stream cfg reads of (us, end_) \<Rightarrow> (Event evt # us, end_)))"
| "read_stream cfg (Eof # reads) = ([Disconnected ''stream ended''], Lost)"
| "read_stream cfg (Idle # reads) =
     ([Disconnected (''idle_timeout ('' @ show_nat (wc_idle_timeout cfg div 1000000000) @ ''s)'')], Lost)"

text \<open>The inputs of one turn of the loop: what \<open>obtain\<close> and opening gave, the reads, the clock.\<close>

record turn =
  tu_obtained :: "http_error + string"
  tu_opened :: "http_error + unit"
  tu_reads :: "read list"
  tu_now :: duration

datatype loop_end = Stopped | Reading | Goes_on retry_strategy

definition back_off :: "duration \<Rightarrow> retry_strategy \<Rightarrow> effect list \<times> loop_end" where
  "back_off now r = ([Sleep (next_delay now r)], Goes_on (should_retry r))"

definition prepend :: "effect list \<Rightarrow> effect list \<times> loop_end \<Rightarrow> effect list \<times> loop_end" where
  "prepend es res = (es @ fst res, snd res)"

definition subscription_turn :: "subscription_config \<Rightarrow> retry_strategy \<Rightarrow> turn \<Rightarrow> effect list \<times> loop_end" where
  "subscription_turn cfg r t =
     (case acquire_token (tu_obtained t) of
        TokenBlocked rsn \<Rightarrow> ([Yield (Blocked rsn)], Stopped)
      | TokenReauth rsn \<Rightarrow> prepend [Yield (NeedsReauth rsn)] (back_off (tu_now t) r)
      | TokenDisconnected rsn \<Rightarrow> prepend [Yield (Disconnected rsn)] (back_off (tu_now t) r)
      | TokenReady token \<Rightarrow>
          (case open_subscription (tu_opened t) of
             (es, OpenReauth rsn) \<Rightarrow> (es @ [Yield (NeedsReauth rsn)], Goes_on r)
           | (es, OpenDisconnected rsn) \<Rightarrow> prepend (es @ [Yield (Disconnected rsn)]) (back_off (tu_now t) r)
           | (es, OpenReady) \<Rightarrow>
               (let r1 = reset r in
                case read_stream cfg (tu_reads t) of
                  (us, ending) \<Rightarrow>
                    prepend (es @ map Yield (Connected # us))
                      (case ending of
                         Waiting \<Rightarrow> ([], Reading)
                       | Revoked rsn \<Rightarrow> ([Forget, Yield (NeedsReauth rsn)], Goes_on r1)
                       | Lost \<Rightarrow> back_off (tu_now t) r1))))"

fun subscription_loop ::
  "subscription_config \<Rightarrow> retry_strategy \<Rightarrow> turn list \<Rightarrow> effect list \<times> loop_end" where
  "subscription_loop cfg r [] = ([], Goes_on r)"
| "subscription_loop cfg r (t # ts) =
     (case subscription_turn cfg r t of
        (es, Goes_on r2) \<Rightarrow> prepend es (subscription_loop cfg r2 ts)
      | (es, ending) \<Rightarrow> (es, ending))"

definition run_widget_subscription :: "subscription_config \<Rightarrow> turn list \<Rightarrow> effect list \<times> loop_end" where
  "run_widget_subscription cfg ts =
     subscription_loop cfg
       \<lparr>rt_attempt = 0, rt_initial_delay = wc_initial_backoff cfg, rt_max_delay = wc_max_backoff cfg,
        rt_exponential = True\<rparr> ts"

subsection \<open>Delays are bounded\<close>

lemma unat_duration_millis: "unat (duration_millis d) = min (d div 1000000) (2 ^ 64 - 1)"
  by (auto simp: duration_millis_def unat_of_nat_small unat_max_value min_def)

lemma unat_sat_pow2: "unat (sat_pow2 n) = min (2 ^ unat n) (2 ^ 64 - 1)"
proof (cases "unat n < 64")
  case True
  then have "(2 :: nat) ^ unat n \<le> 2 ^ 63" by (intro power_increasing) auto
  then have small: "(2 :: nat) ^ unat n < 2 ^ 64" by simp
  have "unat (2 ^ unat n :: u64) = 2 ^ unat n"
    using unat_of_nat_small [of "2 ^ unat n", where ?'a = 64] small by simp
  with True small show ?thesis by (simp add: sat_pow2_def min_def)
next
  case False
  then have "(2 :: nat) ^ 64 \<le> 2 ^ unat n" by (intro power_increasing) auto
  with False show ?thesis by (simp add: sat_pow2_def unat_max_value min_def)
qed

lemma grown_delay:
  "unat (sat_mul (duration_millis d) (sat_pow2 n)) = min ((d div 1000000) * 2 ^ unat n) (2 ^ 64 - 1)"
proof -
  let ?i = "d div 1000000" and ?p = "(2 :: nat) ^ unat n" and ?m = "(2 :: nat) ^ 64 - 1"
  have "min (min ?i ?m * min ?p ?m) ?m = min (?i * ?p) ?m"
  proof (cases "?i \<le> ?m \<and> ?p \<le> ?m")
    case True
    then show ?thesis by simp
  next
    case False
    have "1 \<le> ?p" by simp
    show ?thesis
    proof (cases "?i = 0")
      case i: False
      have "?m \<le> min ?i ?m * min ?p ?m"
      proof (cases "?i \<le> ?m")
        case True
        then have "min ?p ?m = ?m" using False by simp
        with i show ?thesis by simp
      next
        case False
        then show ?thesis using \<open>1 \<le> ?p\<close> by simp
      qed
      moreover have "?m \<le> ?i * ?p"
      proof (cases "?i \<le> ?m")
        case True
        with False have "?m \<le> ?p" by simp
        also have "\<dots> \<le> ?i * ?p" using i by simp
        finally show ?thesis .
      next
        case False
        then have "?m \<le> ?i" by simp
        also have "\<dots> \<le> ?i * ?p" by simp
        finally show ?thesis .
      qed
      ultimately show ?thesis by (simp add: min_def)
    qed simp
  qed
  then show ?thesis by (simp add: unat_sat_mul unat_duration_millis unat_sat_pow2)
qed

lemma jitter_sum:
  fixes c j k :: u64
  assumes "unat c < 2 ^ 63" "k = c div 10" "k \<noteq> 0" "j = n mod (k * 2)"
  shows "unat (c + j - k) = unat c + unat j - unat k \<and> unat j < 2 * unat k \<and> unat k = unat c div 10"
proof -
  have k: "unat k = unat c div 10" using assms(2) by (simp add: unat_div)
  have k2: "unat (k * 2) = 2 * unat k" using k assms(1) by (simp add: unat_word_ariths)
  have "unat j = unat n mod (2 * unat k)" unfolding assms(4) unat_mod k2 ..
  moreover have "0 < unat k" using assms(3) by (simp add: unat_gt_0)
  ultimately have j: "unat j < 2 * unat k" by simp
  have "unat c + unat j < 2 ^ 64" using j k assms(1) by simp
  then have cj: "unat (c + j) = unat c + unat j" by (simp add: unat_word_ariths)
  moreover have "unat k \<le> unat c" using k by simp
  then have "k \<le> c + j" by (simp add: word_le_nat_alt cj)
  ultimately show ?thesis using j k by (simp add: unat_sub)
qed

lemma min_saturated: "m < 2 ^ 63 \<Longrightarrow> min (min x (2 ^ 64 - 1)) (min m (2 ^ 64 - 1)) = min x m" for m x :: nat
  by (simp add: min_def)

text \<open>
  The delay before the next connection doubles with every failed attempt up to the configured
  maximum and is within a tenth of that: it never overflows, however many attempts were made, and no
  clock makes it shorter or longer.
\<close>

theorem backoff_bounded:
  assumes "rt_exponential r" "rt_max_delay r div 1000000 < 2 ^ 63"
    and "c = min ((rt_initial_delay r div 1000000) * 2 ^ unat (rt_attempt r)) (rt_max_delay r div 1000000)"
  shows "(c - c div 10) * 1000000 \<le> next_delay now r \<and> next_delay now r \<le> (c + c div 10) * 1000000"
proof -
  define w where "w = min (sat_mul (duration_millis (rt_initial_delay r)) (sat_pow2 (rt_attempt r)))
                       (duration_millis (rt_max_delay r))"
  have "unat w = min (min ((rt_initial_delay r div 1000000) * 2 ^ unat (rt_attempt r)) (2 ^ 64 - 1))
      (min (rt_max_delay r div 1000000) (2 ^ 64 - 1))"
    unfolding w_def grown_delay [symmetric] unat_duration_millis [symmetric]
    by (simp add: min_def word_le_nat_alt)
  also have "\<dots> = c" unfolding assms(3) by (rule min_saturated [OF assms(2)])
  finally have w: "unat w = c" .
  have small: "c < 2 ^ 63" using assms(2,3) by (simp add: min_less_iff_disj)
  show ?thesis
  proof (cases "w div 10 = 0")
    case True
    moreover have "unat (w div 10) = unat w div 10" by (simp add: unat_div)
    ultimately have "unat w div 10 = 0" by simp
    with True w show ?thesis using assms(1) by (simp add: next_delay_def w_def [symmetric] from_millis_def)
  next
    case False
    from jitter_sum [of w, OF _ refl False refl, of "duration_millis now"] w small
    have "unat (w + duration_millis now mod (w div 10 * 2) - w div 10)
        = c + unat (duration_millis now mod (w div 10 * 2)) - c div 10"
      "unat (duration_millis now mod (w div 10 * 2)) < 2 * (c div 10)" by auto
    then have "next_delay now r = (c + unat (duration_millis now mod (w div 10 * 2)) - c div 10) * 1000000"
      and "c - c div 10 \<le> c + unat (duration_millis now mod (w div 10 * 2)) - c div 10"
      and "c + unat (duration_millis now mod (w div 10 * 2)) - c div 10 \<le> c + c div 10"
      using False assms(1) by (simp_all add: next_delay_def w_def [symmetric] from_millis_def Let_def)
    then show ?thesis by (metis mult_le_mono1)
  qed
qed

text \<open>The jitter is drawn after the cap: a delay can be longer than the configured maximum.\<close>

lemma jitter_passes_the_maximum:
  "next_delay (from_millis 2999) (default_retry\<lparr>rt_attempt := 10\<rparr>) = from_millis 16499
   \<and> rt_max_delay default_retry < from_millis 16499"
  by (simp add: next_delay_def default_retry_def from_millis_def from_secs_def duration_millis_def sat_mul_def
      sat_pow2_def Let_def)

theorem backoff_bounded_witness:
  "13500 * 1000000 \<le> next_delay 0 (default_retry\<lparr>rt_attempt := 5\<rparr>)
   \<and> next_delay 0 (default_retry\<lparr>rt_attempt := 5\<rparr>) \<le> 16500 * 1000000"
proof -
  let ?r = "default_retry\<lparr>rt_attempt := 5\<rparr>"
  have d: "rt_exponential ?r" "rt_initial_delay ?r div 1000000 = 1000" "rt_max_delay ?r div 1000000 = 15000"
    "unat (rt_attempt ?r) = 5"
    by (simp_all add: default_retry_def from_secs_def)
  have "(15000 :: nat) = min (1000 * 2 ^ 5) 15000" by simp
  from backoff_bounded [of ?r 15000 0, unfolded d, OF d(1) _ this] show ?thesis by simp
qed

subsection \<open>What a subscriber sees\<close>

definition shown :: "widget_event \<Rightarrow> bool" where
  "shown e = (we_name e \<noteq> ''subscribed'' \<and> we_name e \<noteq> ''keepalive'')"

definition alive :: "widget_event \<Rightarrow> bool" where
  "alive e = (we_name e \<noteq> ''revoked'')"

lemma read_stream_events:
  "read_stream cfg (map Got evs @ [Eof]) =
     (map Event (filter shown (takeWhile alive evs))
        @ (case dropWhile alive evs of [] \<Rightarrow> [Disconnected ''stream ended''] | _ \<Rightarrow> []),
      case dropWhile alive evs of
        [] \<Rightarrow> Lost
      | e # _ \<Rightarrow> Revoked (''revoked: '' @ revoked_reason (we_payload e)))"
  by (induction evs) (auto simp: shown_def alive_def split: prod.splits list.splits)

lemma turn_of_events:
  assumes "tu_obtained t = Inr token" "tu_opened t = Inr ()" "tu_reads t = map Got evs @ [Eof]"
  shows "fst (subscription_turn cfg r t) =
      map Yield (Connected # map Event (filter shown (takeWhile alive evs)))
      @ (case dropWhile alive evs of
           [] \<Rightarrow> [Yield (Disconnected ''stream ended''), Sleep (next_delay (tu_now t) (reset r))]
         | e # _ \<Rightarrow> [Forget, Yield (NeedsReauth (''revoked: '' @ revoked_reason (we_payload e)))])"
  by (cases "dropWhile alive evs")
    (simp_all add: subscription_turn_def acquire_token_def open_subscription_def assms prepend_def
      read_stream_events back_off_def Let_def del: dropWhile_eq_Nil_conv)

text \<open>
  C20. From the daemon to the subscriber: of the events the daemon puts on a stream the subscriber is
  shown exactly those it asked for, unchanged and in order, up to where the connection ended or the
  token was revoked; a heartbeat or an acknowledgement is never shown, and after a revocation the token
  is dropped before the subscriber is told.
\<close>

theorem subscriber_sees_daemon_events:
  assumes "list_all (item_ok J text_of) items" "concat chunks @ lost = concat (map (wire_bytes text_of) items)"
    and "tu_obtained t = Inr token" "tu_opened t = Inr ()"
    and "tu_reads t = map Got (parse_widget_event_stream J show_error (map Data chunks)) @ [Eof]"
  shows "\<exists>k. fst (subscription_turn cfg r t) =
      map Yield (Connected # map Event (filter shown (takeWhile alive (map item_event (take k items)))))
      @ (case dropWhile alive (map item_event (take k items)) of
           [] \<Rightarrow> [Yield (Disconnected ''stream ended''), Sleep (next_delay (tu_now t) (reset r))]
         | e # _ \<Rightarrow> [Forget, Yield (NeedsReauth (''revoked: '' @ revoked_reason (we_payload e)))])
    \<and> (if lost = [] then k = length items else True)"
proof -
  from daemon_frames_read_back_core [OF assms(1,2)] obtain k where k:
    "parse_widget_event_stream J show_error (map Data chunks) = map item_event (take k items)"
    "if lost = [] then k = length items else True" by blast
  with turn_of_events [OF assms(3-5), of cfg r] show ?thesis by (intro exI [of _ k]) simp
qed

definition plain_turn :: turn where
  "plain_turn =
     \<lparr>tu_obtained = Inr ''tok'', tu_opened = Inr (),
      tu_reads = map Got (parse_widget_event_stream sample_json (\<lambda>_. [])
        (map Data [keepalive_frame @ ''event: x'', [LF] @ ''data: {}'' @ [LF, LF]])) @ [Eof],
      tu_now = 0\<rparr>"

theorem subscriber_sees_daemon_events_witness:
  "\<exists>k. fst (subscription_turn (new_config [] []) default_retry plain_turn) =
      map Yield (Connected # map Event (filter shown (takeWhile alive
        (map item_event (take k [Heartbeat, Named ''x'' (VObj [])])))))
      @ (case dropWhile alive (map item_event (take k [Heartbeat, Named ''x'' (VObj [])])) of
           [] \<Rightarrow> [Yield (Disconnected ''stream ended''), Sleep (next_delay (tu_now plain_turn) (reset default_retry))]
         | e # _ \<Rightarrow> [Forget, Yield (NeedsReauth (''revoked: '' @ revoked_reason (we_payload e)))])
    \<and> (if ([] :: string) = [] then k = length [Heartbeat, Named ''x'' (VObj [])] else True)"
proof (rule subscriber_sees_daemon_events)
  show "list_all (item_ok sample_json (\<lambda>_. ''{}'')) [Heartbeat, Named ''x'' (VObj [])]" by code_simp
  show "concat [keepalive_frame @ ''event: x'', [LF] @ ''data: {}'' @ [LF, LF]] @ [] =
      concat (map (wire_bytes (\<lambda>_. ''{}'')) [Heartbeat, Named ''x'' (VObj [])])" by code_simp
qed (simp_all add: plain_turn_def)

subsection \<open>When a subscription ends\<close>

definition says_blocked :: "effect \<Rightarrow> bool" where
  "says_blocked e = (case e of Yield (Blocked _) \<Rightarrow> True | _ \<Rightarrow> False)"

definition denied_turn :: "turn \<Rightarrow> bool" where
  "denied_turn t = (case tu_obtained t of Inl e \<Rightarrow> is_user_denied e | Inr _ \<Rightarrow> False)"

lemma read_stream_unblocked: "list_all (\<lambda>u. \<not> says_blocked (Yield u)) (fst (read_stream cfg reads))"
  by (induction cfg reads rule: read_stream.induct) (auto simp: says_blocked_def split: prod.splits)

lemma turn_ends:
  "if denied_turn t
   then \<exists>rsn. subscription_turn cfg r t = ([Yield (Blocked rsn)], Stopped)
   else snd (subscription_turn cfg r t) \<noteq> Stopped \<and> \<not> list_ex says_blocked (fst (subscription_turn cfg r t))"
  using read_stream_unblocked [of cfg "tu_reads t"]
  by (auto simp: subscription_turn_def acquire_token_def denied_turn_def is_user_denied_def open_subscription_def
      back_off_def prepend_def says_blocked_def Let_def list_all_iff list_ex_iff
      split: sum.splits http_error.splits prod.splits reading.splits token_outcome.splits)

lemma only_denial_stops:
  "if snd (subscription_loop cfg r ts) = Stopped
   then list_ex denied_turn ts \<and> (\<exists>es rsn. fst (subscription_loop cfg r ts) = es @ [Yield (Blocked rsn)]
          \<and> \<not> list_ex says_blocked es)
   else \<not> list_ex says_blocked (fst (subscription_loop cfg r ts))"
proof (induction cfg r ts rule: subscription_loop.induct)
  case (2 cfg r t ts)
  show ?case
  proof (cases "denied_turn t")
    case True
    then show ?thesis using turn_ends [of t cfg r] by auto
  next
    case False
    then show ?thesis
      using turn_ends [of t cfg r] 2 by (cases "snd (subscription_turn cfg r t)")
        (auto simp: prepend_def list_ex_append split: prod.splits if_splits)
  qed
qed simp

end
