(* ===== verification/Daemon_Progress.thy ===== *)
theory Daemon_Progress
  imports SE_Hashmap
begin

section \<open>Download progress\<close>

text \<open>
  \<open>super-engine-daemon/src/download_progress.rs\<close>: the tracker of one download, what it publishes on the
  event bus and when, and the manager that keeps one download per slot. The atomics are the fields of a
  record, the percentage's floating-point arithmetic (\<open>f32\<close>) is a parameter, and so is the time elapsed.
\<close>

subsection \<open>The tracker\<close>

record 'f load_progress =
  lp_phase :: "string option"
  lp_step :: "string option"
  lp_progress :: "'f option"

text \<open>\<open>percent_of\<close>, the constants, \<open>fixed_point\<close>, and whether two fractions differ by 0.01 or more.\<close>

record 'f percent_ops =
  pf_percent_of :: "u64 \<Rightarrow> u64 \<Rightarrow> 'f"
  pf_hundred :: 'f
  pf_zero :: 'f
  pf_fixed_point :: "'f \<Rightarrow> u64"
  pf_apart :: "'f \<Rightarrow> 'f \<Rightarrow> bool"

definition status_verifying :: string where "status_verifying = ''verifying''"
definition status_downloading :: string where "status_downloading = ''downloading''"
definition status_loading_model :: string where "status_loading_model = ''loading_model''"
definition status_completed :: string where "status_completed = ''completed''"
definition status_cancelled :: string where "status_cancelled = ''cancelled''"
definition status_error :: string where "status_error = ''error''"

record ('k, 'f) tracker =
  tk_model_name :: string
  tk_slot :: 'k
  tk_current_file :: string
  tk_file_index :: u64
  tk_total_files :: u64
  tk_bytes :: u64
  tk_total_bytes :: u64
  tk_status :: string
  tk_error :: "string option"
  tk_load :: "'f load_progress option"
  tk_cancelled :: bool
  tk_last_percentage :: u64
  tk_last_status :: string
  tk_last_total_bytes :: u64
  tk_last_file_index :: u64
  tk_last_load :: "'f load_progress option"

record ('k, 'f) progress =
  pg_model_name :: string
  pg_slot :: 'k
  pg_current_file :: string
  pg_file_index :: u64
  pg_total_files :: u64
  pg_bytes :: u64
  pg_total_bytes :: u64
  pg_percentage :: 'f
  pg_status :: string
  pg_eta_seconds :: "u64 option"
  pg_error :: "string option"
  pg_load :: "'f load_progress option"

definition new_tracker :: "string \<Rightarrow> 'k \<Rightarrow> u64 \<Rightarrow> bool \<Rightarrow> ('k, 'f) tracker" where
  "new_tracker model_name slot total_files cancelled =
     \<lparr>tk_model_name = model_name, tk_slot = slot, tk_current_file = [], tk_file_index = 0,
      tk_total_files = total_files, tk_bytes = 0, tk_total_bytes = 0, tk_status = status_verifying,
      tk_error = None, tk_load = None, tk_cancelled = cancelled, tk_last_percentage = 0, tk_last_status = [],
      tk_last_total_bytes = 0, tk_last_file_index = - 1, tk_last_load = None\<rparr>"

definition get_progress :: "'f percent_ops \<Rightarrow> u64 \<Rightarrow> ('k, 'f) tracker \<Rightarrow> ('k, 'f) progress" where
  "get_progress P elapsed t =
     (let percentage =
            (if tk_status t = status_completed \<or> tk_status t = status_loading_model then pf_hundred P
             else if tk_total_bytes t > 0 then pf_percent_of P (tk_bytes t) (tk_total_bytes t)
             else pf_zero P);
          eta =
            (if tk_bytes t > 0 \<and> tk_total_bytes t > tk_bytes t
             then let bytes_per_second = tk_bytes t div max elapsed 1
                  in if bytes_per_second = 0 then None
                     else Some ((tk_total_bytes t - tk_bytes t) div bytes_per_second)
             else None)
      in \<lparr>pg_model_name = tk_model_name t, pg_slot = tk_slot t, pg_current_file = tk_current_file t,
          pg_file_index = tk_file_index t, pg_total_files = tk_total_files t, pg_bytes = tk_bytes t,
          pg_total_bytes = tk_total_bytes t, pg_percentage = percentage, pg_status = tk_status t,
          pg_eta_seconds = eta, pg_error = tk_error t, pg_load = tk_load t\<rparr>)"

definition load_moved ::
  "'f percent_ops \<Rightarrow> 'f load_progress option \<Rightarrow> 'f load_progress option \<Rightarrow> bool" where
  "load_moved P before now =
     (case (before, now) of
        (None, None) \<Rightarrow> False
      | (Some a, Some b) \<Rightarrow>
          lp_phase a \<noteq> lp_phase b \<or> lp_step a \<noteq> lp_step b
          \<or> (case (lp_progress a, lp_progress b) of
               (Some x, Some y) \<Rightarrow> pf_apart P x y
             | (x, y) \<Rightarrow> (x \<noteq> None) \<noteq> (y \<noteq> None))
      | _ \<Rightarrow> True)"

text \<open>What was published, if anything was; without an event bus it is dropped.\<close>

definition broadcast_progress ::
  "'f percent_ops \<Rightarrow> u64 \<Rightarrow> ('k, 'f) tracker \<Rightarrow> ('k, 'f) tracker \<times> ('k, 'f) progress option" where
  "broadcast_progress P elapsed t =
     (let p = get_progress P elapsed t;
          current = pf_fixed_point P (pg_percentage p);
          status_changed = (tk_last_status t \<noteq> pg_status p);
          crossed = (current > tk_last_percentage t \<and> current - tk_last_percentage t \<ge> 100);
          total_changed = (tk_last_total_bytes t \<noteq> pg_total_bytes p);
          index_changed = (tk_last_file_index t \<noteq> pg_file_index p);
          load_changed = load_moved P (tk_last_load t) (pg_load p)
      in if status_changed \<or> crossed \<or> total_changed \<or> index_changed \<or> load_changed
         then (t\<lparr>tk_last_percentage := current, tk_last_status := pg_status p,
                 tk_last_total_bytes := pg_total_bytes p, tk_last_file_index := pg_file_index p,
                 tk_last_load := pg_load p\<rparr>, Some p)
         else (t, None))"

definition start_file :: "string \<Rightarrow> u64 \<Rightarrow> ('k, 'f) tracker \<Rightarrow> ('k, 'f) tracker" where
  "start_file filename file_index t =
     t\<lparr>tk_current_file := filename, tk_file_index := file_index, tk_bytes := 0, tk_total_bytes := 0\<rparr>"

definition cancel_tracker :: "('k, 'f) tracker \<Rightarrow> ('k, 'f) tracker" where
  "cancel_tracker t = t\<lparr>tk_cancelled := True, tk_status := status_cancelled\<rparr>"

definition mark_verifying :: "('k, 'f) tracker \<Rightarrow> ('k, 'f) tracker" where
  "mark_verifying t = t\<lparr>tk_status := status_verifying\<rparr>"

definition mark_downloading :: "('k, 'f) tracker \<Rightarrow> ('k, 'f) tracker" where
  "mark_downloading t = t\<lparr>tk_status := status_downloading\<rparr>"

definition mark_loading :: "('k, 'f) tracker \<Rightarrow> ('k, 'f) tracker" where
  "mark_loading t = t\<lparr>tk_status := status_loading_model\<rparr>"

definition set_load_progress :: "'f load_progress \<Rightarrow> ('k, 'f) tracker \<Rightarrow> ('k, 'f) tracker" where
  "set_load_progress load t = t\<lparr>tk_load := Some load\<rparr>"

definition mark_completed :: "('k, 'f) tracker \<Rightarrow> ('k, 'f) tracker" where
  "mark_completed t = t\<lparr>tk_status := status_completed\<rparr>"

definition mark_error :: "string \<Rightarrow> ('k, 'f) tracker \<Rightarrow> ('k, 'f) tracker" where
  "mark_error e t = t\<lparr>tk_status := status_error, tk_error := Some e\<rparr>"

subsection \<open>The manager\<close>

type_synonym ('k, 'f) downloads = "('k, ('k, 'f) tracker) hmap"

datatype download_refusal = AlreadyInProgress | NotInProgress

definition start_download ::
  "('k, 'f) tracker \<Rightarrow> ('k, 'f) downloads \<Rightarrow> ('k, 'f) downloads \<times> (download_refusal + unit)" where
  "start_download t ds =
     (if hm_contains ds (tk_slot t) then (ds, Inl AlreadyInProgress)
      else (hm_insert (tk_slot t) t ds, Inr ()))"

definition get_download :: "'k \<Rightarrow> ('k, 'f) downloads \<Rightarrow> ('k, 'f) tracker option" where
  "get_download k ds = hm_get ds k"

definition cancel_download ::
  "'k \<Rightarrow> ('k, 'f) downloads \<Rightarrow> ('k, 'f) downloads \<times> (download_refusal + unit)" where
  "cancel_download k ds =
     (case hm_get ds k of
        Some t \<Rightarrow> (hm_insert k (cancel_tracker t) ds, Inr ())
      | None \<Rightarrow> (ds, Inl NotInProgress))"

definition clear_download :: "'k \<Rightarrow> ('k, 'f) downloads \<Rightarrow> ('k, 'f) downloads" where
  "clear_download k ds = hm_remove k ds"

subsection \<open>How much is published\<close>

text \<open>A phase of a file: bytes arrive, and after each chunk the tracker may publish.\<close>

definition chunk_arrives ::
  "'f percent_ops \<Rightarrow> u64 \<times> u64 \<Rightarrow> ('k, 'f) tracker \<Rightarrow> ('k, 'f) tracker \<times> ('k, 'f) progress option" where
  "chunk_arrives P c t = broadcast_progress P (snd c) (t\<lparr>tk_bytes := tk_bytes t + fst c\<rparr>)"

fun chunks_arrive ::
  "'f percent_ops \<Rightarrow> (u64 \<times> u64) list \<Rightarrow> ('k, 'f) tracker \<Rightarrow> ('k, 'f) tracker \<times> ('k, 'f) progress list" where
  "chunks_arrive P [] t = (t, [])"
| "chunks_arrive P (c # cs) t =
     (case chunk_arrives P c t of
        (t1, pub) \<Rightarrow> (case chunks_arrive P cs t1 of (t2, pubs) \<Rightarrow> (t2, case_option [] (\<lambda>p. [p]) pub @ pubs)))"

definition told :: "'f percent_ops \<Rightarrow> ('k, 'f) tracker \<Rightarrow> bool" where
  "told P t =
     (tk_last_status t = tk_status t \<and> tk_last_total_bytes t = tk_total_bytes t
      \<and> tk_last_file_index t = tk_file_index t \<and> \<not> load_moved P (tk_last_load t) (tk_load t))"

lemma broadcast_cases:
  assumes "broadcast_progress P e t = (t2, pub)"
  obtains (quiet) "t2 = t" "pub = None" "told P t"
    | (says) p where "pub = Some p" "\<not> told P t \<or> unat (tk_last_percentage t) + 100 \<le> unat (tk_last_percentage t2)"
        "\<exists>x. tk_last_percentage t2 = pf_fixed_point P x"
        "tk_last_status t2 = tk_status t2" "tk_last_total_bytes t2 = tk_total_bytes t2"
        "tk_last_file_index t2 = tk_file_index t2" "tk_last_load t2 = tk_load t2"
        "pg_bytes p = tk_bytes t" "tk_bytes t2 = tk_bytes t"
proof (cases pub)
  case None
  with assms show thesis
    by (intro quiet) (auto simp: broadcast_progress_def get_progress_def told_def Let_def split: if_splits)
next
  case (Some p)
  have wide: "unat a + 100 \<le> unat b" if "(a :: u64) < b" "100 \<le> b - a" for a b
  proof -
    have "unat (b - a) = unat b - unat a" by (rule unat_sub) (use that(1) in simp)
    with that show ?thesis by (simp add: word_le_nat_alt word_less_nat_alt)
  qed
  show thesis
  proof (rule says)
    show "pub = Some p" by (rule Some)
    show "\<not> told P t \<or> unat (tk_last_percentage t) + 100 \<le> unat (tk_last_percentage t2)"
      using assms Some wide
      by (auto simp: broadcast_progress_def get_progress_def told_def Let_def split: if_splits)
  qed (use assms Some in \<open>auto simp: broadcast_progress_def get_progress_def Let_def split: if_splits\<close>)
qed

lemma told_after:
  assumes "broadcast_progress P e t = (t2, Some p)" "\<not> load_moved P (tk_load t2) (tk_load t2)"
  shows "told P t2"
  using assms(1)
proof (cases rule: broadcast_cases)
  case (says p)
  with assms(2) show ?thesis by (simp add: told_def)
qed simp

lemma broadcast_same:
  "broadcast_progress P e t = (t2, pub) \<Longrightarrow>
     tk_load t2 = tk_load t \<and> tk_status t2 = tk_status t \<and> tk_total_bytes t2 = tk_total_bytes t
     \<and> tk_file_index t2 = tk_file_index t \<and> tk_bytes t2 = tk_bytes t"
  by (auto simp: broadcast_progress_def Let_def split: if_splits)

lemma told_bytes [simp]: "told P (t\<lparr>tk_bytes := n\<rparr>) = told P t"
  by (simp add: told_def)

lemma chunks_published:
  assumes "\<And>x. unat (pf_fixed_point P x) \<le> 10000" "\<And>l. \<not> load_moved P l l"
  shows "chunks_arrive P cs t = (t2, pubs) \<Longrightarrow> unat (tk_last_percentage t) \<le> 10000 \<Longrightarrow>
    (if told P t then length pubs * 100 + unat (tk_last_percentage t) \<le> 10000 else length pubs \<le> 101)"
proof (induction cs arbitrary: t pubs)
  case (Cons c cs)
  let ?t = "t\<lparr>tk_bytes := tk_bytes t + fst c\<rparr>"
  obtain t1 pub where b: "broadcast_progress P (snd c) ?t = (t1, pub)"
    by (cases "broadcast_progress P (snd c) ?t")
  obtain pubs1 where r: "chunks_arrive P cs t1 = (t2, pubs1)" "pubs = case_option [] (\<lambda>p. [p]) pub @ pubs1"
    using Cons.prems(1) b by (auto simp: chunk_arrives_def split: prod.splits)
  from b show ?case
  proof (cases rule: broadcast_cases)
    case quiet
    with Cons.IH [OF r(1)] r(2) Cons.prems(2) show ?thesis by simp
  next
    case (says p)
    then have "unat (tk_last_percentage t1) \<le> 10000" using assms(1) by metis
    moreover have "told P t1" using told_after [of P "snd c" ?t t1 p] b says(1) assms(2) by simp
    ultimately have "length pubs1 * 100 + unat (tk_last_percentage t1) \<le> 10000"
      using Cons.IH [OF r(1)] by simp
    with says r(2) Cons.prems(2) show ?thesis by (auto split: if_splits)
  qed
qed simp

text \<open>
  However small the chunks a download or a check comes in, at most 101 events reach the bus while
  one file is in one phase: after the first, which announces the phase, each is a whole percent
  further than the one before.
\<close>

theorem progress_throttled:
  assumes "\<And>x. unat (pf_fixed_point P x) \<le> 10000" "\<And>l. \<not> load_moved P l l"
    and "unat (tk_last_percentage t) \<le> 10000" "chunks_arrive P cs t = (t2, pubs)"
  shows "length pubs \<le> 101 \<and> (if told P t then length pubs \<le> 100 else True)"
  using chunks_published [OF assms(1,2,4,3)] by (auto split: if_splits)

text \<open>A percentage of natural numbers, for evaluation.\<close>

definition whole_percents :: "nat percent_ops" where
  "whole_percents =
     \<lparr>pf_percent_of = (\<lambda>b t. min 100 (unat b * 100 div unat t)), pf_hundred = 100, pf_zero = 0,
      pf_fixed_point = (\<lambda>x. of_nat (min x 100) * 100), pf_apart = (\<lambda>x y. x \<noteq> y)\<rparr>"

theorem progress_throttled_witness:
  "length (snd (chunks_arrive whole_percents [(1, 0), (0, 0), (1, 0)]
      ((new_tracker ''m'' () 1 False)\<lparr>tk_total_bytes := 4\<rparr>))) \<le> 101
   \<and> map pg_percentage (snd (chunks_arrive whole_percents [(1, 0), (0, 0), (1, 0)]
      ((new_tracker ''m'' () 1 False)\<lparr>tk_total_bytes := 4\<rparr>))) = [25, 50]"
proof -
  let ?t = "(new_tracker ''m'' () 1 False)\<lparr>tk_total_bytes := 4\<rparr>"
  have fixed: "unat (pf_fixed_point whole_percents x) \<le> 10000" for x
  proof -
    have "unat (of_nat (min x 100) * 100 :: u64) = min x 100 * 100"
      using unat_of_nat_small [of "min x 100 * 100", where ?'a = 64] by (simp add: min_def)
    then show ?thesis by (simp add: whole_percents_def)
  qed
  have same: "\<not> load_moved whole_percents l l" for l
    by (cases l) (auto simp: load_moved_def whole_percents_def split: option.split)
  have "map pg_percentage (snd (chunks_arrive whole_percents [(1, 0), (0, 0), (1, 0)] ?t)) = [25, 50]"
    by code_simp
  moreover have "length (snd (chunks_arrive whole_percents [(1, 0), (0, 0), (1, 0)] ?t)) \<le> 101"
    by (rule conjunct1 [OF progress_throttled [OF fixed same _ prod.collapse [symmetric]]])
      (simp add: new_tracker_def)
  ultimately show ?thesis by blast
qed

subsection \<open>One download per slot\<close>

lemma one_download_per_slot:
  "snd (start_download t ds) = Inr () \<longleftrightarrow> get_download (tk_slot t) ds = None"
  "get_download k (fst (start_download t ds)) =
     (if k = tk_slot t \<and> get_download k ds = None then Some t else get_download k ds)"
  by (auto simp: start_download_def get_download_def hm_contains_def hm.get_ins)

lemma cancel_reaches_its_download:
  "get_download k (fst (cancel_download j ds)) =
     (if k = j then map_option cancel_tracker (get_download k ds) else get_download k ds)"
  by (auto simp: cancel_download_def get_download_def hm.get_ins split: option.split)

end
