(* ===== verification/Daemon_ModelFiles.thy ===== *)
theory Daemon_ModelFiles
  imports Daemon_Download Daemon_Progress
begin

section \<open>Model files\<close>

text \<open>
  \<open>super-engine-daemon/src/download.rs\<close>: the files of a model, each accepted where it is, after a check
  or on the word of a stamp, or downloaded beside its destination, checked and renamed there. The
  server's answers, the moments a user cancels and the modification times are scripts in the state; a
  read of the disk can fail like any other call.
\<close>

subsection \<open>State\<close>

datatype model_error = MNetwork | MStatus nat | MIo io_kind | MCancelled | MMismatch string string

record sizes =
  hs_linked :: "string option"
  hs_length :: "u64 option"

text \<open>An answer is an error, a status or a body, with the sizes its headers and a \<open>HEAD\<close> would name.\<close>

datatype web_answer = WebFails | WebStatus nat | WebBody sizes "sizes option" "string option list"

record verified_stamp =
  vs_sha256 :: string
  vs_size :: u64
  vs_mtime_ns :: u64

record 'f model_env =
  me_sha :: "string \<Rightarrow> string"
  me_read_stamp :: "string \<Rightarrow> verified_stamp option"
  me_stamp_json :: "verified_stamp \<Rightarrow> string option"
  me_uuid :: "nat \<Rightarrow> string"
  me_dir_len :: u64
  me_percent :: "'f percent_ops"
  me_elapsed :: "nat \<Rightarrow> u64"

record ('k, 'f) loader = disk +
  lo_web :: "web_answer list"
  lo_asked :: "string list"
  lo_cancels :: "bool list"
  lo_tracker :: "('k, 'f) tracker option"
  lo_published :: "('k, 'f) progress list"
  lo_mtimes :: "u64 option list"
  lo_drawn :: nat

record download_item =
  di_url :: string
  di_destination :: path
  di_sha256 :: "string option"

subsection \<open>Reporting\<close>

definition on_tracker :: "(('k, 'f) tracker \<Rightarrow> ('k, 'f) tracker) \<Rightarrow> (('k, 'f) loader, 'e, unit) action" where
  "on_tracker f d = (d\<lparr>lo_tracker := map_option f (lo_tracker d)\<rparr>, Inr ())"

definition broadcast :: "'f model_env \<Rightarrow> (('k, 'f) loader, 'e, unit) action" where
  "broadcast E d =
     (case lo_tracker d of
        None \<Rightarrow> (d, Inr ())
      | Some t \<Rightarrow>
          (case broadcast_progress (me_percent E) (me_elapsed E (length (lo_published d))) t of
             (t2, pub) \<Rightarrow>
               (d\<lparr>lo_tracker := Some t2, lo_published := lo_published d @ case_option [] (\<lambda>p. [p]) pub\<rparr>, Inr ())))"

definition is_cancelled :: "('k, 'f) loader \<Rightarrow> bool" where
  "is_cancelled d = (lo_tracker d \<noteq> None \<and> (case lo_cancels d of c # _ \<Rightarrow> c | [] \<Rightarrow> False))"

text \<open>One look at the flag is over; a chunk has been counted.\<close>

definition looked :: "(('k, 'f) loader, 'e, unit) action" where
  "looked d = (d\<lparr>lo_cancels := tl (lo_cancels d)\<rparr>, Inr ())"

definition count_bytes :: "'f model_env \<Rightarrow> u64 \<Rightarrow> (('k, 'f) loader, 'e, unit) action" where
  "count_bytes E n =
     io_then (on_tracker (\<lambda>t. t\<lparr>tk_bytes := tk_bytes t + n\<rparr>)) (\<lambda>_. io_then (broadcast E) (\<lambda>_. looked))"

definition set_sizes :: "u64 \<Rightarrow> u64 \<Rightarrow> (('k, 'f) loader, 'e, unit) action" where
  "set_sizes bytes tot = on_tracker (\<lambda>t. t\<lparr>tk_bytes := bytes, tk_total_bytes := tot\<rparr>)"

subsection \<open>Stamps\<close>

text \<open>A call that reads, or flushes: it can fail and changes nothing.\<close>

definition touch_disk :: "('z disk_scheme, io_kind, unit) action" where
  "touch_disk = call (\<lambda>fs. Inr fs) (\<lambda>_ fs. fs)"

definition stamp_path :: "path \<Rightarrow> path" where
  "stamp_path dest = butlast dest @ [''.'' @ (if dest = [] then ''file'' else last dest) @ ''.verified'']"

definition next_mtime :: "(('k, 'f) loader, 'e, u64 option) action" where
  "next_mtime d =
     (d\<lparr>lo_mtimes := tl (lo_mtimes d)\<rparr>, Inr (case lo_mtimes d of m # _ \<Rightarrow> m | [] \<Rightarrow> None))"

definition len_of :: "'f model_env \<Rightarrow> files \<Rightarrow> path \<Rightarrow> u64 option" where
  "len_of E fs p =
     (case file_text fs p of
        Some t \<Rightarrow> Some (of_nat (length t))
      | None \<Rightarrow> if is_dir fs p then Some (me_dir_len E) else None)"

text \<open>\<open>fs::metadata\<close>, its length and its modification time.\<close>

definition metadata :: "'f model_env \<Rightarrow> path \<Rightarrow> (('k, 'f) loader, 'e, (u64 \<times> u64 option) option) action" where
  "metadata E p =
     io_then (io_try touch_disk) (\<lambda>r.
     io_then (io_look (\<lambda>fs. len_of E fs p)) (\<lambda>len.
       case (r, len) of
         (Inr _, Some n) \<Rightarrow> io_then next_mtime (\<lambda>m. io_pure (Some (n, m)))
       | _ \<Rightarrow> io_pure None))"

definition stamp_vouches ::
  "'f model_env \<Rightarrow> files \<Rightarrow> path \<Rightarrow> u64 \<times> u64 option \<Rightarrow> string \<Rightarrow> bool" where
  "stamp_vouches E fs dest md expected =
     (case Option.bind (file_text fs (stamp_path dest)) (me_read_stamp E) of
        None \<Rightarrow> False
      | Some st \<Rightarrow> vs_size st = fst md \<and> Some (vs_mtime_ns st) = snd md \<and> sha256_matches (vs_sha256 st) expected)"

definition stamp_says_verified ::
  "'f model_env \<Rightarrow> path \<Rightarrow> u64 \<times> u64 option \<Rightarrow> string \<Rightarrow> (('k, 'f) loader, 'e, bool) action" where
  "stamp_says_verified E dest md expected =
     io_then (io_try touch_disk) (\<lambda>r.
       case r of
         Inl _ \<Rightarrow> io_pure False
       | Inr _ \<Rightarrow> io_look (\<lambda>fs. stamp_vouches E fs dest md expected))"

definition write_stamp ::
  "'f model_env \<Rightarrow> path \<Rightarrow> u64 \<times> u64 option \<Rightarrow> string \<Rightarrow> (('k, 'f) loader, 'e, unit) action" where
  "write_stamp E dest md expected =
     (case snd md of
        None \<Rightarrow> io_pure ()
      | Some mtime \<Rightarrow>
          (case me_stamp_json E \<lparr>vs_sha256 = expected, vs_size = fst md, vs_mtime_ns = mtime\<rparr> of
             None \<Rightarrow> io_pure ()
           | Some json \<Rightarrow> io_ignore (write_file (stamp_path dest) json)))"

subsection \<open>A file that is there\<close>

definition hash_buffer :: nat where "hash_buffer = 1024 * 1024"

function pieces :: "nat \<Rightarrow> 'a list \<Rightarrow> 'a list list" where
  "pieces n xs = (if xs = [] \<or> n = 0 then [] else take n xs # pieces n (drop n xs))"
  by pat_completeness auto
termination by (relation "measure (\<lambda>(_, xs). length xs)") auto

declare pieces.simps [simp del]

fun hash_pieces :: "'f model_env \<Rightarrow> string list \<Rightarrow> (('k, 'f) loader, model_error, unit) action" where
  "hash_pieces E [] = io_map_err MIo touch_disk"
| "hash_pieces E (c # cs) =
     io_then (io_map_err MIo touch_disk) (\<lambda>_ d.
       if is_cancelled d then (d, Inl MCancelled)
       else io_then (count_bytes E (of_nat (length c))) (\<lambda>_. hash_pieces E cs) d)"

definition sha256_hex_of_file ::
  "'f model_env \<Rightarrow> path \<Rightarrow> (('k, 'f) loader, model_error, string) action" where
  "sha256_hex_of_file E p =
     io_then (io_map_err MIo touch_disk) (\<lambda>_.
     io_then (io_look (\<lambda>fs. file_text fs p)) (\<lambda>t.
       case t of
         None \<Rightarrow> io_fail (MIo IoOther)
       | Some text \<Rightarrow>
           io_then (hash_pieces E (pieces hash_buffer text)) (\<lambda>_. io_pure (me_sha E text))))"

definition check_existing ::
  "'f model_env \<Rightarrow> path \<Rightarrow> u64 \<times> u64 option \<Rightarrow> string \<Rightarrow> (('k, 'f) loader, model_error, u64 option) action" where
  "check_existing E dest md expected =
     io_then (stamp_says_verified E dest md expected) (\<lambda>yes.
       if yes then io_pure (Some (fst md))
       else
         io_then (on_tracker (\<lambda>t. t\<lparr>tk_total_bytes := fst md\<rparr>)) (\<lambda>_.
         io_then (broadcast E) (\<lambda>_.
         io_then (sha256_hex_of_file E dest) (\<lambda>actual.
           if \<not> sha256_matches actual expected then io_pure None
           else io_then (write_stamp E dest md expected) (\<lambda>_. io_pure (Some (fst md)))))))"

definition usable_existing ::
  "'f model_env \<Rightarrow> path \<Rightarrow> string option \<Rightarrow> (('k, 'f) loader, model_error, u64 option) action" where
  "usable_existing E dest sha256 =
     io_then (metadata E dest) (\<lambda>found.
       case found of
         None \<Rightarrow> io_pure None
       | Some md \<Rightarrow>
           if fst md = 0 then io_pure None
           else case sha256 of
               None \<Rightarrow> io_pure (Some (fst md))
             | Some expected \<Rightarrow> check_existing E dest md expected)"

subsection \<open>A file that is fetched\<close>

definition parse_u64 :: "string \<Rightarrow> u64 option" where
  "parse_u64 s = map_option of_nat (parse_unsigned (2 ^ 64 - 1) s)"

definition size_in_headers :: "sizes \<Rightarrow> u64 option" where
  "size_in_headers h =
     (case Option.bind (hs_linked h) parse_u64 of Some n \<Rightarrow> Some n | None \<Rightarrow> hs_length h)"

definition resolve_total_size :: "sizes \<Rightarrow> sizes option \<Rightarrow> u64 option" where
  "resolve_total_size response head =
     (case size_in_headers response of
        Some n \<Rightarrow> Some n
      | None \<Rightarrow> Option.bind head size_in_headers)"

definition fetch ::
  "string \<Rightarrow> (('k, 'f) loader, model_error, (sizes \<times> sizes option) \<times> string option list) action" where
  "fetch url d =
     (let d1 = d\<lparr>lo_web := tl (lo_web d), lo_asked := lo_asked d @ [url]\<rparr>
      in case lo_web d of
           WebBody h hh items # _ \<Rightarrow> (d1, Inr ((h, hh), items))
         | WebStatus s # _ \<Rightarrow> (d1, Inl (MStatus s))
         | _ \<Rightarrow> (d1, Inl MNetwork))"

definition draw_uuid :: "'f model_env \<Rightarrow> (('k, 'f) loader, 'e, string) action" where
  "draw_uuid E d = (d\<lparr>lo_drawn := Suc (lo_drawn d)\<rparr>, Inr (me_uuid E (lo_drawn d)))"

definition tmp_path :: "path \<Rightarrow> string \<Rightarrow> path" where
  "tmp_path dest uuid = butlast dest @ [''.tmp-'' @ uuid]"

definition model_stream_outcome ::
  "path \<Rightarrow> stream_error + u64 \<times> string \<Rightarrow> (('k, 'f) loader, model_error, string) action" where
  "model_stream_outcome tmp r =
     (case r of
        Inr (_, actual) \<Rightarrow> io_pure actual
      | Inl StreamCancelled \<Rightarrow> io_then (io_ignore (remove_file tmp)) (\<lambda>_. io_fail MCancelled)
      | Inl (StreamIo e) \<Rightarrow> io_fail (MIo e)
      | Inl _ \<Rightarrow> io_fail MNetwork)"

definition fetch_to_tmp ::
  "'f model_env \<Rightarrow> path \<Rightarrow> string option list \<Rightarrow> (('k, 'f) loader, model_error, string) action" where
  "fetch_to_tmp E tmp items =
     io_then (io_map_err MIo (write_file tmp [])) (\<lambda>_.
     io_then (io_try (stream_body_to_writer (me_sha E) (append_file tmp) None is_cancelled (count_bytes E) items 0 []))
       (model_stream_outcome tmp))"

text \<open>Flush, check, rename, stamp.\<close>

definition publish_file ::
  "'f model_env \<Rightarrow> path \<Rightarrow> path \<Rightarrow> string option \<Rightarrow> string \<Rightarrow> (('k, 'f) loader, model_error, unit) action" where
  "publish_file E tmp dest sha256 actual =
     io_then (io_map_err MIo touch_disk) (\<lambda>_.
       if (case sha256 of Some expected \<Rightarrow> \<not> sha256_matches actual expected | None \<Rightarrow> False)
       then io_then (io_ignore (remove_file tmp)) (\<lambda>_. io_fail (MMismatch (the sha256) actual))
       else
         io_then (io_map_err MIo (rename_path tmp dest)) (\<lambda>_.
           case sha256 of
             None \<Rightarrow> io_pure ()
           | Some expected \<Rightarrow>
               io_then (metadata E dest) (\<lambda>found.
                 case found of None \<Rightarrow> io_pure () | Some md \<Rightarrow> write_stamp E dest md expected)))"

definition file_label :: "path \<Rightarrow> string" where
  "file_label dest = (if dest = [] then [] else last dest)"

definition download_one ::
  "'f model_env \<Rightarrow> u64 \<Rightarrow> download_item \<Rightarrow> (('k, 'f) loader, model_error, unit) action" where
  "download_one E file_index item =
     (let dest = di_destination item in
      io_then (io_map_err MIo (create_dir_all (parent_of dest))) (\<lambda>_.
      io_then (on_tracker (\<lambda>t. mark_verifying (start_file (file_label dest) file_index t))) (\<lambda>_.
      io_then (usable_existing E dest (di_sha256 item)) (\<lambda>existing.
        case existing of
          Some len \<Rightarrow> io_then (set_sizes len len) (\<lambda>_. broadcast E)
        | None \<Rightarrow>
            io_then (on_tracker (\<lambda>t. mark_downloading (t\<lparr>tk_bytes := 0, tk_total_bytes := 0\<rparr>))) (\<lambda>_.
            io_then (broadcast E) (\<lambda>_.
            io_then (fetch (di_url item)) (\<lambda>((h, hh), items).
            io_then (case resolve_total_size h hh of
                 Some len \<Rightarrow> io_then (on_tracker (\<lambda>t. t\<lparr>tk_total_bytes := len\<rparr>)) (\<lambda>_. broadcast E)
               | None \<Rightarrow> io_pure ()) (\<lambda>_.
            io_then (draw_uuid E) (\<lambda>uuid.
            io_then (fetch_to_tmp E (tmp_path dest uuid) items) (\<lambda>actual.
              publish_file E (tmp_path dest uuid) dest (di_sha256 item) actual)))))))))) "

fun download_from ::
  "'f model_env \<Rightarrow> u64 \<Rightarrow> download_item list \<Rightarrow> (('k, 'f) loader, model_error, unit) action" where
  "download_from E file_index [] = io_pure ()"
| "download_from E file_index (item # items) =
     (\<lambda>d. if is_cancelled d then (d, Inl MCancelled)
          else io_then looked (\<lambda>_. io_then (download_one E file_index item)
                 (\<lambda>_. download_from E (file_index + 1) items)) d)"

definition download_files ::
  "'f model_env \<Rightarrow> u64 \<Rightarrow> download_item list \<Rightarrow> (('k, 'f) loader, model_error, unit) action" where
  "download_files E starting_file_index items = download_from E starting_file_index items"

subsection \<open>What each step leaves alone\<close>

text \<open>\<open>asks m\<close>: \<open>m\<close> gets no answer that is not in the script.\<close>

named_theorems asks_rules "which steps take their answers from the script"

definition asks :: "(('k, 'f) loader, 'e, 'a) action \<Rightarrow> bool" where
  "asks m = (\<forall>d. set (lo_web (fst (m d))) \<subseteq> set (lo_web d))"

lemma asksD: "asks m \<Longrightarrow> m d = (d2, r) \<Longrightarrow> set (lo_web d2) \<subseteq> set (lo_web d)"
  unfolding asks_def by (metis fst_conv)

lemma asks_basic [asks_rules, simp]:
  "asks (io_pure a)" "asks (io_fail e)" "asks (io_look f)" "asks (on_tracker g)" "asks looked"
  "asks next_mtime" "asks (draw_uuid E)" "asks (call w q)"
  by (simp_all add: asks_def io_pure_def io_fail_def io_look_def on_tracker_def looked_def next_mtime_def
      draw_uuid_def call_def settle_def split: list.split fault.split sum.split)

lemma asks_then [asks_rules]: "asks m \<Longrightarrow> (\<And>a. asks (k a)) \<Longrightarrow> asks (io_then m k)"
proof -
  assume m: "asks m" "\<And>a. asks (k a)"
  have "set (lo_web (fst (io_then m k d))) \<subseteq> set (lo_web d)" for d
  proof (cases "m d")
    case (Pair d1 r)
    with asksD [OF m(1) Pair] m(2) show ?thesis
      by (cases r) (auto simp: io_then_def asks_def)
  qed
  then show ?thesis by (simp add: asks_def)
qed

lemma asks_wrap [asks_rules]: "asks m \<Longrightarrow> asks (io_map_err f m)" "asks m \<Longrightarrow> asks (io_ignore m)"
  "asks m \<Longrightarrow> asks (io_try m)"
  by (auto simp: asks_def io_map_err_def io_ignore_def io_try_def split: prod.split sum.split)
    (metis fst_conv subsetD)+

lemma asks_calls [asks_rules, simp]:
  "asks (write_file p t)" "asks (append_file p t)" "asks (remove_file p)" "asks (create_dir_all p)"
  "asks (rename_path p q)" "asks touch_disk"
  by (simp_all add: write_file_def append_file_def remove_file_def create_dir_all_def rename_path_def touch_disk_def)

lemma asks_cases [asks_rules]:
  "(x = None \<Longrightarrow> asks m) \<Longrightarrow> (\<And>a. x = Some a \<Longrightarrow> asks (n a)) \<Longrightarrow> asks (case x of None \<Rightarrow> m | Some a \<Rightarrow> n a)"
  "(\<And>e. y = Inl e \<Longrightarrow> asks (k e)) \<Longrightarrow> (\<And>a. y = Inr a \<Longrightarrow> asks (l a)) \<Longrightarrow> asks (case y of Inl e \<Rightarrow> k e | Inr a \<Rightarrow> l a)"
  "(b \<Longrightarrow> asks m) \<Longrightarrow> (\<not> b \<Longrightarrow> asks m2) \<Longrightarrow> asks (if b then m else m2)"
    apply (cases x; simp)
   apply (cases y; simp)
  apply simp
  done

lemma asks_guard [asks_rules]: "asks m \<Longrightarrow> asks (\<lambda>d. if b d then (d, Inl e) else m d)"
  by (simp add: asks_def)

lemma keeps_guard [keeps_rules]: "keeps R m \<Longrightarrow> keeps R (\<lambda>d. if b d then (d, Inl e) else m d)"
  by (simp add: keeps_def)

lemma step_stop [keeps_rules, asks_rules, simp]: "keeps R (\<lambda>d. (d, Inl e))" "asks (\<lambda>d. (d, Inl e))"
  by (simp_all add: keeps_def asks_def)

lemma keeps_script [keeps_rules, simp]:
  "keeps R (on_tracker g)" "keeps R looked" "keeps R next_mtime" "keeps R (draw_uuid E)" "keeps R (fetch url)"
  "keeps R (broadcast E)"
  by (auto simp: keeps_def on_tracker_def looked_def next_mtime_def draw_uuid_def fetch_def broadcast_def Let_def
      intro!: reached_same split: list.split web_answer.split option.split prod.split)

lemma keeps_touch [keeps_rules, simp]: "keeps R touch_disk"
  unfolding touch_disk_def by (rule keeps_call) simp_all

lemma asks_script [asks_rules, simp]: "asks (broadcast E)" "asks (fetch url)"
  by (auto simp: asks_def broadcast_def fetch_def Let_def dest: list.set_sel(2)
      split: option.split prod.split list.splits web_answer.split)

lemma step_count [keeps_rules, asks_rules, simp]: "keeps R (count_bytes E n)" "asks (count_bytes E n)"
  unfolding count_bytes_def by (auto intro!: keeps_rules asks_rules)

lemma step_metadata [keeps_rules, asks_rules, simp]: "keeps R (metadata E p)" "asks (metadata E p)"
  unfolding metadata_def
  by (auto intro!: keeps_rules asks_rules split: sum.split option.split prod.split)

lemma step_stamp_read [keeps_rules, asks_rules, simp]:
  "keeps R (stamp_says_verified E p md e)" "asks (stamp_says_verified E p md e)"
  unfolding stamp_says_verified_def by (auto intro!: keeps_rules asks_rules)

lemma step_stamp [keeps_rules, asks_rules]:
  "R (stamp_path p) \<Longrightarrow> keeps R (write_stamp E p md e)" "asks (write_stamp E p md e)"
  unfolding write_stamp_def by (auto intro!: keeps_rules asks_rules)

lemma step_hash [keeps_rules, asks_rules, simp]: "keeps R (hash_pieces E cs)" "asks (hash_pieces E cs)"
  by (induction cs) (auto intro!: keeps_rules asks_rules)

lemma step_hash_file [keeps_rules, asks_rules, simp]:
  "keeps R (sha256_hex_of_file E p)" "asks (sha256_hex_of_file E p)"
  unfolding sha256_hex_of_file_def by (auto intro!: keeps_rules asks_rules)

lemma step_usable [keeps_rules, asks_rules]:
  "R (stamp_path p) \<Longrightarrow> keeps R (usable_existing E p e)" "asks (usable_existing E p e)"
  unfolding usable_existing_def check_existing_def by (auto intro!: keeps_rules asks_rules)

lemma step_stream [keeps_rules, asks_rules]:
  "R tmp \<Longrightarrow> keeps R (stream_body_to_writer (me_sha E) (append_file tmp) None is_cancelled (count_bytes E) items n h)"
  "asks (stream_body_to_writer (me_sha E) (append_file tmp) None is_cancelled (count_bytes E) items n h)"
proof (induction items arbitrary: n h)
  case (Cons item items)
  {
    case 1
    then show ?case
      by (cases item) (auto simp: over_cap_def Let_def intro!: keeps_guard keeps_rules Cons.IH)
  next
    case 2
    then show ?case
      by (cases item) (auto simp: over_cap_def Let_def intro!: asks_guard asks_rules Cons.IH)
  }
qed simp_all

lemma step_fetch_to_tmp [keeps_rules, asks_rules]:
  "R tmp \<Longrightarrow> keeps R (fetch_to_tmp E tmp items)" "asks (fetch_to_tmp E tmp items)"
  unfolding fetch_to_tmp_def model_stream_outcome_def
  by (auto intro!: keeps_rules asks_rules split: sum.split prod.split stream_error.split)

lemma asks_publish [asks_rules]: "asks (publish_file E tmp dest sha256 actual)"
  unfolding publish_file_def by (auto intro!: asks_rules)

lemma keeps_publish [keeps_rules]:
  "(\<And>q. under tmp q \<Longrightarrow> R q) \<Longrightarrow> (\<And>q. under dest q \<Longrightarrow> R q) \<Longrightarrow> R (stamp_path dest) \<Longrightarrow>
    keeps R (publish_file E tmp dest sha256 actual)"
  unfolding publish_file_def by (auto intro!: keeps_rules)

definition region :: "path \<Rightarrow> path \<Rightarrow> bool" where
  "region dest q =
     (under q (parent_of dest) \<or> q = stamp_path dest \<or> under dest q \<or> (\<exists>u. under (tmp_path dest u) q))"

lemma step_sizes [keeps_rules, asks_rules, simp]: "keeps R (set_sizes a b)" "asks (set_sizes a b)"
  by (simp_all add: set_sizes_def)

lemma region_intros:
  "under q (parent_of dest) \<Longrightarrow> region dest q" "region dest (stamp_path dest)" "under dest q \<Longrightarrow> region dest q"
  "under (tmp_path dest u) q \<Longrightarrow> region dest q" "region dest (tmp_path dest u)"
  by (auto simp: region_def intro: exI [of _ u])

lemma step_download_one:
  "keeps (region (di_destination item)) (download_one E i item)" "asks (download_one E i item)"
  unfolding download_one_def Let_def
  by (auto intro!: keeps_rules asks_rules intro: region_intros split: prod.split)

subsection \<open>What is at a destination\<close>

lemma model_stream_ok:
  "stream_body_to_writer (me_sha E) (append_file tmp) None is_cancelled (count_bytes E) items n h d = (d2, Inr (m, digest)) \<Longrightarrow>
    hm_get (dk_files d) tmp = Some (IFile h) \<Longrightarrow>
    whole items \<and> hm_get (dk_files d2) tmp = Some (IFile (h @ delivered items)) \<and> digest = me_sha E (h @ delivered items)"
proof (induction items arbitrary: n h d)
  case (Cons item items)
  then obtain chunk where item: "item = Some chunk" by (cases item) (auto split: if_splits)
  from Cons.prems(1) item obtain d1 d3 u where
    ap: "append_file tmp chunk d = (d1, Inr ())" and ct: "count_bytes E (of_nat (length chunk)) d1 = (d3, Inr u :: stream_error + unit)"
    and go: "stream_body_to_writer (me_sha E) (append_file tmp) None is_cancelled (count_bytes E) items
      (n + of_nat (length chunk)) (h @ chunk) d3 = (d2, Inr (m, digest))"
    by (auto simp: over_cap_def Let_def io_map_err_def elim!: io_then_cases split: if_splits prod.splits sum.splits)
  from ap Cons.prems(2) have "hm_get (dk_files d1) tmp = Some (IFile (h @ chunk))"
    by (cases rule: append_file_cases) auto
  moreover have "reached (\<lambda>_. False) d1 d3" using keepsD [OF step_count(1) ct] .
  ultimately have "hm_get (dk_files d3) tmp = Some (IFile (h @ chunk))"
    by (simp add: reached_def agree_off_def)
  from Cons.IH [OF go this] item show ?case by (simp add: whole_def)
qed (simp add: io_pure_def whole_def)

lemma fetch_to_tmp_ok:
  assumes "fetch_to_tmp E tmp items d = (d2, Inr actual)"
  shows "whole items \<and> hm_get (dk_files d2) tmp = Some (IFile (delivered items)) \<and> actual = me_sha E (delivered items)"
proof -
  from assms obtain d1 where w: "write_file tmp [] d = (d1, Inr ())"
    and m: "io_then (io_try (stream_body_to_writer (me_sha E) (append_file tmp) None is_cancelled (count_bytes E) items 0 []))
       (model_stream_outcome tmp) d1 = (d2, Inr actual)"
    unfolding fetch_to_tmp_def by (rule io_then_cases) (auto simp: io_map_err_def split: prod.splits sum.splits)
  obtain d3 r where st: "stream_body_to_writer (me_sha E) (append_file tmp) None is_cancelled (count_bytes E) items 0 [] d1 = (d3, r)"
    by fastforce
  from m have "model_stream_outcome tmp r d3 = (d2, Inr actual)" by (simp add: io_try_then st)
  then obtain n where "r = Inr (n, actual)" "d2 = d3"
    by (auto simp: model_stream_outcome_def io_pure_def io_fail_def io_then_def io_ignore_def
        split: sum.splits stream_error.splits prod.splits)
  with model_stream_ok [of E tmp items 0 "[]" d1 d3 n actual] st write_file_ok [OF w] show ?thesis by simp
qed

lemma keeps_value:
  assumes "keeps (\<lambda>q. q \<noteq> p) m" "m d = (d2, r)"
  shows "hm_get (dk_files d2) p = hm_get (dk_files d) p"
    and "V (hm_get (dk_files d) p) \<Longrightarrow> through (\<lambda>fs. V (hm_get fs p)) d d2"
proof -
  have r: "reached (\<lambda>q. q \<noteq> p) d d2" using keepsD [OF assms] .
  then show "hm_get (dk_files d2) p = hm_get (dk_files d) p" by (simp add: reached_def agree_off_def)
  show "through (\<lambda>fs. V (hm_get fs p)) d d2" if "V (hm_get (dk_files d) p)"
    using r [unfolded reached_through] by (rule through_mono) (use that in \<open>simp add: agree_off_def\<close>)
qed

lemma stamp_path_other: "stamp_path p \<noteq> p"
proof
  assume h: "stamp_path p = p"
  then have "p \<noteq> []" by (auto simp: stamp_path_def)
  have "length (last (stamp_path p)) = length (last p)" using h by simp
  with \<open>p \<noteq> []\<close> show False by (simp add: stamp_path_def)
qed

definition pin_ok :: "'f model_env \<Rightarrow> string option \<Rightarrow> string \<Rightarrow> bool" where
  "pin_ok E sha256 body = (case sha256 of Some e \<Rightarrow> sha256_matches (me_sha E body) e | None \<Rightarrow> True)"

lemma publish_spec:
  assumes "publish_file E tmp dest sha256 (me_sha E b) d = (d2, r)" "hm_get (dk_files d) tmp = Some (IFile b)"
    and "\<not> under tmp dest" "\<not> under dest tmp"
    and "V (hm_get (dk_files d) dest)" "pin_ok E sha256 b \<Longrightarrow> V (Some (IFile b))"
  shows "through (\<lambda>fs. V (hm_get fs dest)) d d2
    \<and> (r = Inr () \<longrightarrow> hm_get (dk_files d2) dest = Some (IFile b) \<and> pin_ok E sha256 b)"
proof -
  have tmp: "tmp \<noteq> dest" using assms(3) by auto
  note off1 = keeps_value(1) [where p = dest] and off2 = keeps_value(2) [where p = dest and V = V]
  from assms(1) show ?thesis unfolding publish_file_def
  proof (cases rule: io_then_cases)
    case (stop e)
    have "keeps (\<lambda>q. q \<noteq> dest) (io_map_err MIo touch_disk :: (('a, 'b) loader, _, _) action)"
      by (intro keeps_rules)
    from off2 [OF this stop(1) assms(5)] stop show ?thesis by simp
  next
    case (more d1 u)
    have k: "keeps (\<lambda>q. q \<noteq> q0) (io_map_err MIo touch_disk :: (('a, 'b) loader, _, _) action)" for q0
      by (intro keeps_rules)
    have 1: "hm_get (dk_files d1) dest = hm_get (dk_files d) dest" "hm_get (dk_files d1) tmp = Some (IFile b)"
      "through (\<lambda>fs. V (hm_get fs dest)) d d1"
      using off1 [OF k more(1)] off2 [OF k more(1)] keeps_value(1) [OF k more(1), of tmp] assms(2,5) by simp_all
    show ?thesis
    proof (cases "pin_ok E sha256 b")
      case False
      then obtain e where e: "sha256 = Some e" "\<not> sha256_matches (me_sha E b) e"
        by (auto simp: pin_ok_def split: option.splits)
      have run: "io_then (io_ignore (remove_file tmp)) (\<lambda>_. io_fail (MMismatch (the sha256) (me_sha E b))) d1 = (d2, r)"
        using more(2) e by simp
      have "keeps (\<lambda>q. q \<noteq> dest) (io_then (io_ignore (remove_file tmp))
          (\<lambda>_. io_fail (MMismatch (the sha256) (me_sha E b))) :: (('a, 'b) loader, _, unit) action)"
        using tmp by (intro keeps_rules)
      from off2 [OF this run] assms(5) 1 have "through (\<lambda>fs. V (hm_get fs dest)) d1 d2" by simp
      moreover have "r \<noteq> Inr ()" using run by (auto simp: io_then_def io_ignore_def io_fail_def split: prod.splits)
      ultimately show ?thesis using 1(3) by (blast intro: through_trans)
    next
      case True
      define stamp where "stamp = ((case sha256 of
             None \<Rightarrow> io_pure ()
           | Some expected \<Rightarrow>
               io_then (metadata E dest) (\<lambda>found.
                 case found of None \<Rightarrow> io_pure () | Some md \<Rightarrow> write_stamp E dest md expected))
           :: (('a, 'b) loader, model_error, unit) action)"
      have ks: "keeps (\<lambda>q. q \<noteq> dest) stamp"
        using stamp_path_other [of dest] unfolding stamp_def
        by (auto intro!: keeps_rules split: option.split)
      have run: "io_then (io_map_err MIo (rename_path tmp dest)) (\<lambda>_. stamp) d1 = (d2, r)"
        using more(2) True by (auto simp: pin_ok_def stamp_def split: option.splits)
      obtain d3 r3 where rn: "rename_path tmp dest d1 = (d3, r3)" by (cases "rename_path tmp dest d1")
      from rn show ?thesis
      proof (cases rule: rename_cases)
        case (failed e)
        then have "d2 = d3" "r = Inl (MIo e)" using run rn by (simp_all add: io_then_def io_map_err_def)
        moreover have "through (\<lambda>fs. V (hm_get fs dest)) d1 d3"
          using failed 1 assms(5) by (intro through_one) simp_all
        ultimately show ?thesis using 1(3) by (auto intro: through_trans)
      next
        case renamed
        have v: "hm_get (dk_files d3) dest = Some (IFile b)"
          using get_moved [OF assms(3,4), of "dk_files d1" dest] 1(2) renamed(2) by simp
        have "stamp d3 = (d2, r)" using run rn renamed(1) by (simp add: io_then_def io_map_err_def)
        from off1 [OF ks this] off2 [OF ks this] v assms(6) [OF True]
        have "hm_get (dk_files d2) dest = Some (IFile b)" "through (\<lambda>fs. V (hm_get fs dest)) d3 d2" by simp_all
        moreover have "through (\<lambda>fs. V (hm_get fs dest)) d1 d3"
          using renamed v assms(6) [OF True] by (intro through_one) simp_all
        ultimately show ?thesis using 1(3) True by (blast intro: through_trans)
      qed
    qed
  qed
qed

subsection \<open>A destination only ever holds what it held, or a file that was checked\<close>

text \<open>\<open>guards V W p m\<close>: fed only answers of \<open>W\<close>, \<open>m\<close> keeps \<open>V\<close> true of what is at \<open>p\<close>, at every moment.\<close>

definition guards ::
  "(inode option \<Rightarrow> bool) \<Rightarrow> web_answer set \<Rightarrow> path \<Rightarrow> (('k, 'f) loader, 'e, 'a) action \<Rightarrow> bool" where
  "guards V W p m =
     (\<forall>d. set (lo_web d) \<subseteq> W \<longrightarrow> V (hm_get (dk_files d) p) \<longrightarrow>
        through (\<lambda>fs. V (hm_get fs p)) d (fst (m d)))"

lemma guards_keeps: "keeps (\<lambda>q. q \<noteq> p) m \<Longrightarrow> guards V W p m"
  unfolding guards_def by (metis keeps_value(2) prod.collapse)

lemma guards_then:
  fixes m :: "(('k, 'f) loader, 'e, 'a) action"
  assumes "guards V W p m" "asks m" "\<And>a. guards V W p (k a)"
  shows "guards V W p (io_then m k)"
  unfolding guards_def
proof (intro allI impI)
  fix d :: "('k, 'f) loader"
  assume d: "set (lo_web d) \<subseteq> W" "V (hm_get (dk_files d) p)"
  obtain d1 r where m: "m d = (d1, r)" by fastforce
  with assms(1) d have one: "through (\<lambda>fs. V (hm_get fs p)) d d1" unfolding guards_def by (metis fst_conv)
  show "through (\<lambda>fs. V (hm_get fs p)) d (fst (io_then m k d))"
  proof (cases r)
    case (Inr a)
    have "set (lo_web d1) \<subseteq> W" using asksD [OF assms(2) m] d(1) by blast
    with assms(3) [of a] through_end [OF one] have "through (\<lambda>fs. V (hm_get fs p)) d1 (fst (k a d1))"
      by (simp add: guards_def)
    with one have "through (\<lambda>fs. V (hm_get fs p)) d (fst (k a d1))" by (rule through_trans)
    with m Inr show ?thesis by (simp add: io_then_def)
  qed (use one m in \<open>simp add: io_then_def\<close>)
qed

lemmas guards_seq = guards_then [OF guards_keeps]

lemma guards_fetch:
  fixes k :: "_ \<Rightarrow> (('k, 'f) loader, model_error, 'a) action"
  assumes "\<And>h hh its. WebBody h hh its \<in> W \<Longrightarrow> guards V W p (k ((h, hh), its))"
  shows "guards V W p (io_then (fetch url) k)"
  unfolding guards_def
proof (intro allI impI)
  fix d :: "('k, 'f) loader"
  assume d: "set (lo_web d) \<subseteq> W" "V (hm_get (dk_files d) p)"
  obtain d1 r where f: "fetch url d = (d1, r :: model_error + _)" by fastforce
  have same: "dk_files d1 = dk_files d" "dk_trace d1 = dk_trace d" "set (lo_web d1) \<subseteq> W"
    using f d(1) by (auto simp: fetch_def Let_def dest: list.set_sel(2) split: list.splits web_answer.splits)
  show "through (\<lambda>fs. V (hm_get fs p)) d (fst (io_then (fetch url) k d))"
  proof (cases r)
    case (Inl e)
    with f same d(2) show ?thesis by (simp add: io_then_def through_def)
  next
    case (Inr a)
    then obtain h hh its where a: "a = ((h, hh), its)" "WebBody h hh its \<in> W"
      using f d(1) by (auto simp: fetch_def Let_def split: list.splits web_answer.splits)
    with assms [OF a(2)] same d(2) have "through (\<lambda>fs. V (hm_get fs p)) d1 (fst (k a d1))"
      by (simp add: guards_def)
    with f Inr same show ?thesis by (simp add: io_then_def through_def)
  qed
qed

definition dest_ok :: "path \<Rightarrow> bool" where
  "dest_ok dest = (dest \<noteq> [] \<and> \<not> starts_with ''.tmp-'' (last dest))"

lemma tmp_apart: "dest_ok dest \<Longrightarrow> \<not> under (tmp_path dest u) dest \<and> \<not> under dest (tmp_path dest u) \<and> tmp_path dest u \<noteq> dest"
proof -
  assume ok: "dest_ok dest"
  have len: "length (tmp_path dest u) = length dest" using ok by (simp add: tmp_path_def dest_ok_def)
  have "last (tmp_path dest u) = ''.tmp-'' @ u" by (simp add: tmp_path_def)
  with ok have "tmp_path dest u \<noteq> dest"
    using starts_with_append [of "''.tmp-''" u] unfolding dest_ok_def by metis
  with len show ?thesis unfolding under_iff by (metis append_Nil2 append_eq_conv_conj take_all order_refl)
qed

text \<open>A body of the script that came whole and meets the pin.\<close>

definition body_of :: "'f model_env \<Rightarrow> web_answer set \<Rightarrow> string option \<Rightarrow> inode option \<Rightarrow> bool" where
  "body_of E W sha256 v =
     (\<exists>h hh its. WebBody h hh its \<in> W \<and> whole its \<and> v = Some (IFile (delivered its)) \<and> pin_ok E sha256 (delivered its))"

lemma guards_publish:
  fixes E :: "'f model_env" and V :: "inode option \<Rightarrow> bool"
  assumes "dest_ok dest" "WebBody h hh its \<in> W" "\<And>v. body_of E W sha256 v \<Longrightarrow> V v"
  shows "guards V W dest (io_then (fetch_to_tmp E (tmp_path dest u) its) (\<lambda>actual. publish_file E (tmp_path dest u) dest sha256 actual)
      :: (('k, 'f) loader, model_error, unit) action)"
  unfolding guards_def
proof (intro allI impI)
  fix d :: "('k, 'f) loader"
  assume v: "V (hm_get (dk_files d) dest)"
  obtain d1 r where f: "fetch_to_tmp E (tmp_path dest u) its d = (d1, r)" by fastforce
  have k: "keeps (\<lambda>q. q \<noteq> dest) (fetch_to_tmp E (tmp_path dest u) its :: (('k, 'f) loader, _, _) action)"
    using tmp_apart [OF assms(1), of u] by (intro step_fetch_to_tmp(1)) simp
  note one = keeps_value(2) [OF k f, where V = V, OF v] and same = keeps_value(1) [OF k f]
  show "through (\<lambda>fs. V (hm_get fs dest)) d
      (fst (io_then (fetch_to_tmp E (tmp_path dest u) its) (\<lambda>actual. publish_file E (tmp_path dest u) dest sha256 actual) d))"
  proof (cases r)
    case (Inr actual)
    from fetch_to_tmp_ok [OF f [unfolded Inr]] have w: "whole its"
      "hm_get (dk_files d1) (tmp_path dest u) = Some (IFile (delivered its))" "actual = me_sha E (delivered its)" by simp_all
    obtain d2 r2 where p: "publish_file E (tmp_path dest u) dest sha256 (me_sha E (delivered its)) d1 = (d2, r2)" by fastforce
    have "V (Some (IFile (delivered its)))" if "pin_ok E sha256 (delivered its)"
      using that w(1) assms(2) by (intro assms(3)) (auto simp: body_of_def)
    with publish_spec [OF p w(2), of V] tmp_apart [OF assms(1), of u] v same
    have "through (\<lambda>fs. V (hm_get fs dest)) d1 d2" by simp
    with one p Inr f w(3) show ?thesis by (auto simp: io_then_def intro: through_trans)
  qed (use one f in \<open>simp add: io_then_def\<close>)
qed

lemma download_one_guards:
  assumes ok: "dest_ok (di_destination item)" and body: "\<And>v. body_of E W (di_sha256 item) v \<Longrightarrow> V v"
  shows "guards V W (di_destination item) (download_one E i item)"
proof -
  let ?dest = "di_destination item"
  have parent: "q \<noteq> ?dest" if "under q (parent_of ?dest)" for q
  proof
    assume "q = ?dest"
    with that have "length ?dest \<le> length (butlast ?dest)"
      unfolding under_iff parent_of_def by (metis le_add1 length_append)
    moreover have "length ?dest \<noteq> 0" using ok by (simp add: dest_ok_def)
    ultimately show False unfolding length_butlast by arith
  qed
  note st = stamp_path_other [of ?dest]
  have pub: "guards V W ?dest (io_then (draw_uuid E) (\<lambda>uuid.
      io_then (fetch_to_tmp E (tmp_path ?dest uuid) its) (\<lambda>actual.
      publish_file E (tmp_path ?dest uuid) ?dest (di_sha256 item) actual)))"
    if "WebBody h hh its \<in> W" for h hh its
    by (rule guards_then) (simp_all add: guards_keeps guards_publish [OF ok that body])
  have tail: "guards V W ?dest (io_then (fetch (di_url item)) (\<lambda>((h, hh), its).
      io_then (case resolve_total_size h hh of
           Some len \<Rightarrow> io_then (on_tracker (\<lambda>t. t\<lparr>tk_total_bytes := len\<rparr>)) (\<lambda>_. broadcast E)
         | None \<Rightarrow> io_pure ()) (\<lambda>_.
      io_then (draw_uuid E) (\<lambda>uuid.
      io_then (fetch_to_tmp E (tmp_path ?dest uuid) its) (\<lambda>actual.
        publish_file E (tmp_path ?dest uuid) ?dest (di_sha256 item) actual)))))"
    by (rule guards_fetch) (auto intro!: guards_seq [OF _ _ pub] keeps_rules asks_rules)
  have new: "guards V W ?dest (io_then (on_tracker f) (\<lambda>_. io_then (broadcast E) (\<lambda>_. m)))"
    if "guards V W ?dest m" for f m
    by (rule guards_seq, simp, simp, rule guards_seq, simp, simp, rule that)
  have old: "guards V W ?dest (io_then (set_sizes a b) (\<lambda>_. broadcast E))" for a b
    by (intro guards_keeps keeps_rules)
  show ?thesis
    unfolding download_one_def Let_def
    by (rule guards_seq, (auto intro!: keeps_rules asks_rules parent)[2],
        rule guards_seq, simp, simp,
        rule guards_seq, (auto intro!: keeps_rules asks_rules st)[2])
      (auto intro!: new tail old split: option.split)
qed

subsection \<open>What success says\<close>

text \<open>A pinned file that a download accepted: its text meets the pin, or its stamp says it did.\<close>

definition settled :: "'f model_env \<Rightarrow> files \<Rightarrow> download_item \<Rightarrow> bool" where
  "settled E fs item =
     (case di_sha256 item of
        None \<Rightarrow> True
      | Some e \<Rightarrow>
          (case file_text fs (di_destination item) of Some t \<Rightarrow> sha256_matches (me_sha E t) e | None \<Rightarrow> False)
          \<or> (case Option.bind (file_text fs (stamp_path (di_destination item))) (me_read_stamp E) of
               Some st \<Rightarrow> sha256_matches (vs_sha256 st) e | None \<Rightarrow> False))"

lemma file_text_same: "hm_get a p = hm_get b p \<Longrightarrow> file_text a p = file_text b p"
  by (simp add: file_text_def)

lemma settled_same:
  "hm_get a (di_destination item) = hm_get b (di_destination item) \<Longrightarrow>
    hm_get a (stamp_path (di_destination item)) = hm_get b (stamp_path (di_destination item)) \<Longrightarrow>
    settled E a item = settled E b item"
  using file_text_same [of a "di_destination item" b] file_text_same [of a "stamp_path (di_destination item)" b]
  by (simp add: settled_def split: option.split)

lemma steady: "keeps (\<lambda>_. False) m \<Longrightarrow> m d = (d2, r) \<Longrightarrow> hm_get (dk_files d2) p = hm_get (dk_files d) p"
  by (rule keeps_value(1)) (erule keeps_mono, simp)

lemma hashed_text:
  fixes d :: "('a, 'b) loader"
  shows "sha256_hex_of_file E p d = (d2, Inr actual) \<Longrightarrow> \<exists>t. file_text (dk_files d) p = Some t \<and> actual = me_sha E t"
proof -
  assume run: "sha256_hex_of_file E p d = (d2, Inr actual)"
  then obtain d1 u where t: "io_map_err MIo touch_disk d = (d1, Inr u)"
    and k: "io_then (io_look (\<lambda>fs. file_text fs p)) (\<lambda>t. case t of
         None \<Rightarrow> io_fail (MIo IoOther)
       | Some text \<Rightarrow> io_then (hash_pieces E (pieces hash_buffer text)) (\<lambda>_. io_pure (me_sha E text))) d1 = (d2, Inr actual)"
    unfolding sha256_hex_of_file_def by (rule io_then_cases) auto
  have q: "keeps (\<lambda>_. False) (io_map_err MIo touch_disk :: (('a, 'b) loader, _, _) action)"
    by (intro keeps_rules)
  have "file_text (dk_files d1) p = file_text (dk_files d) p"
    using steady [OF q t] by (rule file_text_same)
  with k show ?thesis
    by (auto simp: io_then_def io_look_def io_pure_def io_fail_def split: option.splits prod.splits sum.splits)
qed

lemma usable_settled:
  fixes E :: "'f model_env" and d :: "('k, 'f) loader"
  assumes "usable_existing E (di_destination item) (di_sha256 item) d = (d2, Inr (Some len))"
  shows "settled E (dk_files d2) item"
proof (cases "di_sha256 item")
  case (Some e)
  let ?dest = "di_destination item"
  from assms obtain d1 md where "check_existing E ?dest md e d1 = (d2, Inr (Some len))"
    unfolding usable_existing_def Some
    by (rule io_then_cases) (auto simp: io_pure_def split: option.splits if_splits)
  then have k: "io_then (stamp_says_verified E ?dest md e) (\<lambda>yes.
                   if yes then io_pure (Some (fst md))
                   else
                     io_then (on_tracker (\<lambda>t. t\<lparr>tk_total_bytes := fst md\<rparr>)) (\<lambda>_.
                     io_then (broadcast E) (\<lambda>_.
                     io_then (sha256_hex_of_file E ?dest) (\<lambda>actual.
                       if \<not> sha256_matches actual e then io_pure None
                       else io_then (write_stamp E ?dest md e) (\<lambda>_. io_pure (Some (fst md))))))) d1 = (d2, Inr (Some len))"
    unfolding check_existing_def .
  from k show ?thesis
  proof (cases rule: io_then_cases)
    case (more d3 yes)
    show ?thesis
    proof (cases yes)
      case True
      with more(1) obtain d4 where "d3 = d4" "stamp_vouches E (dk_files d4) ?dest md e"
        by (auto simp: stamp_says_verified_def io_try_def io_then_def io_look_def io_pure_def split: prod.splits sum.splits)
      moreover have "d2 = d3" using more(2) True by (simp add: io_pure_def)
      ultimately show ?thesis using Some
        by (auto simp: settled_def stamp_vouches_def split: option.splits)
    next
      case False
      with more(2) obtain d4 d5 actual where h: "sha256_hex_of_file E ?dest d4 = (d5, Inr actual)"
        and mt: "sha256_matches actual e" and w: "write_stamp E ?dest md e d5 = (d2, Inr () :: model_error + unit)"
        by (auto simp: io_pure_def elim!: io_then_cases split: if_splits)
      from hashed_text [OF h] obtain t where t: "file_text (dk_files d4) ?dest = Some t" "actual = me_sha E t" by blast
      have "keeps (\<lambda>q. q \<noteq> ?dest) (write_stamp E ?dest md e :: (('k, 'f) loader, model_error, _) action)"
        using stamp_path_other [of ?dest] by (intro keeps_rules)
      from keeps_value(1) [OF this w] steady [OF step_hash_file(1) h, of ?dest]
      have "file_text (dk_files d2) ?dest = file_text (dk_files d4) ?dest"
        by (intro file_text_same) simp
      with t mt Some show ?thesis by (simp add: settled_def)
    qed
  qed auto
qed (simp add: settled_def)

lemma download_one_settled:
  fixes E :: "'f model_env" and d :: "('k, 'f) loader"
  assumes ok: "dest_ok (di_destination item)" and run: "download_one E i item d = (d2, Inr ())"
  shows "settled E (dk_files d2) item"
proof -
  let ?dest = "di_destination item"
  have quiet: "keeps (\<lambda>_. False) (io_then (set_sizes a b) (\<lambda>_. broadcast E) :: (('k, 'f) loader, model_error, unit) action)"
    for a b by (intro keeps_rules)
  from run obtain d0 d1 existing where u: "usable_existing E ?dest (di_sha256 item) d0 = (d1, Inr existing)"
    and k: "(case existing of
          Some len \<Rightarrow> io_then (set_sizes len len) (\<lambda>_. broadcast E)
        | None \<Rightarrow>
            io_then (on_tracker (\<lambda>t. mark_downloading (t\<lparr>tk_bytes := 0, tk_total_bytes := 0\<rparr>))) (\<lambda>_.
            io_then (broadcast E) (\<lambda>_.
            io_then (fetch (di_url item)) (\<lambda>((h, hh), items).
            io_then (case resolve_total_size h hh of
                 Some len \<Rightarrow> io_then (on_tracker (\<lambda>t. t\<lparr>tk_total_bytes := len\<rparr>)) (\<lambda>_. broadcast E)
               | None \<Rightarrow> io_pure ()) (\<lambda>_.
            io_then (draw_uuid E) (\<lambda>uuid.
            io_then (fetch_to_tmp E (tmp_path ?dest uuid) items) (\<lambda>actual.
              publish_file E (tmp_path ?dest uuid) ?dest (di_sha256 item) actual))))))) d1 = (d2, Inr ())"
    unfolding download_one_def Let_def by (blast elim: io_then_cases)
  show ?thesis
  proof (cases existing)
    case (Some len)
    from usable_settled [OF u [unfolded Some]] have "settled E (dk_files d1) item" .
    with steady [OF quiet k [unfolded Some option.case]] show ?thesis by (simp add: settled_same [of "dk_files d2" item "dk_files d1"])
  next
    case None
    obtain d3 d4 uuid its actual where f: "fetch_to_tmp E (tmp_path ?dest uuid) its d3 = (d4, Inr actual)"
      and p: "publish_file E (tmp_path ?dest uuid) ?dest (di_sha256 item) actual d4 = (d2, Inr ())"
      using k [unfolded None option.case] by (auto elim!: io_then_cases split: prod.splits)
    from fetch_to_tmp_ok [OF f] have w: "hm_get (dk_files d4) (tmp_path ?dest uuid) = Some (IFile (delivered its))"
      "actual = me_sha E (delivered its)" by simp_all
    from publish_spec [OF p [unfolded w(2)] w(1), of "\<lambda>_. True"] tmp_apart [OF ok, of uuid]
    have "hm_get (dk_files d2) ?dest = Some (IFile (delivered its))" "pin_ok E (di_sha256 item) (delivered its)" by simp_all
    then have "file_text (dk_files d2) ?dest = Some (delivered its)" "pin_ok E (di_sha256 item) (delivered its)"
      by (simp_all add: file_text_def)
    then show ?thesis by (cases "di_sha256 item") (simp_all add: settled_def pin_ok_def)
  qed
qed

subsection \<open>All the files of a model\<close>

text \<open>Destinations that do not get in one another's way, as the files of one model's directory do not.\<close>

definition apart :: "path \<Rightarrow> path \<Rightarrow> bool" where
  "apart a b =
     (\<not> under b (parent_of a) \<and> b \<noteq> stamp_path a \<and> \<not> under a b \<and> \<not> list_ex (starts_with ''.tmp-'') b)"

fun plan_ok :: "path list \<Rightarrow> bool" where
  "plan_ok [] = True"
| "plan_ok (p # ps) =
     (dest_ok p
      \<and> list_all (\<lambda>q. apart p q \<and> apart p (stamp_path q) \<and> apart q p \<and> apart q (stamp_path p)) ps
      \<and> plan_ok ps)"

lemma apart_region: "apart a b \<Longrightarrow> \<not> region a b"
proof
  assume a: "apart a b" and "region a b"
  then obtain u where "under (tmp_path a u) b" by (auto simp: region_def apart_def)
  then have "''.tmp-'' @ u \<in> set b" by (auto simp: under_iff tmp_path_def)
  with a starts_with_append [of "''.tmp-''" u] show False unfolding apart_def list_ex_iff by blast
qed

lemma download_from_keeps:
  fixes E :: "'f model_env"
  assumes "\<And>item q. item \<in> set items \<Longrightarrow> region (di_destination item) q \<Longrightarrow> R q"
  shows "keeps R (download_from E i items :: (('k, 'f) loader, model_error, unit) action)"
  using assms
proof (induction items arbitrary: i)
  case (Cons item items)
  have "keeps R (download_one E i item :: (('k, 'f) loader, model_error, unit) action)"
    using Cons.prems by (intro keeps_mono [OF step_download_one(1)]) auto
  moreover have "keeps R (download_from E (i + 1) items :: (('k, 'f) loader, model_error, unit) action)"
    by (rule Cons.IH) (rule Cons.prems, simp_all)
  ultimately have "keeps R (io_then looked (\<lambda>_. io_then (download_one E i item) (\<lambda>_. download_from E (i + 1) items))
      :: (('k, 'f) loader, model_error, unit) action)"
    by (intro keeps_rules)
  then show ?case unfolding download_from.simps by (rule keeps_guard)
qed simp

definition held_or_fetched :: "'f model_env \<Rightarrow> web_answer set \<Rightarrow> files \<Rightarrow> download_item \<Rightarrow> files \<Rightarrow> bool" where
  "held_or_fetched E W old item fs =
     (hm_get fs (di_destination item) = hm_get old (di_destination item)
      \<or> body_of E W (di_sha256 item) (hm_get fs (di_destination item)))"

lemma held_fun:
  "held_or_fetched E W old item = (\<lambda>fs. hm_get fs (di_destination item) = hm_get old (di_destination item)
      \<or> body_of E W (di_sha256 item) (hm_get fs (di_destination item)))"
  by (rule ext) (simp add: held_or_fetched_def)

lemma keeps_through:
  assumes "keeps R m" "m d = (d2, r)" "\<not> R p" "V (hm_get (dk_files d) p)"
  shows "through (\<lambda>fs. V (hm_get fs p)) d d2" "hm_get (dk_files d2) p = hm_get (dk_files d) p"
proof -
  have "keeps (\<lambda>q. q \<noteq> p) m" using assms(3) by (intro keeps_mono [OF assms(1)]) auto
  from keeps_value [OF this assms(2)] assms(4) show "through (\<lambda>fs. V (hm_get fs p)) d d2"
    "hm_get (dk_files d2) p = hm_get (dk_files d) p" by simp_all
qed

lemma held_keeps:
  assumes "keeps R m" "m d = (d2, r)" "\<not> R (di_destination item)" "held_or_fetched E W old item (dk_files d)"
  shows "through (held_or_fetched E W old item) d d2"
  using keeps_through(1) [OF assms(1-3), where
      V = "\<lambda>v. v = hm_get old (di_destination item) \<or> body_of E W (di_sha256 item) v"] assms(4)
  unfolding held_fun by simp

lemma download_from_whole:
  fixes E :: "'f model_env" and d :: "('k, 'f) loader"
  assumes "plan_ok (map di_destination items)" "download_from E i items d = (d2, r)" "set (lo_web d) \<subseteq> W" "item \<in> set items"
  shows "through (held_or_fetched E W (dk_files d) item) d d2 \<and> (r = Inr () \<longrightarrow> settled E (dk_files d2) item)"
  using assms
proof (induction items arbitrary: i d)
  case (Cons it its)
  let ?p = "di_destination item"
  have start: "held_or_fetched E W (dk_files d) item (dk_files d)" by (simp add: held_or_fetched_def)
  show ?case
  proof (cases "is_cancelled d")
    case True
    with Cons.prems(2) start show ?thesis by (auto intro: through_refl)
  next
    case False
    define d0 where "d0 = fst ((looked :: (('k, 'f) loader, model_error, unit) action) d)"
    have d0: "dk_files d0 = dk_files d" "dk_trace d0 = dk_trace d" "lo_web d0 = lo_web d"
      and run: "io_then (download_one E i it) (\<lambda>_. download_from E (i + 1) its) d0 = (d2, r)"
      using Cons.prems(2) False by (simp_all add: d0_def looked_def io_then_def)
    obtain d1 r1 where one: "download_one E i it d0 = (d1, r1)" by fastforce
    have web: "set (lo_web d1) \<subseteq> W"
      using asksD [OF step_download_one(2) one] Cons.prems(3) d0(3) by auto
    have rest: "download_from E (i + 1) its d1 = (d2, r)" if "r1 = Inr ()"
      using run one that by (simp add: io_then_def)
    have stop: "d2 = d1 \<and> r \<noteq> Inr ()" if "r1 \<noteq> Inr ()" using run one that by (cases r1) (auto simp: io_then_def)
    have more: "through (held_or_fetched E W (dk_files d) item) d1 d2"
      if "through (held_or_fetched E W (dk_files d) item) d0 d1"
        "r1 = Inr () \<Longrightarrow> through (held_or_fetched E W (dk_files d) item) d1 d2"
      using that(2) stop through_refl [of "held_or_fetched E W (dk_files d) item", OF through_end [OF that(1)]]
      by (cases "r1 = Inr ()") auto
    have base: "through I d0 x = through I d (x :: ('k, 'f) loader)" for I x by (simp add: through_def d0)
    note plan = Cons.prems(1)
    show ?thesis
    proof (cases "item = it")
      case True
      have ok: "dest_ok ?p" using plan True by simp
      have off: "\<not> region (di_destination b) ?p \<and> \<not> region (di_destination b) (stamp_path ?p)" if "b \<in> set its" for b
        using plan that True by (auto simp: list_all_iff dest!: apart_region)
      have ks: "keeps (\<lambda>q. \<exists>b \<in> set its. region (di_destination b) q) (download_from E (i + 1) its :: (('k, 'f) loader, _, _) action)"
        by (rule download_from_keeps) auto
      have "guards (\<lambda>v. v = hm_get (dk_files d) ?p \<or> body_of E W (di_sha256 item) v) W ?p
          (download_one E i it :: (('k, 'f) loader, _, _) action)"
        using True ok by (auto intro!: download_one_guards)
      then have t1: "through (held_or_fetched E W (dk_files d) item) d0 d1"
        using one Cons.prems(3) d0 unfolding guards_def held_fun by (auto dest!: spec [of _ d0])
      have t2: "through (held_or_fetched E W (dk_files d) item) d1 d2"
      proof (rule more [OF t1])
        assume r1: "r1 = Inr ()"
        show "through (held_or_fetched E W (dk_files d) item) d1 d2"
          by (rule held_keeps [OF ks rest [OF r1] _ through_end [OF t1]]) (use off in blast)
      qed
      have "settled E (dk_files d2) item" if "r = Inr ()"
      proof -
        have r1: "r1 = Inr ()" using stop that by blast
        from download_one_settled [OF _ one [unfolded r1]] ok True have "settled E (dk_files d1) item" by simp
        with keeps_through(2) [OF ks rest [OF r1], of ?p] keeps_through(2) [OF ks rest [OF r1], of "stamp_path ?p"] off
        show ?thesis using settled_same [of "dk_files d2" item "dk_files d1" E] by auto
      qed
      with through_trans [OF t1 t2] show ?thesis by (simp add: base)
    next
      case False
      with Cons.prems(4) have mem: "item \<in> set its" by simp
      have off: "\<not> region (di_destination it) ?p"
        using plan mem by (auto simp: list_all_iff dest!: apart_region)
      have t1: "through (held_or_fetched E W (dk_files d) item) d0 d1"
        by (rule held_keeps [OF step_download_one(1) one off]) (simp add: held_or_fetched_def d0)
      have same: "hm_get (dk_files d1) ?p = hm_get (dk_files d) ?p"
        using keeps_through(2) [OF step_download_one(1) one off] d0 by simp
      have "plan_ok (map di_destination its)" using plan by simp
      from Cons.IH [OF this rest web mem]
      have ih: "r1 = Inr () \<Longrightarrow> through (held_or_fetched E W (dk_files d) item) d1 d2 \<and> (r = Inr () \<longrightarrow> settled E (dk_files d2) item)"
        unfolding held_fun same .
      have t2: "through (held_or_fetched E W (dk_files d) item) d1 d2"
        by (rule more [OF t1]) (rule ih [THEN conjunct1])
      have "r = Inr () \<longrightarrow> settled E (dk_files d2) item" using ih stop by blast
      with through_trans [OF t1 t2] show ?thesis by (simp add: base)
    qed
  qed
qed simp

text \<open>
  C12. Fetching the files of a model, whatever fails or is cancelled on the way and whatever the server
  answers: at every moment each destination holds what it held before, or the whole body of an answer,
  checked against its pin. When the fetch says it succeeded, every pinned file matches its pin or bears
  the stamp of an earlier check against that pin.
\<close>
theorem model_files_whole:
  assumes "plan_ok (map di_destination items)" "download_files E starting_file_index items d = (d2, r)"
  shows "list_all (\<lambda>item. through (held_or_fetched E (set (lo_web d)) (dk_files d) item) d d2
      \<and> (if r = Inr () then settled E (dk_files d2) item else True)) items"
  using download_from_whole [OF assms(1) assms(2) [unfolded download_files_def] subset_refl]
  by (simp add: list_all_iff)

text \<open>An example: two files, the second of them pinned and sent in two pieces.\<close>

definition sample_model_env :: "nat model_env" where
  "sample_model_env =
     \<lparr>me_sha = (\<lambda>t. ''sum:'' @ t), me_read_stamp = (\<lambda>_. None), me_stamp_json = (\<lambda>st. Some (vs_sha256 st)),
      me_uuid = (\<lambda>_. ''u''), me_dir_len = 4096, me_percent = whole_percents, me_elapsed = (\<lambda>_. 0)\<rparr>"

definition sample_loader :: "(unit, nat) loader" where
  "sample_loader =
     \<lparr>dk_files = [], dk_faults = [], dk_trace = [],
      lo_web = [WebBody \<lparr>hs_linked = None, hs_length = Some 2\<rparr> None [Some ''hi''],
                WebBody \<lparr>hs_linked = None, hs_length = Some 3\<rparr> None [Some ''a'', Some ''bc'']],
      lo_asked = [], lo_cancels = [], lo_tracker = None, lo_published = [], lo_mtimes = [Some 7], lo_drawn = 0\<rparr>"

definition sample_model_items :: "download_item list" where
  "sample_model_items =
     [\<lparr>di_url = ''https://dl/config'', di_destination = [''m'', ''config.json''], di_sha256 = None\<rparr>,
      \<lparr>di_url = ''https://dl/weights'', di_destination = [''m'', ''w.bin''], di_sha256 = Some ''sum:abc''\<rparr>]"

lemma model_files_whole_witness:
  "case download_files sample_model_env 0 sample_model_items sample_loader of
     (d2, r) \<Rightarrow>
       (case r of Inr _ \<Rightarrow> True | Inl _ \<Rightarrow> False)
       \<and> hm_get (dk_files d2) [''m'', ''w.bin''] = Some (IFile ''abc'')
       \<and> list_all (\<lambda>item. through (held_or_fetched sample_model_env (set (lo_web sample_loader)) (dk_files sample_loader) item)
           sample_loader d2 \<and> settled sample_model_env (dk_files d2) item) sample_model_items"
proof -
  obtain d2 r where run: "download_files sample_model_env 0 sample_model_items sample_loader = (d2, r)" by fastforce
  have "case download_files sample_model_env 0 sample_model_items sample_loader of
      (d2, r) \<Rightarrow> (case r of Inr _ \<Rightarrow> True | Inl _ \<Rightarrow> False) \<and> hm_get (dk_files d2) [''m'', ''w.bin''] = Some (IFile ''abc'')"
    by code_simp
  then have ok: "r = Inr ()" "hm_get (dk_files d2) [''m'', ''w.bin''] = Some (IFile ''abc'')"
    unfolding run by (auto split: sum.splits)
  have "plan_ok (map di_destination sample_model_items)" by code_simp
  from model_files_whole [OF this run] ok show ?thesis by (simp add: run)
qed

text \<open>A download that breaks off for any other reason than a user's leaves its temporary file behind.\<close>

lemma broken_download_leaves_file:
  "case download_one sample_model_env 0 (hd sample_model_items)
      (sample_loader\<lparr>lo_web := [WebBody \<lparr>hs_linked = None, hs_length = Some 2\<rparr> None [Some ''h'', None]]\<rparr>) of
     (d2, r) \<Rightarrow>
       (case r of Inl MNetwork \<Rightarrow> True | _ \<Rightarrow> False)
       \<and> hm_get (dk_files d2) [''m'', ''.tmp-u''] = Some (IFile ''h'')"
  by code_simp

end
