(* ===== verification/Forge_Releases.thy ===== *)
theory Forge_Releases
  imports Spec_Verify
begin

section \<open>Releases of a code forge\<close>

text \<open>
  \<open>super-engine-forge/src/lib.rs\<close> and \<open>github.rs\<close>: repository references, the releases a forge lists and
  the capped download of their assets. Replies are what \<open>reqwest\<close> hands back, a status and the chunks of
  a body; decoding their JSON is \<open>serde\<close>'s and a parameter.
\<close>

subsection \<open>Repository references\<close>

record repo_ref =
  rr_host :: string
  rr_owner :: string
  rr_repo :: string

definition strip_suffix :: "string \<Rightarrow> string \<Rightarrow> string option" where
  "strip_suffix suf s = map_option rev (strip_prefix (rev suf) (rev s))"

definition strip_suffix_or :: "string \<Rightarrow> string \<Rightarrow> string" where
  "strip_suffix_or suf s = (case strip_suffix suf s of Some r \<Rightarrow> r | None \<Rightarrow> s)"

definition trim_end_char :: "char \<Rightarrow> string \<Rightarrow> string" where
  "trim_end_char c s = rev (dropWhile (\<lambda>x. x = c) (rev s))"

definition strip_scheme :: "string \<Rightarrow> string" where
  "strip_scheme s =
     (case strip_prefix ''https://'' s of
        Some r \<Rightarrow> r
      | None \<Rightarrow> (case strip_prefix ''http://'' s of Some r \<Rightarrow> r | None \<Rightarrow> s))"

definition repo_ref_parse :: "string \<Rightarrow> string + repo_ref" where
  "repo_ref_parse input =
     (let a = strip_scheme (trim input);
          b = hd (split_on (CHR ''#'') a);
          c = hd (split_on (CHR ''?'') b);
          d = strip_suffix_or ''.git'' (trim_end_char (CHR ''/'') c)
      in case split_on (CHR ''/'') d of
           [h, ow, re] \<Rightarrow>
             ensure (h \<noteq> [] \<and> ow \<noteq> [] \<and> re \<noteq> []) input (Inr \<lparr>rr_host = h, rr_owner = ow, rr_repo = re\<rparr>)
         | _ \<Rightarrow> Inl input)"

definition repo_ref_canonical :: "repo_ref \<Rightarrow> string" where
  "repo_ref_canonical r = rr_host r @ ''/'' @ rr_owner r @ ''/'' @ rr_repo r"

datatype forge = Github

definition lowercase :: "string \<Rightarrow> string" where
  "lowercase s = map to_ascii_lower s"

definition forge_for_host :: "string \<Rightarrow> forge option" where
  "forge_for_host host = (if lowercase (trim host) = ''github.com'' then Some Github else None)"

definition accept_base_url :: "string \<Rightarrow> bool" where
  "accept_base_url url =
     (case strip_prefix ''https://'' url of
        Some rest \<Rightarrow> rest \<noteq> []
      | None \<Rightarrow>
          (case strip_prefix ''http://'' url of
             Some rest \<Rightarrow> starts_with ''localhost'' rest \<or> starts_with ''127.0.0.1'' rest \<or> starts_with ''[::1]'' rest
           | None \<Rightarrow> False))"

definition default_base :: string where
  "default_base = ''https://api.github.com''"

definition github_base :: "string option \<Rightarrow> string" where
  "github_base env =
     (case env of Some v \<Rightarrow> if accept_base_url v then v else default_base | None \<Rightarrow> default_base)"

subsection \<open>Releases\<close>

datatype release_kind = Published | Draft | Prerelease

record release_asset =
  ra_name :: string
  ra_url :: string
  ra_size :: u64

record forge_release =
  rel_tag :: string
  rel_kind :: release_kind
  rel_assets :: "release_asset list"

definition is_published :: "forge_release \<Rightarrow> bool" where
  "is_published r = (rel_kind r = Published)"

record gh_asset =
  gh_name :: string
  gh_browser_download_url :: string
  gh_size :: u64

record gh_release =
  gh_tag_name :: string
  gh_draft :: bool
  gh_prerelease :: bool
  gh_assets :: "gh_asset list"

definition release_asset_of :: "gh_asset \<Rightarrow> release_asset" where
  "release_asset_of a = \<lparr>ra_name = gh_name a, ra_url = gh_browser_download_url a, ra_size = gh_size a\<rparr>"

definition release_of :: "gh_release \<Rightarrow> forge_release" where
  "release_of r =
     \<lparr>rel_tag = gh_tag_name r,
      rel_kind = (if gh_draft r then Draft else if gh_prerelease r then Prerelease else Published),
      rel_assets = map release_asset_of (gh_assets r)\<rparr>"

subsection \<open>Requests\<close>

datatype forge_error = ForgeHttp "nat option" | ForgeTooLarge u64

datatype web_reply = Unreached | Answered nat "string option list"

definition forge_http_status :: "forge_error \<Rightarrow> nat option" where
  "forge_http_status e = (case e of ForgeHttp s \<Rightarrow> s | ForgeTooLarge _ \<Rightarrow> None)"

text \<open>\<open>send().await?.error_for_status()?\<close>: the chunks of a reply that is no error.\<close>

definition reply_body :: "web_reply \<Rightarrow> forge_error + string option list" where
  "reply_body r =
     (case r of
        Unreached \<Rightarrow> Inl (ForgeHttp None)
      | Answered status chunks \<Rightarrow>
          ensure (\<not> (400 \<le> status \<and> status < 600)) (ForgeHttp (Some status)) (Inr chunks))"

fun read_capped :: "u64 \<Rightarrow> string \<Rightarrow> string option list \<Rightarrow> forge_error + string" where
  "read_capped max_bytes body [] = Inr body"
| "read_capped max_bytes body (None # chunks) = Inl (ForgeHttp None)"
| "read_capped max_bytes body (Some chunk # chunks) =
     ensure (length body + length chunk \<le> unat max_bytes) (ForgeTooLarge max_bytes)
       (read_capped max_bytes (body @ chunk) chunks)"

definition forge_download :: "(string \<Rightarrow> web_reply) \<Rightarrow> string \<Rightarrow> u64 \<Rightarrow> forge_error + string" where
  "forge_download get url max_bytes = and_then (reply_body (get url)) (read_capped max_bytes [])"

definition decoded :: "(string \<Rightarrow> 'j option) \<Rightarrow> string option list \<Rightarrow> forge_error + 'j" where
  "decoded json chunks =
     (if None \<in> set chunks then Inl (ForgeHttp None)
      else case json (concat (List.map_filter id chunks)) of
          Some v \<Rightarrow> Inr v
        | None \<Rightarrow> Inl (ForgeHttp None))"

definition latest_release ::
  "(string \<Rightarrow> gh_release option) \<Rightarrow> string \<Rightarrow> (string \<Rightarrow> web_reply) \<Rightarrow> repo_ref \<Rightarrow> forge_error + forge_release" where
  "latest_release json base get repo =
     and_then (reply_body (get (base @ ''/repos/'' @ rr_owner repo @ ''/'' @ rr_repo repo @ ''/releases/latest'')))
       (\<lambda>chunks. and_then (decoded json chunks) (\<lambda>r. Inr (release_of r)))"

definition list_releases ::
  "(string \<Rightarrow> gh_release list option) \<Rightarrow> string \<Rightarrow> (string \<Rightarrow> web_reply) \<Rightarrow> repo_ref \<Rightarrow> forge_error + forge_release list" where
  "list_releases json base get repo =
     and_then (reply_body (get (base @ ''/repos/'' @ rr_owner repo @ ''/'' @ rr_repo repo @ ''/releases?per_page=100'')))
       (\<lambda>chunks. and_then (decoded json chunks) (\<lambda>rs. Inr (map release_of rs)))"

subsection \<open>What holds of them\<close>

lemma read_capped_ok:
  "read_capped m body chunks = Inr b \<longleftrightarrow>
     None \<notin> set chunks \<and> b = body @ concat (map the chunks) \<and> (chunks = [] \<or> length b \<le> unat m)"
proof (induction chunks arbitrary: body)
  case (Cons c cs)
  show ?case
    by (cases c) (auto simp: Cons.IH ensure_Inr)
qed auto

text \<open>
  What a download hands back is the whole body, never more than the cap, and it hands back every body
  that fits and was read to its end.
\<close>

theorem download_is_whole_and_capped:
  "forge_download get url m = Inr b \<longleftrightarrow>
     (\<exists>status chunks. get url = Answered status chunks \<and> \<not> (400 \<le> status \<and> status < 600)
        \<and> None \<notin> set chunks \<and> b = concat (map the chunks) \<and> length b \<le> unat m)"
  by (auto simp: forge_download_def and_then_Inr reply_body_def ensure_Inr read_capped_ok split: web_reply.splits)

lemma draft_wins: "rel_kind (release_of r) = Draft \<longleftrightarrow> gh_draft r"
  by (simp add: release_of_def)

lemma hd_split_on: "c \<notin> set s \<Longrightarrow> hd (split_on c s) = s"
  by (simp add: split_on_no_sep)

lemma strip_suffix_or_other:
  assumes "\<nexists>r. s = r @ suf"
  shows "strip_suffix_or suf s = s"
proof (cases "strip_prefix (rev suf) (rev s)")
  case (Some r)
  then have "rev s = rev suf @ r" by (simp add: strip_prefix_iff)
  then have "s = rev r @ suf" by (metis rev_append rev_rev_ident)
  with assms show ?thesis by blast
qed (simp add: strip_suffix_or_def strip_suffix_def)

lemma strip_suffix_or_app [simp]: "strip_suffix_or suf (r @ suf) = r"
  by (simp add: strip_suffix_or_def strip_suffix_def)

lemma trim_end_char_other: "s = [] \<or> last s \<noteq> c \<Longrightarrow> trim_end_char c s = s"
  unfolding trim_end_char_def by (cases s rule: rev_cases) auto

lemma split_three:
  "CHR ''/'' \<notin> set a \<Longrightarrow> CHR ''/'' \<notin> set b \<Longrightarrow> CHR ''/'' \<notin> set c \<Longrightarrow>
    split_on (CHR ''/'') (a @ ''/'' @ b @ ''/'' @ c) = [a, b, c]"
proof -
  have app: "split_on (CHR ''/'') (x @ ''/'' @ y) = x # split_on (CHR ''/'') y" if "CHR ''/'' \<notin> set x" for x y
    using that by (induction x) (auto split: list.split)
  assume "CHR ''/'' \<notin> set a" "CHR ''/'' \<notin> set b" "CHR ''/'' \<notin> set c"
  then show ?thesis using app [of a "b @ ''/'' @ c"] app [of b c] split_on_no_sep [of "CHR ''/''" c] by simp
qed

text \<open>A part of a repository's address, as forges name them, and the links people paste for it.\<close>

definition plain_segment :: "string \<Rightarrow> bool" where
  "plain_segment s =
     (s \<noteq> [] \<and> list_all (\<lambda>c. is_graphic c \<and> c \<notin> set ''/#?:'') s \<and> strip_suffix ''.git'' s = None)"

definition pasted_links :: "repo_ref \<Rightarrow> string list" where
  "pasted_links r =
     (let c = repo_ref_canonical r in
      [c, ''https://'' @ c, ''http://'' @ c, ''https://'' @ c @ ''/'', ''https://'' @ c @ ''.git'',
       ''https://'' @ c @ ''?tab=readme'', ''https://'' @ c @ ''#usage''])"

lemma scheme_absent:
  assumes "plain_segment h"
  shows "strip_scheme (h @ ''/'' @ t) = h @ ''/'' @ t"
proof -
  have no: "CHR '':'' \<notin> set h" "CHR ''/'' \<notin> set h" using assms by (auto simp: plain_segment_def list_all_iff)
  have tw: "takeWhile (\<lambda>c. c \<noteq> CHR ''/'') h = h" using no(2) by (auto simp: takeWhile_eq_all_conv)
  have "h = ''https:''" if "h @ ''/'' @ t = ''https://'' @ u" for u
    using arg_cong [OF that, of "takeWhile (\<lambda>c. c \<noteq> CHR ''/'')"] tw by (simp add: takeWhile_tail)
  moreover have "h = ''http:''" if "h @ ''/'' @ t = ''http://'' @ u" for u
    using arg_cong [OF that, of "takeWhile (\<lambda>c. c \<noteq> CHR ''/'')"] tw by (simp add: takeWhile_tail)
  ultimately have "strip_prefix ''https://'' (h @ ''/'' @ t) = None" "strip_prefix ''http://'' (h @ ''/'' @ t) = None"
    using no(1) by (auto simp: strip_prefix_iff simp del: not_None_eq simp flip: not_Some_eq)
  then show ?thesis by (simp add: strip_scheme_def)
qed

lemma strip_prefix_short:
  "strip_prefix p a = None \<Longrightarrow> x \<notin> set p \<Longrightarrow> strip_prefix p (a @ x # y) = None"
  by (induction p a rule: strip_prefix.induct) auto

lemma canonical_plain:
  assumes "plain_segment (rr_host r)" "plain_segment (rr_owner r)" "plain_segment (rr_repo r)"
  shows "list_all is_graphic (repo_ref_canonical r)"
    and "CHR ''#'' \<notin> set (repo_ref_canonical r)" "CHR ''?'' \<notin> set (repo_ref_canonical r)"
    and "last (repo_ref_canonical r) \<noteq> CHR ''/''" "repo_ref_canonical r \<noteq> []"
    and "strip_suffix ''.git'' (repo_ref_canonical r) = None"
    and "split_on (CHR ''/'') (repo_ref_canonical r) = [rr_host r, rr_owner r, rr_repo r]"
proof -
  have p: "list_all is_graphic s \<and> CHR ''#'' \<notin> set s \<and> CHR ''?'' \<notin> set s \<and> s \<noteq> []" if "plain_segment s" for s
    using that by (auto simp: plain_segment_def list_all_iff)
  show "list_all is_graphic (repo_ref_canonical r)" "CHR ''#'' \<notin> set (repo_ref_canonical r)"
    "CHR ''?'' \<notin> set (repo_ref_canonical r)" "repo_ref_canonical r \<noteq> []"
    using p [OF assms(1)] p [OF assms(2)] p [OF assms(3)]
    by (simp_all add: repo_ref_canonical_def is_graphic_def)
  show "last (repo_ref_canonical r) \<noteq> CHR ''/''"
    using assms(3) last_in_set [of "rr_repo r"] by (auto simp: repo_ref_canonical_def plain_segment_def list_all_iff)
  show "strip_suffix ''.git'' (repo_ref_canonical r) = None"
    using assms(3) by (simp add: repo_ref_canonical_def plain_segment_def strip_suffix_def strip_prefix_short)
  show "split_on (CHR ''/'') (repo_ref_canonical r) = [rr_host r, rr_owner r, rr_repo r]"
    unfolding repo_ref_canonical_def using assms by (intro split_three) (auto simp: plain_segment_def list_all_iff)
qed

text \<open>How each step of the parser reads an address with \<open>x\<close> behind the canonical form.\<close>

lemma parse_steps:
  assumes "plain_segment (rr_host r)" "plain_segment (rr_owner r)" "plain_segment (rr_repo r)"
    and "strip_scheme (trim link) = repo_ref_canonical r @ x"
    and "x \<in> set ['''', ''/'', ''.git'', ''?tab=readme'', ''#usage'']"
  shows "repo_ref_parse link = Inr r"
proof -
  note c = canonical_plain [OF assms(1-3)]
  have split: "split_on y (k @ z) = (k @ hd (split_on y z)) # tl (split_on y z)" if "y \<notin> set k" for y k z
    using that by (induction k) (auto split: list.split)
  have "hd (split_on (CHR ''?'') (hd (split_on (CHR ''#'') (repo_ref_canonical r @ x))))
      = repo_ref_canonical r @ (if x \<in> {''/'', ''.git''} then x else [])"
    using assms(5) by (auto simp: split c(2,3))
  moreover have "strip_suffix_or ''.git'' (trim_end_char (CHR ''/'') (repo_ref_canonical r @ (if x \<in> {''/'', ''.git''} then x else [])))
      = repo_ref_canonical r"
  proof -
    have "trim_end_char (CHR ''/'') (repo_ref_canonical r) = repo_ref_canonical r"
      "strip_suffix_or ''.git'' (repo_ref_canonical r) = repo_ref_canonical r"
      using c(4,6) by (simp_all add: trim_end_char_other strip_suffix_or_def)
    moreover from this(1) have "trim_end_char (CHR ''/'') (repo_ref_canonical r @ ''/'') = repo_ref_canonical r"
      by (simp add: trim_end_char_def)
    moreover have "trim_end_char (CHR ''/'') (repo_ref_canonical r @ ''.git'') = repo_ref_canonical r @ ''.git''"
      by (rule trim_end_char_other) simp
    ultimately show ?thesis by auto
  qed
  ultimately show ?thesis
    unfolding repo_ref_parse_def assms(4) Let_def using assms(1-3) by (simp add: c(7) plain_segment_def)
qed

text \<open>
  Every way people write a repository's address names the same repository, and what \<open>canonical\<close> writes
  is read back.
\<close>

theorem pasted_links_name_the_repository:
  assumes "plain_segment (rr_host r)" "plain_segment (rr_owner r)" "plain_segment (rr_repo r)"
  shows "list_all (\<lambda>link. repo_ref_parse link = Inr r) (pasted_links r)"
proof -
  note c = canonical_plain [OF assms]
  have sch: "strip_scheme (repo_ref_canonical r) = repo_ref_canonical r"
    using scheme_absent [OF assms(1), of "rr_owner r @ ''/'' @ rr_repo r"] by (simp add: repo_ref_canonical_def)
  have g: "list_all is_graphic x \<and> list_all is_graphic (''https://'' @ x) \<and> list_all is_graphic (''http://'' @ x)"
    if "x \<in> set ['''', ''/'', ''.git'', ''?tab=readme'', ''#usage'']" for x
    using that by (auto simp: is_graphic_def)
  have "strip_scheme (trim (p @ repo_ref_canonical r @ x)) = repo_ref_canonical r @ x"
    if "p \<in> set [''https://'', ''http://'']" "x \<in> set ['''', ''/'', ''.git'', ''?tab=readme'', ''#usage'']" for p x
  proof -
    have "trim (p @ repo_ref_canonical r @ x) = p @ repo_ref_canonical r @ x"
      using c(1) g [OF that(2)] that(1) by (intro trim_graphic) auto
    with that(1) show ?thesis by (auto simp: strip_scheme_def)
  qed
  from parse_steps [OF assms this] parse_steps [OF assms, of "repo_ref_canonical r" "''''"] sch c(1)
    parse_steps [OF assms this, of "''https://''" "''''"] parse_steps [OF assms this, of "''http://''" "''''"]
  show ?thesis by (simp add: pasted_links_def Let_def del: append_Cons)
qed

lemma pasted_links_name_the_repository_witness:
  "list_all (\<lambda>link. repo_ref_parse link = Inr \<lparr>rr_host = ''github.com'', rr_owner = ''example'', rr_repo = ''super-test''\<rparr>)
     (pasted_links \<lparr>rr_host = ''github.com'', rr_owner = ''example'', rr_repo = ''super-test''\<rparr>)"
  by (rule pasted_links_name_the_repository) (code_simp, code_simp, code_simp)

text \<open>
  The check for a loopback address looks at the first letters of the host only, so a host that merely
  begins like one passes, and is then spoken to in the clear.
\<close>

lemma loopback_prefix_is_not_loopback:
  "accept_base_url ''http://localhost.example.org''" "accept_base_url ''http://127.0.0.1.example.org/api''"
  "github_base (Some ''http://localhost.example.org'') = ''http://localhost.example.org''"
  by code_simp+

end
