(* ===== verification/Daemon_SelfUpdate.thy ===== *)
theory Daemon_SelfUpdate
  imports Forge_Releases Spec_Index SE_Wire Proto_Product
begin

section \<open>Checking for a newer release\<close>

text \<open>
  \<open>super-engine-daemon/src/self_update.rs\<close>: which release a daemon offers, which installer, with which
  digest, and how callers that arrive together share one check. Versions are the \<open>semver\<close> crate's, an
  ordered type with a parser; what the forge answers is an argument of each check.
\<close>

subsection \<open>Choosing\<close>

datatype beta_optin = Auto | Enabled | Disabled

definition target_triple :: "string \<Rightarrow> string \<Rightarrow> string option" where
  "target_triple os ar =
     (if os = ''linux'' \<and> ar = ''x86_64'' then Some ''x86_64-unknown-linux-gnu''
      else if os = ''linux'' \<and> ar = ''aarch64'' then Some ''aarch64-unknown-linux-gnu''
      else if os = ''macos'' \<and> ar = ''aarch64'' then Some ''aarch64-apple-darwin''
      else if os = ''macos'' \<and> ar = ''x86_64'' then Some ''x86_64-apple-darwin''
      else None)"

record 'v update_env =
  ue_semver :: "string \<Rightarrow> 'v option"
  ue_is_pre :: "'v \<Rightarrow> bool"
  ue_product :: product_spec
  ue_current :: string
  ue_triple :: "string option"
  ue_message :: "forge_error \<Rightarrow> string"

definition effective_beta_optin :: "'v update_env \<Rightarrow> beta_optin \<Rightarrow> bool" where
  "effective_beta_optin E optin =
     (case optin of
        Enabled \<Rightarrow> True
      | Disabled \<Rightarrow> False
      | Auto \<Rightarrow> (case parse_version (ue_semver E) (ue_current E) of Some v \<Rightarrow> ue_is_pre E v | None \<Rightarrow> False))"

definition eligible_kind :: "bool \<Rightarrow> forge_release \<Rightarrow> bool" where
  "eligible_kind include_pre r =
     (case rel_kind r of Published \<Rightarrow> True | Prerelease \<Rightarrow> include_pre | Draft \<Rightarrow> False)"

text \<open>\<open>max_by\<close>: of equal maxima, the last.\<close>

definition select_candidate :: "('v::linorder) update_env \<Rightarrow> bool \<Rightarrow> forge_release list \<Rightarrow> forge_release option" where
  "select_candidate E include_pre releases =
     map_option snd
       (iter_reduce (\<lambda>best x. if fst best \<le> fst x then x else best)
         (List.map_filter (\<lambda>r. map_option (\<lambda>v. (v, r)) (parse_version (ue_semver E) (rel_tag r)))
           (filter (eligible_kind include_pre) releases)))"

definition installer_name :: "product_spec \<Rightarrow> string \<Rightarrow> string" where
  "installer_name product triple = ps_slug product @ ''-install-'' @ triple"

definition find_installer_asset :: "product_spec \<Rightarrow> forge_release \<Rightarrow> string \<Rightarrow> release_asset option" where
  "find_installer_asset product r triple =
     find (\<lambda>a. ra_name a = installer_name product triple) (rel_assets r)"

record installer_asset =
  ia_name :: string
  ia_url :: string
  ia_size :: u64
  ia_sha256 :: string

definition resolve_installer_asset ::
  "product_spec \<Rightarrow> (string \<Rightarrow> u64 \<Rightarrow> forge_error + string) \<Rightarrow> forge_release \<Rightarrow> string \<Rightarrow> installer_asset option" where
  "resolve_installer_asset product download r triple =
     (case find_installer_asset product r triple of
        None \<Rightarrow> None
      | Some asset \<Rightarrow>
          (case find (\<lambda>a. ra_name a = ''SHA256SUMS'') (rel_assets r) of
             None \<Rightarrow> None
           | Some sums \<Rightarrow>
               (case download (ra_url sums) max_sha256sums_bytes of
                  Inl _ \<Rightarrow> None
                | Inr bytes \<Rightarrow>
                    if \<not> utf8_ok bytes then None
                    else map_option
                      (\<lambda>(digest, _). \<lparr>ia_name = ra_name asset, ia_url = ra_url asset, ia_size = ra_size asset, ia_sha256 = digest\<rparr>)
                      (find (\<lambda>(_, name). name = ra_name asset) (parse_sha256sums bytes)))))"

subsection \<open>What a check concludes\<close>

record update_status =
  us_current :: string
  us_latest :: "string option"
  us_available :: bool
  us_checked_at :: "string option"
  us_error :: "string option"
  us_beta :: bool
  us_installer :: "installer_asset option"

record checker_state =
  cs_status :: update_status
  cs_resolved :: "bool option"

text \<open>What one check is given: the caller's channel, the forge's answers, the clock.\<close>

record forge_check =
  fc_optin :: beta_optin
  fc_releases :: "forge_error + forge_release list"
  fc_download :: "string \<Rightarrow> u64 \<Rightarrow> forge_error + string"
  fc_time :: string

definition new_checker_state :: "'v update_env \<Rightarrow> checker_state" where
  "new_checker_state E =
     \<lparr>cs_status = \<lparr>us_current = ue_current E, us_latest = None, us_available = False, us_checked_at = None,
        us_error = None, us_beta = False, us_installer = None\<rparr>,
      cs_resolved = None\<rparr>"

definition found_releases ::
  "('v::linorder) update_env \<Rightarrow> forge_check \<Rightarrow> forge_release list \<Rightarrow> checker_state" where
  "found_releases E c releases =
     (let pre = effective_beta_optin E (fc_optin c);
          candidate = select_candidate E pre releases;
          available = (case candidate of
             Some r \<Rightarrow> update_available (ue_semver E) (ue_current E) (rel_tag r) | None \<Rightarrow> False);
          installer = (case (available, candidate, ue_triple E) of
             (True, Some r, Some t) \<Rightarrow> resolve_installer_asset (ue_product E) (fc_download c) r t
           | _ \<Rightarrow> None)
      in \<lparr>cs_status = \<lparr>us_current = ue_current E, us_latest = map_option rel_tag candidate,
            us_available = available, us_checked_at = Some (fc_time c), us_error = None, us_beta = pre,
            us_installer = installer\<rparr>,
          cs_resolved = Some pre\<rparr>)"

definition failed_check ::
  "'v update_env \<Rightarrow> forge_check \<Rightarrow> forge_error \<Rightarrow> checker_state \<Rightarrow> checker_state" where
  "failed_check E c e prev =
     (let pre = effective_beta_optin E (fc_optin c);
          same_channel = (cs_resolved prev = Some pre)
      in \<lparr>cs_status = \<lparr>us_current = ue_current E,
            us_latest = (if same_channel then us_latest (cs_status prev) else None),
            us_available = (same_channel \<and> us_available (cs_status prev)),
            us_checked_at = Some (fc_time c), us_error = Some (ue_message E e), us_beta = pre,
            us_installer = (if same_channel then us_installer (cs_status prev) else None)\<rparr>,
          cs_resolved = cs_resolved prev\<rparr>)"

definition check_result ::
  "('v::linorder) update_env \<Rightarrow> forge_check \<Rightarrow> checker_state \<Rightarrow> checker_state" where
  "check_result E c prev =
     (case fc_releases c of Inr rs \<Rightarrow> found_releases E c rs | Inl e \<Rightarrow> failed_check E c e prev)"

definition status_for :: "'v update_env \<Rightarrow> beta_optin \<Rightarrow> checker_state \<Rightarrow> update_status" where
  "status_for E optin st =
     (if cs_resolved st = None then (cs_status st)\<lparr>us_beta := effective_beta_optin E optin\<rparr> else cs_status st)"

subsection \<open>Callers\<close>

text \<open>
  \<open>run_check\<close> of one caller, cut where other tasks can run: it reads the generation as it arrives, waits
  for the lock, asks the forge, stores the result, and at last moves the generation on and lets go. A
  caller that is cancelled while it waits lets go too. \<open>finished\<close> is the history the theorems speak of:
  the checks done so far with what they stored. A caller notes how many there were when it arrived.
\<close>

datatype caller =
    Away
  | Waiting beta_optin u64 nat
  | Asking beta_optin nat
  | Stored forge_check update_status nat
  | Back update_status bool nat

record checker =
  ck_state :: checker_state
  ck_generation :: u64
  ck_lock :: "nat option"
  ck_callers :: "caller list"
  ck_finished :: "(forge_check \<times> checker_state) list"

datatype check_event =
    Arrive nat beta_optin
  | Enter nat
  | Store nat "forge_error + forge_release list" "string \<Rightarrow> u64 \<Rightarrow> forge_error + string" string
  | Finish nat
  | Abandon nat

definition new_checker :: "'v update_env \<Rightarrow> nat \<Rightarrow> checker" where
  "new_checker E callers =
     \<lparr>ck_state = new_checker_state E, ck_generation = 0, ck_lock = None, ck_callers = replicate callers Away,
      ck_finished = []\<rparr>"

definition put :: "nat \<Rightarrow> caller \<Rightarrow> checker \<Rightarrow> checker" where
  "put i p k = k\<lparr>ck_callers := (ck_callers k)[i := p]\<rparr>"

definition check_step :: "('v::linorder) update_env \<Rightarrow> check_event \<Rightarrow> checker \<Rightarrow> checker option" where
  "check_step E ev k =
     (case ev of
        Arrive i optin \<Rightarrow>
          if i < length (ck_callers k)
          then case ck_callers k ! i of
              Away \<Rightarrow> Some (put i (Waiting optin (ck_generation k) (length (ck_finished k))) k)
            | _ \<Rightarrow> None
          else None
      | Enter i \<Rightarrow>
          if i < length (ck_callers k) \<and> ck_lock k = None
          then case ck_callers k ! i of
              Waiting optin before n \<Rightarrow>
                Some (if ck_generation k \<noteq> before then put i (Back (cs_status (ck_state k)) False n) k
                      else put i (Asking optin n) (k\<lparr>ck_lock := Some i\<rparr>))
            | _ \<Rightarrow> None
          else None
      | Store i releases download time \<Rightarrow>
          if i < length (ck_callers k)
          then case ck_callers k ! i of
              Asking optin n \<Rightarrow>
                let c = \<lparr>fc_optin = optin, fc_releases = releases, fc_download = download, fc_time = time\<rparr>;
                    new = check_result E c (ck_state k)
                in Some (put i (Stored c (cs_status new) n) (k\<lparr>ck_state := new\<rparr>))
            | _ \<Rightarrow> None
          else None
      | Finish i \<Rightarrow>
          if i < length (ck_callers k)
          then case ck_callers k ! i of
              Stored c st n \<Rightarrow>
                Some (put i (Back st True n)
                  (k\<lparr>ck_generation := ck_generation k + 1, ck_lock := None,
                     ck_finished := ck_finished k @ [(c, ck_state k)]\<rparr>))
            | _ \<Rightarrow> None
          else None
      | Abandon i \<Rightarrow>
          if i < length (ck_callers k)
          then case ck_callers k ! i of
              Waiting _ _ _ \<Rightarrow> Some (put i Away k)
            | Asking _ _ \<Rightarrow> Some (put i Away (k\<lparr>ck_lock := None\<rparr>))
            | _ \<Rightarrow> None
          else None)"

fun check_run :: "('v::linorder) update_env \<Rightarrow> check_event list \<Rightarrow> checker \<Rightarrow> checker option" where
  "check_run E [] k = Some k"
| "check_run E (ev # evs) k = Option.bind (check_step E ev k) (check_run E evs)"

definition should_notify :: "string option \<Rightarrow> string \<Rightarrow> bool" where
  "should_notify notified tag = (notified \<noteq> Some tag)"

definition record_notified :: "string option \<Rightarrow> string \<Rightarrow> string option" where
  "record_notified notified tag = Some tag"

subsection \<open>An offer is what the forge published\<close>

text \<open>
  \<open>installer_vouched\<close>: the installer is the release's own file of that name, and its digest is the one
  the release's \<open>SHA256SUMS\<close> lists. \<open>offer_sound\<close>: the version offered is the newest of a list the forge
  answered with, among the releases of the channel the status names.
\<close>

definition installer_vouched :: "'v update_env \<Rightarrow> forge_check \<Rightarrow> forge_release \<Rightarrow> installer_asset \<Rightarrow> bool" where
  "installer_vouched E c r a =
     (\<exists>t asset sums bytes. ue_triple E = Some t \<and> asset \<in> set (rel_assets r)
        \<and> ra_name asset = ia_name a \<and> ra_url asset = ia_url a \<and> ra_size asset = ia_size a
        \<and> ia_name a = installer_name (ue_product E) t
        \<and> sums \<in> set (rel_assets r) \<and> ra_name sums = ''SHA256SUMS''
        \<and> fc_download c (ra_url sums) max_sha256sums_bytes = Inr bytes
        \<and> (ia_sha256 a, ia_name a) \<in> set (parse_sha256sums bytes))"

definition newest_of :: "('v::linorder) update_env \<Rightarrow> bool \<Rightarrow> forge_release list \<Rightarrow> forge_release \<Rightarrow> bool" where
  "newest_of E pre rs r =
     (r \<in> set rs \<and> eligible_kind pre r
      \<and> (\<exists>v. parse_version (ue_semver E) (rel_tag r) = Some v
          \<and> (\<forall>r' \<in> set rs. \<forall>v'. eligible_kind pre r' \<longrightarrow> parse_version (ue_semver E) (rel_tag r') = Some v' \<longrightarrow> v' \<le> v)))"

definition offer_sound :: "('v::linorder) update_env \<Rightarrow> forge_check list \<Rightarrow> update_status \<Rightarrow> bool" where
  "offer_sound E checks st =
     (case us_latest st of
        None \<Rightarrow> \<not> us_available st \<and> us_installer st = None
      | Some tag \<Rightarrow>
          (\<exists>c rs r. c \<in> set checks \<and> fc_releases c = Inr rs \<and> effective_beta_optin E (fc_optin c) = us_beta st
             \<and> newest_of E (us_beta st) rs r \<and> rel_tag r = tag
             \<and> us_available st = update_available (ue_semver E) (ue_current E) tag
             \<and> (case us_installer st of None \<Rightarrow> True | Some a \<Rightarrow> us_available st \<and> installer_vouched E c r a)))"

lemma offer_sound_more: "offer_sound E cs st \<Longrightarrow> offer_sound E (cs @ ds) st"
  by (fastforce simp: offer_sound_def split: option.splits)

lemma offer_sound_cong:
  "us_latest st = us_latest st2 \<Longrightarrow> us_available st = us_available st2 \<Longrightarrow> us_installer st = us_installer st2 \<Longrightarrow>
    us_beta st = us_beta st2 \<Longrightarrow> offer_sound E cs st = offer_sound E cs st2"
  by (simp add: offer_sound_def split: option.split)

lemma max_fold:
  "foldl (\<lambda>best x. if fst best \<le> fst x then x else best) b xs \<in> set (b # xs)
   \<and> (\<forall>x \<in> set (b # xs). fst x \<le> fst (foldl (\<lambda>best x. if fst best \<le> fst x then x else best) b xs))"
  for b :: "('v::linorder) \<times> 'a"
proof (induction xs arbitrary: b)
  case (Cons x xs)
  show ?case
  proof (cases "fst b \<le> fst x")
    case True
    with Cons.IH [of x] show ?thesis by (auto intro: order_trans)
  next
    case False
    with Cons.IH [of b] show ?thesis by (auto intro: order_trans)
  qed
qed simp

lemma select_candidate_newest:
  assumes "select_candidate E pre rs = Some r"
  shows "newest_of E pre rs r"
proof -
  let ?xs = "List.map_filter (\<lambda>r. map_option (\<lambda>v. (v, r)) (parse_version (ue_semver E) (rel_tag r)))
      (filter (eligible_kind pre) rs)"
  have mem: "(v, q) \<in> set ?xs \<longleftrightarrow> q \<in> set rs \<and> eligible_kind pre q \<and> parse_version (ue_semver E) (rel_tag q) = Some v" for v q
    by (force simp: List.map_filter_def)
  from assms obtain b xs where xs: "?xs = b # xs" by (cases ?xs) (auto simp: select_candidate_def)
  define m where "m = foldl (\<lambda>best x. if fst best \<le> fst x then x else best) b xs"
  from xs assms have r: "r = snd m" by (simp add: select_candidate_def m_def)
  from max_fold [of b xs] have top: "m \<in> set ?xs" "\<forall>x \<in> set ?xs. fst x \<le> fst m"
    unfolding xs m_def by blast+
  obtain v where v: "m = (v, r)" using r by (cases m) simp
  have "v' \<le> v" if "r' \<in> set rs" "eligible_kind pre r'" "parse_version (ue_semver E) (rel_tag r') = Some v'" for r' v'
    using top(2) [rule_format, of "(v', r')", unfolded v mem] that by simp
  moreover have "(v, r) \<in> set ?xs" using top(1) unfolding v .
  then have "r \<in> set rs" "eligible_kind pre r" "parse_version (ue_semver E) (rel_tag r) = Some v"
    unfolding mem by auto
  ultimately show ?thesis unfolding newest_of_def by auto
qed

lemma installer_is_vouched:
  assumes "ue_triple E = Some t" "resolve_installer_asset (ue_product E) (fc_download c) r t = Some a"
  shows "installer_vouched E c r a"
proof -
  from assms(2) obtain asset sums bytes where
    as: "find (\<lambda>a. ra_name a = installer_name (ue_product E) t) (rel_assets r) = Some asset"
    and su: "find (\<lambda>a. ra_name a = ''SHA256SUMS'') (rel_assets r) = Some sums"
    and dl: "fc_download c (ra_url sums) max_sha256sums_bytes = Inr bytes"
    and ent: "map_option (\<lambda>(digest, _). \<lparr>ia_name = ra_name asset, ia_url = ra_url asset, ia_size = ra_size asset,
      ia_sha256 = digest\<rparr>) (find (\<lambda>(_, name). name = ra_name asset) (parse_sha256sums bytes)) = Some a"
    by (auto simp: resolve_installer_asset_def find_installer_asset_def split: option.splits sum.splits if_splits)
  from ent obtain digest name where e: "find (\<lambda>(_, name). name = ra_name asset) (parse_sha256sums bytes) = Some (digest, name)"
    "a = \<lparr>ia_name = ra_name asset, ia_url = ra_url asset, ia_size = ra_size asset, ia_sha256 = digest\<rparr>"
    by auto
  show ?thesis unfolding installer_vouched_def
    using find_SomeD [OF as] find_SomeD [OF su] find_SomeD [OF e(1)] dl e(2) assms(1)
    by - (rule exI [of _ t], rule exI [of _ asset], rule exI [of _ sums], rule exI [of _ bytes], auto)
qed

definition entry_ok :: "('v::linorder) update_env \<Rightarrow> forge_check list \<Rightarrow> checker_state \<Rightarrow> bool" where
  "entry_ok E checks s =
     (offer_sound E checks (cs_status s)
      \<and> (us_latest (cs_status s) \<noteq> None \<longrightarrow> cs_resolved s = Some (us_beta (cs_status s))))"

lemma entry_found: "fc_releases c = Inr rs \<Longrightarrow> entry_ok E (cs @ [c]) (found_releases E c rs)"
proof (cases "select_candidate E (effective_beta_optin E (fc_optin c)) rs")
  case (Some r)
  assume c: "fc_releases c = Inr rs"
  from select_candidate_newest [OF Some] c Some show ?thesis
    by (auto simp: entry_ok_def offer_sound_def found_releases_def Let_def split: option.split bool.split
        intro!: exI [of _ c] exI [of _ r] dest: installer_is_vouched)
qed (auto simp: entry_ok_def offer_sound_def found_releases_def Let_def)

lemma entry_failed: "entry_ok E cs prev \<Longrightarrow> entry_ok E (cs @ [c]) (failed_check E c e prev)"
proof (cases "cs_resolved prev = Some (effective_beta_optin E (fc_optin c)) \<and> us_latest (cs_status prev) \<noteq> None")
  case True
  assume ok: "entry_ok E cs prev"
  with True have "us_beta (cs_status prev) = effective_beta_optin E (fc_optin c)" by (auto simp: entry_ok_def)
  with True have "offer_sound E (cs @ [c]) (cs_status (failed_check E c e prev))
      = offer_sound E (cs @ [c]) (cs_status prev)"
    by (intro offer_sound_cong) (auto simp: failed_check_def Let_def)
  with True offer_sound_more [of E cs "cs_status prev" "[c]"] ok show ?thesis
    by (simp add: entry_ok_def) (simp add: failed_check_def Let_def)
qed (auto simp: entry_ok_def failed_check_def Let_def offer_sound_def split: option.splits)

lemma entry_result: "entry_ok E cs prev \<Longrightarrow> entry_ok E (cs @ [c]) (check_result E c prev)"
  by (auto simp: check_result_def entry_found entry_failed split: sum.split)

subsection \<open>The callers' invariant\<close>

definition latest :: "'v update_env \<Rightarrow> checker \<Rightarrow> checker_state" where
  "latest E k = (if ck_finished k = [] then new_checker_state E else snd (last (ck_finished k)))"

definition answer_from :: "checker \<Rightarrow> nat \<Rightarrow> update_status \<Rightarrow> bool" where
  "answer_from k n st = (\<exists>j. n \<le> j \<and> j < length (ck_finished k) \<and> st = cs_status (snd (ck_finished k ! j)))"

fun caller_ok :: "('v::linorder) update_env \<Rightarrow> checker \<Rightarrow> caller \<Rightarrow> bool" where
  "caller_ok E k Away = True"
| "caller_ok E k (Waiting _ before n) = (n \<le> length (ck_finished k) \<and> before = of_nat n)"
| "caller_ok E k (Asking _ n) =
     (n \<le> length (ck_finished k) \<and> ck_state k = latest E k \<and> (of_nat n :: u64) = of_nat (length (ck_finished k)))"
| "caller_ok E k (Stored c st n) =
     (n \<le> length (ck_finished k) \<and> ck_state k = check_result E c (latest E k) \<and> st = cs_status (ck_state k))"
| "caller_ok E k (Back st _ n) = answer_from k n st"

fun holds :: "caller \<Rightarrow> bool" where
  "holds (Asking _ _) = True"
| "holds (Stored _ _ _) = True"
| "holds _ = False"

definition checker_ok :: "('v::linorder) update_env \<Rightarrow> checker \<Rightarrow> bool" where
  "checker_ok E k =
     (ck_generation k = of_nat (length (ck_finished k))
      \<and> (\<forall>i < length (ck_callers k). holds (ck_callers k ! i) = (ck_lock k = Some i))
      \<and> (ck_lock k = None \<longrightarrow> ck_state k = latest E k)
      \<and> (\<forall>i < length (ck_callers k). caller_ok E k (ck_callers k ! i))
      \<and> entry_ok E (map fst (ck_finished k)) (latest E k)
      \<and> (\<forall>(c, s) \<in> set (ck_finished k). offer_sound E (map fst (ck_finished k)) (cs_status s)))"

lemma new_checker_ok: "checker_ok E (new_checker E m)"
  by (auto simp: checker_ok_def new_checker_def latest_def entry_ok_def offer_sound_def new_checker_state_def)

lemma put_simps [simp]:
  "ck_state (put i p k) = ck_state k" "ck_generation (put i p k) = ck_generation k" "ck_lock (put i p k) = ck_lock k"
  "ck_finished (put i p k) = ck_finished k" "ck_callers (put i p k) = (ck_callers k)[i := p]"
  "latest E (put i p k) = latest E k" "answer_from (put i p k) n st = answer_from k n st"
  by (simp_all add: put_def latest_def answer_from_def)

lemma caller_ok_put [simp]: "caller_ok E (put i p k) q = caller_ok E k q"
  by (cases q) simp_all

lemma caller_ok_later:
  assumes "caller_ok E k q" "ck_finished k2 = ck_finished k @ new"
    and "holds q \<Longrightarrow> ck_state k2 = ck_state k \<and> new = []"
  shows "caller_ok E k2 q"
proof -
  have l: "latest E k2 = latest E k" if "new = []" using that assms(2) by (simp add: latest_def)
  have a: "answer_from k n st \<Longrightarrow> answer_from k2 n st" for n st
    unfolding answer_from_def assms(2) by (auto simp: nth_append intro: exI [where P = "\<lambda>j. n \<le> j \<and> _ j"])
  from assms l a show ?thesis by (cases q) auto
qed

lemma checker_ok_move:
  assumes ok: "checker_ok E k" and i: "i < length (ck_callers k)"
    and k1: "ck_callers k1 = ck_callers k" "ck_finished k1 = ck_finished k @ new"
    and gen: "ck_generation k1 = of_nat (length (ck_finished k1))"
    and lock: "holds p = (ck_lock k1 = Some i)" "ck_lock k1 = None \<Longrightarrow> ck_state k1 = latest E k1"
    and quiet: "(ck_lock k1 = ck_lock k \<and> ck_state k1 = ck_state k \<and> new = []) \<or>
      (ck_lock k \<in> {None, Some i} \<and> ck_lock k1 \<in> {None, Some i})"
    and p: "caller_ok E k1 p" and en: "entry_ok E (map fst (ck_finished k1)) (latest E k1)"
    and off: "\<forall>(c, s) \<in> set new. offer_sound E (map fst (ck_finished k1)) (cs_status s)"
  shows "checker_ok E (put i p k1)"
proof -
  have "holds ((ck_callers k)[i := p] ! j) = (ck_lock k1 = Some j)" if "j < length (ck_callers k)" for j
    using that ok lock(1) quiet by (cases "j = i") (auto simp: checker_ok_def)
  moreover have "caller_ok E k1 ((ck_callers k)[i := p] ! j)" if j: "j < length (ck_callers k)" for j
  proof (cases "j = i")
    case False
    from ok j have "caller_ok E k (ck_callers k ! j)" "holds (ck_callers k ! j) = (ck_lock k = Some j)"
      by (simp_all add: checker_ok_def)
    with False quiet show ?thesis by (auto intro!: caller_ok_later [OF _ k1(2)])
  qed (use p i in simp)
  moreover have "\<forall>(c, s) \<in> set (ck_finished k1). offer_sound E (map fst (ck_finished k1)) (cs_status s)"
    using ok off offer_sound_more unfolding checker_ok_def k1(2) by fastforce
  ultimately show ?thesis unfolding checker_ok_def using gen lock(2) en by (simp add: k1(1))
qed

lemma check_step_ok:
  assumes ok: "checker_ok E k" and "check_step E ev k = Some k2"
  shows "checker_ok E k2"
proof (cases ev)
  case (Arrive i optin)
  with assms have i: "i < length (ck_callers k)" "ck_callers k ! i = Away"
    "k2 = put i (Waiting optin (ck_generation k) (length (ck_finished k))) k"
    by (auto simp: check_step_def split: if_splits caller.splits)
  from ok i(1,2) have "ck_lock k \<noteq> Some i" by (auto simp: checker_ok_def dest!: spec [of _ i])
  then show ?thesis unfolding i(3)
    by (intro checker_ok_move [OF ok i(1), where new = "[]"]) (use ok in \<open>auto simp: checker_ok_def\<close>)
next
  case (Enter i)
  with assms obtain optin before n where i: "i < length (ck_callers k)" "ck_lock k = None"
    "ck_callers k ! i = Waiting optin before n"
    "k2 = (if ck_generation k \<noteq> before then put i (Back (cs_status (ck_state k)) False n) k
           else put i (Asking optin n) (k\<lparr>ck_lock := Some i\<rparr>))"
    by (auto simp: check_step_def split: if_splits caller.splits)
  from ok i have w: "n \<le> length (ck_finished k)" "before = of_nat n" "ck_state k = latest E k"
    "ck_generation k = of_nat (length (ck_finished k))"
    by (auto simp: checker_ok_def dest!: spec [of _ i])
  show ?thesis
  proof (cases "ck_generation k = before")
    case False
    with w have "n < length (ck_finished k)" by (cases "n = length (ck_finished k)") auto
    with w(3) have "answer_from k n (cs_status (ck_state k))"
      by (auto simp: answer_from_def latest_def last_conv_nth intro!: exI [of _ "length (ck_finished k) - 1"])
    moreover have "k2 = put i (Back (cs_status (ck_state k)) False n) k" using False i(4) by simp
    ultimately show ?thesis using ok i(2)
      by (auto intro!: checker_ok_move [OF ok i(1), where new = "[]"]) (auto simp: checker_ok_def)
  next
    case True
    have "latest E (k\<lparr>ck_lock := Some i\<rparr>) = latest E k" by (simp add: latest_def)
    moreover have "k2 = put i (Asking optin n) (k\<lparr>ck_lock := Some i\<rparr>)" using True i(4) by simp
    ultimately show ?thesis using ok i(2) w True
      by (auto intro!: checker_ok_move [OF ok i(1), where new = "[]"]) (auto simp: checker_ok_def)
  qed
next
  case (Store i releases download time)
  with assms obtain optin n c where i: "i < length (ck_callers k)" "ck_callers k ! i = Asking optin n"
    "k2 = put i (Stored c (cs_status (check_result E c (ck_state k))) n) (k\<lparr>ck_state := check_result E c (ck_state k)\<rparr>)"
    by (auto simp: check_step_def Let_def split: if_splits caller.splits)
  from ok i have w: "n \<le> length (ck_finished k)" "ck_state k = latest E k" "ck_lock k = Some i"
    by (auto simp: checker_ok_def dest!: spec [of _ i])
  have "latest E (k\<lparr>ck_state := s\<rparr>) = latest E k" for s by (simp add: latest_def)
  then show ?thesis unfolding i(3) using ok i(2) w
    by (intro checker_ok_move [OF ok i(1), where new = "[]"]) (auto simp: checker_ok_def)
next
  case (Finish i)
  with assms obtain c st n where i: "i < length (ck_callers k)" "ck_callers k ! i = Stored c st n"
    "k2 = put i (Back st True n) (k\<lparr>ck_generation := ck_generation k + 1, ck_lock := None,
       ck_finished := ck_finished k @ [(c, ck_state k)]\<rparr>)" (is "_ = put i _ ?k1")
    by (auto simp: check_step_def split: if_splits caller.splits)
  from ok i have w: "n \<le> length (ck_finished k)" "ck_state k = check_result E c (latest E k)" "ck_lock k = Some i"
    "st = cs_status (ck_state k)" "entry_ok E (map fst (ck_finished k)) (latest E k)"
    by (auto simp: checker_ok_def dest!: spec [of _ i])
  have l: "latest E ?k1 = ck_state k" by (simp add: latest_def)
  have e: "entry_ok E (map fst (ck_finished k) @ [c]) (ck_state k)" using entry_result [OF w(5)] w(2) by simp
  have a: "answer_from ?k1 n st" using w(1,4) by (auto simp: answer_from_def intro!: exI [of _ "length (ck_finished k)"])
  show ?thesis unfolding i(3)
    by (rule checker_ok_move [OF ok i(1), where new = "[(c, ck_state k)]"])
      (use ok i w l e a in \<open>auto simp: checker_ok_def entry_ok_def\<close>)
next
  case (Abandon i)
  with assms consider (waits) optin before n where "i < length (ck_callers k)" "ck_callers k ! i = Waiting optin before n"
      "k2 = put i Away k"
    | (asks) optin n where "i < length (ck_callers k)" "ck_callers k ! i = Asking optin n"
      "k2 = put i Away (k\<lparr>ck_lock := None\<rparr>)"
    by (auto simp: check_step_def split: if_splits caller.splits)
  then show ?thesis
  proof cases
    case waits
    with ok have "ck_lock k \<noteq> Some i" by (auto simp: checker_ok_def dest!: spec [of _ i])
    then show ?thesis unfolding waits(3) using ok
      by (intro checker_ok_move [OF ok waits(1), where new = "[]"]) (auto simp: checker_ok_def)
  next
    case asks
    with ok have w: "ck_lock k = Some i" "ck_state k = latest E k" by (auto simp: checker_ok_def dest!: spec [of _ i])
    have "latest E (k\<lparr>ck_lock := None\<rparr>) = latest E k" by (simp add: latest_def)
    then show ?thesis unfolding asks(3) using ok w
      by (intro checker_ok_move [OF ok asks(1), where new = "[]"]) (auto simp: checker_ok_def)
  qed
qed

lemma check_run_ok: "checker_ok E k \<Longrightarrow> check_run E evs k = Some k2 \<Longrightarrow> checker_ok E k2"
  by (induction evs arbitrary: k) (auto simp: bind_eq_Some_conv intro: check_step_ok)

subsection \<open>Properties\<close>

text \<open>
  C16. Whatever order callers arrive, wait, ask and are cancelled in, a status \<open>run_check\<close> hands back names
  as available only the newest eligible release of a list the forge answered with, under the very channel
  the status reports, when it is newer than the running daemon; and it names an installer only with the
  digest that release's own \<open>SHA256SUMS\<close> lists for the file of that name.
\<close>
theorem update_offers_are_published:
  assumes "check_run E evs (new_checker E callers) = Some k"
  shows "list_all (\<lambda>p. case p of Back st _ _ \<Rightarrow> offer_sound E (map fst (ck_finished k)) st | _ \<Rightarrow> True) (ck_callers k)"
proof -
  from check_run_ok [OF new_checker_ok assms] have ok: "checker_ok E k" .
  show ?thesis unfolding list_all_length
  proof (intro allI impI)
    fix i assume "i < length (ck_callers k)"
    with ok have "caller_ok E k (ck_callers k ! i)" by (simp add: checker_ok_def)
    with ok show "case ck_callers k ! i of Back st _ _ \<Rightarrow> offer_sound E (map fst (ck_finished k)) st | _ \<Rightarrow> True"
      by (cases "ck_callers k ! i") (auto simp: checker_ok_def answer_from_def dest!: nth_mem)
  qed
qed

text \<open>
  C21. Callers share: at most one asks the forge at a time, a caller is handed the result of a check that was
  not finished when it arrived, and a caller that a check finished past asks nothing itself (as long as
  the counter of checks has not wrapped).
\<close>
theorem update_checks_are_shared:
  assumes "check_run E evs (new_checker E callers) = Some k"
  shows "card {i. i < length (ck_callers k) \<and> holds (ck_callers k ! i)} \<le> 1
    \<and> list_all (\<lambda>p. case p of
         Back st _ n \<Rightarrow> answer_from k n st
       | Asking _ n \<Rightarrow> (if length (ck_finished k) < 2 ^ 64 then n = length (ck_finished k) else True)
       | _ \<Rightarrow> True) (ck_callers k)"
proof
  from check_run_ok [OF new_checker_ok assms] have ok: "checker_ok E k" .
  have "{i. i < length (ck_callers k) \<and> holds (ck_callers k ! i)} \<subseteq> set_option (ck_lock k)"
    using ok by (auto simp: checker_ok_def)
  then have "card {i. i < length (ck_callers k) \<and> holds (ck_callers k ! i)} \<le> card (set_option (ck_lock k))"
    by (rule card_mono [rotated]) (cases "ck_lock k"; simp)
  also have "\<dots> \<le> 1" by (cases "ck_lock k") simp_all
  finally show "card {i. i < length (ck_callers k) \<and> holds (ck_callers k ! i)} \<le> 1" .
  have "case p of Back st _ n \<Rightarrow> answer_from k n st
       | Asking _ n \<Rightarrow> (if length (ck_finished k) < 2 ^ 64 then n = length (ck_finished k) else True)
       | _ \<Rightarrow> True" if "caller_ok E k p" for p
  proof (cases p)
    case (Asking optin n)
    with that have "n \<le> length (ck_finished k)" "(of_nat n :: u64) = of_nat (length (ck_finished k))" by simp_all
    moreover have "unat (of_nat m :: u64) = m" if "m < 2 ^ 64" for m
      using that by (simp add: unat_of_nat take_bit_nat_eq_self)
    ultimately have "length (ck_finished k) < 2 ^ 64 \<Longrightarrow> n = length (ck_finished k)"
      by (metis le_less_trans)
    with Asking show ?thesis by simp
  qed (use that in simp_all)
  with ok show "list_all (\<lambda>p. case p of
         Back st _ n \<Rightarrow> answer_from k n st
       | Asking _ n \<Rightarrow> (if length (ck_finished k) < 2 ^ 64 then n = length (ck_finished k) else True)
       | _ \<Rightarrow> True) (ck_callers k)"
    unfolding list_all_length checker_ok_def by blast
qed

text \<open>
  An example: two callers together, a release with an installer and its digest. Versions are plain
  numbers here.
\<close>

definition sample_env :: "nat update_env" where
  "sample_env = \<lparr>ue_semver = parse_unsigned 1000, ue_is_pre = (\<lambda>v. v mod 2 = 1),
     ue_product = \<lparr>ps_display_name = ''Super Test'', ps_slug = ''super-test'', ps_short_name = ''test'',
       ps_env_prefix = ''SUPER_TEST'', ps_tcp_port = 4000, ps_repo = ''github.com/example/super-test'', ps_index_url = '''',
       ps_scopes = [], ps_topics = []\<rparr>,
     ue_current = ''2'', ue_triple = target_triple ''linux'' ''aarch64'', ue_message = (\<lambda>_. ''unreachable'')\<rparr>"

definition sample_asset :: "string \<Rightarrow> release_asset" where
  "sample_asset name = \<lparr>ra_name = name, ra_url = ''https://dl/'' @ name, ra_size = 7\<rparr>"

definition sample_release :: "string \<Rightarrow> release_kind \<Rightarrow> forge_release" where
  "sample_release tag kind = \<lparr>rel_tag = tag, rel_kind = kind,
     rel_assets = map sample_asset [''super-test-install-aarch64-unknown-linux-gnu'', ''SHA256SUMS'']\<rparr>"

definition sample_sums :: "string \<Rightarrow> u64 \<Rightarrow> forge_error + string" where
  "sample_sums url m = Inr (replicate 64 (CHR ''a'') @ ''  super-test-install-aarch64-unknown-linux-gnu'')"

definition sample_answer :: "forge_error + forge_release list" where
  "sample_answer = Inr [sample_release ''v4'' Published, sample_release ''v5'' Prerelease, sample_release ''v3'' Published]"

definition sample_checks :: "check_event list" where
  "sample_checks = [Arrive 0 Auto, Arrive 1 Enabled, Enter 0, Store 0 sample_answer sample_sums ''12:00'', Finish 0, Enter 1]"

lemma sample_checks_run:
  "case check_run sample_env sample_checks (new_checker sample_env 2) of
     Some k \<Rightarrow> list_all (\<lambda>p. case p of
         Back st _ _ \<Rightarrow> us_latest st = Some ''v4'' \<and> us_available st \<and> us_installer st \<noteq> None | _ \<Rightarrow> False) (ck_callers k)
   | None \<Rightarrow> False"
  by code_simp

lemma update_offers_are_published_witness:
  "case check_run sample_env sample_checks (new_checker sample_env 2) of
     Some k \<Rightarrow> list_all (\<lambda>p. case p of
         Back st _ _ \<Rightarrow> offer_sound sample_env (map fst (ck_finished k)) st | _ \<Rightarrow> True) (ck_callers k)
   | None \<Rightarrow> False"
  using sample_checks_run update_offers_are_published [of sample_env sample_checks 2]
  by (simp split: option.splits)

lemma update_checks_are_shared_witness:
  "case check_run sample_env sample_checks (new_checker sample_env 2) of
     Some k \<Rightarrow> card {i. i < length (ck_callers k) \<and> holds (ck_callers k ! i)} \<le> 1
   | None \<Rightarrow> False"
  using sample_checks_run update_checks_are_shared [of sample_env sample_checks 2]
  by (simp split: option.splits)

text \<open>
  A channel tried in vain and left again: the failed check in between cleared the candidate, and the next
  failed check on the first channel has nothing to keep, although that channel's candidate was resolved.
\<close>

lemma candidate_lost_on_return:
  "let c = (\<lambda>b r. \<lparr>fc_optin = b, fc_releases = r, fc_download = sample_sums, fc_time = ''12:00''\<rparr>);
       found = check_result sample_env (c Disabled sample_answer) (new_checker_state sample_env);
       away = check_result sample_env (c Enabled (Inl (ForgeHttp None))) found;
       back = check_result sample_env (c Disabled (Inl (ForgeHttp None))) away
   in us_latest (cs_status found) = Some ''v4'' \<and> cs_resolved back = Some (us_beta (cs_status back))
      \<and> us_latest (cs_status back) = None"
  by code_simp

end
