(* ===== verification/Daemon_Units.thy ===== *)
theory Daemon_Units
  imports Spec_Verify Spec_Manifest Proto_Product Forge_Releases
begin

section \<open>The units backends run in\<close>

text \<open>
  \<open>super-engine-daemon/src/subprocess/systemd.rs\<close>: how a backend's systemd unit is named after the daemon
  that spawned it, how a later daemon reads the owner back to sweep what a dead one left, and the
  sandbox directives. \<open>systemctl\<close>'s listing and \<open>/proc\<close> are what they print.
\<close>

subsection \<open>Cutting text at its last separator\<close>

fun split_str :: "string \<Rightarrow> string \<Rightarrow> (string \<times> string) option" where
  "split_str p [] = (if p = [] then Some ([], []) else None)"
| "split_str p (c # cs) =
     (case strip_prefix p (c # cs) of
        Some r \<Rightarrow> Some ([], r)
      | None \<Rightarrow> map_option (\<lambda>(a, b). (c # a, b)) (split_str p cs))"

definition rsplit_once :: "string \<Rightarrow> string \<Rightarrow> (string \<times> string) option" where
  "rsplit_once p s = map_option (\<lambda>(a, b). (rev b, rev a)) (split_str (rev p) (rev s))"

fun strip_ws_front :: "nat \<Rightarrow> string \<Rightarrow> string list" where
  "strip_ws_front 0 s = []"
| "strip_ws_front (Suc n) s =
     (let t = trim_start s
      in if t = [] then []
         else case split_ws t of (w, rest) \<Rightarrow> w # (case rest of None \<Rightarrow> [] | Some r \<Rightarrow> strip_ws_front n r))"

text \<open>\<open>split_whitespace()\<close>: there are at most as many words as bytes.\<close>

definition words_of :: "string \<Rightarrow> string list" where
  "words_of s = strip_ws_front (length s) s"

lemma split_str_first:
  "q \<noteq> [] \<Longrightarrow> hd q \<notin> set x \<Longrightarrow> split_str q (x @ q @ y) = Some (x, y)"
proof (induction x)
  case Nil
  then obtain c cs where "q = c # cs" by (cases q) auto
  then show ?case using strip_prefix_append [of q y] by (simp del: strip_prefix_append)
next
  case (Cons c x)
  then obtain d ds where q: "q = d # ds" by (cases q) auto
  with Cons.prems have "strip_prefix q (c # x @ q @ y) = None" by simp
  with Cons q show ?case by simp
qed

lemma rsplit_once_last:
  "p \<noteq> [] \<Longrightarrow> last p \<notin> set b \<Longrightarrow> rsplit_once p (a @ p @ b) = Some (a, b)"
  using split_str_first [of "rev p" "rev b" "rev a"] by (simp add: rsplit_once_def hd_rev)

subsection \<open>Names and owners\<close>

definition unit_prefix :: "product_spec \<Rightarrow> string" where
  "unit_prefix product = ps_slug product @ ''-backend-''"

definition owner_name :: "u32 \<Rightarrow> u64 \<Rightarrow> string" where
  "owner_name pid start = ''p'' @ show_nat (unat pid) @ ''-t'' @ show_nat (unat start)"

definition unit_name :: "product_spec \<Rightarrow> string \<Rightarrow> u32 \<Rightarrow> u64 \<Rightarrow> string" where
  "unit_name product inst pid start = unit_prefix product @ inst @ ''-'' @ owner_name pid start"

definition all_digits :: "string \<Rightarrow> bool" where
  "all_digits s = (s \<noteq> [] \<and> list_all is_ascii_digit s)"

definition parse_word :: "string \<Rightarrow> 'a::len word option" where
  "parse_word s = map_option of_nat (parse_unsigned (2 ^ LENGTH('a) - 1) s)"

definition unit_owner :: "string \<Rightarrow> (u32 \<times> u64) option" where
  "unit_owner unit =
     Option.bind (rsplit_once ''-t'' (strip_suffix_or ''.service'' unit)) (\<lambda>(rest, start).
     Option.bind (rsplit_once ''-p'' rest) (\<lambda>(_, pid).
       if \<not> all_digits pid \<or> \<not> all_digits start then None
       else Option.bind (parse_word pid) (\<lambda>p. map_option (\<lambda>t. (p, t)) (parse_word start))))"

definition is_orphaned_unit :: "string \<Rightarrow> (u32 \<Rightarrow> u64 \<Rightarrow> bool) \<Rightarrow> bool" where
  "is_orphaned_unit unit running =
     (case unit_owner unit of None \<Rightarrow> False | Some (pid, start) \<Rightarrow> \<not> running pid start)"

definition start_time :: "(u32 \<Rightarrow> string option) \<Rightarrow> u32 \<Rightarrow> u64 option" where
  "start_time proc_stat pid =
     Option.bind (proc_stat pid) (\<lambda>stat.
     Option.bind (rsplit_once '')'' stat) (\<lambda>(_, after_name).
       let ws = words_of after_name in if 19 < length ws then parse_word (ws ! 19) else None))"

definition is_running :: "(u32 \<Rightarrow> string option) \<Rightarrow> u32 \<Rightarrow> u64 \<Rightarrow> bool" where
  "is_running proc_stat pid start = (start_time proc_stat pid = Some start)"

definition listed_units :: "string \<Rightarrow> string list" where
  "listed_units listing =
     List.map_filter (\<lambda>line. case words_of line of w # _ \<Rightarrow> Some w | [] \<Rightarrow> None) (lines_of listing)"

text \<open>\<open>cleanup_orphan_units\<close>: the units it stops. \<open>None\<close> is a listing that could not be had.\<close>

definition cleanup_orphan_units ::
  "product_spec \<Rightarrow> (u32 \<Rightarrow> string option) \<Rightarrow> string option \<Rightarrow> string list" where
  "cleanup_orphan_units product proc_stat listing =
     (case listing of
        None \<Rightarrow> []
      | Some text \<Rightarrow>
          filter (\<lambda>u. is_orphaned_unit u (is_running proc_stat))
            (filter (starts_with (unit_prefix product)) (listed_units text)))"

subsection \<open>Sandbox directives\<close>

definition needs_gpu_access :: "device list \<Rightarrow> bool" where
  "needs_gpu_access devices = list_ex (\<lambda>d. d = DevGpu) devices"

definition fallback_render_node :: string where
  "fallback_render_node = ''/dev/dri/renderD128''"

definition device_allow :: "string \<Rightarrow> string" where
  "device_allow node = ''DeviceAllow='' @ node @ '' rw''"

text \<open>The names in \<open>/dev/dri\<close>, none when it cannot be read.\<close>

definition gpu_device_nodes_in :: "string \<Rightarrow> string list \<Rightarrow> string list" where
  "gpu_device_nodes_in dri_dir names =
     (let render = sort (map (\<lambda>n. device_allow (dri_dir @ ''/'' @ n)) (filter (starts_with ''renderD'') names))
      in map device_allow [''/dev/nvidia0'', ''/dev/nvidiactl'', ''/dev/nvidia-uvm'', ''/dev/nvidia-uvm-tools'', ''/dev/kfd'']
         @ (if render = [] then [device_allow fallback_render_node] else render))"

definition hardening_params :: "string \<Rightarrow> string \<Rightarrow> string \<Rightarrow> bool \<Rightarrow> string list \<Rightarrow> string list" where
  "hardening_params backend_dir socket_dir cache_dir gpu_access dri =
     [''PrivateNetwork=yes'', ''ProtectSystem=strict'', ''ProtectHome=read-only'',
      ''ReadOnlyPaths='' @ backend_dir, ''ReadWritePaths='' @ socket_dir, ''ReadWritePaths='' @ cache_dir,
      ''PrivateTmp=yes'', ''NoNewPrivileges=yes'', ''DevicePolicy=closed'']
     @ (if gpu_access then gpu_device_nodes_in ''/dev/dri'' dri else [''PrivateDevices=yes''])
     @ [''SystemCallFilter=@system-service'']"

subsection \<open>A name is read back as its owner\<close>

lemma parse_word_show [simp]: "parse_word (show_nat (unat w)) = Some w" for w :: "'a::len word"
proof -
  have "unat w < 2 ^ LENGTH('a)" by (rule unsigned_less)
  then have "unat w \<le> 2 ^ LENGTH('a) - 1" by arith
  then show ?thesis by (simp add: parse_word_def parse_unsigned_show)
qed

lemma all_digits_show [simp]: "all_digits (show_nat n)"
  by (auto simp: all_digits_def list_all_iff dest: show_nat_ascii)

lemma show_nat_last: "is_ascii_digit (last (show_nat n))"
  using show_nat_ascii last_in_set show_radix_not_Nil by blast

lemma unit_owner_name:
  assumes "sfx \<in> set ['''', ''.service'']"
  shows "unit_owner (unit_name product inst pid start @ sfx) = Some (pid, start)"
proof -
  let ?s = "show_nat (unat start)" and ?p = "show_nat (unat pid)"
  have base: "unit_name product inst pid start = (unit_prefix product @ inst) @ ''-p'' @ ?p @ ''-t'' @ ?s"
    by (simp add: unit_name_def owner_name_def)
  have "last (unit_name product inst pid start) \<noteq> last ''.service''"
    using show_nat_last [of "unat start"] unfolding base by (auto simp: is_ascii_digit_def)
  then have "strip_suffix_or ''.service'' (unit_name product inst pid start) = unit_name product inst pid start"
    by (intro strip_suffix_or_other) auto
  with assms have strip: "strip_suffix_or ''.service'' (unit_name product inst pid start @ sfx) = unit_name product inst pid start"
    by auto
  have digit: "c \<notin> set (show_nat n)" if "c \<in> {CHR ''t'', CHR ''p''}" for c n
    using that show_nat_ascii [of c n] by (auto simp: is_ascii_digit_def)
  have "rsplit_once ''-t'' (unit_name product inst pid start) = Some ((unit_prefix product @ inst) @ ''-p'' @ ?p, ?s)"
    unfolding base using rsplit_once_last [of "''-t''" ?s "(unit_prefix product @ inst) @ ''-p'' @ ?p"] digit by simp
  moreover have "rsplit_once ''-p'' ((unit_prefix product @ inst) @ ''-p'' @ ?p) = Some (unit_prefix product @ inst, ?p)"
    using digit by (intro rsplit_once_last) simp_all
  ultimately show ?thesis unfolding unit_owner_def strip by simp
qed

text \<open>
  C29. The sweep at start-up stops a listed unit that a daemon of this product named, with whatever
  instance inside the name, exactly when the process that spawned it is gone: no process has its number
  and its start time any more. It leaves every backend of a living daemon alone.
\<close>
theorem sweep_stops_only_orphans:
  "list_all (\<lambda>sfx. (unit_name product inst pid start @ sfx \<in> set (cleanup_orphan_units product proc_stat (Some listing)))
      = (unit_name product inst pid start @ sfx \<in> set (listed_units listing) \<and> start_time proc_stat pid \<noteq> Some start))
    ['''', ''.service'']"
proof -
  have "starts_with (unit_prefix product) (unit_name product inst pid start @ sfx)" for sfx
    by (auto simp: starts_with_iff unit_name_def)
  moreover have "is_orphaned_unit (unit_name product inst pid start @ sfx) (is_running proc_stat)
      = (start_time proc_stat pid \<noteq> Some start)" if "sfx \<in> set ['''', ''.service'']" for sfx
    by (simp add: is_orphaned_unit_def unit_owner_name [OF that] is_running_def)
  ultimately show ?thesis by (auto simp: cleanup_orphan_units_def list_all_iff)
qed

text \<open>What a sweep stops bears the product's prefix and names an owner, and that owner is gone.\<close>

lemma swept_has_dead_owner:
  "u \<in> set (cleanup_orphan_units product proc_stat listing) \<Longrightarrow>
    starts_with (unit_prefix product) u \<and> (\<exists>pid start. unit_owner u = Some (pid, start) \<and> start_time proc_stat pid \<noteq> Some start)"
  by (auto simp: cleanup_orphan_units_def is_orphaned_unit_def is_running_def split: option.splits)

text \<open>Only a model that declares a GPU sees one: without, the unit has a \<open>/dev\<close> of its own.\<close>

lemma cpu_models_get_no_device:
  "''PrivateDevices=yes'' \<in> set (hardening_params b s c (needs_gpu_access ds) dri) \<longleftrightarrow> DevGpu \<notin> set ds"
  by (auto simp: hardening_params_def needs_gpu_access_def gpu_device_nodes_in_def device_allow_def list_ex_iff Let_def)

end
