(* ===== verification/Daemon_Subprocess.thy ===== *)
theory Daemon_Subprocess
  imports Daemon_Units Daemon_Progress SE_Wire
begin

section \<open>Backends run as processes\<close>

text \<open>
  \<open>super-engine-daemon/src/subprocess/mod.rs\<close>, with the load report of
  \<open>super-engine-protocol/src/models/load_progress.rs\<close>: the name of an instance, who holds it, how its
  sandbox is started, replaced and stopped, and how long a load is waited for. The standard library's
  hash, of which it promises nothing, is a parameter.
\<close>

subsection \<open>Names\<close>

definition is_ascii_alnum :: "char \<Rightarrow> bool" where
  "is_ascii_alnum c =
     (is_ascii_digit c \<or> is_ascii_lower c \<or> (65 \<le> byte c \<and> byte c \<le> 90))"

text \<open>By character: the bytes that continue one are not seen again.\<close>

definition sanitize :: "string \<Rightarrow> string" where
  "sanitize s = map (\<lambda>c. if is_ascii_alnum c then c else CHR ''-'') (filter (\<lambda>c. \<not> is_cont_byte c) s)"

definition digest_len :: nat where "digest_len = 16"



definition hex16 :: "u64 \<Rightarrow> string" where
  "hex16 w = (let h = show_hex (unat w) in replicate (digest_len - length h) (CHR ''0'') @ h)"

definition instance_key :: "(string \<Rightarrow> u64) \<Rightarrow> string option \<Rightarrow> string \<Rightarrow> nat \<Rightarrow> string" where
  "instance_key hash64 dir_name model max_len =
     (let key = (case dir_name of Some n \<Rightarrow> sanitize n | None \<Rightarrow> []) @ ''-'' @ sanitize model
      in if length key \<le> max_len then key
         else let digest = hex16 (hash64 key)
              in take (max_len - length digest - 1) key @ ''-'' @ digest)"


definition nv_cache_dir :: string where "nv_cache_dir = ''nv''"
definition nv_cache_maxsize :: nat where "nv_cache_maxsize = 512 * 1024 * 1024"

definition backend_cache_dir :: "string \<Rightarrow> string option \<Rightarrow> string option" where
  "backend_cache_dir base dir_name = map_option (\<lambda>n. base @ ''/backends/'' @ sanitize n) dir_name"

definition backend_env :: "product_spec \<Rightarrow> string \<Rightarrow> string \<Rightarrow> string \<Rightarrow> (string \<times> string) list" where
  "backend_env product socket backend_dir cache_dir =
     [(ps_env product ''BACKEND_SOCKET'', socket),
      (ps_env product ''BACKEND_DIR'', backend_dir),
      (ps_env product ''BACKEND_CACHE_DIR'', cache_dir),
      (''XDG_CACHE_HOME'', cache_dir),
      (''CUDA_CACHE_PATH'', cache_dir @ ''/'' @ nv_cache_dir),
      (''CUDA_CACHE_MAXSIZE'', show_nat nv_cache_maxsize),
      (''RUST_LOG'', ''info'')]"

definition json_headers :: "(string \<times> string) list" where
  "json_headers = [(''content-type'', ''application/json'')]"

definition load_body :: "string \<Rightarrow> string option \<Rightarrow> string \<Rightarrow> jvalue" where
  "load_body name provider device_pref =
     VObj ([(''name'', VStr name)]
       @ (case provider of Some p \<Rightarrow> [(''provider'', VStr p)] | None \<Rightarrow> [])
       @ (if device_pref = [] then [] else [(''device'', VStr device_pref)]))"

subsection \<open>Names fit and keep apart\<close>

lemma hex_len: "n < 16 ^ Suc k \<Longrightarrow> length (show_radix 16 n) \<le> Suc k"
proof (induction k arbitrary: n)
  case 0
  then show ?case by (simp add: show_radix.simps)
next
  case (Suc k)
  show ?case
  proof (cases "n < 16")
    case False
    from Suc.prems have "n div 16 < 16 ^ Suc k" by (simp add: less_mult_imp_div_less mult.commute)
    from Suc.IH [OF this] False show ?thesis by (simp add: show_radix.simps [of 16 n])
  qed (simp add: show_radix.simps)
qed

lemma hex16_len [simp]: "length (hex16 w) = 16"
proof -
  have "unat w < 2 ^ 64" using unsigned_less [of w] by simp
  then have "length (show_hex (unat w)) \<le> Suc 15" by (intro hex_len) simp
  then show ?thesis by (simp add: hex16_def digest_len_def Let_def)
qed





text \<open>
  The two parts of a name are joined with the character that stands for everything unusual in them, so
  different backends can ask for the same name, and share a cache directory.
\<close>

lemma instance_names_can_meet:
  "backend_id_is_valid ''io.github.voice-a'' \<and> backend_id_is_valid ''io.github.voice''
    \<and> instance_key h (Some ''io.github.voice-a'') ''b'' 64 = instance_key h (Some ''io.github.voice'') ''a-b'' 64"
  "backend_id_is_valid ''io.a.b-c'' \<and> backend_id_is_valid ''io.a-b.c''
    \<and> backend_cache_dir base (Some ''io.a.b-c'') = backend_cache_dir base (Some ''io.a-b.c'')"
   apply (simp add: instance_key_def sanitize_def is_ascii_alnum_def is_ascii_digit_def is_ascii_lower_def is_cont_byte_def)
   apply code_simp
  apply (simp add: backend_cache_dir_def sanitize_def is_ascii_alnum_def is_ascii_digit_def is_ascii_lower_def is_cont_byte_def)
  apply code_simp
  done

subsection \<open>Who holds a name\<close>

text \<open>
  The processes of one daemon, each an attempt at an instance: its claim on the name, and the sandbox its
  supervisor stands for, by the number of the spawn that started it (\<open>None\<close> before a spawn and after a
  stop). A sandbox is found by name, so what is behind the name is state of its own, and so is what the
  socket leads to. A spawn can be cancelled once the sandbox runs, and then no handle stands for it.
\<close>

record backend_handle =
  bh_key :: string
  bh_claim :: bool
  bh_unit :: "nat option"
  bh_gone :: bool

record supervisor =
  sv_claims :: "string list"
  sv_units :: "string \<Rightarrow> nat option"
  sv_sockets :: "string \<Rightarrow> nat option"
  sv_handles :: "backend_handle list"
  sv_spawned :: nat

text \<open>
  How a spawn ends: refused, with what was left under the name stopped or not; running but cancelled
  before its handle came back; held.
\<close>

datatype spawn_end = Refused bool | Lost | Held

datatype backend_event =
    Claim string
  | GiveUp nat
  | Spawn nat spawn_end
  | Bind string
  | Crash string
  | StopOld nat
  | Shutdown nat
  | DropHandle nat

definition no_backends :: supervisor where
  "no_backends = \<lparr>sv_claims = [], sv_units = (\<lambda>_. None), sv_sockets = (\<lambda>_. None), sv_handles = [], sv_spawned = 0\<rparr>"

text \<open>\<open>Supervise::stop\<close>: by name, and once.\<close>

definition stop_unit :: "backend_handle \<Rightarrow> supervisor \<Rightarrow> supervisor" where
  "stop_unit h s = (if bh_unit h = None then s else s\<lparr>sv_units := (sv_units s)(bh_key h := None)\<rparr>)"

definition release_claim :: "backend_handle \<Rightarrow> supervisor \<Rightarrow> supervisor" where
  "release_claim h s = (if bh_claim h then s\<lparr>sv_claims := remove1 (bh_key h) (sv_claims s)\<rparr> else s)"

definition remove_socket :: "string \<Rightarrow> supervisor \<Rightarrow> supervisor" where
  "remove_socket key s = s\<lparr>sv_sockets := (sv_sockets s)(key := None)\<rparr>"

definition set_handle :: "nat \<Rightarrow> backend_handle \<Rightarrow> supervisor \<Rightarrow> supervisor" where
  "set_handle i h s = s\<lparr>sv_handles := (sv_handles s)[i := h]\<rparr>"

definition sandbox :: "string \<Rightarrow> spawn_end \<Rightarrow> supervisor \<Rightarrow> supervisor" where
  "sandbox key how s =
     (case how of
        Refused gone \<Rightarrow> if gone then s\<lparr>sv_units := (sv_units s)(key := None)\<rparr> else s
      | _ \<Rightarrow> s\<lparr>sv_units := (sv_units s)(key := Some (sv_spawned s)), sv_spawned := Suc (sv_spawned s)\<rparr>)"

definition act :: "nat \<Rightarrow> (backend_handle \<Rightarrow> bool) \<Rightarrow> (backend_handle \<Rightarrow> supervisor) \<Rightarrow> supervisor \<Rightarrow> supervisor option" where
  "act i ready f s =
     (if i < length (sv_handles s) \<and> \<not> bh_gone (sv_handles s ! i) \<and> ready (sv_handles s ! i)
      then Some (f (sv_handles s ! i)) else None)"

definition take_claim :: "string \<Rightarrow> supervisor \<Rightarrow> supervisor" where
  "take_claim key s =
     (if key \<in> set (sv_claims s) then s
      else s\<lparr>sv_claims := key # sv_claims s,
             sv_handles := sv_handles s @ [\<lparr>bh_key = key, bh_claim = True, bh_unit = None, bh_gone = False\<rparr>]\<rparr>)"

definition spawn_at :: "nat \<Rightarrow> spawn_end \<Rightarrow> backend_handle \<Rightarrow> supervisor \<Rightarrow> supervisor" where
  "spawn_at i how h s =
     set_handle i (h\<lparr>bh_unit := (if how = Held then Some (sv_spawned s) else None)\<rparr>)
       (remove_socket (bh_key h) (sandbox (bh_key h) how s))"

definition stop_old :: "nat \<Rightarrow> backend_handle \<Rightarrow> supervisor \<Rightarrow> supervisor" where
  "stop_old i h s = set_handle i (h\<lparr>bh_unit := None\<rparr>) (stop_unit h s)"

definition shutdown_at :: "nat \<Rightarrow> backend_handle \<Rightarrow> supervisor \<Rightarrow> supervisor" where
  "shutdown_at i h s =
     set_handle i (h\<lparr>bh_unit := None, bh_claim := False\<rparr>)
       (release_claim h (remove_socket (bh_key h) (stop_unit h s)))"

text \<open>A drop runs the backend's own \<open>Drop\<close>, then its fields': the supervisor's, and the claim's last.\<close>

definition drop_at :: "nat \<Rightarrow> backend_handle \<Rightarrow> supervisor \<Rightarrow> supervisor" where
  "drop_at i h s =
     set_handle i (h\<lparr>bh_unit := None, bh_claim := False, bh_gone := True\<rparr>)
       (release_claim h (stop_unit h (remove_socket (bh_key h) s)))"

definition give_up :: "nat \<Rightarrow> backend_handle \<Rightarrow> supervisor \<Rightarrow> supervisor" where
  "give_up i h s = set_handle i (h\<lparr>bh_claim := False, bh_gone := True\<rparr>) (release_claim h s)"

definition backend_step :: "backend_event \<Rightarrow> supervisor \<Rightarrow> supervisor option" where
  "backend_step ev s =
     (case ev of
        Claim key \<Rightarrow> Some (take_claim key s)
      | Bind key \<Rightarrow>
          (case sv_units s key of
             Some n \<Rightarrow> Some (s\<lparr>sv_sockets := (sv_sockets s)(key := Some n)\<rparr>) | None \<Rightarrow> None)
      | Crash key \<Rightarrow> Some (s\<lparr>sv_units := (sv_units s)(key := None)\<rparr>)
      | GiveUp i \<Rightarrow> act i (\<lambda>h. bh_unit h = None) (\<lambda>h. give_up i h s) s
      | Spawn i how \<Rightarrow> act i (\<lambda>h. bh_claim h \<and> bh_unit h = None) (\<lambda>h. spawn_at i how h s) s
      | StopOld i \<Rightarrow> act i bh_claim (\<lambda>h. stop_old i h s) s
      | Shutdown i \<Rightarrow> act i (\<lambda>_. True) (\<lambda>h. shutdown_at i h s) s
      | DropHandle i \<Rightarrow> act i (\<lambda>_. True) (\<lambda>h. drop_at i h s) s)"

fun backend_run :: "backend_event list \<Rightarrow> supervisor \<Rightarrow> supervisor option" where
  "backend_run [] s = Some s"
| "backend_run (ev # evs) s = Option.bind (backend_step ev s) (backend_run evs)"

subsection \<open>Every handle speaks for the backend it started\<close>

definition handle_ok :: "supervisor \<Rightarrow> backend_handle \<Rightarrow> bool" where
  "handle_ok s h =
     ((bh_claim h \<longrightarrow> bh_key h \<in> set (sv_claims s))
      \<and> (case bh_unit h of
           None \<Rightarrow> True
         | Some m \<Rightarrow> bh_claim h \<and> sv_units s (bh_key h) \<in> {None, Some m} \<and> sv_sockets s (bh_key h) \<in> {None, Some m}))"

definition supervisor_ok :: "supervisor \<Rightarrow> bool" where
  "supervisor_ok s =
     (distinct (sv_claims s)
      \<and> (\<forall>i < length (sv_handles s). handle_ok s (sv_handles s ! i))
      \<and> (\<forall>i < length (sv_handles s). \<forall>j < length (sv_handles s).
           bh_claim (sv_handles s ! i) \<longrightarrow> bh_claim (sv_handles s ! j) \<longrightarrow>
           bh_key (sv_handles s ! i) = bh_key (sv_handles s ! j) \<longrightarrow> i = j))"

text \<open>The handle an event is of.\<close>

fun subject :: "backend_event \<Rightarrow> nat option" where
  "subject (GiveUp i) = Some i"
| "subject (Spawn i _) = Some i"
| "subject (StopOld i) = Some i"
| "subject (Shutdown i) = Some i"
| "subject (DropHandle i) = Some i"
| "subject _ = None"

lemmas backend_defs = take_claim_def spawn_at_def stop_old_def shutdown_at_def drop_at_def give_up_def stop_unit_def release_claim_def remove_socket_def set_handle_def sandbox_def act_def

text \<open>What an event of handle \<open>i\<close>, which was \<open>h\<close> and becomes \<open>h2\<close>, touches.\<close>

definition own_move :: "supervisor \<Rightarrow> backend_handle \<Rightarrow> backend_handle \<Rightarrow> supervisor \<Rightarrow> bool" where
  "own_move s h h2 t =
     (bh_key h2 = bh_key h \<and> (bh_claim h2 \<longrightarrow> bh_claim h) \<and> handle_ok t h2
      \<and> (\<forall>q. q \<noteq> bh_key h \<longrightarrow> sv_units t q = sv_units s q \<and> sv_sockets t q = sv_sockets s q)
      \<and> (bh_claim h \<or> (sv_units t (bh_key h) = sv_units s (bh_key h) \<and> sv_sockets t (bh_key h) \<in> {None, sv_sockets s (bh_key h)}))
      \<and> sv_claims t = (if bh_claim h \<and> \<not> bh_claim h2 then remove1 (bh_key h) (sv_claims s) else sv_claims s))"

lemma step_of_handle:
  assumes ok: "supervisor_ok s" and "backend_step ev s = Some t" "subject ev = Some i"
  obtains h2 where "i < length (sv_handles s)" "sv_handles t = (sv_handles s)[i := h2]"
    "own_move s (sv_handles s ! i) h2 t"
proof -
  have i: "i < length (sv_handles s)" using assms(2,3)
    by (cases ev) (auto simp: backend_step_def act_def split: if_splits)
  with ok have h: "handle_ok s (sv_handles s ! i)" by (simp add: supervisor_ok_def)
  show thesis
  proof (rule that [OF i])
    show "sv_handles t = (sv_handles s)[i := sv_handles t ! i]"
      using assms(2,3) i
      by (cases ev) (auto simp: backend_step_def backend_defs split: if_splits spawn_end.splits)
    show "own_move s (sv_handles s ! i) (sv_handles t ! i) t"
      using assms(2,3) i h
      by (cases ev) (auto simp: backend_step_def own_move_def handle_ok_def backend_defs split: if_splits spawn_end.splits option.splits)
  qed
qed

lemma others_move:
  assumes "supervisor_ok s" "own_move s (sv_handles s ! i) h2 t" "i < length (sv_handles s)"
    and "j < length (sv_handles s)" "j \<noteq> i" "bh_claim (sv_handles s ! j)"
  shows "sv_units t (bh_key (sv_handles s ! j)) = sv_units s (bh_key (sv_handles s ! j))
    \<and> sv_sockets t (bh_key (sv_handles s ! j)) \<in> {None, sv_sockets s (bh_key (sv_handles s ! j))}
    \<and> (bh_claim (sv_handles s ! i) \<longrightarrow>
        sv_sockets t (bh_key (sv_handles s ! j)) = sv_sockets s (bh_key (sv_handles s ! j)))
    \<and> bh_key (sv_handles s ! j) \<in> set (sv_claims t)"
proof -
  have key: "bh_claim (sv_handles s ! i) \<Longrightarrow> bh_key (sv_handles s ! i) \<noteq> bh_key (sv_handles s ! j)"
    using assms unfolding supervisor_ok_def by metis
  have "bh_key (sv_handles s ! j) \<in> set (sv_claims s)"
    using assms(1,4,6) by (auto simp: supervisor_ok_def handle_ok_def)
  with key assms(1,2) show ?thesis
    by (cases "bh_key (sv_handles s ! i) = bh_key (sv_handles s ! j)")
      (auto simp: own_move_def supervisor_ok_def)
qed

lemma others_handle_ok:
  assumes "supervisor_ok s" "own_move s (sv_handles s ! i) h2 t" "i < length (sv_handles s)"
    and "j < length (sv_handles s)" "j \<noteq> i"
  shows "handle_ok t (sv_handles s ! j)"
proof (cases "bh_claim (sv_handles s ! j)")
  case True
  with others_move [OF assms True] assms(1,4) show ?thesis
    by (auto simp: handle_ok_def supervisor_ok_def split: option.splits)
next
  case False
  with assms(1,4) show ?thesis by (auto simp: handle_ok_def supervisor_ok_def split: option.splits)
qed

lemma backend_step_ok:
  assumes ok: "supervisor_ok s" and st: "backend_step ev s = Some t"
  shows "supervisor_ok t"
proof (cases "subject ev")
  case None
  show ?thesis
  proof (cases ev)
    case (Claim key)
    show ?thesis
    proof (cases "key \<in> set (sv_claims s)")
      case False
      have "bh_key (sv_handles s ! j) \<noteq> key" if "j < length (sv_handles s)" "bh_claim (sv_handles s ! j)" for j
        using ok that False by (auto simp: supervisor_ok_def handle_ok_def)
      moreover have "t = s\<lparr>sv_claims := key # sv_claims s,
          sv_handles := sv_handles s @ [\<lparr>bh_key = key, bh_claim = True, bh_unit = None, bh_gone = False\<rparr>]\<rparr>"
        using st False Claim by (simp add: backend_step_def take_claim_def)
      ultimately show ?thesis using ok False
        by (auto simp: supervisor_ok_def handle_ok_def nth_append less_Suc_eq split: option.splits)
    qed (use ok st Claim in \<open>simp add: backend_step_def take_claim_def\<close>)
  next
    case (Bind key)
    then obtain n where "sv_units s key = Some n" "t = s\<lparr>sv_sockets := (sv_sockets s)(key := Some n)\<rparr>"
      using st by (auto simp: backend_step_def split: option.splits)
    with ok show ?thesis by (fastforce simp: supervisor_ok_def handle_ok_def split: option.splits)
  next
    case (Crash key)
    then have "t = s\<lparr>sv_units := (sv_units s)(key := None)\<rparr>" using st by (simp add: backend_step_def)
    with ok show ?thesis by (fastforce simp: supervisor_ok_def handle_ok_def split: option.splits)
  qed (use None in simp_all)
next
  case (Some i)
  from step_of_handle [OF ok st Some] obtain h2 where i: "i < length (sv_handles s)"
    and t: "sv_handles t = (sv_handles s)[i := h2]" and m: "own_move s (sv_handles s ! i) h2 t" .
  have "handle_ok t (sv_handles t ! j)" if "j < length (sv_handles s)" for j
    using others_handle_ok [OF ok m i that] m that by (cases "j = i") (simp_all add: t own_move_def)
  moreover have "distinct (sv_claims t)" using ok m by (auto simp: own_move_def supervisor_ok_def)
  moreover have "j = k" if "j < length (sv_handles s)" "k < length (sv_handles s)" "bh_claim (sv_handles t ! j)"
    "bh_claim (sv_handles t ! k)" "bh_key (sv_handles t ! j) = bh_key (sv_handles t ! k)" for j k
  proof -
    have c: "bh_claim (sv_handles s ! l) \<and> bh_key (sv_handles s ! l) = bh_key (sv_handles t ! l)"
      if "l < length (sv_handles s)" "bh_claim (sv_handles t ! l)" for l
      using that m i by (cases "l = i") (auto simp: t own_move_def)
    with that ok show "j = k" unfolding supervisor_ok_def by metis
  qed
  ultimately show ?thesis unfolding supervisor_ok_def by (simp add: t)
qed

lemma backend_run_ok: "supervisor_ok s \<Longrightarrow> backend_run evs s = Some t \<Longrightarrow> supervisor_ok t"
  by (induction evs arbitrary: s) (auto simp: bind_eq_Some_conv intro: backend_step_ok)

lemma no_backends_ok: "supervisor_ok no_backends"
  by (simp add: supervisor_ok_def no_backends_def)

text \<open>What a handle may count on, and what one event may do to it.\<close>

definition backend_undisturbed :: "backend_event \<Rightarrow> supervisor \<Rightarrow> supervisor \<Rightarrow> nat \<Rightarrow> bool" where
  "backend_undisturbed ev s t j =
     (let h = sv_handles s ! j; key = bh_key h in
      case bh_unit h of
        None \<Rightarrow> True
      | Some m \<Rightarrow>
          sv_units s key \<in> {None, Some m} \<and> sv_sockets s key \<in> {None, Some m}
          \<and> (if subject ev = Some j \<or> ev = Crash key then True
             else sv_handles t ! j = h \<and> sv_units t key = sv_units s key
               \<and> (sv_sockets t key = sv_sockets s key \<or> ev = Bind key
                  \<or> (case subject ev of Some i \<Rightarrow> \<not> bh_claim (sv_handles s ! i) \<and> sv_sockets t key = None | None \<Rightarrow> False))))"

text \<open>
  C15. Whatever loads, restarts, cancellations, crashes, shutdowns and drops happen in whatever order, what
  runs under a live handle's name is the very process that handle started or nothing, and nothing done
  to another handle stops it or takes its name. Its socket too is its own, and is taken away by another
  handle only when that one was already shut down. (A stop of a unit is taken to succeed.)
\<close>
theorem handles_speak_for_their_backends:
  assumes "backend_run evs no_backends = Some s" "backend_step ev s = Some t"
  shows "list_all (backend_undisturbed ev s t) [0..<length (sv_handles s)]"
proof -
  from backend_run_ok [OF no_backends_ok assms(1)] have ok: "supervisor_ok s" .
  have "backend_undisturbed ev s t j" if j: "j < length (sv_handles s)" for j
  proof (cases "bh_unit (sv_handles s ! j)")
    case (Some m)
    with ok j have h: "bh_claim (sv_handles s ! j)"
      "sv_units s (bh_key (sv_handles s ! j)) \<in> {None, Some m}" "sv_sockets s (bh_key (sv_handles s ! j)) \<in> {None, Some m}"
      by (auto simp: supervisor_ok_def handle_ok_def)
    show ?thesis
    proof (cases "subject ev")
      case None
      with assms(2) j h Some show ?thesis
        by (cases ev) (auto simp: backend_undisturbed_def Let_def backend_step_def take_claim_def nth_append split: option.splits if_splits)
    next
      case (Some i)
      from step_of_handle [OF ok assms(2) Some] obtain h2 where i: "i < length (sv_handles s)"
        and t: "sv_handles t = (sv_handles s)[i := h2]" and m: "own_move s (sv_handles s ! i) h2 t" .
      show ?thesis
      proof (cases "j = i")
        case False
        from others_move [OF ok m i j False h(1)] h \<open>bh_unit _ = Some m\<close> Some False i t show ?thesis
          by (auto simp: backend_undisturbed_def Let_def)
      qed (use h Some \<open>bh_unit _ = Some m\<close> in \<open>simp add: backend_undisturbed_def Let_def\<close>)
    qed
  qed (simp add: backend_undisturbed_def Let_def)
  then show ?thesis by (simp add: list_all_iff)
qed

definition sample_backends :: "backend_event list" where
  "sample_backends = [Claim ''a'', Claim ''b'', Spawn 0 Lost, Spawn 0 Held, Bind ''a'', Spawn 1 Held, Bind ''b'', Claim ''a'']"

lemma handles_speak_for_their_backends_witness:
  "case backend_run sample_backends no_backends of
     Some s \<Rightarrow> (case backend_step (Shutdown 1) s of
         Some t \<Rightarrow> list_all (backend_undisturbed (Shutdown 1) s t) [0..<length (sv_handles s)]
       | None \<Rightarrow> False)
   | None \<Rightarrow> False"
proof -
  have "case backend_run sample_backends no_backends of
      Some s \<Rightarrow> \<not> Option.is_none (backend_step (Shutdown 1) s) | None \<Rightarrow> False"
    by code_simp
  then show ?thesis
    using handles_speak_for_their_backends [of sample_backends _ "Shutdown 1"]
    by (auto simp: Option.is_none_def split: option.splits)
qed

text \<open>
  The exception is real: \<open>shutdown\<close> releases the name, but the drop that follows it removes the socket
  file once more. In between the name can be taken again, and that backend runs on unreachable.
\<close>

lemma late_drop_strands_backend:
  "case backend_run [Claim ''a'', Spawn 0 Held, Bind ''a'', Shutdown 0, Claim ''a'', Spawn 1 Held, Bind ''a'', DropHandle 0] no_backends of
     Some s \<Rightarrow> bh_unit (sv_handles s ! 1) = Some 1 \<and> sv_units s ''a'' = Some 1 \<and> sv_sockets s ''a'' = None
   | None \<Rightarrow> False"
  by code_simp

end
