(* ===== verification/Daemon_BackendLoad.thy ===== *)
theory Daemon_BackendLoad
  imports Daemon_Subprocess
begin

section \<open>Waiting for a backend's load\<close>

text \<open>
  \<open>super-engine-protocol/src/models/load_progress.rs\<close> and the load of
  \<open>super-engine-daemon/src/subprocess/mod.rs\<close>: what a backend's status says of its load, and how long the
  daemon polls it. Time is in milliseconds; the fraction a status names (\<open>as_f64\<close>, the test for a finite
  number and the clamp to \<open>f32\<close>) is a parameter.
\<close>

subsection \<open>A backend's report\<close>

definition max_id_len :: nat where "max_id_len = 64"

definition is_id :: "string \<Rightarrow> bool" where
  "is_id value =
     (value \<noteq> [] \<and> length value \<le> max_id_len
      \<and> list_all (\<lambda>b. is_ascii_lower b \<or> is_ascii_digit b \<or> b = CHR ''_'') value)"

definition id_at :: "string \<Rightarrow> jvalue \<Rightarrow> string option" where
  "id_at key status = (case str_at key status of Some v \<Rightarrow> if is_id v then Some v else None | None \<Rightarrow> None)"

definition from_status :: "(jvalue \<Rightarrow> 'f option) \<Rightarrow> jvalue \<Rightarrow> 'f load_progress option" where
  "from_status fraction status =
     (let load = \<lparr>lp_phase = id_at ''phase'' status, lp_step = id_at ''step'' status,
            lp_progress = Option.bind (get_key ''progress'' status) fraction\<rparr>
      in if lp_phase load = None \<and> lp_step load = None \<and> lp_progress load = None then None else Some load)"

subsection \<open>The watch\<close>

definition load_timeout :: nat where "load_timeout = 10 * 60 * 1000"
definition stall_timeout :: nat where "stall_timeout = 2 * 60 * 1000"

record 'f load_watch =
  lw_last :: "'f load_progress option"
  lw_moved_at :: nat
  lw_reports_progress :: bool

definition new_watch :: "nat \<Rightarrow> 'f load_watch" where
  "new_watch now = \<lparr>lw_last = None, lw_moved_at = now, lw_reports_progress = False\<rparr>"

definition has_progress :: "'f load_progress option \<Rightarrow> bool" where
  "has_progress r = (case r of Some p \<Rightarrow> lp_progress p \<noteq> None | None \<Rightarrow> False)"

definition observe ::
  "'f load_progress option \<Rightarrow> nat \<Rightarrow> 'f load_watch \<Rightarrow> 'f load_watch \<times> 'f load_progress option" where
  "observe report now w =
     (if report = lw_last w then (w, None)
      else (w\<lparr>lw_moved_at := now, lw_reports_progress := lw_reports_progress w \<or> has_progress report, lw_last := report\<rparr>,
            report))"

definition stalled :: "nat \<Rightarrow> 'f load_watch \<Rightarrow> bool" where
  "stalled now w = (lw_reports_progress w \<and> stall_timeout \<le> now - lw_moved_at w)"

subsection \<open>The load\<close>

datatype load_end =
    Ready string
  | LoadError string
  | Unanswered
  | Unreadable
  | Stalled
  | TimedOut

text \<open>
  A poll is its time and what came back: nothing, a body that is no JSON, or a status. \<open>load_loop\<close> gives
  the reports passed on and how the load ended, \<open>None\<close> while the script of polls leaves it running.
\<close>

type_synonym poll = "nat \<times> jvalue option option"

fun load_loop ::
  "(jvalue \<Rightarrow> 'f option) \<Rightarrow> nat \<Rightarrow> 'f load_watch \<Rightarrow> poll list \<Rightarrow> 'f load_progress list \<times> load_end option" where
  "load_loop fraction started w [] = ([], None)"
| "load_loop fraction started w ((now, answer) # polls) =
     (case answer of
        None \<Rightarrow> ([], Some Unanswered)
      | Some None \<Rightarrow> ([], Some Unreadable)
      | Some (Some json) \<Rightarrow>
          let state = str_at ''state'' json;
              (w2, report) = observe (from_status fraction json) now w;
              told = (case report of Some r \<Rightarrow> [r] | None \<Rightarrow> [])
          in if state = Some ''ready''
             then (told, Some (Ready (case str_at ''device'' json of Some d \<Rightarrow> d | None \<Rightarrow> ''?'')))
             else if state = Some ''error''
             then (told, Some (LoadError (case str_at ''reason'' json of Some r \<Rightarrow> r | None \<Rightarrow> ''unknown'')))
             else if stalled now w2 then (told, Some Stalled)
             else if \<not> lw_reports_progress w2 \<and> load_timeout \<le> now - started then (told, Some TimedOut)
             else (case load_loop fraction started w2 polls of (more_told, fin) \<Rightarrow> (told @ more_told, fin)))"

text \<open>\<open>load\<close> itself, from the answer to \<open>POST /v1/load\<close>: \<open>None\<close> in the first place is a request that failed.\<close>

definition request_load ::
  "(jvalue \<Rightarrow> 'f option) \<Rightarrow> nat option \<Rightarrow> nat \<Rightarrow> poll list \<Rightarrow> nat option + 'f load_progress list \<times> load_end option" where
  "request_load fraction status started polls =
     (case status of
        None \<Rightarrow> Inl None
      | Some code \<Rightarrow> ensure (code = 202 \<or> code = 200) (Some code) (Inr (load_loop fraction started (new_watch started) polls)))"

text \<open>\<open>wait_for_ping\<close>: polls until one answers 200, or the deadline has passed at a poll that did not.\<close>

definition start_timeout :: nat where "start_timeout = 30 * 1000"

fun wait_for_ping :: "nat \<Rightarrow> (nat \<times> nat option) list \<Rightarrow> bool option" where
  "wait_for_ping deadline [] = None"
| "wait_for_ping deadline ((now, status) # polls) =
     (if status = Some 200 then Some True
      else if deadline \<le> now then Some False
      else wait_for_ping deadline polls)"

subsection \<open>The load as its polls tell it\<close>

text \<open>
  What the polls so far have reported, newest first. \<open>quiet now h\<close>: no poll of the last two minutes
  reported anything but what the poll before it had.
\<close>

definition reported_by :: "(jvalue \<Rightarrow> 'f option) \<Rightarrow> poll \<Rightarrow> nat \<times> 'f load_progress option" where
  "reported_by fraction p = (fst p, case snd p of Some (Some json) \<Rightarrow> from_status fraction json | _ \<Rightarrow> None)"

fun newest :: "(nat \<times> 'f load_progress option) list \<Rightarrow> 'f load_progress option" where
  "newest [] = None"
| "newest ((_, r) # _) = r"

fun quiet :: "nat \<Rightarrow> (nat \<times> 'f load_progress option) list \<Rightarrow> bool" where
  "quiet now [] = True"
| "quiet now ((t, r) # h) = ((now < t + stall_timeout \<longrightarrow> r = newest h) \<and> quiet now h)"

definition ever_progress :: "(nat \<times> 'f load_progress option) list \<Rightarrow> bool" where
  "ever_progress h = list_ex (\<lambda>(_, r). has_progress r) h"

definition poll_verdict :: "(jvalue \<Rightarrow> 'f option) \<Rightarrow> nat \<Rightarrow> poll list \<Rightarrow> load_end option" where
  "poll_verdict fraction started polls =
     (let h = map (reported_by fraction) (rev polls); now = fst (last polls) in
      case snd (last polls) of
        None \<Rightarrow> Some Unanswered
      | Some None \<Rightarrow> Some Unreadable
      | Some (Some json) \<Rightarrow>
          if str_at ''state'' json = Some ''ready''
          then Some (Ready (case str_at ''device'' json of Some d \<Rightarrow> d | None \<Rightarrow> ''?''))
          else if str_at ''state'' json = Some ''error''
          then Some (LoadError (case str_at ''reason'' json of Some r \<Rightarrow> r | None \<Rightarrow> ''unknown''))
          else if ever_progress h \<and> quiet now h then Some Stalled
          else if \<not> ever_progress h \<and> started + load_timeout \<le> now then Some TimedOut
          else None)"

definition first_verdict :: "(jvalue \<Rightarrow> 'f option) \<Rightarrow> nat \<Rightarrow> poll list \<Rightarrow> load_end option" where
  "first_verdict fraction started polls =
     (case filter (\<lambda>v. v \<noteq> None) (map (\<lambda>k. poll_verdict fraction started (take (Suc k) polls)) [0..<length polls]) of
        v # _ \<Rightarrow> v | [] \<Rightarrow> None)"

text \<open>The watch after the polls of \<open>h\<close>.\<close>

definition watch_ok :: "(nat \<times> 'f load_progress option) list \<Rightarrow> 'f load_watch \<Rightarrow> bool" where
  "watch_ok h w =
     (lw_last w = newest h \<and> lw_reports_progress w = ever_progress h
      \<and> (\<forall>now. (lw_moved_at w + stall_timeout \<le> now \<longrightarrow> quiet now h)
            \<and> (quiet now h \<and> ever_progress h \<longrightarrow> lw_moved_at w + stall_timeout \<le> now)))"

lemma stall_positive: "0 < stall_timeout"
  by (simp add: stall_timeout_def)

lemma has_progress_None [simp]: "\<not> has_progress None"
  by (simp add: has_progress_def)

lemma newest_progress: "has_progress (newest h) \<Longrightarrow> ever_progress h"
  by (cases h rule: newest.cases) (auto simp: ever_progress_def has_progress_None)

lemma all_old_quiet: "(\<And>t r. (t, r) \<in> set h \<Longrightarrow> t + stall_timeout \<le> now) \<Longrightarrow> quiet now h"
  by (induction now h rule: quiet.induct) fastforce+

lemma new_watch_ok: "watch_ok [] (new_watch started)"
  by (simp add: watch_ok_def new_watch_def ever_progress_def)

lemma observe_ok:
  assumes "watch_ok h w" "\<And>u s. (u, s) \<in> set h \<Longrightarrow> u \<le> t"
  shows "watch_ok ((t, r) # h) (fst (observe r t w))"
proof (cases "r = newest h")
  case True
  then have "ever_progress ((t, r) # h) = ever_progress h"
    using newest_progress [of h] by (auto simp: ever_progress_def)
  with True assms(1) show ?thesis by (simp add: observe_def watch_ok_def)
next
  case False
  have "quiet now h" if "t + stall_timeout \<le> now" for now
    using that assms(2) by (intro all_old_quiet) (meson add_le_mono1 le_trans)
  with False assms(1) show ?thesis
    by (auto simp: observe_def watch_ok_def ever_progress_def not_less)
qed

lemma load_loop_verdict:
  assumes "watch_ok (map (reported_by fraction) (rev seen)) w" "sorted (map fst (seen @ polls))"
    and "list_all (\<lambda>p. started \<le> fst p) polls"
  shows "snd (load_loop fraction started w polls) =
    (case filter (\<lambda>v. v \<noteq> None) (map (\<lambda>k. poll_verdict fraction started (seen @ take (Suc k) polls)) [0..<length polls]) of
        v # _ \<Rightarrow> v | [] \<Rightarrow> None)"
  using assms
proof (induction polls arbitrary: seen w)
  case (Cons p polls)
  obtain now answer where p: "p = (now, answer)" by fastforce
  let ?h = "map (reported_by fraction) (rev (seen @ [p]))"
  let ?V = "poll_verdict fraction started (seen @ [p])"
  have first: "map (\<lambda>k. poll_verdict fraction started (seen @ take (Suc k) (p # polls))) [0..<length (p # polls)]
      = ?V # map (\<lambda>k. poll_verdict fraction started ((seen @ [p]) @ take (Suc k) polls)) [0..<length polls]"
    unfolding list.size(4) add_Suc_right add_0_right map_upt_Suc by simp
  show ?case
  proof (cases "case answer of Some (Some json) \<Rightarrow> True | _ \<Rightarrow> False")
    case False
    then consider "answer = None" | "answer = Some None" by (cases answer) (auto split: option.splits)
    then have "?V = snd (load_loop fraction started w (p # polls)) \<and> ?V \<noteq> None"
      by cases (simp_all add: poll_verdict_def p)
    then show ?thesis unfolding first by auto
  next
    case True
    then obtain json where js: "answer = Some (Some json)" by (auto split: option.splits)
    let ?r = "from_status fraction json"
    have old: "u \<le> now" if "(u, q) \<in> set (map (reported_by fraction) (rev seen))" for u q
      using that Cons.prems(2) p by (auto simp: reported_by_def sorted_append)
    have hd: "?h = (now, ?r) # map (reported_by fraction) (rev seen)" by (simp add: p js reported_by_def)
    have w2: "watch_ok ?h (fst (observe ?r now w))"
      unfolding hd using Cons.prems(1) old by (rule observe_ok)
    from Cons.prems(2,3) have rest: "sorted (map fst ((seen @ [p]) @ polls))" "list_all (\<lambda>p. started \<le> fst p) polls"
      and le: "started \<le> now" by (simp_all add: p)
    have st: "stalled now (fst (observe ?r now w)) = (ever_progress ?h \<and> quiet now ?h)"
    proof -
      have "(stall_timeout \<le> now - m) = (m + stall_timeout \<le> now)" for m
        unfolding stall_timeout_def by linarith
      with w2 show ?thesis unfolding watch_ok_def stalled_def by metis
    qed
    have to: "(\<not> lw_reports_progress (fst (observe ?r now w)) \<and> load_timeout \<le> now - started)
        = (\<not> ever_progress ?h \<and> started + load_timeout \<le> now)"
      using w2 le by (auto simp: watch_ok_def)
    have V: "?V = (if str_at ''state'' json = Some ''ready''
          then Some (Ready (case str_at ''device'' json of Some d \<Rightarrow> d | None \<Rightarrow> ''?''))
          else if str_at ''state'' json = Some ''error''
          then Some (LoadError (case str_at ''reason'' json of Some r \<Rightarrow> r | None \<Rightarrow> ''unknown''))
          else if stalled now (fst (observe ?r now w)) then Some Stalled
          else if \<not> lw_reports_progress (fst (observe ?r now w)) \<and> load_timeout \<le> now - started then Some TimedOut
          else None)"
      unfolding st to by (simp add: poll_verdict_def p js Let_def)
    have "snd (load_loop fraction started w (p # polls))
        = (if ?V \<noteq> None then ?V else snd (load_loop fraction started (fst (observe ?r now w)) polls))"
      unfolding V by (simp add: p js Let_def split: prod.split)
    then show ?thesis
      unfolding first using Cons.IH [OF w2 rest] by simp
  qed
qed simp

text \<open>
  C22. A load ends as its polls, taken one by one, tell it: at the first poll that says it is ready, that it
  failed, or that cannot be had or read; that comes when the backend has reported progress and no poll
  of the last two minutes reported anything new; or that comes ten minutes into a load that never
  reported progress. A load that keeps moving is never cut off, and a silent or stalled one always is.
\<close>
theorem loads_judged_by_their_polls:
  assumes "sorted (map fst polls)" "list_all (\<lambda>p. started \<le> fst p) polls"
  shows "snd (load_loop fraction started (new_watch started) polls) = first_verdict fraction started polls"
  using load_loop_verdict [of fraction "[]" "new_watch started" polls started] assms
  unfolding first_verdict_def by (simp add: new_watch_ok)

definition sample_poll :: "nat \<Rightarrow> int \<Rightarrow> poll" where
  "sample_poll now percent =
     (now, Some (Some (VObj [(''state'', VStr ''loading''), (''step'', VStr ''warming_up''), (''progress'', VNum percent)])))"

definition sample_fraction :: "jvalue \<Rightarrow> int option" where
  "sample_fraction v = (case v of VNum n \<Rightarrow> Some n | _ \<Rightarrow> None)"

lemma loads_judged_by_their_polls_witness:
  "let polls = [sample_poll 0 1, sample_poll 60000 1, sample_poll 90000 2, sample_poll 180000 2, sample_poll 210000 2]
   in snd (load_loop sample_fraction 0 (new_watch 0) polls) = Some Stalled
      \<and> first_verdict sample_fraction 0 polls = Some Stalled"
proof -
  let ?polls = "[sample_poll 0 1, sample_poll 60000 1, sample_poll 90000 2, sample_poll 180000 2, sample_poll 210000 2]"
  have "snd (load_loop sample_fraction 0 (new_watch 0) ?polls) = Some Stalled"
    by (simp add: sample_poll_def sample_fraction_def from_status_def id_at_def is_id_def str_at_def observe_def new_watch_def
        stalled_def has_progress_def stall_timeout_def load_timeout_def Let_def max_id_len_def is_ascii_lower_def)
  moreover have "snd (load_loop sample_fraction 0 (new_watch 0) ?polls) = first_verdict sample_fraction 0 ?polls"
    by (rule loads_judged_by_their_polls) (simp_all add: sample_poll_def)
  ultimately show ?thesis unfolding Let_def by simp
qed

text \<open>What a backend can put before a user is a known kind of word, or nothing.\<close>

lemma from_status_checked:
  "from_status fraction status = Some r \<Longrightarrow>
    (\<forall>v \<in> set_option (lp_phase r) \<union> set_option (lp_step r). is_id v)
    \<and> (lp_phase r \<noteq> None \<or> lp_step r \<noteq> None \<or> lp_progress r \<noteq> None)"
  by (auto simp: from_status_def id_at_def Let_def split: if_splits option.splits)

text \<open>A start is given up only at a poll after the deadline, and only when none before it was answered.\<close>

lemma start_given_up_late:
  "wait_for_ping deadline polls = Some False \<Longrightarrow>
    \<exists>pre now status rest. polls = pre @ (now, status) # rest \<and> deadline \<le> now
      \<and> (\<forall>p \<in> set (pre @ [(now, status)]). snd p \<noteq> Some 200)"
proof (induction deadline polls rule: wait_for_ping.induct)
  case (2 deadline now status polls)
  show ?case
  proof (cases "deadline \<le> now")
    case True
    with 2(2) show ?thesis by (intro exI [of _ "[]"]) (auto split: if_splits)
  next
    case False
    with 2 obtain pre u s rest where "polls = pre @ (u, s) # rest" "deadline \<le> u"
      "\<forall>p \<in> set (pre @ [(u, s)]). snd p \<noteq> Some 200" "status \<noteq> Some 200" by (auto split: if_splits)
    then show ?thesis by (intro exI [of _ "(now, status) # pre"]) auto
  qed
qed simp

end
