(* ===== verification/Inst_Disk.thy ===== *)
theory Inst_Disk
  imports SE_Files SE_Numbers
begin

unbundle bit_operations_syntax

section \<open>The file system the installer runs on\<close>

text \<open>
  What \<open>std::fs\<close> does for the installer (\<open>super-engine-installer\<close>), which, unlike the daemon's own
  directories, must reckon with symbolic links to anywhere and with permission bits. A disk maps
  absolute paths (component lists) to nodes; a link holds the text of its target. As in \<open>SE_Files\<close>
  every call that changes something consumes a fault, and the trace holds every state passed through.
\<close>

datatype node =
    Folder
  | Plain string u32
  | Symlink string

type_synonym nodes = "(path, node) hmap"

record host_disk =
  hd_nodes :: nodes
  hd_faults :: "fault list"
  hd_trace :: "nodes list"

definition node_at :: "nodes \<Rightarrow> path \<Rightarrow> node option" where
  "node_at ns p = (if p = [] then Some Folder else hm_get ns p)"

subsection \<open>Paths\<close>

text \<open>
  \<open>Path::components\<close> of an absolute path, and the components the kernel walks: to the kernel a
  trailing slash asks for a directory, like a last \<open>.\<close>.
\<close>

definition is_absolute :: "string \<Rightarrow> bool" where
  "is_absolute p = starts_with ''/'' p"

definition components :: "string \<Rightarrow> string list" where
  "components p = filter (\<lambda>c. c \<noteq> [] \<and> c \<noteq> ''.'') (split_on (CHR ''/'') p)"

definition walk_parts :: "string \<Rightarrow> string list" where
  "walk_parts p =
     (let cs = split_on (CHR ''/'') p; named = filter (\<lambda>c. c \<noteq> []) cs
      in if named \<noteq> [] \<and> last cs = [] then named @ [''.''] else named)"

text \<open>The kernel follows at most 40 links (\<open>MAXSYMLINKS\<close>), as does \<open>realpath\<close>.\<close>

definition max_links :: nat where
  "max_links = 40"

text \<open>
  Where a path leads: every link is followed, and only the last component may be missing.
\<close>

fun place :: "nodes \<Rightarrow> nat \<Rightarrow> path \<Rightarrow> string list \<Rightarrow> path option" where
  "place ns budget cur [] = Some cur"
| "place ns budget cur (c # cs) =
     (if c = ''.'' then place ns budget cur cs
      else if c = ''..'' then place ns budget (butlast cur) cs
      else case node_at ns (cur @ [c]) of
             None \<Rightarrow> if cs = [] then Some (cur @ [c]) else None
           | Some Folder \<Rightarrow> place ns budget (cur @ [c]) cs
           | Some (Plain _ _) \<Rightarrow> if cs = [] then Some (cur @ [c]) else None
           | Some (Symlink t) \<Rightarrow>
               if budget = 0 then None
               else place ns (budget - 1) (if is_absolute t then [] else cur) (walk_parts t @ cs))"

text \<open>\<open>std::fs::canonicalize\<close>.\<close>

definition canonicalize :: "nodes \<Rightarrow> string list \<Rightarrow> path option" where
  "canonicalize ns cs =
     (case place ns max_links [] cs of
        Some p \<Rightarrow> if node_at ns p = None then None else Some p
      | None \<Rightarrow> None)"

text \<open>The entry of a directory that \<open>unlink\<close>, \<open>lstat\<close> and \<open>rename\<close> act on: no last link is followed.\<close>

definition locate :: "nodes \<Rightarrow> string list \<Rightarrow> path option" where
  "locate ns cs =
     (if cs = [] \<or> last cs = ''.'' \<or> last cs = ''..'' then None
      else case place ns max_links [] (butlast cs) of
             Some d \<Rightarrow> if node_at ns d = Some Folder then Some (d @ [last cs]) else None
           | None \<Rightarrow> None)"

text \<open>The file an \<open>open\<close> for reading finds, from the directory the process is in.\<close>

definition read_plain :: "nodes \<Rightarrow> path \<Rightarrow> string \<Rightarrow> (string \<times> u32) option" where
  "read_plain ns cwd p =
     (case place ns max_links (if is_absolute p then [] else cwd) (walk_parts p) of
        Some q \<Rightarrow> (case node_at ns q of Some (Plain t m) \<Rightarrow> Some (t, m) | _ \<Rightarrow> None)
      | None \<Rightarrow> None)"

text \<open>The file an \<open>open\<close> with \<open>O_CREAT\<close> writes: a last link is followed, even to a name not there yet.\<close>

definition write_place :: "nodes \<Rightarrow> string list \<Rightarrow> path option" where
  "write_place ns cs =
     (case place ns max_links [] cs of
        Some q \<Rightarrow>
          (case node_at ns q of
             None \<Rightarrow> if node_at ns (butlast q) = Some Folder then Some q else None
           | Some (Plain _ _) \<Rightarrow> Some q
           | _ \<Rightarrow> None)
      | None \<Rightarrow> None)"

subsection \<open>The calls\<close>

definition hcall :: "(nodes \<Rightarrow> io_kind + nodes) \<Rightarrow> (nat \<Rightarrow> nodes \<Rightarrow> nodes) \<Rightarrow> (host_disk, io_kind, unit) action" where
  "hcall whole part d =
     (let go = (\<lambda>ns. d\<lparr>hd_nodes := ns, hd_faults := tl (hd_faults d), hd_trace := ns # hd_trace d\<rparr>)
      in case hd_faults d of
           Breaks n # _ \<Rightarrow> (go (part n (hd_nodes d)), Inl IoOther)
         | _ \<Rightarrow>
             (case whole (hd_nodes d) of
                Inl e \<Rightarrow> (go (hd_nodes d), Inl e)
              | Inr ns \<Rightarrow> (go ns, Inr ())))"

definition hd_look :: "(nodes \<Rightarrow> 'a) \<Rightarrow> (host_disk, 'e, 'a) action" where
  "hd_look f d = (d, Inr (f (hd_nodes d)))"

text \<open>\<open>create_dir_all\<close>: each ancestor in turn must lead to a directory, or is made where it leads.\<close>

fun make_dirs :: "path list \<Rightarrow> nodes \<Rightarrow> bool \<times> nodes" where
  "make_dirs [] ns = (True, ns)"
| "make_dirs (p # ps) ns =
     (case canonicalize ns p of
        Some q \<Rightarrow> if node_at ns q = Some Folder then make_dirs ps ns else (False, ns)
      | None \<Rightarrow>
          (case locate ns p of
             Some q \<Rightarrow> if node_at ns q = None then make_dirs ps (hm_insert q Folder ns) else (False, ns)
           | None \<Rightarrow> (False, ns)))"

definition hd_create_dir_all :: "path \<Rightarrow> (host_disk, io_kind, unit) action" where
  "hd_create_dir_all p =
     hcall (\<lambda>ns. case make_dirs (ancestors p) ns of (good, ns2) \<Rightarrow> if good then Inr ns2 else Inl IoOther)
       (\<lambda>n ns. snd (make_dirs (take n (ancestors p)) ns))"

definition hd_remove_file :: "string list \<Rightarrow> (host_disk, io_kind, unit) action" where
  "hd_remove_file cs =
     hcall (\<lambda>ns. case locate ns cs of
              None \<Rightarrow> Inl IoOther
            | Some q \<Rightarrow>
                (case node_at ns q of
                   None \<Rightarrow> Inl IoNotFound
                 | Some Folder \<Rightarrow> Inl IoOther
                 | Some _ \<Rightarrow> Inr (hm_remove q ns)))
       (\<lambda>_ ns. ns)"

text \<open>\<open>std::fs::copy\<close>: the content and the permission bits of a regular file.\<close>

definition hd_copy :: "path \<Rightarrow> string \<Rightarrow> string list \<Rightarrow> (host_disk, io_kind, unit) action" where
  "hd_copy cwd src cs =
     hcall (\<lambda>ns. case read_plain ns cwd src of
              None \<Rightarrow> Inl IoNotFound
            | Some (t, m) \<Rightarrow>
                (case write_place ns cs of None \<Rightarrow> Inl IoOther | Some q \<Rightarrow> Inr (hm_insert q (Plain t m) ns)))
       (\<lambda>n ns. case read_plain ns cwd src of
              None \<Rightarrow> ns
            | Some (t, m) \<Rightarrow>
                (case write_place ns cs of None \<Rightarrow> ns | Some q \<Rightarrow> hm_insert q (Plain (take n t) m) ns))"

definition permission_bits :: u32 where
  "permission_bits = 4095"

definition hd_set_mode :: "string list \<Rightarrow> u32 \<Rightarrow> (host_disk, io_kind, unit) action" where
  "hd_set_mode cs m =
     hcall (\<lambda>ns. case canonicalize ns cs of
              None \<Rightarrow> Inl IoNotFound
            | Some q \<Rightarrow>
                (case node_at ns q of
                   Some (Plain t _) \<Rightarrow> Inr (hm_insert q (Plain t (m AND permission_bits)) ns)
                 | _ \<Rightarrow> Inr ns))
       (\<lambda>_ ns. ns)"

text \<open>\<open>rename(2)\<close> of a file: it replaces what the new name holds unless that is a directory.\<close>

definition hd_rename :: "string list \<Rightarrow> string list \<Rightarrow> (host_disk, io_kind, unit) action" where
  "hd_rename src dst =
     hcall (\<lambda>ns. case (locate ns src, locate ns dst) of
              (Some p, Some q) \<Rightarrow>
                (case node_at ns p of
                   None \<Rightarrow> Inl IoNotFound
                 | Some Folder \<Rightarrow> Inl IoOther
                 | Some nd \<Rightarrow>
                     if node_at ns q = Some Folder then Inl IoOther
                     else if p = q then Inr ns
                     else Inr (hm_insert q nd (hm_remove p ns)))
            | _ \<Rightarrow> Inl IoOther)
       (\<lambda>_ ns. ns)"

subsection \<open>Directories all the way\<close>

text \<open>\<open>chain ns p\<close>: every component of \<open>p\<close> is a real directory, so the path leads to itself.\<close>

definition chain :: "nodes \<Rightarrow> path \<Rightarrow> bool" where
  "chain ns p = (\<forall>k \<le> length p. node_at ns (take k p) = Some Folder)"

definition no_link :: "node option \<Rightarrow> bool" where
  "no_link v = (case v of Some (Symlink _) \<Rightarrow> False | _ \<Rightarrow> True)"

lemma chain_Nil [simp]: "chain ns []"
  by (simp add: chain_def node_at_def)

lemma chain_snoc: "chain ns (p @ [c]) \<longleftrightarrow> chain ns p \<and> node_at ns (p @ [c]) = Some Folder"
  by (auto simp: chain_def le_Suc_eq)

lemma chain_append: "chain ns (p @ q) \<Longrightarrow> chain ns p"
  by (induction q rule: rev_induct) (simp_all add: chain_snoc flip: append_assoc)

lemma chain_butlast: "chain ns p \<Longrightarrow> chain ns (butlast p)"
  by (cases p rule: rev_cases) (simp_all add: chain_snoc)

lemma chain_node: "chain ns p \<Longrightarrow> node_at ns p = Some Folder"
  by (cases p rule: rev_cases) (simp_all add: chain_snoc node_at_def)

lemma place_real:
  "place ns b cur cs = Some p \<Longrightarrow> chain ns cur \<Longrightarrow> chain ns (butlast p) \<and> no_link (node_at ns p)"
proof (induction ns b cur cs rule: place.induct)
  case (1 ns b cur)
  then show ?case by (simp add: chain_butlast chain_node no_link_def)
next
  case (2 ns b cur c cs)
  then show ?case
    by (auto simp: chain_butlast chain_snoc no_link_def
        split: if_splits option.splits node.splits)
qed

text \<open>
  A path whose directories are real and whose end is no link leads to itself, however it is written.
\<close>

definition undotted :: "string list \<Rightarrow> string list" where
  "undotted cs = filter (\<lambda>c. c \<noteq> ''.'') cs"

lemma undotted_simps [simp]:
  "undotted [] = []" "undotted (a @ b) = undotted a @ undotted b"
  "undotted (c # cs) = (if c = ''.'' then undotted cs else c # undotted cs)"
  by (simp_all add: undotted_def)

definition linkless :: "nodes \<Rightarrow> path \<Rightarrow> bool" where
  "linkless ns p = list_all (\<lambda>k. no_link (node_at ns (take k p))) [0..<Suc (length p)]"

lemma linkless_iff: "linkless ns p \<longleftrightarrow> (\<forall>k \<le> length p. no_link (node_at ns (take k p)))"
  by (auto simp: linkless_def list_all_iff)

lemma linkless_Nil [simp]: "linkless ns []"
  by (simp add: linkless_iff node_at_def no_link_def)

lemma linkless_snoc: "linkless ns (p @ [c]) \<longleftrightarrow> linkless ns p \<and> no_link (node_at ns (p @ [c]))"
  by (auto simp: linkless_iff le_Suc_eq)

lemma linkless_append: "linkless ns (p @ q) \<Longrightarrow> linkless ns p"
  by (induction q rule: rev_induct) (simp_all add: linkless_snoc flip: append_assoc)

lemma linkless_node: "linkless ns p \<Longrightarrow> no_link (node_at ns p)"
  unfolding linkless_iff by force

lemma chain_linkless: "chain ns p \<Longrightarrow> linkless ns p"
  by (simp add: chain_def linkless_iff no_link_def)

lemma place_undotted:
  "linkless ns (cur @ undotted cs) \<Longrightarrow> ''..'' \<notin> set cs \<Longrightarrow>
    place ns b cur cs = None \<or> place ns b cur cs = Some (cur @ undotted cs)"
proof (induction cs arbitrary: cur)
  case (Cons c cs)
  show ?case
  proof (cases "c = ''.''")
    case True
    then show ?thesis using Cons by simp
  next
    case False
    have c: "c \<noteq> ''..''" using Cons.prems by auto
    have IH: "place ns b (cur @ [c]) cs = None \<or> place ns b (cur @ [c]) cs = Some ((cur @ [c]) @ undotted cs)"
      using Cons.IH [of "cur @ [c]"] Cons.prems False by simp
    have "linkless ns ((cur @ [c]) @ undotted cs)" using Cons.prems(1) False by simp
    from linkless_node [OF linkless_append [OF this]] have "no_link (node_at ns (cur @ [c]))" .
    then show ?thesis
      using IH c False by (auto simp: no_link_def split: option.splits node.splits)
  qed
qed simp

lemma place_literal:
  assumes "place ns b [] cs = Some q" "linkless ns (undotted cs)" "''..'' \<notin> set cs"
  shows "q = undotted cs"
  using place_undotted [of ns "[]" cs b] assms by auto

lemma place_chain:
  "chain ns (cur @ cs) \<Longrightarrow> ''..'' \<notin> set cs \<Longrightarrow> ''.'' \<notin> set cs \<Longrightarrow> place ns b cur cs = Some (cur @ cs)"
proof (induction cs arbitrary: cur)
  case (Cons c cs)
  then have "node_at ns (cur @ [c]) = Some Folder"
    using chain_append [of ns "cur @ [c]" cs] chain_node by force
  with Cons show ?case by auto
qed simp

lemma canonicalize_itself:
  assumes "canonicalize ns p = Some p"
  shows "linkless ns p"
proof -
  from assms have "place ns max_links [] p = Some p"
    by (auto simp: canonicalize_def split: option.splits if_splits)
  from place_real [OF this] have "chain ns (butlast p)" "no_link (node_at ns p)" by simp_all
  then show ?thesis
    by (cases p rule: rev_cases) (simp_all add: chain_linkless linkless_snoc)
qed

definition present :: "nodes \<Rightarrow> path \<Rightarrow> bool" where
  "present ns p = (\<forall>k \<le> length p. node_at ns (take k p) \<noteq> None)"

lemma present_snoc: "present ns (p @ [c]) \<longleftrightarrow> present ns p \<and> node_at ns (p @ [c]) \<noteq> None"
  by (auto simp: present_def le_Suc_eq)

lemma present_append: "present ns (p @ q) \<Longrightarrow> present ns p"
  by (induction q rule: rev_induct) (simp_all add: present_snoc flip: append_assoc)

lemma canonicalize_present:
  assumes "canonicalize ns p = Some p"
  shows "present ns p"
proof -
  from assms have p: "place ns max_links [] p = Some p" "node_at ns p \<noteq> None"
    by (auto simp: canonicalize_def split: option.splits if_splits)
  from place_real [OF p(1)] have "chain ns (butlast p)" by simp
  then have "present ns (butlast p)" by (simp add: chain_def present_def)
  with p(2) show ?thesis
    by (cases p rule: rev_cases) (simp_all add: present_snoc)
qed

lemma locate_literal:
  assumes "locate ns cs = Some q" "linkless ns (butlast (undotted cs))" "''..'' \<notin> set cs"
  shows "q = undotted cs"
proof -
  obtain d where cs: "cs \<noteq> []" "last cs \<noteq> ''.''" and d: "place ns max_links [] (butlast cs) = Some d" "q = d @ [last cs]"
    using assms(1) by (auto simp: locate_def split: if_splits option.splits)
  then obtain ds c where ds: "cs = ds @ [c]" by (metis append_butlast_last_id)
  then show ?thesis
    using place_literal [of ns max_links ds d] d cs assms(2,3) by auto
qed

lemma canonicalize_literal:
  "canonicalize ns cs = Some q \<Longrightarrow> linkless ns (undotted cs) \<Longrightarrow> ''..'' \<notin> set cs \<Longrightarrow> q = undotted cs"
  unfolding canonicalize_def by (auto split: option.splits if_splits dest: place_literal)

lemma write_place_literal:
  "write_place ns cs = Some q \<Longrightarrow> linkless ns (undotted cs) \<Longrightarrow> ''..'' \<notin> set cs \<Longrightarrow> q = undotted cs"
  unfolding write_place_def by (auto split: option.splits node.splits if_splits dest: place_literal)

subsection \<open>What a computation may have changed\<close>

text \<open>
  \<open>edits W a b\<close>: from \<open>a\<close> to \<open>b\<close> directories have been made where nothing was, and a place \<open>q\<close> that held
  no directory may have come to hold a \<open>v\<close> with \<open>W q v\<close>. No link is ever made. \<open>edited W\<close> says so of
  every state a computation passes through.
\<close>

definition edits :: "(path \<Rightarrow> node option \<Rightarrow> bool) \<Rightarrow> nodes \<Rightarrow> nodes \<Rightarrow> bool" where
  "edits W a b =
     (\<forall>q. node_at b q = node_at a q
        \<or> node_at a q = None \<and> node_at b q = Some Folder
        \<or> W q (node_at b q) \<and> node_at a q \<noteq> Some Folder \<and> no_link (node_at b q))"

definition edited :: "(path \<Rightarrow> node option \<Rightarrow> bool) \<Rightarrow> host_disk \<Rightarrow> host_disk \<Rightarrow> bool" where
  "edited W d d2 =
     (\<exists>new. hd_trace d2 = new @ hd_trace d \<and> list_all (edits W (hd_nodes d)) (hd_nodes d2 # new))"

text \<open>A place that may be emptied may also be given a directory afterwards.\<close>

definition reusable :: "(path \<Rightarrow> node option \<Rightarrow> bool) \<Rightarrow> bool" where
  "reusable W = (\<forall>q. W q None \<longrightarrow> W q (Some Folder))"

lemma edits_refl [simp]: "edits W a a"
  by (simp add: edits_def)

lemma edits_trans:
  assumes "reusable W" "edits W a b" "edits W b c"
  shows "edits W a c"
  unfolding edits_def
proof
  fix q
  have "W q None \<longrightarrow> W q (Some Folder)" "no_link (Some Folder)"
    using assms(1) by (simp_all add: reusable_def no_link_def)
  moreover note assms(2,3) [unfolded edits_def, rule_format, of q]
  ultimately show "node_at c q = node_at a q \<or> node_at a q = None \<and> node_at c q = Some Folder
      \<or> W q (node_at c q) \<and> node_at a q \<noteq> Some Folder \<and> no_link (node_at c q)"
    by auto
qed

lemma edits_mono: "edits W a b \<Longrightarrow> (\<And>q v. W q v \<Longrightarrow> V q v) \<Longrightarrow> edits V a b"
  unfolding edits_def by blast

lemma edits_keeps_folder: "edits W a b \<Longrightarrow> node_at a q = Some Folder \<Longrightarrow> node_at b q = Some Folder"
  unfolding edits_def by (metis option.distinct(1))

lemma edits_chain: "edits W a b \<Longrightarrow> chain a p \<Longrightarrow> chain b p"
  by (simp add: chain_def edits_keeps_folder)

lemma edits_no_link: "edits W a b \<Longrightarrow> no_link (node_at a q) \<Longrightarrow> no_link (node_at b q)"
  unfolding edits_def by (auto simp: no_link_def dest!: spec [of _ q])

lemma edits_kept:
  assumes "edits W a b" "node_at a q \<noteq> None" "\<And>v. \<not> W q v"
  shows "node_at b q = node_at a q"
  using assms(1) [unfolded edits_def, rule_format, of q] assms(2,3) by auto

lemma edits_linkless: "edits W a b \<Longrightarrow> linkless a p \<Longrightarrow> linkless b p"
  by (auto simp: linkless_iff intro: edits_no_link)

lemma node_at_insert: "node_at (hm_insert q v ns) r = (if r = q \<and> q \<noteq> [] then Some v else node_at ns r)"
  by (simp add: node_at_def)

lemma node_at_remove: "node_at (hm_remove q ns) r = (if r = q \<and> q \<noteq> [] then None else node_at ns r)"
  by (simp add: node_at_def)

lemma edits_insert:
  "W q (Some v) \<Longrightarrow> node_at ns q \<noteq> Some Folder \<Longrightarrow> no_link (Some v) \<Longrightarrow> edits W ns (hm_insert q v ns)"
  by (simp add: edits_def node_at_insert)

lemma edits_remove: "W q None \<Longrightarrow> node_at ns q \<noteq> Some Folder \<Longrightarrow> edits W ns (hm_remove q ns)"
  by (simp add: edits_def node_at_remove no_link_def)

lemma edits_folder: "node_at ns q = None \<Longrightarrow> edits W ns (hm_insert q Folder ns)"
  by (simp add: edits_def node_at_insert)

lemma edits_make_dirs: "reusable W \<Longrightarrow> edits W ns (snd (make_dirs ps ns))"
proof (induction ps arbitrary: ns)
  case (Cons p ps)
  then show ?case
    by (auto split: option.split intro: edits_trans edits_folder)
qed simp

lemma edited_refl [simp]: "edited W d d"
  by (simp add: edited_def)

lemma edited_trans:
  assumes "reusable W" "edited W a b" "edited W b c"
  shows "edited W a c"
proof -
  obtain new more where
    1: "hd_trace b = new @ hd_trace a" "list_all (edits W (hd_nodes a)) (hd_nodes b # new)" and
    2: "hd_trace c = more @ hd_trace b" "list_all (edits W (hd_nodes b)) (hd_nodes c # more)"
    using assms(2,3) unfolding edited_def by blast
  have "list_all (edits W (hd_nodes a)) (hd_nodes c # more)"
    using 2(2) by (rule list.pred_mono_strong) (use 1(2) in \<open>auto intro: edits_trans [OF assms(1)]\<close>)
  with 1 2(1) have "hd_trace c = (more @ new) @ hd_trace a
      \<and> list_all (edits W (hd_nodes a)) (hd_nodes c # more @ new)"
    by simp
  then show ?thesis unfolding edited_def by blast
qed

lemma edited_mono: "edited W a b \<Longrightarrow> (\<And>q v. W q v \<Longrightarrow> V q v) \<Longrightarrow> edited V a b"
  unfolding edited_def list_all_iff by (blast intro: edits_mono)

lemma edited_nodes: "edited W d d2 \<Longrightarrow> edits W (hd_nodes d) (hd_nodes d2)"
  by (auto simp: edited_def)

lemma hcall_edited:
  assumes "hcall whole part d = (d2, r)"
    and "\<And>ns. whole (hd_nodes d) = Inr ns \<Longrightarrow> edits W (hd_nodes d) ns"
    and "\<And>n. edits W (hd_nodes d) (part n (hd_nodes d))"
  shows "edited W d d2"
proof -
  consider (all) ns where "whole (hd_nodes d) = Inr ns" "hd_nodes d2 = ns" "hd_trace d2 = ns # hd_trace d"
    | (stay) "hd_nodes d2 = hd_nodes d" "hd_trace d2 = hd_nodes d # hd_trace d"
    | (some) n where "hd_nodes d2 = part n (hd_nodes d)" "hd_trace d2 = part n (hd_nodes d) # hd_trace d"
    using assms(1) by (auto simp: hcall_def Let_def split: list.splits fault.splits sum.splits)
  then show ?thesis
    using assms(2,3) unfolding edited_def by cases auto
qed

lemma hcall_nodes:
  "hcall whole part d = (d2, r) \<Longrightarrow>
    whole (hd_nodes d) = Inr (hd_nodes d2) \<or> hd_nodes d2 = hd_nodes d \<or> (\<exists>n. hd_nodes d2 = part n (hd_nodes d))"
  by (auto simp: hcall_def Let_def split: list.splits fault.splits sum.splits)

lemma hcall_Inr: "hcall whole part d = (d2, Inr u) \<Longrightarrow> whole (hd_nodes d) = Inr (hd_nodes d2)"
  by (auto simp: hcall_def Let_def split: list.splits fault.splits sum.splits)

lemma create_dir_all_edited: "reusable W \<Longrightarrow> hd_create_dir_all p d = (d2, r) \<Longrightarrow> edited W d d2"
  unfolding hd_create_dir_all_def
proof (erule hcall_edited)
  fix ns
  assume W: "reusable W"
    and ns: "(case make_dirs (ancestors p) (hd_nodes d) of (good, ns2) \<Rightarrow> if good then Inr ns2 else Inl IoOther) = Inr ns"
  then have "ns = snd (make_dirs (ancestors p) (hd_nodes d))" by (auto split: prod.splits if_splits)
  then show "edits W (hd_nodes d) ns" using edits_make_dirs [OF W] by simp
qed (rule edits_make_dirs)

lemma remove_file_edited:
  assumes "hd_remove_file cs d = (d2, r)" "\<And>q. locate (hd_nodes d) cs = Some q \<Longrightarrow> W q None"
  shows "edited W d d2"
  using assms(1) unfolding hd_remove_file_def
  by (rule hcall_edited) (auto split: option.splits node.splits intro!: edits_remove assms(2))

lemma copy_edited:
  assumes "hd_copy cwd src cs d = (d2, r)"
    and "\<And>q t m k. write_place (hd_nodes d) cs = Some q \<Longrightarrow> read_plain (hd_nodes d) cwd src = Some (t, m) \<Longrightarrow>
      W q (Some (Plain (take k t) m))"
  shows "edited W d d2"
  using assms(1) unfolding hd_copy_def
proof (rule hcall_edited)
  have *: "edits W (hd_nodes d) (hm_insert q (Plain (take k t) m) (hd_nodes d))"
    if "write_place (hd_nodes d) cs = Some q" "read_plain (hd_nodes d) cwd src = Some (t, m)" for q t m k
    using assms(2) [OF that] that(1)
    by (intro edits_insert) (auto simp: write_place_def no_link_def split: option.splits node.splits if_splits)
  show "edits W (hd_nodes d) (case read_plain (hd_nodes d) cwd src of
          None \<Rightarrow> hd_nodes d
        | Some (t, m) \<Rightarrow> (case write_place (hd_nodes d) cs of
            None \<Rightarrow> hd_nodes d | Some q \<Rightarrow> hm_insert q (Plain (take n t) m) (hd_nodes d)))" for n
    using * by (auto split: option.split)
  fix ns
  assume "(case read_plain (hd_nodes d) cwd src of
            None \<Rightarrow> Inl IoNotFound
          | Some (t, m) \<Rightarrow> (case write_place (hd_nodes d) cs of
              None \<Rightarrow> Inl IoOther | Some q \<Rightarrow> Inr (hm_insert q (Plain t m) (hd_nodes d)))) = Inr ns"
  then obtain q t m where "write_place (hd_nodes d) cs = Some q" "read_plain (hd_nodes d) cwd src = Some (t, m)"
    "ns = hm_insert q (Plain (take (length t) t) m) (hd_nodes d)"
    by (auto split: option.splits)
  with * show "edits W (hd_nodes d) ns" by blast
qed

lemma set_mode_edited:
  assumes "hd_set_mode cs m d = (d2, r)"
    and "\<And>q t m0. canonicalize (hd_nodes d) cs = Some q \<Longrightarrow> node_at (hd_nodes d) q = Some (Plain t m0) \<Longrightarrow>
      W q (Some (Plain t (m AND permission_bits)))"
  shows "edited W d d2"
  using assms(1) unfolding hd_set_mode_def
  by (rule hcall_edited) (auto simp: no_link_def split: option.splits node.splits intro!: edits_insert assms(2))

lemma rename_edited:
  assumes "hd_rename src dst d = (d2, r)" "reusable W"
    and "\<And>p q nd. locate (hd_nodes d) src = Some p \<Longrightarrow> locate (hd_nodes d) dst = Some q \<Longrightarrow>
      node_at (hd_nodes d) p = Some nd \<Longrightarrow> W p None \<and> W q (Some nd) \<and> no_link (Some nd)"
  shows "edited W d d2"
  using assms(1) unfolding hd_rename_def
proof (rule hcall_edited)
  fix ns
  assume "(case (locate (hd_nodes d) src, locate (hd_nodes d) dst) of
      (Some p, Some q) \<Rightarrow>
        (case node_at (hd_nodes d) p of
           None \<Rightarrow> Inl IoNotFound
         | Some Folder \<Rightarrow> Inl IoOther
         | Some nd \<Rightarrow>
             if node_at (hd_nodes d) q = Some Folder then Inl IoOther
             else if p = q then Inr (hd_nodes d)
             else Inr (hm_insert q nd (hm_remove p (hd_nodes d))))
    | _ \<Rightarrow> Inl IoOther) = Inr ns" (is "?go = _")
  moreover obtain p where 1: "locate (hd_nodes d) src = Some p"
    using calculation by (cases "locate (hd_nodes d) src") simp_all
  moreover obtain q where 2: "locate (hd_nodes d) dst = Some q"
    using calculation by (cases "locate (hd_nodes d) dst") simp_all
  moreover obtain nd where 3: "node_at (hd_nodes d) p = Some nd"
    using calculation by (cases "node_at (hd_nodes d) p") simp_all
  ultimately have nd: "nd \<noteq> Folder" "node_at (hd_nodes d) q \<noteq> Some Folder"
    and ns: "ns = hd_nodes d \<or> p \<noteq> q \<and> ns = hm_insert q nd (hm_remove p (hd_nodes d))"
    by (cases nd; auto split: if_splits)+
  note pq = 1 2 3 nd
  note W = assms(3) [OF pq(1-3)]
  have "edits W (hd_nodes d) (hm_remove p (hd_nodes d))"
    using W pq by (intro edits_remove) auto
  moreover have "edits W (hm_remove p (hd_nodes d)) (hm_insert q nd (hm_remove p (hd_nodes d)))"
    using W pq by (intro edits_insert) (auto simp: node_at_remove)
  ultimately show "edits W (hd_nodes d) ns"
    using ns edits_trans [OF assms(2)] by auto
qed simp

end
