(* ===== verification/Inst_Root.thy ===== *)
theory Inst_Root
  imports Inst_Disk Spec_Verify
begin

section \<open>The installer's root phase\<close>

text \<open>
  \<open>super-engine-installer/src/root_phase.rs\<close>: the step that runs as root and copies what the manifest
  names into place. The text of the manifest comes from an unprivileged user; what it may do is
  checked entry by entry before anything is touched, and every file is put in place by a rename.
  \<open>serde_json\<close> and \<open>current_exe\<close> are parameters; the refresh of the icon cache is not modelled.
\<close>

unbundle bit_operations_syntax

record manifest_entry =
  me_source :: string
  me_dest :: string
  me_mode :: u32

record install_manifest =
  im_entries :: "manifest_entry list"
  im_removals :: "string list"

text \<open>What each \<open>InstallFailed\<close> of the root phase says.\<close>

datatype root_failure =
    NotAbsolute string
  | HasParentDir string
  | OutsideRoots string
  | PrivilegedMode u32
  | OutsideStaging string
  | NoParent string
  | CreateFailed string
  | ResolveFailed string
  | SymlinkedAncestor string path
  | CopyFailed string
  | ChmodFailed string
  | RenameFailed string
  | StatFailed string
  | IsADirectory string
  | RemoveFailed string
  | ManifestTooLarge u64
  | ManifestUnreadable
  | ManifestUnparsable

record root_env =
  re_pid :: nat
  re_exe :: "string option"
  re_cwd :: path
  re_parse :: "string \<Rightarrow> install_manifest option"

definition allowed_roots :: "string list" where
  "allowed_roots = [''/usr/local/'', ''/usr/lib/systemd/user/'']"

subsection \<open>The checks\<close>

definition has_parent_dir :: "string \<Rightarrow> bool" where
  "has_parent_dir p = (''..'' \<in> set (components p))"

definition validate_dest :: "string \<Rightarrow> string list \<Rightarrow> root_failure + unit" where
  "validate_dest dest allowed =
     ensure (is_absolute dest) (NotAbsolute dest) (
     ensure (\<not> has_parent_dir dest) (HasParentDir dest) (
     ensure (list_ex (\<lambda>root. starts_with root dest) allowed) (OutsideRoots dest) (
     Inr ())))"

text \<open>The setuid, setgid and sticky bits, \<open>0o7000\<close>.\<close>

definition privileged_bits :: u32 where
  "privileged_bits = 3584"

definition validate_mode :: "u32 \<Rightarrow> root_failure + unit" where
  "validate_mode m = ensure (m AND privileged_bits = 0) (PrivilegedMode m) (Inr ())"

definition real_path :: "root_env \<Rightarrow> nodes \<Rightarrow> string \<Rightarrow> path option" where
  "real_path E ns p =
     (case place ns max_links (if is_absolute p then [] else re_cwd E) (walk_parts p) of
        Some q \<Rightarrow> if node_at ns q = None then None else Some q
      | None \<Rightarrow> None)"

definition is_self_exe :: "root_env \<Rightarrow> nodes \<Rightarrow> string \<Rightarrow> bool" where
  "is_self_exe E ns source =
     (case re_exe E of
        None \<Rightarrow> False
      | Some exe \<Rightarrow>
          (case (real_path E ns source, real_path E ns exe) of
             (Some a, Some b) \<Rightarrow> a = b
           | _ \<Rightarrow> False))"

definition validate_source :: "root_env \<Rightarrow> nodes \<Rightarrow> string \<Rightarrow> path \<Rightarrow> root_failure + unit" where
  "validate_source E ns source staging_root =
     ensure (\<not> has_parent_dir source) (HasParentDir source) (
     if is_self_exe E ns source then Inr ()
     else ensure (is_absolute source \<and> prefix staging_root (components source)) (OutsideStaging source) (Inr ()))"

definition ensure_no_symlinked_ancestor :: "nodes \<Rightarrow> string \<Rightarrow> path \<Rightarrow> root_failure + unit" where
  "ensure_no_symlinked_ancestor ns named parent =
     (case canonicalize ns parent of
        None \<Rightarrow> Inl (ResolveFailed named)
      | Some real \<Rightarrow> ensure (real = parent) (SymlinkedAncestor named real) (Inr ()))"

definition validate_entry :: "root_env \<Rightarrow> nodes \<Rightarrow> string list \<Rightarrow> path \<Rightarrow> manifest_entry \<Rightarrow> root_failure + unit" where
  "validate_entry E ns allowed staging_root e =
     and_then (validate_dest (me_dest e) allowed) (\<lambda>_.
     and_then (validate_mode (me_mode e)) (\<lambda>_.
     validate_source E ns (me_source e) staging_root))"

fun first_failure :: "('a \<Rightarrow> 'e + unit) \<Rightarrow> 'a list \<Rightarrow> 'e + unit" where
  "first_failure f [] = Inr ()"
| "first_failure f (x # xs) = and_then (f x) (\<lambda>_. first_failure f xs)"

definition validate_manifest :: "root_env \<Rightarrow> nodes \<Rightarrow> string list \<Rightarrow> path \<Rightarrow> install_manifest \<Rightarrow> root_failure + unit" where
  "validate_manifest E ns allowed staging_root m =
     and_then (first_failure (validate_entry E ns allowed staging_root) (im_entries m)) (\<lambda>_.
     first_failure (\<lambda>p. validate_dest p allowed) (im_removals m))"

subsection \<open>Putting the files in place\<close>

definition dest_path :: "string \<Rightarrow> path" where
  "dest_path dest = components dest"

definition tmp_name :: "root_env \<Rightarrow> string \<Rightarrow> string" where
  "tmp_name E dest =
     ''.install.'' @ show_nat (re_pid E) @ ''.'' @ last (dest_path dest) @ ''.tmp''"

definition tmp_place :: "root_env \<Rightarrow> string \<Rightarrow> path" where
  "tmp_place E dest = butlast (dest_path dest) @ [tmp_name E dest]"

text \<open>\<open>write_result\<close>: copied beside its destination, given its mode, and renamed onto it.\<close>

definition write_entry :: "root_env \<Rightarrow> manifest_entry \<Rightarrow> (host_disk, root_failure, unit) action" where
  "write_entry E e =
     (let dest = me_dest e; tmp = tmp_place E dest in
      io_then (io_map_err (\<lambda>_. CopyFailed dest) (hd_copy (re_cwd E) (me_source e) tmp)) (\<lambda>_.
      io_then (io_map_err (\<lambda>_. ChmodFailed dest) (hd_set_mode tmp (me_mode e))) (\<lambda>_.
      io_map_err (\<lambda>_. RenameFailed dest) (hd_rename tmp (walk_parts dest)))))"

definition apply_entry :: "root_env \<Rightarrow> manifest_entry \<Rightarrow> (host_disk, root_failure, unit) action" where
  "apply_entry E e =
     (let dest = me_dest e; parent = butlast (dest_path dest); tmp = tmp_place E dest in
      if dest_path dest = [] then io_fail (NoParent dest)
      else io_then (io_map_err (\<lambda>_. CreateFailed dest) (hd_create_dir_all parent)) (\<lambda>_.
           io_then (hd_look (\<lambda>ns. ensure_no_symlinked_ancestor ns dest parent)) (\<lambda>checked.
           io_then (io_of checked) (\<lambda>_.
           io_then (io_ignore (hd_remove_file tmp)) (\<lambda>_.
           io_then (io_try (write_entry E e)) (\<lambda>written.
           io_then (case written of
               Inl _ \<Rightarrow> io_ignore (hd_remove_file tmp)
             | Inr _ \<Rightarrow> io_pure ()) (\<lambda>_.
           io_of written)))))))"

text \<open>
  \<open>symlink_metadata\<close>: a name that ends in a slash or a dot is followed. \<open>Inr None\<close> stands for \<open>NotFound\<close>,
  \<open>Inl\<close> for any other error.
\<close>

fun is_missing :: "nodes \<Rightarrow> nat \<Rightarrow> path \<Rightarrow> string list \<Rightarrow> bool" where
  "is_missing ns budget cur [] = False"
| "is_missing ns budget cur (c # cs) =
     (if c = ''.'' then is_missing ns budget cur cs
      else if c = ''..'' then is_missing ns budget (butlast cur) cs
      else case node_at ns (cur @ [c]) of
             None \<Rightarrow> True
           | Some Folder \<Rightarrow> is_missing ns budget (cur @ [c]) cs
           | Some (Plain _ _) \<Rightarrow> False
           | Some (Symlink t) \<Rightarrow>
               if budget = 0 then False
               else is_missing ns (budget - 1) (if is_absolute t then [] else cur) (walk_parts t @ cs))"

definition link_metadata :: "nodes \<Rightarrow> string \<Rightarrow> unit + node option" where
  "link_metadata ns p =
     (let cs = walk_parts p in
      case locate ns cs of
        Some q \<Rightarrow> Inr (node_at ns q)
      | None \<Rightarrow>
          if last cs = ''.''
          then (case canonicalize ns cs of
                  Some q \<Rightarrow> Inr (node_at ns q)
                | None \<Rightarrow> if is_missing ns max_links [] cs then Inr None else Inl ())
          else if is_missing ns max_links [] (butlast cs) then Inr None else Inl ())"

definition remove_replaced :: "string \<Rightarrow> (host_disk, root_failure, unit) action" where
  "remove_replaced p =
     (let parent = butlast (dest_path p) in
      if dest_path p = [] then io_fail (NoParent p)
      else io_then (hd_look (\<lambda>ns. canonicalize ns parent \<noteq> None)) (\<lambda>exists.
           if \<not> exists then io_pure ()
           else io_then (hd_look (\<lambda>ns. ensure_no_symlinked_ancestor ns p parent)) (\<lambda>checked.
                io_then (io_of checked) (\<lambda>_.
                io_then (hd_look (\<lambda>ns. link_metadata ns p)) (\<lambda>meta.
                case meta of
                  Inl _ \<Rightarrow> io_fail (StatFailed p)
                | Inr None \<Rightarrow> io_pure ()
                | Inr (Some Folder) \<Rightarrow> io_fail (IsADirectory p)
                | Inr (Some _) \<Rightarrow> io_map_err (\<lambda>_. RemoveFailed p) (hd_remove_file (walk_parts p)))))))"

definition apply_manifest :: "root_env \<Rightarrow> install_manifest \<Rightarrow> string list \<Rightarrow> path \<Rightarrow> (host_disk, root_failure, unit) action" where
  "apply_manifest E m allowed staging_root =
     io_then (hd_look (\<lambda>ns. validate_manifest E ns allowed staging_root m)) (\<lambda>checked.
     io_then (io_of checked) (\<lambda>_.
     io_then (io_each (apply_entry E) (im_entries m)) (\<lambda>_.
     io_each remove_replaced (im_removals m))))"

subsection \<open>What an entry may change\<close>

text \<open>
  The places an entry writes: its temporary name, with anything, and its destination, with a whole
  file under the entry's mode whose text \<open>ok\<close> admits.
\<close>

definition entry_edit ::
  "root_env \<Rightarrow> (manifest_entry \<Rightarrow> string \<Rightarrow> bool) \<Rightarrow> manifest_entry \<Rightarrow> path \<Rightarrow> node option \<Rightarrow> bool" where
  "entry_edit E ok e q v =
     (q = tmp_place E (me_dest e)
      \<or> q = dest_path (me_dest e)
        \<and> (case v of Some (Plain t m) \<Rightarrow> m = me_mode e AND permission_bits \<and> ok e t | _ \<Rightarrow> False))"

lemma components_plain: "c \<in> set (components p) \<Longrightarrow> c \<noteq> [] \<and> c \<noteq> ''.''"
  by (simp add: components_def)

lemma undotted_components [simp]: "undotted (components p) = components p"
  by (simp add: undotted_def components_def)

lemma undotted_walk_parts [simp]: "undotted (walk_parts p) = components p"
  by (simp add: walk_parts_def components_def Let_def undotted_def conj_commute)

lemma parent_dir_walk_parts: "''..'' \<in> set (walk_parts p) \<longleftrightarrow> has_parent_dir p"
  by (auto simp: walk_parts_def components_def Let_def has_parent_dir_def)

lemma tmp_name_plain: "tmp_name E dest \<noteq> ''.''" "tmp_name E dest \<noteq> ''..''"
  by (simp_all add: tmp_name_def)

lemma undotted_id: "''.'' \<notin> set p \<Longrightarrow> undotted p = p"
  by (auto simp: undotted_def filter_id_conv)

lemma undotted_tmp_place [simp]: "undotted (tmp_place E dest) = tmp_place E dest"
  using in_set_butlastD [of "''.''" "components dest"] components_plain [of "''.''" dest]
  by (auto simp: tmp_place_def tmp_name_plain dest_path_def intro!: undotted_id)

lemma tmp_place_no_parent_dir: "\<not> has_parent_dir dest \<Longrightarrow> ''..'' \<notin> set (tmp_place E dest)"
  by (auto simp: tmp_place_def has_parent_dir_def dest_path_def dest: in_set_butlastD dest!: tmp_name_plain(2) [THEN notE, OF sym])

lemma butlast_tmp_place [simp]: "butlast (tmp_place E dest) = butlast (dest_path dest)"
  by (simp add: tmp_place_def)

lemma reusable_entry_edit [simp]: "reusable (entry_edit E ok e)"
  by (simp add: reusable_def entry_edit_def)

lemma entry_edit_tmp [simp]: "entry_edit E ok e (tmp_place E (me_dest e)) v"
  by (simp add: entry_edit_def)

lemma write_entry_edited:
  fixes E e ok
  defines "tmp \<equiv> tmp_place E (me_dest e)" and "W \<equiv> entry_edit E ok e"
  assumes run: "write_entry E e d = (d2, r)"
    and real: "linkless (hd_nodes d) tmp" and up: "\<not> has_parent_dir (me_dest e)"
    and texts: "\<And>t m. read_plain (hd_nodes d) (re_cwd E) (me_source e) = Some (t, m) \<Longrightarrow> ok e t"
  shows "edited W d d2"
    and "r = Inr () \<Longrightarrow> \<exists>t. ok e t
      \<and> node_at (hd_nodes d2) (dest_path (me_dest e)) = Some (Plain t (me_mode e AND permission_bits))"
proof -
  have up2: "''..'' \<notin> set tmp" and und: "undotted tmp = tmp"
    using tmp_place_no_parent_dir [OF up, of E] by (simp_all add: tmp_def)
  have W: "reusable W" and Wtmp: "W tmp v" for v by (simp_all add: W_def tmp_def)
  have trans: "edited W a b \<Longrightarrow> edited W b c \<Longrightarrow> edited W a c" for a b c
    by (rule edited_trans [OF W])
  obtain d3 r3 where copy: "hd_copy (re_cwd E) (me_source e) tmp d = (d3, r3)" by fastforce
  have at_tmp: "q = tmp" if "write_place (hd_nodes d) tmp = Some q" for q
    using write_place_literal [OF that] real up2 und by simp
  have e3: "edited W d d3"
    by (rule copy_edited [OF copy]) (auto dest: at_tmp intro: Wtmp)
  then have real3: "linkless (hd_nodes d3) tmp"
    using real by (blast dest: edited_nodes edits_linkless)
  obtain d4 r4 where chmod: "hd_set_mode tmp (me_mode e) d3 = (d4, r4)" by fastforce
  have e4: "edited W d3 d4"
    by (rule set_mode_edited [OF chmod])
      (use canonicalize_literal [of "hd_nodes d3" tmp] real3 up2 und Wtmp in auto)
  then have real4: "linkless (hd_nodes d4) tmp"
    using real3 by (blast dest: edited_nodes edits_linkless)
  obtain d5 r5 where ren: "hd_rename tmp (walk_parts (me_dest e)) d4 = (d5, r5)" by fastforce
  have par4: "linkless (hd_nodes d4) (butlast tmp)"
    using real4 by (cases tmp rule: rev_cases) (simp_all add: linkless_snoc)
  have from_tmp: "p = tmp" if "locate (hd_nodes d4) tmp = Some p" for p
    using locate_literal [OF that] par4 up2 und by simp
  have to_dest: "q = dest_path (me_dest e)" if "locate (hd_nodes d4) (walk_parts (me_dest e)) = Some q" for q
    using locate_literal [OF that] par4 up by (simp add: tmp_def dest_path_def parent_dir_walk_parts)
  have full: "\<exists>t. ok e t \<and> node_at (hd_nodes d4) tmp = Some (Plain t (me_mode e AND permission_bits))"
    if ok3: "r3 = Inr ()" and ok4: "r4 = Inr ()"
  proof -
    have "(case read_plain (hd_nodes d) (re_cwd E) (me_source e) of
          None \<Rightarrow> Inl IoNotFound
        | Some (t, m) \<Rightarrow> (case write_place (hd_nodes d) tmp of
            None \<Rightarrow> Inl IoOther | Some q \<Rightarrow> Inr (hm_insert q (Plain t m) (hd_nodes d)))) = Inr (hd_nodes d3)"
      using copy unfolding hd_copy_def ok3 by (rule hcall_Inr)
    then obtain q t m where 3: "write_place (hd_nodes d) tmp = Some q"
        "read_plain (hd_nodes d) (re_cwd E) (me_source e) = Some (t, m)" "hd_nodes d3 = hm_insert q (Plain t m) (hd_nodes d)"
      by (auto split: option.splits)
    with at_tmp have "node_at (hd_nodes d3) tmp = Some (Plain t m)"
      by (auto simp: node_at_insert tmp_def tmp_place_def)
    moreover have "(case canonicalize (hd_nodes d3) tmp of
              None \<Rightarrow> Inl IoNotFound
            | Some q \<Rightarrow>
                (case node_at (hd_nodes d3) q of
                   Some (Plain t _) \<Rightarrow> Inr (hm_insert q (Plain t (me_mode e AND permission_bits)) (hd_nodes d3))
                 | _ \<Rightarrow> Inr (hd_nodes d3))) = Inr (hd_nodes d4)"
      using chmod unfolding hd_set_mode_def ok4 by (rule hcall_Inr)
    ultimately have "hd_nodes d4 = hm_insert tmp (Plain t (me_mode e AND permission_bits)) (hd_nodes d3)"
      using canonicalize_literal [of "hd_nodes d3" tmp] real3 up2 und by (auto split: option.splits)
    then have "node_at (hd_nodes d4) tmp = Some (Plain t (me_mode e AND permission_bits))"
      by (simp add: node_at_insert tmp_def tmp_place_def)
    with texts [OF 3(2)] show ?thesis by blast
  qed
  have e5: "edited W d4 d5" if "r3 = Inr ()" "r4 = Inr ()"
  proof (rule rename_edited [OF ren W])
    fix p q nd
    assume "locate (hd_nodes d4) tmp = Some p" "locate (hd_nodes d4) (walk_parts (me_dest e)) = Some q"
      "node_at (hd_nodes d4) p = Some nd"
    with full [OF that] from_tmp to_dest
    show "W p None \<and> W q (Some nd) \<and> no_link (Some nd)"
      by (auto simp: W_def entry_edit_def tmp_def no_link_def)
  qed
  show "edited W d d2"
    using run copy chmod ren e3 e4 e5
    unfolding write_entry_def Let_def tmp_def [symmetric]
    by (auto simp: io_then_def io_map_err_def split: sum.splits prod.splits dest: trans intro: trans)
  show "\<exists>t. ok e t
      \<and> node_at (hd_nodes d2) (dest_path (me_dest e)) = Some (Plain t (me_mode e AND permission_bits))"
    if "r = Inr ()"
  proof -
    from run that copy chmod ren have ok: "r3 = Inr ()" "r4 = Inr ()" "r5 = Inr ()" "d2 = d5"
      unfolding write_entry_def Let_def tmp_def [symmetric]
      by (auto simp: io_then_def io_map_err_def split: sum.splits)
    obtain t where t: "ok e t" "node_at (hd_nodes d4) tmp = Some (Plain t (me_mode e AND permission_bits))"
      using full [OF ok(1,2)] by blast
    have "(case (locate (hd_nodes d4) tmp, locate (hd_nodes d4) (walk_parts (me_dest e))) of
              (Some p, Some q) \<Rightarrow>
                (case node_at (hd_nodes d4) p of
                   None \<Rightarrow> Inl IoNotFound
                 | Some Folder \<Rightarrow> Inl IoOther
                 | Some nd \<Rightarrow>
                     if node_at (hd_nodes d4) q = Some Folder then Inl IoOther
                     else if p = q then Inr (hd_nodes d4)
                     else Inr (hm_insert q nd (hm_remove p (hd_nodes d4))))
            | _ \<Rightarrow> Inl IoOther) = Inr (hd_nodes d5)"
      using ren unfolding hd_rename_def ok(3) by (rule hcall_Inr)
    moreover from this obtain p q where "locate (hd_nodes d4) tmp = Some p"
        "locate (hd_nodes d4) (walk_parts (me_dest e)) = Some q"
      by (auto split: option.splits)
    moreover from this have "p = tmp" "q = dest_path (me_dest e)" by (simp_all add: from_tmp to_dest)
    ultimately have at: "locate (hd_nodes d4) (walk_parts (me_dest e)) = Some (dest_path (me_dest e))"
      and d5: "hd_nodes d5 = (if tmp = dest_path (me_dest e) then hd_nodes d4
         else hm_insert (dest_path (me_dest e)) (Plain t (me_mode e AND permission_bits)) (hm_remove tmp (hd_nodes d4)))"
      using t(2) by (auto split: if_splits)
    from at have ne: "dest_path (me_dest e) \<noteq> []" by (auto simp: locate_def split: if_splits option.splits)
    have "node_at (hd_nodes d2) (dest_path (me_dest e)) = Some (Plain t (me_mode e AND permission_bits))"
      using t(2) ne by (auto simp: ok(4) d5 node_at_insert)
    with t(1) show ?thesis by blast
  qed
qed

lemma ensure_no_symlinked_ancestor_Inr:
  "ensure_no_symlinked_ancestor ns named p = Inr u \<longleftrightarrow> canonicalize ns p = Some p"
  by (auto simp: ensure_no_symlinked_ancestor_def ensure_def split: option.splits)

text \<open>Whatever an entry's source reads as along the way, \<open>ok\<close> admits.\<close>

definition texts_ok ::
  "root_env \<Rightarrow> (manifest_entry \<Rightarrow> string \<Rightarrow> bool) \<Rightarrow> (path \<Rightarrow> node option \<Rightarrow> bool) \<Rightarrow> nodes \<Rightarrow> manifest_entry \<Rightarrow> bool" where
  "texts_ok E ok W ns e =
     (\<forall>ns2 t m. edits W ns ns2 \<longrightarrow> read_plain ns2 (re_cwd E) (me_source e) = Some (t, m) \<longrightarrow> ok e t)"

lemma texts_okD:
  "texts_ok E ok W ns e \<Longrightarrow> edits W ns ns2 \<Longrightarrow> read_plain ns2 (re_cwd E) (me_source e) = Some (t, m) \<Longrightarrow> ok e t"
  unfolding texts_ok_def by blast

lemma texts_ok_later:
  "texts_ok E ok W ns e \<Longrightarrow> reusable W \<Longrightarrow> edits W ns ns2 \<Longrightarrow> (\<And>q v. V q v \<Longrightarrow> W q v) \<Longrightarrow> texts_ok E ok V ns2 e"
  unfolding texts_ok_def by (blast intro: edits_trans [of W ns ns2] edits_mono [of V])

lemma apply_entry_edited:
  fixes E e ok
  defines "tmp \<equiv> tmp_place E (me_dest e)" and "W \<equiv> entry_edit E ok e"
  assumes run: "apply_entry E e d = (d2, r)"
    and clear: "no_link (node_at (hd_nodes d) tmp)" and up: "\<not> has_parent_dir (me_dest e)"
    and texts: "texts_ok E ok W (hd_nodes d) e"
  shows "edited W d d2"
    and "r = Inr () \<Longrightarrow> \<exists>t. ok e t
      \<and> node_at (hd_nodes d2) (dest_path (me_dest e)) = Some (Plain t (me_mode e AND permission_bits))"
proof -
  have W: "reusable W" and Wtmp: "W tmp v" for v by (simp_all add: W_def tmp_def)
  have up2: "''..'' \<notin> set tmp" and und: "undotted tmp = tmp"
    using tmp_place_no_parent_dir [OF up, of E] by (simp_all add: tmp_def)
  have trans: "edited W a b \<Longrightarrow> edited W b c \<Longrightarrow> edited W a c" for a b c
    by (rule edited_trans [OF W])
  have clean: "edited W a b" if "linkless (hd_nodes a) (butlast tmp)" "hd_remove_file tmp a = (b, x)" for a b x
    by (rule remove_file_edited [OF that(2)]) (use locate_literal [of "hd_nodes a" tmp] that up2 und Wtmp in auto)
  let ?parent = "butlast (dest_path (me_dest e))"
  obtain d1 r1 where mk: "hd_create_dir_all ?parent d = (d1, r1)" by fastforce
  have e1: "edited W d d1" by (rule create_dir_all_edited [OF W mk])
  have rest: "edited W d d2 \<and> (r = Inr () \<longrightarrow> (\<exists>t. ok e t
      \<and> node_at (hd_nodes d2) (dest_path (me_dest e)) = Some (Plain t (me_mode e AND permission_bits))))"
    if real: "canonicalize (hd_nodes d1) ?parent = Some ?parent" and ok1: "r1 = Inr ()" and ne: "dest_path (me_dest e) \<noteq> []"
  proof -
    have par1: "linkless (hd_nodes d1) (butlast tmp)"
      using canonicalize_itself [OF real] by (simp add: tmp_def)
    have tmp1: "linkless (hd_nodes d1) tmp"
      using par1 edits_no_link [OF edited_nodes [OF e1] clear]
      by (cases tmp rule: rev_cases) (simp_all add: linkless_snoc)
    obtain d3 r3 where rm: "hd_remove_file tmp d1 = (d3, r3)" by fastforce
    have e3: "edited W d d3" by (rule trans [OF e1 clean [OF par1 rm]])
    have tmp3: "linkless (hd_nodes d3) tmp"
      using tmp1 edits_linkless [OF edited_nodes [OF clean [OF par1 rm]]] by blast
    obtain d4 r4 where wr: "write_entry E e d3 = (d4, r4)" by fastforce
    have texts3: "\<And>t m. read_plain (hd_nodes d3) (re_cwd E) (me_source e) = Some (t, m) \<Longrightarrow> ok e t"
      by (rule texts_okD [OF texts edited_nodes [OF e3]])
    note W4 = write_entry_edited [where ok = ok, OF wr tmp3 [unfolded tmp_def] up texts3, folded W_def]
    have e4: "edited W d d4" by (rule trans [OF e3 W4(1)])
    have par4: "linkless (hd_nodes d4) (butlast tmp)"
      using edits_linkless [OF edited_nodes [OF W4(1)] tmp3] by (cases tmp rule: rev_cases) (simp_all add: linkless_snoc)
    obtain d5 r5 where rm2: "hd_remove_file tmp d4 = (d5, r5)" by fastforce
    have e5: "edited W d d5" by (rule trans [OF e4 clean [OF par4 rm2]])
    have "(d2, r) = (if r4 = Inr () then (d4, Inr ()) else (d5, r4))"
      using run mk real ok1 rm wr rm2 ne
      by (cases r4) (auto simp: apply_entry_def Let_def io_then_def io_map_err_def hd_look_def io_of_def
          io_ignore_def io_try_def io_pure_def ensure_no_symlinked_ancestor_def ensure_def tmp_def [symmetric])
    with e4 e5 W4(2) show ?thesis by (auto split: if_splits)
  qed
  have stop: "d2 = d1 \<or> d2 = d" "r \<noteq> Inr ()"
    if "\<not> (canonicalize (hd_nodes d1) ?parent = Some ?parent \<and> r1 = Inr () \<and> dest_path (me_dest e) \<noteq> [])"
    using run mk that
    by (auto simp: apply_entry_def Let_def io_then_def io_map_err_def hd_look_def io_of_def io_fail_def
        ensure_no_symlinked_ancestor_def ensure_def split: sum.splits option.splits if_splits)
  show "edited W d d2" using rest stop(1) e1 by (metis edited_refl)
  show "\<exists>t. ok e t \<and> node_at (hd_nodes d2) (dest_path (me_dest e)) = Some (Plain t (me_mode e AND permission_bits))"
    if "r = Inr ()"
    using rest stop(2) that by blast
qed

subsection \<open>Reading the manifest and the whole run\<close>

text \<open>\<open>read_manifest\<close>: the size is asked before the text is read.\<close>

definition read_manifest :: "root_env \<Rightarrow> nodes \<Rightarrow> string \<Rightarrow> root_failure + install_manifest" where
  "read_manifest E ns p =
     (case read_plain ns (re_cwd E) p of
        None \<Rightarrow> Inl ManifestUnreadable
      | Some (t, _) \<Rightarrow>
          if unat max_manifest_bytes < length t then Inl (ManifestTooLarge (of_nat (length t)))
          else (case re_parse E t of None \<Rightarrow> Inl ManifestUnparsable | Some m \<Rightarrow> Inr m))"

definition staging_root_of :: "root_env \<Rightarrow> nodes \<Rightarrow> string \<Rightarrow> root_failure + path" where
  "staging_root_of E ns p =
     (let cs = components p in
      if cs = [] then Inl (NoParent p)
      else if \<not> is_absolute p \<and> butlast cs = [] \<and> \<not> starts_with ''./'' p then Inl (ResolveFailed p)
      else (case place ns max_links (if is_absolute p then [] else re_cwd E) (butlast cs) of
              Some q \<Rightarrow> if node_at ns q = None then Inl (ResolveFailed p) else Inr q
            | None \<Rightarrow> Inl (ResolveFailed p)))"

definition run_root :: "root_env \<Rightarrow> string \<Rightarrow> host_disk \<Rightarrow> host_disk \<times> 8 word" where
  "run_root E manifest_path d =
     (let (d2, outcome) =
            io_then (hd_look (\<lambda>ns. read_manifest E ns manifest_path)) (\<lambda>found.
            io_then (io_of found) (\<lambda>m.
            io_then (hd_look (\<lambda>ns. staging_root_of E ns manifest_path)) (\<lambda>staging.
            io_then (io_of staging) (\<lambda>staging_root.
            apply_manifest E m allowed_roots staging_root)))) d
      in (d2, case outcome of Inl _ \<Rightarrow> 3 | Inr _ \<Rightarrow> 0))"

subsection \<open>All entries, then all removals\<close>

definition entries_edit ::
  "root_env \<Rightarrow> (manifest_entry \<Rightarrow> string \<Rightarrow> bool) \<Rightarrow> manifest_entry list \<Rightarrow> path \<Rightarrow> node option \<Rightarrow> bool" where
  "entries_edit E ok es q v = list_ex (\<lambda>e. entry_edit E ok e q v) es"

definition removals_edit :: "string list \<Rightarrow> path \<Rightarrow> node option \<Rightarrow> bool" where
  "removals_edit ps q v = (q \<in> set (map dest_path ps) \<and> (v = None \<or> v = Some Folder))"

definition entry_clear :: "root_env \<Rightarrow> nodes \<Rightarrow> manifest_entry \<Rightarrow> bool" where
  "entry_clear E ns e = (\<not> has_parent_dir (me_dest e) \<and> no_link (node_at ns (tmp_place E (me_dest e))))"

text \<open>No entry writes where another does, and none writes a temporary name for good.\<close>

definition entries_apart :: "root_env \<Rightarrow> manifest_entry list \<Rightarrow> bool" where
  "entries_apart E es =
     (distinct (map (\<lambda>e. dest_path (me_dest e)) es)
      \<and> list_all (\<lambda>e. list_all (\<lambda>f. dest_path (me_dest e) \<noteq> tmp_place E (me_dest f)) es) es)"

definition entry_placed :: "(manifest_entry \<Rightarrow> string \<Rightarrow> bool) \<Rightarrow> nodes \<Rightarrow> manifest_entry \<Rightarrow> bool" where
  "entry_placed ok ns e =
     (case node_at ns (dest_path (me_dest e)) of
        Some (Plain t m) \<Rightarrow> ok e t \<and> m = me_mode e AND permission_bits
      | _ \<Rightarrow> False)"

lemma reusable_entries_edit [simp]: "reusable (entries_edit E ok es)"
  by (auto simp: reusable_def entries_edit_def entry_edit_def list_ex_iff)

lemma reusable_removals_edit [simp]: "reusable (removals_edit ps)"
  by (simp add: reusable_def removals_edit_def)

lemma apply_entries_edited:
  assumes "io_each (apply_entry E) es d = (d2, r)" "list_all (entry_clear E (hd_nodes d)) es"
    and "list_all (texts_ok E ok (entries_edit E ok es) (hd_nodes d)) es"
  shows "edited (entries_edit E ok es) d d2
    \<and> (r = Inr () \<longrightarrow> entries_apart E es \<longrightarrow> list_all (entry_placed ok (hd_nodes d2)) es)"
  using assms
proof (induction es arbitrary: d)
  case Nil
  then show ?case by (simp add: io_pure_def)
next
  case (Cons e es)
  let ?W = "entries_edit E ok (e # es)"
  have mono1: "entry_edit E ok e q v \<Longrightarrow> ?W q v" and mono2: "entries_edit E ok es q v \<Longrightarrow> ?W q v" for q v
    by (simp_all add: entries_edit_def)
  obtain d1 r1 where step: "apply_entry E e d = (d1, r1)" by fastforce
  have clear: "no_link (node_at (hd_nodes d) (tmp_place E (me_dest e)))" "\<not> has_parent_dir (me_dest e)"
    using Cons.prems(2) by (simp_all add: entry_clear_def)
  have texts: "texts_ok E ok (entry_edit E ok e) (hd_nodes d) e"
    using Cons.prems(3) texts_ok_later [OF _ reusable_entries_edit edits_refl mono1] by simp
  note one = apply_entry_edited [where ok = ok, OF step clear texts]
  have e1: "edited ?W d d1" by (rule edited_mono [OF one(1) mono1])
  show ?case
  proof (cases r1)
    case (Inl f)
    then have "d2 = d1 \<and> r \<noteq> Inr ()" using Cons.prems(1) step by (auto simp: io_then_def)
    with e1 show ?thesis by simp
  next
    case (Inr u)
    then have rest: "io_each (apply_entry E) es d1 = (d2, r)" using Cons.prems(1) step by (simp add: io_then_def)
    have clear1: "list_all (entry_clear E (hd_nodes d1)) es"
      using Cons.prems(2) edits_no_link [OF edited_nodes [OF e1]] by (auto simp: list_all_iff entry_clear_def)
    have texts1: "list_all (texts_ok E ok (entries_edit E ok es) (hd_nodes d1)) es"
      using Cons.prems(3) texts_ok_later [OF _ reusable_entries_edit edited_nodes [OF e1] mono2]
      by (auto simp: list_all_iff)
    note IH = Cons.IH [OF rest clear1 texts1]
    have "edited ?W d d2"
      by (rule edited_trans [OF reusable_entries_edit e1]) (rule edited_mono [OF conjunct1 [OF IH] mono2])
    moreover have "entry_placed ok (hd_nodes d2) e" if ok: "r = Inr ()" and apart: "entries_apart E (e # es)"
    proof -
      obtain t where t: "ok e t" "node_at (hd_nodes d1) (dest_path (me_dest e)) = Some (Plain t (me_mode e AND permission_bits))"
        using one(2) Inr by auto
      have "\<not> entries_edit E ok es (dest_path (me_dest e)) v" for v
        using apart by (auto simp: entries_apart_def entries_edit_def entry_edit_def list_ex_iff list_all_iff)
      from edits_kept [OF edited_nodes [OF conjunct1 [OF IH]] _ this] t show ?thesis
        by (simp add: entry_placed_def)
    qed
    moreover have "entries_apart E (e # es) \<Longrightarrow> entries_apart E es"
      by (auto simp: entries_apart_def list_all_iff)
    ultimately show ?thesis using IH by auto
  qed
qed

text \<open>The removals only take files away; what is gone stays gone.\<close>

definition shrinks :: "nodes \<Rightarrow> nodes \<Rightarrow> bool" where
  "shrinks a b = (\<forall>q. node_at b q = node_at a q \<or> node_at b q = None \<and> node_at a q \<noteq> Some Folder)"

definition gone :: "nodes \<Rightarrow> string \<Rightarrow> bool" where
  "gone ns p = (node_at ns (dest_path p) = None \<or> canonicalize ns (butlast (dest_path p)) = None)"

lemma shrinks_refl [simp]: "shrinks a a"
  by (simp add: shrinks_def)

lemma shrinks_trans: "shrinks a b \<Longrightarrow> shrinks b c \<Longrightarrow> shrinks a c"
  unfolding shrinks_def by (metis option.distinct(1))

lemma place_shrinks:
  "shrinks a b \<Longrightarrow> place b n cur cs = Some q \<Longrightarrow> node_at b q \<noteq> None \<Longrightarrow> place a n cur cs = Some q"
proof (induction b n cur cs rule: place.induct)
  case (2 b n cur c cs)
  show ?case
  proof (cases "node_at b (cur @ [c])")
    case None
    then show ?thesis using 2 by (auto split: if_splits)
  next
    case (Some nd)
    then have "node_at a (cur @ [c]) = Some nd"
      using "2.prems"(1) unfolding shrinks_def by (metis option.distinct(1))
    then show ?thesis using 2 Some by (cases nd) (auto split: if_splits)
  qed
qed simp

lemma is_missing_present:
  "linkless ns (cur @ undotted cs) \<Longrightarrow> present ns (cur @ undotted cs) \<Longrightarrow> ''..'' \<notin> set cs \<Longrightarrow> \<not> is_missing ns b cur cs"
proof (induction cs arbitrary: cur)
  case (Cons c cs)
  show ?case
  proof (cases "c = ''.''")
    case False
    have "linkless ns ((cur @ [c]) @ undotted cs)" "present ns ((cur @ [c]) @ undotted cs)"
      using Cons.prems False by simp_all
    from linkless_node [OF linkless_append [OF this(1)]] present_append [OF this(2)]
    have "no_link (node_at ns (cur @ [c]))" "node_at ns (cur @ [c]) \<noteq> None"
      by (simp_all add: present_snoc)
    moreover have "\<not> is_missing ns b (cur @ [c]) cs" using Cons.IH [of "cur @ [c]"] Cons.prems False by simp
    ultimately show ?thesis using False Cons.prems(3) by (auto simp: no_link_def split: node.splits)
  qed (use Cons in simp)
qed simp

lemma gone_shrinks: "shrinks a b \<Longrightarrow> gone a p \<Longrightarrow> gone b p"
proof -
  assume s: "shrinks a b" and g: "gone a p"
  show "gone b p"
  proof (cases "canonicalize b (butlast (dest_path p))")
    case (Some q)
    then have at: "place b max_links [] (butlast (dest_path p)) = Some q" "node_at b q \<noteq> None"
      by (auto simp: canonicalize_def split: option.splits if_splits)
    have "node_at a q \<noteq> None" using at(2) s unfolding shrinks_def by metis
    with place_shrinks [OF s at] have "canonicalize a (butlast (dest_path p)) = Some q" by (simp add: canonicalize_def)
    with g have "node_at a (dest_path p) = None" by (simp add: gone_def)
    then show ?thesis using s unfolding shrinks_def gone_def by (metis option.distinct(1))
  qed (simp add: gone_def)
qed

lemma shrinks_remove: "hm_remove q a = b \<Longrightarrow> node_at a q \<noteq> Some Folder \<Longrightarrow> shrinks a b"
  by (auto simp: shrinks_def node_at_remove split: if_splits)

lemma remove_replaced_edited:
  assumes run: "remove_replaced p d = (d2, r)" and up: "\<not> has_parent_dir p" and W: "W (dest_path p) None"
  shows "edited W d d2" and "shrinks (hd_nodes d) (hd_nodes d2)"
    and "r = Inr () \<Longrightarrow> last (walk_parts p) \<noteq> ''.'' \<Longrightarrow> gone (hd_nodes d2) p"
proof -
  let ?parent = "butlast (dest_path p)"
  obtain d1 r1 where rm: "hd_remove_file (walk_parts p) d = (d1, r1)" by fastforce
  have at: "q = dest_path p" if "canonicalize (hd_nodes d) ?parent = Some ?parent" "locate (hd_nodes d) (walk_parts p) = Some q" for q
    using locate_literal [OF that(2)] canonicalize_itself [OF that(1)] up
    by (simp add: dest_path_def parent_dir_walk_parts)
  have removed: "edited W d d1 \<and> shrinks (hd_nodes d) (hd_nodes d1) \<and> (r1 = Inr () \<longrightarrow> gone (hd_nodes d1) p)"
    if real: "canonicalize (hd_nodes d) ?parent = Some ?parent"
  proof -
    have "edited W d d1" by (rule remove_file_edited [OF rm]) (use at [OF real] W in auto)
    moreover have "shrinks (hd_nodes d) (hd_nodes d1)"
      using hcall_nodes [OF rm [unfolded hd_remove_file_def]] shrinks_refl [of "hd_nodes d"]
      by (auto intro: shrinks_remove split: option.splits node.splits)
    moreover have "gone (hd_nodes d1) p" if "r1 = Inr ()"
    proof -
      have "(case locate (hd_nodes d) (walk_parts p) of
              None \<Rightarrow> Inl IoOther
            | Some q \<Rightarrow>
                (case node_at (hd_nodes d) q of
                   None \<Rightarrow> Inl IoNotFound
                 | Some Folder \<Rightarrow> Inl IoOther
                 | Some _ \<Rightarrow> Inr (hm_remove q (hd_nodes d)))) = Inr (hd_nodes d1)"
        using rm unfolding hd_remove_file_def that by (rule hcall_Inr)
      then obtain q where "locate (hd_nodes d) (walk_parts p) = Some q" "hd_nodes d1 = hm_remove q (hd_nodes d)"
          "node_at (hd_nodes d) q \<noteq> Some Folder"
        by (auto split: option.splits node.splits)
      with at [OF real] show ?thesis
        by (cases "dest_path p = []") (auto simp: gone_def node_at_remove node_at_def [of _ "[]"])
    qed
    ultimately show ?thesis by blast
  qed
  have here: "gone (hd_nodes d) p"
    if "canonicalize (hd_nodes d) ?parent = Some ?parent" "link_metadata (hd_nodes d) p = Inr None"
      "last (walk_parts p) \<noteq> ''.''" "dest_path p \<noteq> []"
  proof (cases "locate (hd_nodes d) (walk_parts p)")
    case (Some q)
    with that at [of q] show ?thesis by (simp add: link_metadata_def gone_def)
  next
    case None
    with that(2,3) have "is_missing (hd_nodes d) max_links [] (butlast (walk_parts p))"
      by (auto simp: link_metadata_def Let_def split: if_splits)
    moreover have "\<not> is_missing (hd_nodes d) max_links [] (butlast (walk_parts p))"
    proof (rule is_missing_present)
      have "walk_parts p \<noteq> []"
        using that(4) undotted_walk_parts [of p] by (metis dest_path_def undotted_simps(1))
      then have "walk_parts p = butlast (walk_parts p) @ [last (walk_parts p)]" by simp
      with that(3) have "components p = undotted (butlast (walk_parts p)) @ [last (walk_parts p)]"
        using undotted_walk_parts [of p] undotted_simps(2) [of "butlast (walk_parts p)" "[last (walk_parts p)]"] by auto
      then have par: "undotted (butlast (walk_parts p)) = ?parent" by (simp add: dest_path_def)
      show "linkless (hd_nodes d) ([] @ undotted (butlast (walk_parts p)))"
        "present (hd_nodes d) ([] @ undotted (butlast (walk_parts p)))"
        using canonicalize_itself [OF that(1)] canonicalize_present [OF that(1)] by (simp_all add: par)
      show "''..'' \<notin> set (butlast (walk_parts p))"
        using up in_set_butlastD [of "''..''" "walk_parts p"] by (auto simp: parent_dir_walk_parts)
    qed
    ultimately show ?thesis by blast
  qed
  show "edited W d d2" "shrinks (hd_nodes d) (hd_nodes d2)"
    "r = Inr () \<Longrightarrow> last (walk_parts p) \<noteq> ''.'' \<Longrightarrow> gone (hd_nodes d2) p"
    using run rm removed here
    by (auto simp: remove_replaced_def Let_def io_then_def io_map_err_def hd_look_def io_of_def io_fail_def io_pure_def
        ensure_no_symlinked_ancestor_def ensure_def gone_def split: if_splits sum.splits option.splits node.splits)
qed

definition ends_plainly :: "string \<Rightarrow> bool" where
  "ends_plainly p = (last (walk_parts p) \<noteq> ''.'')"

lemma apply_removals_edited:
  assumes "io_each remove_replaced ps d = (d2, r)" "list_all (\<lambda>p. \<not> has_parent_dir p) ps"
  shows "edited (removals_edit ps) d d2 \<and> shrinks (hd_nodes d) (hd_nodes d2)
    \<and> (r = Inr () \<longrightarrow> list_all (gone (hd_nodes d2)) (filter ends_plainly ps))"
  using assms
proof (induction ps arbitrary: d)
  case Nil
  then show ?case by (simp add: io_pure_def)
next
  case (Cons p ps)
  let ?W = "removals_edit (p # ps)"
  have mono: "removals_edit ps q v \<Longrightarrow> ?W q v" for q v by (auto simp: removals_edit_def)
  obtain d1 r1 where step: "remove_replaced p d = (d1, r1)" by fastforce
  have "\<not> has_parent_dir p" "?W (dest_path p) None"
    using Cons.prems(2) by (simp_all add: removals_edit_def)
  note one = remove_replaced_edited [where W = ?W, OF step this]
  show ?case
  proof (cases r1)
    case (Inl f)
    then have "d2 = d1 \<and> r \<noteq> Inr ()" using Cons.prems(1) step by (auto simp: io_then_def)
    with one(1,2) show ?thesis by simp
  next
    case (Inr u)
    then have "io_each remove_replaced ps d1 = (d2, r)" using Cons.prems(1) step by (simp add: io_then_def)
    from Cons.IH [OF this] Cons.prems(2) have IH: "edited (removals_edit ps) d1 d2" "shrinks (hd_nodes d1) (hd_nodes d2)"
      "r = Inr () \<Longrightarrow> list_all (gone (hd_nodes d2)) (filter ends_plainly ps)" by simp_all
    have "edited ?W d d2"
      by (rule edited_trans [OF reusable_removals_edit one(1)]) (rule edited_mono [OF IH(1) mono])
    moreover have "ends_plainly p \<Longrightarrow> gone (hd_nodes d2) p"
      using gone_shrinks [OF IH(2)] one(3) Inr by (simp add: ends_plainly_def)
    ultimately show ?thesis using shrinks_trans [OF one(2) IH(2)] IH(3) by simp
  qed
qed

text \<open>Everything a manifest may write.\<close>

definition manifest_edit ::
  "root_env \<Rightarrow> (manifest_entry \<Rightarrow> string \<Rightarrow> bool) \<Rightarrow> install_manifest \<Rightarrow> path \<Rightarrow> node option \<Rightarrow> bool" where
  "manifest_edit E ok m q v = (entries_edit E ok (im_entries m) q v \<or> removals_edit (im_removals m) q v)"

lemma reusable_manifest_edit [simp]: "reusable (manifest_edit E ok m)"
  using reusable_entries_edit [of E ok "im_entries m"] reusable_removals_edit [of "im_removals m"]
  by (auto simp: reusable_def manifest_edit_def)

lemma validate_dest_Inr:
  "validate_dest dest allowed = Inr u \<longleftrightarrow>
     is_absolute dest \<and> \<not> has_parent_dir dest \<and> list_ex (\<lambda>root. starts_with root dest) allowed"
  by (auto simp: validate_dest_def ensure_def)

lemma first_failure_Inr: "first_failure f xs = Inr u \<longleftrightarrow> list_all (\<lambda>x. f x = Inr ()) xs"
  by (induction xs) (auto simp: and_then_def split: sum.splits)

lemma validate_manifest_Inr:
  "validate_manifest E ns allowed staging_root m = Inr u \<longleftrightarrow>
     list_all (\<lambda>e. validate_entry E ns allowed staging_root e = Inr ()) (im_entries m)
     \<and> list_all (\<lambda>p. validate_dest p allowed = Inr ()) (im_removals m)"
  using first_failure_Inr [of "validate_entry E ns allowed staging_root" "im_entries m" "()"]
    first_failure_Inr [of "\<lambda>p. validate_dest p allowed" "im_removals m" "()"]
  by (auto simp: validate_manifest_def and_then_def split: sum.splits)

lemma validate_entry_dest: "validate_entry E ns allowed staging_root e = Inr u \<Longrightarrow> validate_dest (me_dest e) allowed = Inr ()"
  by (auto simp: validate_entry_def and_then_def split: sum.splits)

lemma apply_manifest_edited:
  assumes run: "apply_manifest E m allowed staging_root d = (d2, r)"
    and valid: "validate_manifest E (hd_nodes d) allowed staging_root m = Inr ()"
    and clear: "list_all (\<lambda>e. no_link (node_at (hd_nodes d) (tmp_place E (me_dest e)))) (im_entries m)"
    and texts: "list_all (texts_ok E ok (entries_edit E ok (im_entries m)) (hd_nodes d)) (im_entries m)"
  obtains d1 r1 where "edited (entries_edit E ok (im_entries m)) d d1"
    "edited (manifest_edit E ok m) d d2"
    "r = Inr () \<Longrightarrow> entries_apart E (im_entries m) \<Longrightarrow> list_all (entry_placed ok (hd_nodes d1)) (im_entries m)"
    "edited (removals_edit (im_removals m)) d1 d2"
    "r = Inr () \<Longrightarrow> list_all (gone (hd_nodes d2)) (filter ends_plainly (im_removals m))"
proof -
  obtain d1 r1 where es: "io_each (apply_entry E) (im_entries m) d = (d1, r1)" by fastforce
  have entries: "list_all (entry_clear E (hd_nodes d)) (im_entries m)"
    using valid clear validate_entry_dest [of E "hd_nodes d" allowed staging_root]
    by (auto simp: validate_manifest_Inr list_all_iff entry_clear_def validate_dest_Inr)
  note A = apply_entries_edited [OF es entries texts]
  obtain d3 r3 where rs: "io_each remove_replaced (im_removals m) d1 = (d3, r3)" by fastforce
  have "list_all (\<lambda>p. \<not> has_parent_dir p) (im_removals m)"
    using valid by (auto simp: validate_manifest_Inr list_all_iff validate_dest_Inr)
  note B = apply_removals_edited [OF rs this]
  have eq: "(d2, r) = (case r1 of Inl f \<Rightarrow> (d1, Inl f) | Inr _ \<Rightarrow> (d3, r3))"
    using run es rs valid
    by (simp add: apply_manifest_def io_then_def hd_look_def io_of_def split: sum.splits)
  have to: "edited (entries_edit E ok (im_entries m)) x y \<Longrightarrow> edited (manifest_edit E ok m) x y"
    "edited (removals_edit (im_removals m)) x y \<Longrightarrow> edited (manifest_edit E ok m) x y" for x y
    by (auto elim!: edited_mono simp: manifest_edit_def)
  have "edited (manifest_edit E ok m) d d2"
    using eq A B to edited_trans [OF reusable_manifest_edit, of E ok m d d1 d3] by (auto split: sum.splits)
  moreover have "edited (removals_edit (im_removals m)) d1 d2" using eq B by (auto split: sum.splits)
  ultimately show thesis using that [of d1] A B eq by (auto split: sum.splits)
qed

subsection \<open>Where the root phase writes\<close>

lemma split_on_snoc: "split_on c (a @ c # b) = split_on c a @ split_on c b"
proof (induction a)
  case (Cons x a)
  obtain p ps where "split_on c a = p # ps" using split_on_not_Nil [of c a] by (cases "split_on c a") auto
  with Cons show ?case by simp
qed simp

lemma starts_with_components:
  assumes "starts_with (root @ ''/'') dest"
  shows "prefix (components (root @ ''/'')) (components dest)"
proof -
  obtain rest where "dest = root @ CHR ''/'' # rest" using assms by (auto simp: starts_with_iff)
  then show ?thesis
    using split_on_snoc [of "CHR ''/''" root rest] split_on_snoc [of "CHR ''/''" root "[]"]
    by (simp add: components_def)
qed

definition under_roots :: "path \<Rightarrow> bool" where
  "under_roots q = list_ex (\<lambda>root. prefix (components root) q) allowed_roots"

text \<open>An entry whose destination is an allowed root itself, such as \<open>/usr/local/\<close>.\<close>

definition names_a_root :: "manifest_entry \<Rightarrow> bool" where
  "names_a_root e = (dest_path (me_dest e) \<in> set (map components allowed_roots))"

lemma validated_under_roots:
  assumes "validate_dest dest allowed_roots = Inr ()"
  shows "under_roots (dest_path dest)"
  using assms starts_with_components [of "''/usr/local''" dest] starts_with_components [of "''/usr/lib/systemd/user''" dest]
  by (auto simp: validate_dest_Inr under_roots_def allowed_roots_def dest_path_def)

lemma tmp_place_under_roots:
  assumes "under_roots (dest_path (me_dest e))" "\<not> names_a_root e"
  shows "under_roots (tmp_place E (me_dest e))"
proof -
  obtain root where root: "root \<in> set allowed_roots" "prefix (components root) (dest_path (me_dest e))"
    using assms(1) by (auto simp: under_roots_def list_ex_iff)
  with assms(2) have "prefix (components root) (butlast (dest_path (me_dest e)))"
    by (auto simp: names_a_root_def prefix_def butlast_append)
  with root(1) show ?thesis by (auto simp: under_roots_def list_ex_iff tmp_place_def intro: prefix_prefix)
qed

text \<open>
  C9. The root phase stays where it may. A manifest with a single bad entry or removal changes nothing
  at all. Of a manifest that passes, and whatever call fails on the way, every state passed through
  differs from the first only below the allowed roots, but for directories made where nothing was and
  the temporary file of an entry that names an allowed root itself. Provided no link has been planted at
  a temporary name.
\<close>
theorem root_phase_confined:
  assumes "apply_manifest E m allowed_roots staging_root d = (d2, r)"
    and "list_all (\<lambda>e. no_link (node_at (hd_nodes d) (tmp_place E (me_dest e)))) (im_entries m)"
  shows "case validate_manifest E (hd_nodes d) allowed_roots staging_root m of
      Inl failure \<Rightarrow> d2 = d \<and> r = Inl failure
    | Inr _ \<Rightarrow> edited (\<lambda>q v. under_roots q
        \<or> q \<in> set (map (\<lambda>e. tmp_place E (me_dest e)) (filter names_a_root (im_entries m)))) d d2"
proof (cases "validate_manifest E (hd_nodes d) allowed_roots staging_root m")
  case (Inl f)
  with assms(1) have "d2 = d \<and> r = Inl f" by (auto simp: apply_manifest_def io_then_def hd_look_def io_of_def)
  with Inl show ?thesis by simp
next
  case (Inr u)
  then have valid: "validate_manifest E (hd_nodes d) allowed_roots staging_root m = Inr ()" by simp
  have "list_all (texts_ok E (\<lambda>_ _. True) (entries_edit E (\<lambda>_ _. True) (im_entries m)) (hd_nodes d)) (im_entries m)"
    by (simp add: list_all_iff texts_ok_def)
  from apply_manifest_edited [OF assms(1) valid assms(2) this]
  have all: "edited (manifest_edit E (\<lambda>_ _. True) m) d d2" by metis
  have dest: "under_roots (dest_path (me_dest e))" if "e \<in> set (im_entries m)" for e
    using valid that by (auto simp: validate_manifest_Inr list_all_iff intro: validated_under_roots validate_entry_dest)
  moreover have "under_roots (dest_path p)" if "p \<in> set (im_removals m)" for p
    using valid that by (auto simp: validate_manifest_Inr list_all_iff intro: validated_under_roots)
  moreover have "under_roots (tmp_place E (me_dest e)) \<or> names_a_root e" if "e \<in> set (im_entries m)" for e
    using tmp_place_under_roots [OF dest [OF that]] by blast
  ultimately have "under_roots q \<or> q \<in> set (map (\<lambda>e. tmp_place E (me_dest e)) (filter names_a_root (im_entries m)))"
    if "manifest_edit E (\<lambda>_ _. True) m q v" for q v
    using that dest by (auto simp: manifest_edit_def entries_edit_def removals_edit_def entry_edit_def list_ex_iff)
  then show ?thesis using edited_mono [OF all] by (simp add: Inr)
qed

subsection \<open>Every file whole\<close>

definition source_text :: "nodes \<Rightarrow> manifest_entry \<Rightarrow> string \<Rightarrow> bool" where
  "source_text ns e t = (case node_at ns (components (me_source e)) of Some (Plain t2 _) \<Rightarrow> t2 = t | _ \<Rightarrow> False)"

text \<open>A source that no link leads to and that only its own entry may overwrite.\<close>

definition source_settled :: "root_env \<Rightarrow> manifest_entry list \<Rightarrow> nodes \<Rightarrow> manifest_entry \<Rightarrow> bool" where
  "source_settled E es ns e =
     (is_absolute (me_source e) \<and> \<not> has_parent_dir (me_source e) \<and> linkless ns (components (me_source e))
      \<and> list_all (\<lambda>f. components (me_source e) \<noteq> tmp_place E (me_dest f)
           \<and> (if components (me_source e) = dest_path (me_dest f) then f = e else True)) es)"

definition whole_or_before :: "nodes \<Rightarrow> nodes \<Rightarrow> manifest_entry \<Rightarrow> bool" where
  "whole_or_before ns ns2 e =
     (node_at ns2 (dest_path (me_dest e)) = node_at ns (dest_path (me_dest e))
      \<or> entry_placed (source_text ns) ns2 e
      \<or> node_at ns (dest_path (me_dest e)) = None \<and> node_at ns2 (dest_path (me_dest e)) = Some Folder)"

lemma settled_texts_ok:
  assumes "source_settled E es ns e"
  shows "texts_ok E (source_text ns) (entries_edit E (source_text ns) es) ns e"
  unfolding texts_ok_def
proof (intro allI impI)
  fix ns2 t m
  assume ed: "edits (entries_edit E (source_text ns) es) ns ns2"
    and rd: "read_plain ns2 (re_cwd E) (me_source e) = Some (t, m)"
  note src = assms [unfolded source_settled_def]
  obtain q where q: "place ns2 max_links [] (walk_parts (me_source e)) = Some q" "node_at ns2 q = Some (Plain t m)"
    using rd src by (auto simp: read_plain_def split: option.splits node.splits)
  have "q = components (me_source e)"
    using place_literal [OF q(1)] edits_linkless [OF ed] src by (simp add: parent_dir_walk_parts)
  with q(2) ed [unfolded edits_def, rule_format, of q]
  consider "node_at ns (components (me_source e)) = Some (Plain t m)"
    | "entries_edit E (source_text ns) es (components (me_source e)) (Some (Plain t m))"
    by (metis node.distinct(1) option.inject)
  then show "source_text ns e t"
    by cases (simp add: source_text_def,
        use src in \<open>auto simp: entries_edit_def entry_edit_def list_ex_iff list_all_iff split: if_splits\<close>)
qed

lemma manifest_edit_whole:
  assumes "edits (manifest_edit E (source_text ns) m) ns ns2" "entries_apart E (im_entries m)" "e \<in> set (im_entries m)"
    and "dest_path (me_dest e) \<notin> set (map dest_path (im_removals m))"
  shows "whole_or_before ns ns2 e"
proof -
  let ?q = "dest_path (me_dest e)"
  have same: "f = e" if "f \<in> set (im_entries m)" "dest_path (me_dest f) = ?q" for f
    using assms(2,3) that by (auto simp: entries_apart_def distinct_map inj_on_def)
  have off: "?q \<noteq> tmp_place E (me_dest f)" if "f \<in> set (im_entries m)" for f
    using assms(2,3) that by (simp add: entries_apart_def list_all_iff)
  have "entry_placed (source_text ns) ns2 e" if "manifest_edit E (source_text ns) m ?q (node_at ns2 ?q)"
  proof -
    have "entries_edit E (source_text ns) (im_entries m) ?q (node_at ns2 ?q)"
      using that assms(4) by (auto simp: manifest_edit_def removals_edit_def)
    then obtain f where f: "f \<in> set (im_entries m)" "entry_edit E (source_text ns) f ?q (node_at ns2 ?q)"
      by (auto simp: entries_edit_def list_ex_iff)
    with off have "?q = dest_path (me_dest f)" by (simp add: entry_edit_def)
    with f(1) same have "f = e" by metis
    with f off show ?thesis
      by (auto simp: entry_edit_def entry_placed_def split: option.splits node.splits)
  qed
  then show ?thesis
    using assms(1) [unfolded edits_def, rule_format, of ?q] unfolding whole_or_before_def by blast
qed

text \<open>
  C10. The root phase never leaves half a file. In every state it passes through, and so after a crash at
  any moment, each destination holds what it held before, or the whole source under the entry's mode,
  or, where nothing was, a directory on the way to another entry. A run that succeeds has placed every
  entry and has taken away every removal whose path does not end in a dot. This is of a manifest whose
  destinations are distinct, none the temporary file of another, and none among the removals; whose
  sources are reached by absolute paths without links and are not destinations of other entries; and
  of a system where nobody has planted a link at a temporary name.
\<close>
theorem root_phase_places_whole:
  assumes "apply_manifest E m allowed staging_root d = (d2, r)"
    and "list_all (\<lambda>e. no_link (node_at (hd_nodes d) (tmp_place E (me_dest e)))) (im_entries m)"
    and "entries_apart E (im_entries m)"
    and "list_all (source_settled E (im_entries m) (hd_nodes d)) (im_entries m)"
    and "list_all (\<lambda>e. dest_path (me_dest e) \<notin> set (map dest_path (im_removals m))) (im_entries m)"
  shows "(\<exists>new. hd_trace d2 = new @ hd_trace d
      \<and> list_all (\<lambda>ns. list_all (whole_or_before (hd_nodes d) ns) (im_entries m)) (hd_nodes d2 # new))
    \<and> (if r = Inr () then list_all (entry_placed (source_text (hd_nodes d)) (hd_nodes d2)) (im_entries m)
         \<and> list_all (gone (hd_nodes d2)) (filter ends_plainly (im_removals m)) else True)"
proof (cases "validate_manifest E (hd_nodes d) allowed staging_root m")
  case (Inl f)
  with assms(1) have "d2 = d" "r \<noteq> Inr ()" by (auto simp: apply_manifest_def io_then_def hd_look_def io_of_def)
  then show ?thesis by (simp add: whole_or_before_def list_all_iff)
next
  case (Inr u)
  have "list_all (texts_ok E (source_text (hd_nodes d)) (entries_edit E (source_text (hd_nodes d)) (im_entries m)) (hd_nodes d)) (im_entries m)"
    using assms(4) by (auto simp: list_all_iff intro: settled_texts_ok)
  from apply_manifest_edited [OF assms(1) _ assms(2) this] Inr obtain d1 where
    all: "edited (manifest_edit E (source_text (hd_nodes d)) m) d d2" and
    placed: "r = Inr () \<Longrightarrow> list_all (entry_placed (source_text (hd_nodes d)) (hd_nodes d1)) (im_entries m)" and
    after: "edited (removals_edit (im_removals m)) d1 d2" and
    gone: "r = Inr () \<Longrightarrow> list_all (gone (hd_nodes d2)) (filter ends_plainly (im_removals m))"
    using assms(3) by (metis (full_types) old.unit.exhaust)
  have "entry_placed (source_text (hd_nodes d)) (hd_nodes d2) e" if "r = Inr ()" "e \<in> set (im_entries m)" for e
  proof -
    have 1: "entry_placed (source_text (hd_nodes d)) (hd_nodes d1) e" using placed that by (simp add: list_all_iff)
    have "\<not> removals_edit (im_removals m) (dest_path (me_dest e)) v" for v
      using assms(5) that(2) by (auto simp: list_all_iff removals_edit_def)
    moreover have "node_at (hd_nodes d1) (dest_path (me_dest e)) \<noteq> None" using 1 by (auto simp: entry_placed_def split: option.splits)
    ultimately have "node_at (hd_nodes d2) (dest_path (me_dest e)) = node_at (hd_nodes d1) (dest_path (me_dest e))"
      using edits_kept [OF edited_nodes [OF after]] by blast
    with 1 show ?thesis by (simp add: entry_placed_def)
  qed
  moreover have "list_all (\<lambda>ns. list_all (whole_or_before (hd_nodes d) ns) (im_entries m)) states"
    if "list_all (edits (manifest_edit E (source_text (hd_nodes d)) m) (hd_nodes d)) states" for states
    using that assms(3,5) by (auto simp: list_all_iff intro: manifest_edit_whole)
  moreover obtain new where "hd_trace d2 = new @ hd_trace d"
    "list_all (edits (manifest_edit E (source_text (hd_nodes d)) m) (hd_nodes d)) (hd_nodes d2 # new)"
    using all unfolding edited_def by blast
  ultimately show ?thesis using gone unfolding list_all_iff by metis
qed

subsection \<open>The properties at work\<close>

definition sample_root_env :: root_env where
  "sample_root_env = \<lparr>re_pid = 7, re_exe = None, re_cwd = [], re_parse = (\<lambda>_. None)\<rparr>"

definition sample_host :: "(path \<times> node) list \<Rightarrow> host_disk" where
  "sample_host extra = \<lparr>hd_nodes = [([''usr''], Folder), ([''usr'', ''local''], Folder), ([''usr'', ''local'', ''bin''], Folder),
       ([''usr'', ''local'', ''bin'', ''old''], Plain ''o'' 493), ([''stage''], Folder), ([''stage'', ''new''], Plain ''n'' 420),
       ([''etc''], Folder), ([''etc'', ''secret''], Plain ''s'' 384)] @ extra, hd_faults = [], hd_trace = []\<rparr>"

definition sample_entry :: "string \<Rightarrow> string \<Rightarrow> manifest_entry" where
  "sample_entry src dest = \<lparr>me_source = src, me_dest = dest, me_mode = 493\<rparr>"

definition sample_install :: install_manifest where
  "sample_install = \<lparr>im_entries = [sample_entry ''/stage/new'' ''/usr/local/bin/new''], im_removals = [''/usr/local/bin/old'']\<rparr>"

lemma sample_install_fits:
  "list_all (\<lambda>e. no_link (node_at (hd_nodes (sample_host [])) (tmp_place sample_root_env (me_dest e)))) (im_entries sample_install)"
  "entries_apart sample_root_env (im_entries sample_install)"
  "list_all (source_settled sample_root_env (im_entries sample_install) (hd_nodes (sample_host []))) (im_entries sample_install)"
  "list_all (\<lambda>e. dest_path (me_dest e) \<notin> set (map dest_path (im_removals sample_install))) (im_entries sample_install)"
  "validate_manifest sample_root_env (hd_nodes (sample_host [])) allowed_roots [''stage''] sample_install = Inr ()"
      apply code_simp
     apply code_simp
    apply code_simp
   apply code_simp
  apply code_simp
  done

lemma root_phase_confined_witness:
  "edited (\<lambda>q v. under_roots q
      \<or> q \<in> set (map (\<lambda>e. tmp_place sample_root_env (me_dest e)) (filter names_a_root (im_entries sample_install))))
    (sample_host []) (fst (apply_manifest sample_root_env sample_install allowed_roots [''stage''] (sample_host [])))"
  using root_phase_confined [OF prod.collapse [symmetric] sample_install_fits(1), of "[''stage'']"]
  by (simp add: sample_install_fits(5))

lemma root_phase_places_whole_witness:
  "list_all (entry_placed (source_text (hd_nodes (sample_host [])))
      (hd_nodes (fst (apply_manifest sample_root_env sample_install allowed_roots [''stage''] (sample_host [])))))
    (im_entries sample_install)"
proof -
  have "snd (apply_manifest sample_root_env sample_install allowed_roots [''stage''] (sample_host [])) = Inr ()"
    by code_simp
  with root_phase_places_whole [OF prod.collapse [symmetric] sample_install_fits(1-4), of allowed_roots "[''stage'']"]
  show ?thesis by simp
qed

text \<open>
  The check of the ancestors comes after the directories are made: under an ancestor that is a link they
  are made where it points, outside every allowed root, before the entry is refused.
\<close>
lemma dirs_made_through_a_link:
  "let m = \<lparr>im_entries = [sample_entry ''/stage/new'' ''/usr/local/share/a/b''], im_removals = []\<rparr>;
       (d, r) = apply_manifest sample_root_env m allowed_roots [''stage'']
                  (sample_host [([''usr'', ''local'', ''share''], Symlink ''/etc'')])
   in r = Inl (SymlinkedAncestor ''/usr/local/share/a/b'' [''etc'', ''a''])
      \<and> node_at (hd_nodes d) [''etc'', ''a''] = Some Folder"
  by code_simp

text \<open>
  The source is confined by its name only: a link below the staging root is followed, to a file only
  root may read, and its content installed for everyone.
\<close>
lemma linked_source_is_copied:
  "let m = \<lparr>im_entries = [sample_entry ''/stage/link'' ''/usr/local/bin/new''], im_removals = []\<rparr>;
       (d, r) = apply_manifest sample_root_env m allowed_roots [''stage'']
                  (sample_host [([''stage'', ''link''], Symlink ''/etc/secret'')])
   in r = Inr () \<and> node_at (hd_nodes d) [''usr'', ''local'', ''bin'', ''new''] = Some (Plain ''s'' 493)"
  by code_simp

text \<open>An entry may name an allowed root itself, and then its temporary file is made beside the root.\<close>
lemma temporary_file_beside_a_root:
  "let m = \<lparr>im_entries = [sample_entry ''/stage/new'' ''/usr/local/''], im_removals = []\<rparr>;
       (d, r) = apply_manifest sample_root_env m allowed_roots [''stage''] (sample_host [])
   in r = Inl (RenameFailed ''/usr/local/'')
      \<and> list_ex (\<lambda>ns. node_at ns [''usr'', ''.install.7.local.tmp''] = Some (Plain ''n'' 420)) (hd_trace d)"
  by code_simp

end
