(* ===== verification/Inst_Release.thy ===== *)
theory Inst_Release
  imports Inst_Root Daemon_SelfUpdate Daemon_Units
begin

section \<open>What the installer installs, and how it becomes root\<close>

text \<open>
  \<open>super-engine-installer\<close>: \<open>resolve.rs\<close> (the release and its files), \<open>download.rs\<close> (the transfer and its
  progress), \<open>verify.rs\<close> (the checksum), \<open>applet.rs\<close> (whether the shared applet is replaced) and
  \<open>escalate.rs\<close> (which escalator, and what its exit code means). The forge, the parser of versions, SHA-256
  and the processes are parameters.
\<close>

unbundle bit_operations_syntax

datatype installer_error =
    UnsupportedArch string
  | NoReleaseFound string
  | DownloadFailed string
  | ChecksumMismatch string
  | EscalationUnavailable string
  | EscalationDenied
  | InstallFailed string
  | PostInstallFailed string

definition error_code :: "installer_error \<Rightarrow> string" where
  "error_code e =
     (case e of
        UnsupportedArch _ \<Rightarrow> ''unsupported_arch''
      | NoReleaseFound _ \<Rightarrow> ''no_release_found''
      | DownloadFailed _ \<Rightarrow> ''download_failed''
      | ChecksumMismatch _ \<Rightarrow> ''checksum_mismatch''
      | EscalationUnavailable _ \<Rightarrow> ''escalation_unavailable''
      | EscalationDenied \<Rightarrow> ''escalation_denied''
      | InstallFailed _ \<Rightarrow> ''install_failed''
      | PostInstallFailed _ \<Rightarrow> ''post_install_failed'')"

subsection \<open>Which release\<close>

definition target_triple_for :: "string \<Rightarrow> installer_error + string" where
  "target_triple_for arch =
     (if arch = ''x86_64'' then Inr ''x86_64-unknown-linux-gnu''
      else if arch = ''aarch64'' then Inr ''aarch64-unknown-linux-gnu''
      else Inl (UnsupportedArch arch))"

definition tarball_name :: "(string \<Rightarrow> 'v option) \<Rightarrow> ('v \<Rightarrow> bool) \<Rightarrow> string \<Rightarrow> string \<Rightarrow> string \<Rightarrow> string" where
  "tarball_name semver is_pre slug triple tag =
     (if (case parse_version semver tag of Some v \<Rightarrow> is_pre v | None \<Rightarrow> False)
      then slug @ ''-'' @ triple @ ''-beta.tar.gz''
      else slug @ ''-'' @ triple @ ''.tar.gz'')"

record resolved_target =
  rt_release :: forge_release
  rt_tarball_url :: string
  rt_tarball_name :: string
  rt_sums_url :: string

definition pick_release ::
  "(string \<Rightarrow> ('v::linorder) option) \<Rightarrow> forge_release list \<Rightarrow> string option \<Rightarrow> bool \<Rightarrow> installer_error + forge_release" where
  "pick_release semver releases pin beta =
     (case pin of
        Some tag \<Rightarrow>
          (case find (\<lambda>r. rel_tag r = tag) releases of
             Some r \<Rightarrow> Inr r
           | None \<Rightarrow> Inl (NoReleaseFound (''tag '' @ tag @ '' not in the latest 100 releases'')))
      | None \<Rightarrow>
          (case iter_reduce (\<lambda>best x. if fst best \<le> fst x then x else best)
                  (List.map_filter (\<lambda>r. map_option (\<lambda>v. (v, r)) (parse_version semver (rel_tag r)))
                    (filter (\<lambda>r. case rel_kind r of Published \<Rightarrow> True | Prerelease \<Rightarrow> beta | Draft \<Rightarrow> False) releases)) of
             Some (_, r) \<Rightarrow> Inr r
           | None \<Rightarrow> Inl (NoReleaseFound (''no '' @ (if beta then ''beta'' else ''stable'') @ '' release found''))))"

definition required_asset :: "forge_release \<Rightarrow> string \<Rightarrow> installer_error + string" where
  "required_asset r name =
     (case find (\<lambda>a. ra_name a = name) (rel_assets r) of
        Some a \<Rightarrow> Inr (ra_url a)
      | None \<Rightarrow> Inl (DownloadFailed (''release '' @ rel_tag r @ '' is missing asset '' @ name)))"

definition resolve_target ::
  "(string \<Rightarrow> ('v::linorder) option) \<Rightarrow> ('v \<Rightarrow> bool) \<Rightarrow> (forge_error \<Rightarrow> string) \<Rightarrow> (forge_error + forge_release list)
     \<Rightarrow> string \<Rightarrow> string option \<Rightarrow> bool \<Rightarrow> string \<Rightarrow> installer_error + resolved_target" where
  "resolve_target semver is_pre says answer slug pin beta triple =
     and_then (case answer of Inl e \<Rightarrow> Inl (DownloadFailed (says e)) | Inr rs \<Rightarrow> Inr rs) (\<lambda>releases.
     and_then (pick_release semver releases pin beta) (\<lambda>r.
     let name = tarball_name semver is_pre slug triple (rel_tag r) in
     and_then (required_asset r name) (\<lambda>tarball.
     and_then (required_asset r ''SHA256SUMS'') (\<lambda>sums.
     Inr \<lparr>rt_release = r, rt_tarball_url = tarball, rt_tarball_name = name, rt_sums_url = sums\<rparr>))))"

subsection \<open>The transfer\<close>

definition progress_throttle_bytes :: u64 where
  "progress_throttle_bytes = 256 * 1024"

text \<open>What the connection and the disk do next: a chunk arrives and is written, or one of them fails.\<close>

datatype incoming =
    Chunk string
  | BrokenOff string
  | DiskFull string

text \<open>
  The bytes written, the progress reported, and how the loop ended: \<open>Inr (done, any_progress, last)\<close>.
\<close>

fun download_loop ::
  "u64 \<Rightarrow> u64 \<Rightarrow> u64 \<Rightarrow> bool \<Rightarrow> incoming list
     \<Rightarrow> string \<times> (u64 \<times> u64) list \<times> (installer_error + u64 \<times> u64 \<times> bool)" where
  "download_loop bytes_total so_far last_reported any_progress [] = ([], [], Inr (so_far, last_reported, any_progress))"
| "download_loop bytes_total so_far last_reported any_progress (x # xs) =
     (case x of
        BrokenOff e \<Rightarrow> ([], [], Inl (DownloadFailed e))
      | DiskFull e \<Rightarrow> ([], [], Inl (DownloadFailed e))
      | Chunk c \<Rightarrow>
          let now = so_far + of_nat (length c);
              gap = (if last_reported \<le> now then now - last_reported else 0);
              emit = (progress_throttle_bytes \<le> gap \<or> now = bytes_total);
              (written, events, outcome) =
                (if emit then download_loop bytes_total now now True xs
                 else download_loop bytes_total now last_reported any_progress xs)
          in (c @ written, (if emit then (now, bytes_total) # events else events), outcome))"

definition download_to_file ::
  "u64 option \<Rightarrow> incoming list \<Rightarrow> string option \<Rightarrow> string \<times> (u64 \<times> u64) list \<times> (installer_error + unit)" where
  "download_to_file content_length arriving flush_error =
     (let bytes_total = (case content_length of Some n \<Rightarrow> n | None \<Rightarrow> 0);
          (written, events, outcome) = download_loop bytes_total 0 0 False arriving
      in case outcome of
           Inl e \<Rightarrow> (written, events, Inl e)
         | Inr (so_far, last_reported, any_progress) \<Rightarrow>
             (written,
              events @ (if \<not> any_progress \<or> last_reported \<noteq> so_far
                        then [(so_far, if bytes_total = 0 then so_far else bytes_total)] else []),
              case flush_error of Some e \<Rightarrow> Inl (DownloadFailed e) | None \<Rightarrow> Inr ()))"

fun download_string :: "string \<Rightarrow> u64 \<Rightarrow> string \<Rightarrow> incoming list \<Rightarrow> installer_error + string" where
  "download_string url max_bytes body [] =
     (if utf8_ok body then Inr body else Inl (DownloadFailed url))"
| "download_string url max_bytes body (x # xs) =
     (case x of
        Chunk c \<Rightarrow>
          if unat max_bytes < length body + length c
          then Inl (DownloadFailed (url @ '': response exceeded '' @ show_nat (unat max_bytes) @ '' bytes''))
          else download_string url max_bytes (body @ c) xs
      | BrokenOff e \<Rightarrow> Inl (DownloadFailed e)
      | DiskFull e \<Rightarrow> Inl (DownloadFailed e))"

definition verify_file :: "(string \<Rightarrow> string) \<Rightarrow> string \<Rightarrow> string option \<Rightarrow> string \<Rightarrow> string \<Rightarrow> installer_error + unit" where
  "verify_file sha path content filename sums_text =
     (case find (\<lambda>(_, name). name = filename) (parse_sha256sums sums_text) of
        None \<Rightarrow> Inl (ChecksumMismatch (filename @ '': not listed in SHA256SUMS''))
      | Some (expected, _) \<Rightarrow>
          (case content of
             None \<Rightarrow> Inl (ChecksumMismatch path)
           | Some t \<Rightarrow>
               if sha256_matches (sha t) expected then Inr () else Inl (ChecksumMismatch filename)))"

subsection \<open>The shared applet\<close>

definition version_from_output :: "(string \<Rightarrow> 'v option) \<Rightarrow> string \<Rightarrow> string option" where
  "version_from_output semver out =
     (let ws = words_of out
      in if ws = [] then None
         else (case parse_version semver (last ws) of Some _ \<Rightarrow> Some (last ws) | None \<Rightarrow> None))"

definition should_install :: "(string \<Rightarrow> ('v::linorder) option) \<Rightarrow> string option \<Rightarrow> string \<Rightarrow> bool" where
  "should_install semver installed candidate =
     (case installed of
        Some have \<Rightarrow> if parse_version semver have \<noteq> None then update_available semver have candidate else True
      | None \<Rightarrow> True)"

subsection \<open>Becoming root\<close>

datatype escalation_method = Sudo | Pkexec

definition which_in :: "nodes \<Rightarrow> path \<Rightarrow> string \<Rightarrow> string \<Rightarrow> string option" where
  "which_in ns cwd bin path_env =
     find (\<lambda>candidate. case read_plain ns cwd candidate of
              Some (_, mode) \<Rightarrow> mode AND 73 \<noteq> 0
            | None \<Rightarrow> False)
       (map (\<lambda>dir. dir @ ''/'' @ bin) (filter (\<lambda>dir. dir \<noteq> []) (split_on (CHR '':'') path_env)))"

definition pick_method :: "bool \<Rightarrow> bool \<Rightarrow> bool \<Rightarrow> installer_error + escalation_method" where
  "pick_method stderr_is_tty has_sudo has_pkexec =
     (if stderr_is_tty \<and> has_sudo then Inr Sudo
      else if has_pkexec then Inr Pkexec
      else Inl (EscalationUnavailable
             (if has_sudo then ''no controlling terminal for sudo, and pkexec is not installed''
              else ''neither sudo nor pkexec is available'')))"

definition classify_failure :: "(int option \<Rightarrow> string) \<Rightarrow> string \<Rightarrow> int option \<Rightarrow> string \<Rightarrow> installer_error" where
  "classify_failure show_code escalator code stderr =
     (if escalator = ''pkexec'' \<and> (code = Some 126 \<or> code = Some 127) then EscalationDenied
      else if escalator = ''sudo'' \<and> code = Some 1
        \<and> (stderr = [] \<or> contains_str ''incorrect password'' stderr \<or> contains_str ''Sorry'' stderr) then EscalationDenied
      else if code = Some 3 \<and> stderr = [] then
        InstallFailed (if escalator = ''sudo''
          then ''the root phase failed; see the terminal output above for the reason''
          else ''the root phase failed without reporting a reason'')
      else if code = Some 3 then InstallFailed (''root phase failed: '' @ trim stderr)
      else InstallFailed (''root phase exited '' @ show_code code @ '': '' @ trim stderr))"

text \<open>
  \<open>run_root_phase\<close>: what the primer of \<open>sudo\<close> and the escalated process came to. \<open>None\<close> is a process that
  could not be spawned. The text a \<open>pkexec\<close> run printed is captured, that of \<open>sudo\<close> is not.
\<close>

definition run_root_phase ::
  "(int option \<Rightarrow> string) \<Rightarrow> escalation_method \<Rightarrow> bool \<Rightarrow> int option option \<Rightarrow> (int option \<times> string) option
     \<Rightarrow> installer_error + unit" where
  "run_root_phase show_code how has_exe primer escalated =
     (if \<not> has_exe then Inl (InstallFailed ''current_exe'')
      else
        and_then (case how of
            Pkexec \<Rightarrow> Inr ()
          | Sudo \<Rightarrow>
              (case primer of
                 None \<Rightarrow> Inl (EscalationUnavailable ''sudo'')
               | Some code \<Rightarrow> if code = Some 0 then Inr () else Inl EscalationDenied)) (\<lambda>_.
        case escalated of
          None \<Rightarrow> Inl (EscalationUnavailable (case how of Sudo \<Rightarrow> ''sudo'' | Pkexec \<Rightarrow> ''pkexec''))
        | Some (code, printed) \<Rightarrow>
            if code = Some 0 then Inr ()
            else Inl (case how of
                Sudo \<Rightarrow> classify_failure show_code ''sudo'' code []
              | Pkexec \<Rightarrow> classify_failure show_code ''pkexec'' code printed)))"

subsection \<open>The installer and the daemon pick one release\<close>

text \<open>
  On one answer of the forge and one channel, what the daemon's check would offer is what the installer
  picks without a pin.
\<close>

lemma pick_release_is_the_candidate:
  "pick_release (ue_semver E) releases None beta =
     (case select_candidate E beta releases of
        Some r \<Rightarrow> Inr r
      | None \<Rightarrow> Inl (NoReleaseFound (''no '' @ (if beta then ''beta'' else ''stable'') @ '' release found'')))"
proof -
  have "eligible_kind beta = (\<lambda>r. case rel_kind r of Published \<Rightarrow> True | Prerelease \<Rightarrow> beta | Draft \<Rightarrow> False)"
    by (simp add: fun_eq_iff eligible_kind_def)
  then show ?thesis by (simp add: pick_release_def select_candidate_def split: option.split)
qed

lemma offered_release_is_installed:
  assumes "us_available (cs_status (found_releases E c releases))"
  shows "\<exists>r. pick_release (ue_semver E) releases None (us_beta (cs_status (found_releases E c releases))) = Inr r
    \<and> us_latest (cs_status (found_releases E c releases)) = Some (rel_tag r)"
  using assms
  by (cases "select_candidate E (effective_beta_optin E (fc_optin c)) releases")
    (simp_all add: found_releases_def Let_def pick_release_is_the_candidate)

lemma resolved_target_files:
  assumes "resolve_target semver is_pre says answer slug pin beta triple = Inr t"
  shows "\<exists>releases. answer = Inr releases \<and> rt_release t \<in> set releases
    \<and> (case pin of Some tag \<Rightarrow> rel_tag (rt_release t) = tag | None \<Rightarrow> rel_kind (rt_release t) \<noteq> Draft)
    \<and> (rt_tarball_name t, rt_tarball_url t) \<in> set (map (\<lambda>a. (ra_name a, ra_url a)) (rel_assets (rt_release t)))
    \<and> (''SHA256SUMS'', rt_sums_url t) \<in> set (map (\<lambda>a. (ra_name a, ra_url a)) (rel_assets (rt_release t)))"
proof -
  obtain releases r where a: "answer = Inr releases" "pick_release semver releases pin beta = Inr r"
    and t: "rt_release t = r" "required_asset r (rt_tarball_name t) = Inr (rt_tarball_url t)"
      "required_asset r ''SHA256SUMS'' = Inr (rt_sums_url t)"
    using assms by (auto simp: resolve_target_def and_then_def Let_def split: sum.splits)
  have asset: "(name, url) \<in> set (map (\<lambda>a. (ra_name a, ra_url a)) (rel_assets r))" if "required_asset r name = Inr url" for name url
    using that by (auto simp: required_asset_def image_iff split: option.splits dest: find_SomeD)
  have "r \<in> set releases \<and> (case pin of Some tag \<Rightarrow> rel_tag r = tag | None \<Rightarrow> rel_kind r \<noteq> Draft)"
  proof (cases pin)
    case (Some tag)
    with a(2) show ?thesis by (auto simp: pick_release_def split: option.splits dest: find_SomeD)
  next
    case None
    define E where "E = (undefined :: 'a update_env)\<lparr>ue_semver := semver\<rparr>"
    have "select_candidate E beta releases = Some r"
      using a(2) pick_release_is_the_candidate [of E releases beta] None by (simp add: E_def split: option.splits)
    from select_candidate_newest [OF this] None show ?thesis
      by (auto simp: newest_of_def eligible_kind_def)
  qed
  then show ?thesis using a(1) asset [OF t(2)] asset [OF t(3)] unfolding t(1) by blast
qed

subsection \<open>A transfer\<close>

definition body_of_chunks :: "incoming list \<Rightarrow> string" where
  "body_of_chunks xs = concat (map (\<lambda>x. case x of Chunk c \<Rightarrow> c | _ \<Rightarrow> []) xs)"

lemma download_loop_done:
  "download_loop bytes_total so_far last_reported any_progress xs = (written, events, Inr (n, reported, some)) \<Longrightarrow>
    written = body_of_chunks xs \<and> n = so_far + of_nat (length written)
    \<and> (if events = [] then reported = last_reported \<and> some = any_progress else some \<and> last events = (reported, bytes_total))"
proof (induction xs arbitrary: so_far last_reported any_progress written events)
  case (Cons x xs)
  obtain c where x: "x = Chunk c" using Cons.prems by (cases x) auto
  define now where "now = so_far + of_nat (length c)"
  define emit where "emit = (progress_throttle_bytes \<le> (if last_reported \<le> now then now - last_reported else 0) \<or> now = bytes_total)"
  obtain w ev res where rec: "download_loop bytes_total now (if emit then now else last_reported) (emit \<or> any_progress) xs = (w, ev, res)"
    by (metis prod_cases3)
  have eq: "written = c @ w" "events = (if emit then (now, bytes_total) # ev else ev)" "res = Inr (n, reported, some)"
    using Cons.prems rec by (auto simp: x Let_def now_def [symmetric] emit_def [symmetric] split: if_splits)
  from Cons.IH [OF rec [unfolded eq(3)]] eq show ?case
    by (auto simp: x now_def body_of_chunks_def ac_simps split: if_splits)
qed (simp add: body_of_chunks_def)

text \<open>
  A transfer that succeeds has written the whole body and reported at least once, the last time with
  every byte; where the length was told, also with that length.
\<close>
theorem transfer_reports_its_end:
  "case download_to_file content_length xs flush_error of
     (written, events, Inr _) \<Rightarrow>
       written = body_of_chunks xs \<and> events \<noteq> [] \<and> fst (last events) = of_nat (length written)
       \<and> (case content_length of Some n \<Rightarrow> if n = 0 then True else snd (last events) = n | None \<Rightarrow> True)
   | (_, _, Inl _) \<Rightarrow> True"
proof -
  obtain w ev res where loop: "download_loop (case content_length of Some n \<Rightarrow> n | None \<Rightarrow> 0) 0 0 False xs = (w, ev, res)"
    by (metis prod_cases3)
  show ?thesis
  proof (cases res)
    case (Inr v)
    obtain n reported some where v: "v = (n, reported, some)" by (metis prod_cases3)
    from download_loop_done [OF loop [unfolded Inr v]] loop show ?thesis
      by (auto simp: download_to_file_def Inr v split: option.splits if_splits)
  qed (simp add: download_to_file_def loop)
qed

text \<open>
  Where no length was told and the last chunk is itself reported, the last report still says zero of it:
  the guaranteed final report is not made.
\<close>
lemma last_report_without_a_total:
  assumes "length c = 256 * 1024"
  shows "download_to_file None [Chunk c] None = (c, [(of_nat (length c), 0)], Inr ())"
  using assms by (simp add: download_to_file_def progress_throttle_bytes_def)

lemma verify_file_Inr:
  "verify_file sha path content filename sums_text = Inr () \<longleftrightarrow>
     (\<exists>t expected b. content = Some t \<and> find (\<lambda>(_, name). name = filename) (parse_sha256sums sums_text) = Some (expected, b)
        \<and> sha256_matches (sha t) expected)"
  by (auto simp: verify_file_def split: option.splits)

subsection \<open>A denial is no failure\<close>

text \<open>
  What the installer is told of the escalated step. It hears of a denial exactly when the escalator said
  so: \<open>pkexec\<close> with 126 or 127, \<open>sudo\<close> by its primer or with 1. A root phase that ran is success or an
  install failure, never a denial.
\<close>
theorem root_phase_answer_understood:
  "run_root_phase show_code how True primer escalated = Inl EscalationDenied \<longleftrightarrow>
     (case how of
        Sudo \<Rightarrow> (case primer of Some code \<Rightarrow> code \<noteq> Some 0
                    \<or> (case escalated of Some (c, _) \<Rightarrow> c = Some 1 | None \<Rightarrow> False) | None \<Rightarrow> False)
      | Pkexec \<Rightarrow> (case escalated of Some (c, _) \<Rightarrow> c = Some 126 \<or> c = Some 127 | None \<Rightarrow> False))"
  "case run_root_phase show_code how True (Some (Some 0)) (Some (Some (uint (snd (run_root E p d))), printed)) of
     Inr _ \<Rightarrow> snd (run_root E p d) = 0
   | Inl (InstallFailed _) \<Rightarrow> snd (run_root E p d) = 3
   | Inl _ \<Rightarrow> False"
proof -
  show "run_root_phase show_code how True primer escalated = Inl EscalationDenied \<longleftrightarrow>
     (case how of
        Sudo \<Rightarrow> (case primer of Some code \<Rightarrow> code \<noteq> Some 0
                    \<or> (case escalated of Some (c, _) \<Rightarrow> c = Some 1 | None \<Rightarrow> False) | None \<Rightarrow> False)
      | Pkexec \<Rightarrow> (case escalated of Some (c, _) \<Rightarrow> c = Some 126 \<or> c = Some 127 | None \<Rightarrow> False))"
    by (cases how) (auto simp: run_root_phase_def and_then_def classify_failure_def split: option.splits)
  have "snd (run_root E p d) = 0 \<or> snd (run_root E p d) = 3"
    by (auto simp: run_root_def Let_def split: prod.splits sum.splits)
  then show "case run_root_phase show_code how True (Some (Some 0)) (Some (Some (uint (snd (run_root E p d))), printed)) of
     Inr _ \<Rightarrow> snd (run_root E p d) = 0
   | Inl (InstallFailed _) \<Rightarrow> snd (run_root E p d) = 3
   | Inl _ \<Rightarrow> False"
    by (cases how) (auto simp: run_root_phase_def and_then_def classify_failure_def)
qed

end
