(* ===== verification/Inst_Stage.thy ===== *)
theory Inst_Stage
  imports Inst_Release "HOL-Library.List_Lexorder" "HOL-Library.Char_ord"
begin

section \<open>Staging: what the root phase is told to do\<close>

text \<open>
  \<open>super-engine-installer/src/stage.rs\<close> and the menu of \<open>lib.rs\<close>: which components a run installs, and the
  manifest it hands to the root phase. The reading of the tarball is not modelled here; what it left in
  the staging directory is on the disk.
\<close>

record installer =
  in_product :: product_spec
  in_wrapper_usage :: string

record chosen =
  ch_daemon :: bool
  ch_app :: bool
  ch_applet :: bool

definition component_names :: "chosen \<Rightarrow> string list" where
  "component_names c =
     (if ch_daemon c then [''daemon''] else []) @ (if ch_app c then [''app''] else [])
     @ (if ch_applet c then [''applet''] else [])"

datatype component_selection = SelectAll | AllButApplet | SelectDaemon | SelectApp | SelectApplet

definition selection_from_str :: "string \<Rightarrow> component_selection" where
  "selection_from_str s =
     (if s = ''daemon'' then SelectDaemon
      else if s = ''app'' then SelectApp
      else if s = ''applet'' then SelectApplet
      else SelectAll)"

datatype menu_choice = Chosen component_selection | Quit | Retry string

definition menu_choice_of :: "string \<Rightarrow> bool \<Rightarrow> menu_choice" where
  "menu_choice_of input cosmic_available =
     (if input = [] \<or> input = ''1'' then Chosen (if cosmic_available then SelectAll else AllButApplet)
      else if input = ''2'' then Chosen SelectDaemon
      else if input = ''3'' then Chosen SelectApp
      else if input = ''4''
        then (if cosmic_available then Chosen SelectApplet else Retry ''COSMIC panel not found - applet not available'')
      else if input = ''q'' \<or> input = ''Q'' then Quit
      else Retry ''Invalid option. Please try again.'')"

definition join_path :: "string \<Rightarrow> string \<Rightarrow> string" where
  "join_path a b = (if a = [] \<or> last a = CHR ''/'' then a @ b else a @ ''/'' @ b)"

definition path_found :: "nodes \<Rightarrow> string \<Rightarrow> bool" where
  "path_found ns p = (canonicalize ns (walk_parts p) \<noteq> None)"

text \<open>
  \<open>read_dir\<close>: the names in a directory, none where there is no such directory. A name holds no slash.
\<close>

definition dir_names :: "nodes \<Rightarrow> string \<Rightarrow> string list" where
  "dir_names ns p =
     (case canonicalize ns (walk_parts p) of
        None \<Rightarrow> []
      | Some d \<Rightarrow> map (\<lambda>(q, _). last q) (filter (\<lambda>(q, _). q \<noteq> [] \<and> butlast q = d \<and> CHR ''/'' \<notin> set (last q)) ns))"

definition plan_components :: "component_selection option \<Rightarrow> nodes \<Rightarrow> string \<Rightarrow> bool \<Rightarrow> product_spec \<Rightarrow> chosen" where
  "plan_components explicit ns pre cosmic_available product =
     (case explicit of
        Some SelectAll \<Rightarrow> \<lparr>ch_daemon = True, ch_app = True, ch_applet = True\<rparr>
      | Some AllButApplet \<Rightarrow> \<lparr>ch_daemon = True, ch_app = True, ch_applet = False\<rparr>
      | Some SelectDaemon \<Rightarrow> \<lparr>ch_daemon = True, ch_app = False, ch_applet = False\<rparr>
      | Some SelectApp \<Rightarrow> \<lparr>ch_daemon = False, ch_app = True, ch_applet = False\<rparr>
      | Some SelectApplet \<Rightarrow> \<lparr>ch_daemon = False, ch_app = False, ch_applet = True\<rparr>
      | None \<Rightarrow>
          (let installed = dir_names ns (join_path pre ''bin''); slug = ps_slug product
           in if list_ex (\<lambda>name. starts_with (slug @ ''-'') name) installed
              then \<lparr>ch_daemon = True, ch_app = list_ex (\<lambda>name. name = slug @ ''-app'') installed,
                     ch_applet = list_ex (\<lambda>name. name = slug @ ''-cosmic-applet'' \<or> name = shared_applet) installed\<rparr>
              else \<lparr>ch_daemon = True, ch_app = True, ch_applet = cosmic_available\<rparr>))"

definition wrapper_script :: "string \<Rightarrow> installer \<Rightarrow> string" where
  "wrapper_script pre i =
     (let nl = [CHR 0x0A]; quote = [CHR 0x22]; slug = ps_slug (in_product i) in
      ''#!/bin/bash'' @ nl @ ''# '' @ ps_display_name (in_product i)
      @ '' convenience wrapper '' @ [CHR 0xE2, CHR 0x80, CHR 0x94] @ '' invokes '' @ slug @ ''-cli directly.'' @ nl
      @ ''# '' @ in_wrapper_usage i @ nl
      @ ''exec '' @ quote @ pre @ ''/bin/'' @ slug @ ''-cli'' @ quote @ '' '' @ quote @ ''$@'' @ quote @ nl)"

definition executable_mode :: u32 where "executable_mode = 493"

definition data_mode :: u32 where "data_mode = 420"

text \<open>\<open>std::fs::write\<close>, for a process whose umask is 022.\<close>

definition hd_write :: "string list \<Rightarrow> string \<Rightarrow> (host_disk, io_kind, unit) action" where
  "hd_write cs contents =
     hcall (\<lambda>ns. case write_place ns cs of
              None \<Rightarrow> Inl IoOther
            | Some q \<Rightarrow> Inr (hm_insert q (Plain contents data_mode) ns))
       (\<lambda>n ns. case write_place ns cs of
              None \<Rightarrow> ns
            | Some q \<Rightarrow> hm_insert q (Plain (take n contents) data_mode) ns)"

definition product_applet_files :: "string \<Rightarrow> string \<Rightarrow> string list" where
  "product_applet_files pre applet =
     [join_path pre (''bin/'' @ applet)]
     @ map (\<lambda>side. join_path pre (''share/applications/'' @ applet @ ''-'' @ side @ ''.desktop'')) [''full'', ''left'', ''right'']
     @ [join_path pre (''share/icons/hicolor/scalable/apps/'' @ applet @ ''.svg'')]"

definition ends_with :: "string \<Rightarrow> string \<Rightarrow> bool" where
  "ends_with tail s = starts_with (rev tail) (rev s)"

definition applet_desktop_files :: "nodes \<Rightarrow> string \<Rightarrow> string \<Rightarrow> installer_error + string list" where
  "applet_desktop_files ns staging applet =
     (let resources = join_path staging ''resources'';
          files = sort (filter (\<lambda>n. starts_with (applet @ ''-'') n \<and> ends_with ''.desktop'' n) (dir_names ns resources))
      in if files = []
         then Inl (InstallFailed (''staging missing any '' @ applet @ ''-*.desktop file under '' @ resources))
         else Inr files)"

definition required_entry ::
  "string \<Rightarrow> string \<Rightarrow> string \<Rightarrow> u32 \<Rightarrow> (host_disk, installer_error, manifest_entry) action" where
  "required_entry staging rel dest mode =
     (let source = join_path staging rel in
      io_then (hd_look (\<lambda>ns. path_found ns source)) (\<lambda>found.
        if found then io_pure \<lparr>me_source = source, me_dest = dest, me_mode = mode\<rparr>
        else io_fail (InstallFailed (''staging missing '' @ rel))))"

text \<open>Several required entries: \<open>(rel, dest, mode)\<close>.\<close>

fun required_entries ::
  "string \<Rightarrow> (string \<times> string \<times> u32) list \<Rightarrow> (host_disk, installer_error, manifest_entry list) action" where
  "required_entries staging [] = io_pure []"
| "required_entries staging ((rel, dest, mode) # rest) =
     io_then (required_entry staging rel dest mode) (\<lambda>e.
     io_then (required_entries staging rest) (\<lambda>es. io_pure (e # es)))"

definition daemon_entries :: "string \<Rightarrow> string \<Rightarrow> string \<Rightarrow> installer \<Rightarrow> (host_disk, installer_error, manifest_entry list) action" where
  "daemon_entries staging pre unit_dir i =
     (let product = in_product i; slug = ps_slug product; bin = join_path pre ''bin'';
          generated = join_path staging ''generated''; wrapper = join_path generated (ps_short_name product);
          unit = slug @ ''.service'' in
      io_then (required_entries staging
        (map (\<lambda>name. (name, join_path bin name, executable_mode))
          [daemon_binary product, slug @ ''-cli'', consent_helper product])) (\<lambda>binaries.
      io_then (io_map_err (\<lambda>_. InstallFailed (''create '' @ generated)) (hd_create_dir_all (components generated))) (\<lambda>_.
      io_then (io_map_err (\<lambda>_. InstallFailed (''write '' @ wrapper)) (hd_write (walk_parts wrapper) (wrapper_script pre i))) (\<lambda>_.
      io_then (required_entry staging (''systemd/'' @ unit) (join_path unit_dir unit) data_mode) (\<lambda>service.
      io_pure (binaries
        @ [\<lparr>me_source = wrapper, me_dest = join_path bin (ps_short_name product), me_mode = executable_mode\<rparr>, service]))))))"

definition app_entries :: "string \<Rightarrow> string \<Rightarrow> product_spec \<Rightarrow> (host_disk, installer_error, manifest_entry list) action" where
  "app_entries staging pre product =
     (let app = ps_slug product @ ''-app''; metainfo = join_path staging (''resources/'' @ app @ ''.metainfo.xml'') in
      io_then (required_entries staging
        [(app, join_path pre (''bin/'' @ app), executable_mode),
         (''resources/'' @ app @ ''.desktop'', join_path pre (''share/applications/'' @ app @ ''.desktop''), data_mode),
         (''resources/icons/hicolor/scalable/apps/'' @ app @ ''.svg'',
          join_path pre (''share/icons/hicolor/scalable/apps/'' @ app @ ''.svg''), data_mode)]) (\<lambda>es.
      io_then (hd_look (\<lambda>ns. path_found ns metainfo)) (\<lambda>found.
      io_pure (es @ (if found
        then [\<lparr>me_source = metainfo, me_dest = join_path pre (''share/metainfo/'' @ app @ ''.metainfo.xml''), me_mode = data_mode\<rparr>]
        else [])))))"

definition applet_entries :: "string \<Rightarrow> string \<Rightarrow> (host_disk, installer_error, manifest_entry list) action" where
  "applet_entries applet pre =
     io_then (required_entry applet shared_applet (join_path pre (''bin/'' @ shared_applet)) executable_mode) (\<lambda>binary.
     io_then (hd_look (\<lambda>ns. applet_desktop_files ns applet shared_applet)) (\<lambda>found.
     io_then (io_of found) (\<lambda>names.
     io_then (required_entry applet (''resources/icons/hicolor/scalable/apps/'' @ shared_applet @ ''.svg'')
        (join_path pre (''share/icons/hicolor/scalable/apps/'' @ shared_applet @ ''.svg'')) data_mode) (\<lambda>icon.
     io_pure (binary # map (\<lambda>name. \<lparr>me_source = join_path applet (''resources/'' @ name),
         me_dest = join_path pre (''share/applications/'' @ name), me_mode = data_mode\<rparr>) names @ [icon])))))"

definition build_manifest ::
  "string \<Rightarrow> string option \<Rightarrow> string \<Rightarrow> string \<Rightarrow> chosen \<Rightarrow> string \<Rightarrow> installer
     \<Rightarrow> (host_disk, installer_error, install_manifest) action" where
  "build_manifest staging applet pre unit_dir c self_exe i =
     (let product = in_product i;
          self = \<lparr>me_source = self_exe, me_dest = join_path pre (''bin/'' @ installer_binary product), me_mode = executable_mode\<rparr> in
      io_then (if ch_daemon c then daemon_entries staging pre unit_dir i else io_pure []) (\<lambda>daemon.
      io_then (if ch_app c then app_entries staging pre product else io_pure []) (\<lambda>app.
      io_then (case applet of
          Some dir \<Rightarrow> if ch_applet c then applet_entries dir pre else io_pure []
        | None \<Rightarrow> io_pure []) (\<lambda>shared.
      io_pure \<lparr>im_entries = self # daemon @ app @ shared,
        im_removals = (if ch_applet c then product_applet_files pre (ps_slug product @ ''-cosmic-applet'') else [])\<rparr>))))"

subsection \<open>The manifest passes the root phase\<close>

lemma components_slash: "components (a @ CHR ''/'' # b) = components a @ components b"
  by (simp add: components_def split_on_snoc)

lemma components_join: "components (join_path a b) = components a @ components b"
proof (cases "a = []")
  case False
  then obtain z c where a: "a = z @ [c]" by (metis append_butlast_last_id)
  show ?thesis
  proof (cases "c = CHR ''/''")
    case True
    with components_slash [of z b] components_slash [of z "[]"] show ?thesis
      by (simp add: a join_path_def components_def)
  next
    case False
    with components_slash [of a b] show ?thesis by (simp add: a join_path_def)
  qed
qed (simp add: join_path_def components_def)

lemma is_absolute_join: "is_absolute a \<Longrightarrow> is_absolute (join_path a b)"
  by (cases a) (auto simp: is_absolute_def join_path_def starts_with_iff)

text \<open>A name of the product: without a slash, and no \<open>..\<close>.\<close>

definition plain_name :: "string \<Rightarrow> bool" where
  "plain_name s = (CHR ''/'' \<notin> set s \<and> s \<noteq> ''..'')"

lemma components_plain_name: "CHR ''/'' \<notin> set s \<Longrightarrow> components s = (if s = [] \<or> s = ''.'' then [] else [s])"
  by (simp add: components_def split_on_no_sep)

lemma long_name: "3 \<le> length s \<Longrightarrow> s \<noteq> ''..'' \<and> ''..'' \<noteq> s"
  by auto

text \<open>What an entry must be to pass: its destination below a root, its mode, its source below staging.\<close>

definition dest_fits :: "string \<Rightarrow> bool" where
  "dest_fits dest = (validate_dest dest allowed_roots = Inr ())"

definition source_fits :: "path \<Rightarrow> string \<Rightarrow> bool" where
  "source_fits root source =
     (is_absolute source \<and> \<not> has_parent_dir source \<and> prefix root (components source))"

lemma dest_fits_local:
  "\<not> has_parent_dir rel \<Longrightarrow> dest_fits (join_path ''/usr/local'' rel)"
  "\<not> has_parent_dir rel \<Longrightarrow> dest_fits (join_path (join_path ''/usr/local'' ''bin'') rel)"
  "\<not> has_parent_dir rel \<Longrightarrow> dest_fits (join_path ''/usr/lib/systemd/user'' rel)"
  unfolding dest_fits_def validate_dest_Inr has_parent_dir_def components_join
  by (simp_all add: components_def join_path_def is_absolute_def starts_with_def allowed_roots_def)

lemma source_fits_join:
  "source_fits root a \<Longrightarrow> \<not> has_parent_dir rel \<Longrightarrow> source_fits root (join_path a rel)"
  by (auto simp: source_fits_def is_absolute_join has_parent_dir_def components_join)

definition entry_fits :: "path \<Rightarrow> manifest_entry \<Rightarrow> bool" where
  "entry_fits root e = (dest_fits (me_dest e) \<and> (me_mode e = executable_mode \<or> me_mode e = data_mode)
     \<and> source_fits root (me_source e))"

lemma entry_fits_valid:
  assumes "entry_fits root e"
  shows "validate_entry E ns allowed_roots root e = Inr ()"
proof -
  have "me_mode e AND privileged_bits = 0"
    using assms by (auto simp: entry_fits_def executable_mode_def data_mode_def privileged_bits_def)
  with assms show ?thesis
    by (simp add: validate_entry_def validate_mode_def validate_source_def entry_fits_def dest_fits_def
        source_fits_def and_then_def ensure_def)
qed

lemma required_entry_fits:
  "required_entry staging rel dest mode d = (d2, Inr e) \<Longrightarrow> source_fits root staging \<Longrightarrow> \<not> has_parent_dir rel \<Longrightarrow>
    dest_fits dest \<Longrightarrow> mode = executable_mode \<or> mode = data_mode \<Longrightarrow> entry_fits root e"
  by (auto simp: required_entry_def Let_def io_then_def hd_look_def io_pure_def io_fail_def entry_fits_def
      source_fits_join split: if_splits)

lemma required_entries_fit:
  "required_entries staging specs d = (d2, Inr es) \<Longrightarrow> source_fits root staging \<Longrightarrow>
    list_all (\<lambda>(rel, dest, mode). \<not> has_parent_dir rel \<and> dest_fits dest \<and> (mode = executable_mode \<or> mode = data_mode)) specs \<Longrightarrow>
    list_all (entry_fits root) es"
proof (induction specs arbitrary: d es)
  case (Cons s specs)
  obtain rel dest mode where s: "s = (rel, dest, mode)" by (cases s)
  from Cons.prems(1) obtain d1 e es2 where "required_entry staging rel dest mode d = (d1, Inr e)"
    "required_entries staging specs d1 = (d2, Inr es2)" "es = e # es2"
    by (auto simp: s io_then_def io_pure_def split: prod.splits sum.splits)
  with Cons show ?case by (auto simp: s intro: required_entry_fits)
qed (simp add: io_pure_def)

lemma no_up_leaf: "CHR ''/'' \<notin> set s \<Longrightarrow> 3 \<le> length s \<Longrightarrow> \<not> has_parent_dir s"
  using long_name [of s] by (auto simp: has_parent_dir_def components_plain_name)

lemma no_up_dirs:
  assumes "\<not> has_parent_dir s"
  shows "\<not> has_parent_dir (''bin/'' @ s)" "\<not> has_parent_dir (''systemd/'' @ s)" "\<not> has_parent_dir (''resources/'' @ s)"
    "\<not> has_parent_dir (''share/applications/'' @ s)" "\<not> has_parent_dir (''share/metainfo/'' @ s)"
    "\<not> has_parent_dir (''share/icons/hicolor/scalable/apps/'' @ s)"
    "\<not> has_parent_dir (''resources/icons/hicolor/scalable/apps/'' @ s)"
  using assms components_slash [of "''bin''" s] components_slash [of "''systemd''" s] components_slash [of "''resources''" s]
    components_slash [of "''share/applications''" s] components_slash [of "''share/metainfo''" s]
    components_slash [of "''share/icons/hicolor/scalable/apps''" s]
    components_slash [of "''resources/icons/hicolor/scalable/apps''" s]
  by (simp_all add: has_parent_dir_def components_def)

lemmas no_up_dirs_simps = no_up_dirs [simplified]

lemma plain_no_up: "plain_name s \<Longrightarrow> \<not> has_parent_dir s"
  by (auto simp: plain_name_def has_parent_dir_def components_plain_name)

lemma slug_leaves:
  assumes "CHR ''/'' \<notin> set slug"
  shows "\<not> has_parent_dir (slug @ ''-daemon'')" "\<not> has_parent_dir (slug @ ''-cli'')" "\<not> has_parent_dir (slug @ ''-consent'')"
    "\<not> has_parent_dir (slug @ ''-install'')" "\<not> has_parent_dir (slug @ ''.service'')" "\<not> has_parent_dir (slug @ ''-app'')"
    "\<not> has_parent_dir (slug @ ''-app.desktop'')" "\<not> has_parent_dir (slug @ ''-app.svg'')" "\<not> has_parent_dir (slug @ ''-app.metainfo.xml'')"
    "\<not> has_parent_dir (slug @ ''-cosmic-applet'')" "\<not> has_parent_dir (slug @ ''-cosmic-applet.svg'')"
    "\<not> has_parent_dir (slug @ ''-cosmic-applet-full.desktop'')" "\<not> has_parent_dir (slug @ ''-cosmic-applet-left.desktop'')"
    "\<not> has_parent_dir (slug @ ''-cosmic-applet-right.desktop'')"
  by (rule no_up_leaf; use assms in simp)+

lemma daemon_entries_fit:
  assumes "daemon_entries staging ''/usr/local'' ''/usr/lib/systemd/user'' i d = (d2, Inr es)"
    and "source_fits root staging" "CHR ''/'' \<notin> set (ps_slug (in_product i))" "plain_name (ps_short_name (in_product i))"
  shows "list_all (entry_fits root) es"
proof -
  let ?p = "in_product i" let ?slug = "ps_slug ?p"
  obtain d1 bs d3 s d5 where
    bs: "required_entries staging (map (\<lambda>name. (name, join_path (join_path ''/usr/local'' ''bin'') name, executable_mode))
          [daemon_binary ?p, ?slug @ ''-cli'', consent_helper ?p]) d = (d1, Inr bs)" and
    s: "required_entry staging (''systemd/'' @ ?slug @ ''.service'') (join_path ''/usr/lib/systemd/user'' (?slug @ ''.service'')) data_mode d3
          = (d5, Inr s)" and
    es: "es = bs @ [\<lparr>me_source = join_path (join_path staging ''generated'') (ps_short_name ?p),
        me_dest = join_path (join_path ''/usr/local'' ''bin'') (ps_short_name ?p), me_mode = executable_mode\<rparr>, s]"
    using assms(1)
    by (auto simp: daemon_entries_def Let_def io_then_def io_pure_def io_map_err_def split: prod.splits sum.splits)
  have "list_all (entry_fits root) bs"
    by (rule required_entries_fit [OF bs assms(2)])
      (use slug_leaves [OF assms(3)] in \<open>simp add: daemon_binary_def consent_helper_def dest_fits_local\<close>)
  moreover have "entry_fits root s"
    by (rule required_entry_fits [OF s assms(2)]) (use slug_leaves [OF assms(3)] in \<open>simp_all add: no_up_dirs_simps dest_fits_local\<close>)
  moreover have "\<not> has_parent_dir ''generated''" by code_simp
  ultimately show ?thesis
    using plain_no_up [OF assms(4)] assms(2)
    by (simp add: es entry_fits_def dest_fits_local source_fits_join)
qed

lemma app_entries_fit:
  assumes "app_entries staging ''/usr/local'' p d = (d2, Inr es)"
    and "source_fits root staging" "CHR ''/'' \<notin> set (ps_slug p)"
  shows "list_all (entry_fits root) es"
proof -
  let ?app = "ps_slug p @ ''-app''"
  obtain bs more where
    bs: "required_entries staging
        [(?app, join_path ''/usr/local'' (''bin/'' @ ?app), executable_mode),
         (''resources/'' @ ?app @ ''.desktop'', join_path ''/usr/local'' (''share/applications/'' @ ?app @ ''.desktop''), data_mode),
         (''resources/icons/hicolor/scalable/apps/'' @ ?app @ ''.svg'',
          join_path ''/usr/local'' (''share/icons/hicolor/scalable/apps/'' @ ?app @ ''.svg''), data_mode)] d = (d2, Inr bs)" and
    es: "es = bs @ (if more then [\<lparr>me_source = join_path staging (''resources/'' @ ?app @ ''.metainfo.xml''),
        me_dest = join_path ''/usr/local'' (''share/metainfo/'' @ ?app @ ''.metainfo.xml''), me_mode = data_mode\<rparr>] else [])"
    using assms(1) unfolding app_entries_def Let_def
    by (elim io_then_cases) (auto simp: io_pure_def hd_look_def intro: that split: if_splits)
  have "list_all (entry_fits root) bs"
    by (rule required_entries_fit [OF bs assms(2)])
      (use slug_leaves [OF assms(3)] in \<open>simp add: dest_fits_local no_up_dirs_simps\<close>)
  then show ?thesis
    using slug_leaves [OF assms(3)] assms(2) by (simp add: es entry_fits_def dest_fits_local source_fits_join no_up_dirs_simps)
qed

lemma desktop_file_no_up:
  assumes "applet_desktop_files ns staging shared_applet = Inr names" "n \<in> set names"
  shows "\<not> has_parent_dir n"
proof -
  have n: "n \<in> set (dir_names ns (join_path staging ''resources''))" "starts_with (shared_applet @ ''-'') n"
    using assms by (auto simp: applet_desktop_files_def Let_def split: if_splits)
  have "CHR ''/'' \<notin> set n"
    using n(1) by (auto simp: dir_names_def split: option.splits)
  moreover have "3 \<le> length n" using n(2) by (auto simp: starts_with_iff shared_applet_def)
  ultimately show ?thesis by (rule no_up_leaf)
qed

lemma applet_entries_fit:
  assumes "applet_entries dir ''/usr/local'' d = (d2, Inr es)" "source_fits root dir"
  shows "list_all (entry_fits root) es"
proof -
  let ?svg = "shared_applet @ ''.svg''"
  obtain b names d1 icon where
    b: "required_entry dir shared_applet (join_path ''/usr/local'' (''bin/'' @ shared_applet)) executable_mode d = (d1, Inr b)" and
    names: "applet_desktop_files (hd_nodes d1) dir shared_applet = Inr names" and
    icon: "required_entry dir (''resources/icons/hicolor/scalable/apps/'' @ ?svg)
        (join_path ''/usr/local'' (''share/icons/hicolor/scalable/apps/'' @ ?svg)) data_mode d1 = (d2, Inr icon)" and
    es: "es = b # map (\<lambda>name. \<lparr>me_source = join_path dir (''resources/'' @ name),
         me_dest = join_path ''/usr/local'' (''share/applications/'' @ name), me_mode = data_mode\<rparr>) names @ [icon]"
    using assms(1) unfolding applet_entries_def Let_def
    by (elim io_then_cases) (auto simp: io_pure_def io_of_def hd_look_def intro: that)
  have leaf: "\<not> has_parent_dir shared_applet" "\<not> has_parent_dir ?svg"
    by (rule no_up_leaf; simp add: shared_applet_def)+
  have "entry_fits root b"
    by (rule required_entry_fits [OF b assms(2)]) (use leaf in \<open>simp_all add: dest_fits_local no_up_dirs_simps\<close>)
  moreover have "entry_fits root icon"
    by (rule required_entry_fits [OF icon assms(2)]) (use leaf in \<open>simp_all add: dest_fits_local no_up_dirs_simps\<close>)
  ultimately show ?thesis
    using desktop_file_no_up [OF names] assms(2)
    by (auto simp: es entry_fits_def dest_fits_local source_fits_join no_up_dirs_simps list_all_iff)
qed

lemma product_applet_files_fit:
  assumes "CHR ''/'' \<notin> set slug"
  shows "list_all (\<lambda>p. validate_dest p allowed_roots = Inr ()) (product_applet_files ''/usr/local'' (slug @ ''-cosmic-applet''))"
  using slug_leaves [OF assms]
  by (simp add: product_applet_files_def dest_fits_local [unfolded dest_fits_def] no_up_dirs_simps)

text \<open>
  C11. What the unprivileged half plans, the root half accepts. Every manifest \<open>build_manifest\<close> makes, for
  whatever components, passes every check the root phase makes of it, so an install is never refused
  after a password was asked for; provided the product's names hold no slash, both staging directories
  lie below the directory of the manifest file, and the root phase runs the binary that planned it.
\<close>
theorem planned_manifest_is_accepted:
  assumes "build_manifest staging applet ''/usr/local'' ''/usr/lib/systemd/user'' c self_exe i d = (d2, Inr m)"
    and "CHR ''/'' \<notin> set (ps_slug (in_product i))" "plain_name (ps_short_name (in_product i))"
    and "source_fits root staging" "case applet of Some dir \<Rightarrow> source_fits root dir | None \<Rightarrow> True"
    and "is_self_exe E ns self_exe" "\<not> has_parent_dir self_exe"
  shows "validate_manifest E ns allowed_roots root m = Inr ()"
proof -
  let ?slug = "ps_slug (in_product i)"
  define self where "self = \<lparr>me_source = self_exe, me_dest = join_path ''/usr/local'' (''bin/'' @ installer_binary (in_product i)),
    me_mode = executable_mode\<rparr>"
  have "validate_entry E ns allowed_roots root self = Inr ()"
    using assms(6,7) slug_leaves [OF assms(2)] dest_fits_local(1) [of "''bin/'' @ installer_binary (in_product i)"]
    by (simp add: self_def validate_entry_def validate_source_def validate_mode_def and_then_def ensure_def dest_fits_def
        executable_mode_def privileged_bits_def installer_binary_def no_up_dirs_simps)
  moreover obtain d1 da ap sh d3 where
    parts: "(if ch_daemon c then daemon_entries staging ''/usr/local'' ''/usr/lib/systemd/user'' i else io_pure []) d = (d1, Inr da)"
      "(if ch_app c then app_entries staging ''/usr/local'' (in_product i) else io_pure []) d1 = (d3, Inr ap)"
      "(case applet of Some dir \<Rightarrow> if ch_applet c then applet_entries dir ''/usr/local'' else io_pure [] | None \<Rightarrow> io_pure []) d3
         = (d2, Inr sh)" and
    m: "m = \<lparr>im_entries = self # da @ ap @ sh,
        im_removals = (if ch_applet c then product_applet_files ''/usr/local'' (?slug @ ''-cosmic-applet'') else [])\<rparr>"
    using assms(1) unfolding build_manifest_def Let_def self_def [symmetric]
    by (elim io_then_cases) (auto simp: io_pure_def intro: that)
  have "list_all (entry_fits root) (da @ ap @ sh)"
    using parts assms(5) daemon_entries_fit [OF _ assms(4,2,3)] app_entries_fit [OF _ assms(4,2)] applet_entries_fit
    by (auto simp: io_pure_def split: if_splits option.splits)
  ultimately show ?thesis
    using product_applet_files_fit [OF assms(2)] entry_fits_valid
    by (auto simp: validate_manifest_Inr m list_all_iff)
qed

definition sample_installer :: installer where
  "sample_installer = \<lparr>in_product = \<lparr>ps_display_name = ''Voice'', ps_slug = ''super-voice'', ps_short_name = ''voice'',
     ps_env_prefix = ''VOICE'', ps_tcp_port = 0, ps_repo = [], ps_index_url = [], ps_scopes = [], ps_topics = []\<rparr>,
     in_wrapper_usage = ''Used by shortcuts.''\<rparr>"

definition sample_staged :: host_disk where
  "sample_staged = \<lparr>hd_nodes = [([''s''], Folder), ([''s'', ''x''], Folder), ([''s'', ''x'', ''super-voice-daemon''], Plain ''d'' 493),
     ([''s'', ''x'', ''super-voice-cli''], Plain ''c'' 493), ([''s'', ''x'', ''super-voice-consent''], Plain ''h'' 493),
     ([''s'', ''x'', ''systemd''], Folder), ([''s'', ''x'', ''systemd'', ''super-voice.service''], Plain ''u'' 420),
     ([''inst''], Plain ''i'' 493)], hd_faults = [], hd_trace = []\<rparr>"

lemma planned_manifest_is_accepted_witness:
  "case build_manifest ''/s/x'' None ''/usr/local'' ''/usr/lib/systemd/user'' \<lparr>ch_daemon = True, ch_app = False, ch_applet = False\<rparr>
      ''/inst'' sample_installer sample_staged of
     (_, Inr m) \<Rightarrow> length (im_entries m) = 6
       \<and> validate_manifest (sample_root_env\<lparr>re_exe := Some ''/inst''\<rparr>) (hd_nodes sample_staged) allowed_roots [''s''] m = Inr ()
   | (_, Inl _) \<Rightarrow> False"
proof -
  let ?run = "build_manifest ''/s/x'' None ''/usr/local'' ''/usr/lib/systemd/user'' \<lparr>ch_daemon = True, ch_app = False, ch_applet = False\<rparr>
      ''/inst'' sample_installer sample_staged"
  have "case ?run of (_, Inr m) \<Rightarrow> length (im_entries m) = 6 | (_, Inl _) \<Rightarrow> False" by code_simp
  then obtain d2 m where run: "?run = (d2, Inr m)" "length (im_entries m) = 6"
    by (cases ?run; cases "snd ?run") auto
  have "CHR ''/'' \<notin> set (ps_slug (in_product sample_installer))" "plain_name (ps_short_name (in_product sample_installer))"
    "source_fits [''s''] ''/s/x''" "is_self_exe (sample_root_env\<lparr>re_exe := Some ''/inst''\<rparr>) (hd_nodes sample_staged) ''/inst''"
    "\<not> has_parent_dir ''/inst''"
    by code_simp+
  with planned_manifest_is_accepted [OF run(1)] run show ?thesis by simp
qed

end
