(* ===== verification/Spec2Isabelle.thy ===== *)
theory Spec2Isabelle
  imports Daemon_InstallRun Spec_TestProduct Auth_Handshake Wasm_Egress Daemon_LoadGate Client_Session Client_Subscription Daemon_ModelFiles Daemon_SelfUpdate Daemon_BackendLoad Inst_Stage
begin

text \<open>
  A verification library for super-engine, the Rust workspace a daemon for local AI backends is built
  from. A product (\<open>trait Product\<close>) instantiates the workspace; its daemon fetches a registry index,
  chooses and installs backends from it, discovers what is installed, and lets local programs and web
  pages use it under tokens the user grants.

  Parts and theories. The first names are theories, the paths are under \<open>src/\<close>.

  Foundations. \<open>SE_Prelude\<close> (results, the standard combinators, saturating arithmetic), \<open>SE_Text\<close>
  (strings as UTF-8 bytes), \<open>SE_Numbers\<close> (printing and parsing of integers), \<open>SE_Hashmap\<close> (\<open>HashMap\<close> as an
  association list, with the locale \<open>keyed_store\<close> of the laws its clients use), \<open>SE_Files\<close> (a file system
  whose every call can fail, and which remembers each state it was in).

  The specification crate, \<open>super-engine-spec/src\<close>. \<open>Spec_Paths\<close>: \<open>safe_path.rs\<close>, \<open>backend_id.rs\<close>.
  \<open>Spec_Arch\<close>: \<open>arch.rs\<close>. \<open>Spec_Manifest\<close>, \<open>Spec_Options\<close>, \<open>Spec_Parse\<close>: the types, the option values and
  the guards of \<open>manifest.rs\<close>, with \<open>product.rs\<close>; a contract generation is the locale \<open>generation\<close>.
  \<open>Spec_TestProduct\<close>: \<open>test_product.rs\<close>, the instance every example runs on. \<open>Spec_Verify\<close>: \<open>verify.rs\<close>.
  \<open>Spec_Index\<close>: \<open>index.rs\<close>, \<open>registry/mod.rs\<close>, \<open>registry/events.rs\<close>, \<open>version.rs\<close>, \<open>license.rs\<close>.

  The protocol crate, \<open>super-engine-protocol/src\<close>. \<open>Proto_Product\<close>: \<open>product.rs\<close>, \<open>scopes.rs\<close>. \<open>SE_Net\<close>
  (addresses) and \<open>SE_Wire\<close> (JSON values) stand for the standard library and for what a JSON reader gives.

  The daemon's registry, \<open>super-engine-daemon/src/registry\<close>. \<open>Daemon_Registry\<close>: \<open>mod.rs\<close>, \<open>index.rs\<close>,
  \<open>host.rs\<close>. \<open>Daemon_Compat\<close>: \<open>compat.rs\<close>, the choice of a build and of the model files for a host, its
  ranking the locale \<open>ranking\<close>. \<open>Daemon_Download\<close>, \<open>Daemon_Swap\<close>, \<open>Daemon_Install\<close>: \<open>install.rs\<close> with
  \<open>download_stream.rs\<close> and the record's name from \<open>installed.rs\<close>: the download and its checks, the swap, and
  \<open>run\<close> and \<open>run_local\<close> whole. \<open>Daemon_CarryOver\<close>: \<open>carry_over.rs\<close>. \<open>Daemon_Reconcile\<close>: \<open>reconcile.rs\<close>.
  \<open>Daemon_InstallSafe\<close> and \<open>Daemon_InstallRun\<close> hold no code: the catalog an install is specified on, and the
  proof that \<open>run\<close> refines it.

  Backends, \<open>super-engine-daemon/src\<close>. \<open>Daemon_Backends\<close>: \<open>backends/\<close>, runtime rules, loading, the election of
  one directory per source, the lookups. \<open>Daemon_Units\<close> and \<open>Daemon_Subprocess\<close>: \<open>subprocess/\<close>, the names of
  units and sockets, the sweep of orphans, and the handles of running backends as events on a supervisor.
  \<open>Daemon_BackendLoad\<close>: the loop that polls a loading backend. \<open>Daemon_LoadGate\<close>: \<open>load_gate.rs\<close>, any number
  of load requests as a step relation. \<open>Wasm_Egress\<close>: \<open>wasm/host.rs\<close> and
  \<open>base_url.rs\<close>, which outbound addresses a sandboxed backend may reach.

  Model files and releases. \<open>Daemon_Progress\<close> and \<open>Daemon_ModelFiles\<close>: \<open>download.rs\<close>, the retries and the
  publication of each file of a model. \<open>Forge_Releases\<close>: the crate \<open>super-engine-forge\<close>.
  \<open>Daemon_SelfUpdate\<close>: \<open>self_update.rs\<close>, the offer of a release and the checks callers share.

  Access control, \<open>super-engine-daemon/src\<close>. \<open>Auth_Identity\<close>: \<open>auth/identity.rs\<close>, \<open>http/peer.rs\<close>,
  \<open>http/origins.rs\<close>, \<open>http/responses.rs\<close>. \<open>Auth_Tokens\<close>: \<open>secrets.rs\<close>, \<open>auth/tokens.rs\<close>, the writer of the
  secrets file a step relation. \<open>Auth_Consent\<close>: \<open>auth/consent.rs\<close>. \<open>Daemon_Resource\<close>: \<open>resource_management/\<close>.
  \<open>Auth_Guards\<close>: \<open>auth/middleware.rs\<close>, \<open>auth/routes.rs\<close>. \<open>Auth_Handshake\<close>: any number of authorization
  requests in flight at once, a step relation. \<open>Daemon_Events\<close>: \<open>events.rs\<close>, the topics, the checks of a
  subscription, and the tasks of an open stream as a step relation.

  The client library, \<open>super-engine-client/src\<close>. \<open>Client_Transport\<close>: requests and the errors their answers
  become. \<open>Client_Session\<close>: \<open>session.rs\<close>, any number of calls of an app sharing a token, a step relation.
  \<open>Client_Sse\<close> and \<open>Client_Subscription\<close>: the reader of the event stream and the loop that keeps it open.

  The installer, \<open>super-engine-installer/src\<close>. \<open>Inst_Disk\<close>: a file system with modes and symbolic links,
  resolved component by component. \<open>Inst_Root\<close>: \<open>root_phase.rs\<close>, what runs as root. \<open>Inst_Release\<close>: the release,
  its download and verification, the hand-over to root. \<open>Inst_Stage\<close>: \<open>stage.rs\<close>, the manifest it plans.

  Reading the definitions. A struct is a record, an enum a datatype, \<open>Result\<close> a sum with the error on the
  left, a machine integer a word of its width. Code that changes state takes the state and returns it;
  code that touches the disk is an \<open>action\<close> over \<open>SE_Files\<close>, sequenced by \<open>io_then\<close> as \<open>?\<close> sequences it.
  Logging is left out. Third-party crates are parameters: the TOML reader (\<open>toml_reader\<close>), semver, SPDX, the
  digest and the gzip and tar readers (\<open>install_env\<close>), the floating-point operations, the host probes, the
  server's answers (\<open>pl_net\<close>), and what the operating system reports of a peer (\<open>os_view\<close>, \<open>fs_view\<close>).

  What the lemmas show. Of the data: which documents, paths, ids, option values and archives are admitted,
  exactly, and what an admitted one guarantees. Of the choice of a build: the first of the best ranked, and
  none only when none can run. Of the disk: a Hoare-style layer (\<open>keeps\<close>, \<open>through\<close>, \<open>roots\<close>, \<open>hoare\<close>) over
  every state a computation passes through, and on it that the swap, the carry-over of model files, the
  reconciliation of duplicates and an install lose nothing to a failed call or a crash, that a model file is
  published whole, and that the installer's root half writes below its roots only. Of access: tokens, their
  persistence under every interleaving, the guards, the rate limits, and concurrent consent requests. Of
  concurrent parts (consent, the writer of the secrets file, the load gate, update checks, event streams, the
  client's calls): invariants over every reachable state of a step relation, a bound on the steps left, and,
  where a lock is involved, that the parts' own steps get everyone out, no caller giving up being counted on.
  Of the wire: that what the daemon writes, the client reads as such. Fields that no step reads (what was
  sent, seen, answered or published) record the history such an invariant speaks of; each is named as such.

  Bounds and fuel. \<open>copy_dir_recursive\<close> recurses over the directory tree; its fuel is a bound on the depth,
  and running out is the error \<open>CopyTooDeep\<close>, which the code does not have. Every other loop is structural.
  \<open>call\<close> takes one fault from \<open>dk_faults\<close> per system call, so the theorems over an arbitrary list of faults
  cover every way the disk can fail; a call that breaks has done any part of its work (of a removal, any set
  of entries closed below). A client's call has at most 23 steps, a load request two; retries are bounded by
  the code's own counters.

  Not modelled. The HTTP server process and its routing, the handlers of the registry's endpoints (but the
  body of their errors), the index client, custom repositories and the local import, configuration and
  language, devices, sounds and the spectrum analysis, the WebAssembly runtime (wasmtime), the sandbox
  profile and every arm for an operating system other than Linux, the indexer, and of the installer the
  command line, the unpacking and the steps after the files are placed. Logging, hardware probes and consent
  windows are I/O; generated documentation (\<open>openapi.rs\<close>) and JSON schemas hold no logic.

  Where a definition is coarser than the code. Writing through a symbolic link and the errors of a delayed
  flush are not in \<open>SE_Files\<close>. \<open>stop_unit\<close> takes a \<open>systemctl stop\<close> to succeed: a unit that survives one is
  left to the sweep of the next start, as the code's comment says. \<open>leave\<close> drops the lock and the caller's
  share of it at once; in the code two callers leaving together can both keep the entry, which is a leak, not
  a second holder. Byte counts of carried files are naturals, \<open>u64\<close> in the code. \<open>peer_sandbox_app_id\<close> is the
  Linux arm.
\<close>

end
